(* ===== verification/Wedb_Prelude.thy ===== *)
theory Wedb_Prelude
  imports Main "HOL-Library.Word" "HOL-Library.List_Lexorder" "HOL-Library.Char_ord"
begin

text \<open>
  Shared vocabulary of the development: the machine integers of the Rust code, byte
  strings, the ASCII helpers of the standard library, decimal formatting, results, and
  the generic lemmas on lists and words that the component theories use.

  \<^item> \<open>u8\<close>, \<open>u16\<close>, \<open>u32\<close>, \<open>u64\<close> are words of the width the code declares.
  \<^item> \<open>i64\<close> is an \<open>int\<close> together with \<open>i64_wrap\<close>, the wrap-around of an addition in a
    build without overflow checks (the release profile of the workspace).
  \<^item> \<open>usize\<close> values (lengths, indices) are \<open>nat\<close>.
  \<^item> \<open>&[u8]\<close> is a list of \<open>u8\<close>, \<open>String\<close> and \<open>&str\<close> are \<open>string\<close>, one char per byte.
  \<^item> \<open>Result<T>\<close> is a sum with \<open>Inl\<close> for the error.
\<close>

unbundle bit_operations_syntax

named_theorems wedb_simps \<open>characteristic equations of the model's operations\<close>
named_theorems wedb_inv \<open>preservation of the components' invariants\<close>

type_synonym u8 = "8 word"
type_synonym u16 = "16 word"
type_synonym u32 = "32 word"
type_synonym u64 = "64 word"
type_synonym bytes = "8 word list"

section \<open>Signed 64-bit arithmetic\<close>

definition i64_min :: int where
  "i64_min = - (2 ^ 63)"

definition i64_max :: int where
  "i64_max = 2 ^ 63 - 1"

definition i64_wrap :: "int \<Rightarrow> int" where
  "i64_wrap x = (x + 2 ^ 63) mod 2 ^ 64 - 2 ^ 63"

lemma i64_wrap_id: "i64_min \<le> x \<Longrightarrow> x \<le> i64_max \<Longrightarrow> i64_wrap x = x"
  by (simp add: i64_wrap_def i64_min_def i64_max_def)

lemma i64_wrap_Suc: "0 \<le> x \<Longrightarrow> x < i64_max \<Longrightarrow> i64_wrap (x + 1) = x + 1"
  by (rule i64_wrap_id) (simp_all add: i64_min_def i64_max_def)

lemma i64_wrap_range: "i64_min \<le> i64_wrap x \<and> i64_wrap x \<le> i64_max"
  by (simp add: i64_wrap_def i64_min_def i64_max_def)

section \<open>Unsigned arithmetic helpers\<close>

text \<open>\<open>saturating_sub\<close> and \<open>saturating_add\<close> of the standard library.\<close>

definition saturating_sub :: "'a::len word \<Rightarrow> 'a word \<Rightarrow> 'a word" where
  "saturating_sub a b = (if a < b then 0 else a - b)"

definition saturating_add :: "'a::len word \<Rightarrow> 'a word \<Rightarrow> 'a word" where
  "saturating_add a b = (if unat a + unat b < 2 ^ LENGTH('a) then a + b else - 1)"

lemma unat_saturating_sub: "unat (saturating_sub a b) = unat a - unat b"
  by (simp add: saturating_sub_def word_less_nat_alt unat_sub word_le_nat_alt)

text \<open>\<open>as u16\<close> on a \<open>usize\<close> truncates.\<close>

abbreviation as_u16 :: "nat \<Rightarrow> u16" where
  "as_u16 n \<equiv> of_nat n"

lemma unat_u16_less: "unat (x :: u16) < 65536"
proof -
  have "unat x < 2 ^ LENGTH(16)" by (rule unsigned_less)
  then show ?thesis by simp
qed

lemma unat_as_u16: "n < 65536 \<Longrightarrow> unat (as_u16 n) = n"
  by (simp add: unsigned_of_nat take_bit_nat_eq_self)

lemma unat_as_u16_le: "unat (as_u16 n) \<le> n"
  by (simp add: unsigned_of_nat)

lemma as_u16_inj: "m < 65536 \<Longrightarrow> n < 65536 \<Longrightarrow> as_u16 m = as_u16 n \<longleftrightarrow> m = n"
  by (metis unat_as_u16)

section \<open>ASCII\<close>

text \<open>\<open>u8::to_ascii_lowercase\<close> on one char of a \<open>str\<close>.\<close>

definition to_ascii_lowercase :: "char \<Rightarrow> char" where
  "to_ascii_lowercase c =
     (if 65 \<le> (of_char c :: nat) \<and> (of_char c :: nat) \<le> 90
      then char_of ((of_char c :: nat) + 32) else c)"

definition eq_ignore_ascii_case :: "string \<Rightarrow> string \<Rightarrow> bool" where
  "eq_ignore_ascii_case a b \<longleftrightarrow> map to_ascii_lowercase a = map to_ascii_lowercase b"

lemma eq_ignore_ascii_case_refl [simp]: "eq_ignore_ascii_case a a"
  by (simp add: eq_ignore_ascii_case_def)

lemma eq_ignore_ascii_case_sym: "eq_ignore_ascii_case a b \<longleftrightarrow> eq_ignore_ascii_case b a"
  by (auto simp: eq_ignore_ascii_case_def)

lemma eq_ignore_ascii_case_trans:
  "eq_ignore_ascii_case a b \<Longrightarrow> eq_ignore_ascii_case b c \<Longrightarrow> eq_ignore_ascii_case a c"
  by (simp add: eq_ignore_ascii_case_def)

section \<open>Decimal formatting\<close>

text \<open>\<open>itoa::Buffer::format\<close> and \<open>Display\<close> of an unsigned integer.\<close>

fun show_nat :: "nat \<Rightarrow> string" where
  "show_nat n = (if n < 10 then [char_of (48 + n)]
                 else show_nat (n div 10) @ [char_of (48 + n mod 10)])"

declare show_nat.simps [simp del]

fun read_digits :: "nat \<Rightarrow> string \<Rightarrow> nat" where
  "read_digits acc [] = acc"
| "read_digits acc (c # cs) = read_digits (10 * acc + (of_char c - 48)) cs"

lemma read_digits_append: "read_digits acc (xs @ ys) = read_digits (read_digits acc xs) ys"
  by (induction acc xs rule: read_digits.induct) auto

lemma of_char_digit: "d < 10 \<Longrightarrow> (of_char (char_of (48 + d) :: char) :: nat) = 48 + d"
  by simp

lemma read_show_nat: "read_digits 0 (show_nat n) = n"
proof (induction n rule: show_nat.induct)
  case (1 n)
  show ?case
  proof (cases "n < 10")
    case True
    then show ?thesis by (simp add: show_nat.simps [of n] of_char_digit)
  next
    case False
    with "1.IH" have "read_digits 0 (show_nat (n div 10)) = n div 10" by simp
    moreover have "(of_char (char_of (48 + n mod 10) :: char) :: nat) = 48 + n mod 10"
      by (rule of_char_digit) simp
    ultimately show ?thesis
      using False by (simp add: show_nat.simps [of n] read_digits_append del: of_char_of)
  qed
qed

lemma show_nat_inj [simp]: "show_nat m = show_nat n \<longleftrightarrow> m = n"
  by (metis read_show_nat)

lemma show_nat_digits: "c \<in> set (show_nat n) \<Longrightarrow> 48 \<le> (of_char c :: nat) \<and> (of_char c :: nat) \<le> 57"
proof (induction n rule: show_nat.induct)
  case (1 n)
  have last: "(of_char (char_of (48 + n mod 10) :: char) :: nat) = 48 + n mod 10"
    by (rule of_char_digit) simp
  show ?case
  proof (cases "n < 10")
    case True
    with "1.prems" show ?thesis by (simp add: show_nat.simps [of n] of_char_digit)
  next
    case False
    with "1.prems" have "c \<in> set (show_nat (n div 10)) \<or> c = char_of (48 + n mod 10)"
      by (auto simp: show_nat.simps [of n])
    then show ?thesis
    proof
      assume "c \<in> set (show_nat (n div 10))"
      with False "1.IH" show ?thesis by simp
    next
      assume "c = char_of (48 + n mod 10)"
      then show ?thesis using last by (simp del: of_char_of)
    qed
  qed
qed

lemma show_nat_nonempty [simp]: "show_nat n \<noteq> []"
  by (simp add: show_nat.simps [of n])

lemma show_nat_append_inj:
  assumes "show_nat m @ c # x = show_nat n @ c # y" and "\<not> (48 \<le> (of_char c :: nat) \<and> (of_char c :: nat) \<le> 57)"
  shows "m = n \<and> x = y"
proof -
  have tw: "takeWhile (\<lambda>d. d \<noteq> c) (show_nat k @ c # z) = show_nat k" for k z
    using assms(2) show_nat_digits by (subst takeWhile_append2) auto
  have "show_nat m = show_nat n" using arg_cong [OF assms(1), of "takeWhile (\<lambda>d. d \<noteq> c)"] tw by simp
  with assms(1) show ?thesis by simp
qed

text \<open>\<open>Display\<close> of a signed integer.\<close>

definition show_int :: "int \<Rightarrow> string" where
  "show_int i = (if i < 0 then ''-'' @ show_nat (nat (- i)) else show_nat (nat i))"

definition CRLF :: string where
  "CRLF = [CHR 0x0D, CHR 0x0A]"

section \<open>Lists\<close>

text \<open>\<open>Iterator::position\<close>: index of the first element with the property.\<close>

fun position :: "('a \<Rightarrow> bool) \<Rightarrow> 'a list \<Rightarrow> nat option" where
  "position P [] = None"
| "position P (x # xs) = (if P x then Some 0 else map_option Suc (position P xs))"

lemma position_None: "position P xs = None \<longleftrightarrow> (\<forall>x \<in> set xs. \<not> P x)"
  by (induction xs) auto

lemma position_Some:
  "position P xs = Some i \<longleftrightarrow> i < length xs \<and> P (xs ! i) \<and> (\<forall>j < i. \<not> P (xs ! j))"
proof (induction xs arbitrary: i)
  case Nil
  then show ?case by simp
next
  case (Cons x xs)
  then show ?case by (cases i) (auto simp: All_less_Suc2)
qed

lemma position_SomeD:
  "position P xs = Some i \<Longrightarrow> i < length xs \<and> P (xs ! i)"
  by (simp add: position_Some)

lemma position_drop1:
  assumes "position P (drop 1 xs) = Some i"
  shows "Suc i < length xs \<and> P (xs ! Suc i)"
proof -
  have "i < length xs - 1" "P (drop 1 xs ! i)" using position_SomeD [OF assms] by simp_all
  moreover from this have "drop 1 xs ! i = xs ! (1 + i)" by (intro nth_drop) simp
  ultimately show ?thesis by simp
qed

lemma position_append:
  "(\<forall>x \<in> set xs. \<not> P x) \<Longrightarrow> P y \<Longrightarrow> position P (xs @ y # ys) = Some (length xs)"
  by (induction xs) auto

text \<open>\<open>Vec::get\<close>: \<open>None\<close> out of range.\<close>

definition get :: "'a list \<Rightarrow> nat \<Rightarrow> 'a option" where
  "get xs i = (if i < length xs then Some (xs ! i) else None)"

lemma get_Some [simp]: "i < length xs \<Longrightarrow> get xs i = Some (xs ! i)"
  by (simp add: get_def)

lemma get_None [simp]: "length xs \<le> i \<Longrightarrow> get xs i = None"
  by (simp add: get_def)

lemma get_eq_Some: "get xs i = Some x \<longleftrightarrow> i < length xs \<and> xs ! i = x"
  by (auto simp: get_def)

text \<open>\<open>Vec::remove\<close>: the elements after the index move down by one.\<close>

definition remove_at :: "nat \<Rightarrow> 'a list \<Rightarrow> 'a list" where
  "remove_at i xs = take i xs @ drop (Suc i) xs"

lemma length_remove_at: "i < length xs \<Longrightarrow> length (remove_at i xs) = length xs - 1"
  by (simp add: remove_at_def)

lemma nth_remove_at:
  "i < length xs \<Longrightarrow> j < length xs - 1 \<Longrightarrow>
   remove_at i xs ! j = (if j < i then xs ! j else xs ! Suc j)"
  by (auto simp: remove_at_def nth_append min_def)

lemma set_remove_at: "set (remove_at i xs) \<subseteq> set xs"
  unfolding remove_at_def by (auto dest: in_set_takeD in_set_dropD)

text \<open>Writing a slice into an array at an offset (\<open>copy_from_slice\<close>).\<close>

definition copy_at :: "nat \<Rightarrow> 'a list \<Rightarrow> 'a list \<Rightarrow> 'a list" where
  "copy_at i ys xs = take i xs @ ys @ drop (i + length ys) xs"

lemma length_copy_at [simp]: "i + length ys \<le> length xs \<Longrightarrow> length (copy_at i ys xs) = length xs"
  by (simp add: copy_at_def)

lemma nth_copy_at:
  "i + length ys \<le> length xs \<Longrightarrow> j < length xs \<Longrightarrow>
   copy_at i ys xs ! j = (if i \<le> j \<and> j < i + length ys then ys ! (j - i) else xs ! j)"
  by (auto simp: copy_at_def nth_append min_def)

lemma all_set_conv_nth: "(\<forall>x \<in> set xs. P x) \<longleftrightarrow> (\<forall>i < length xs. P (xs ! i))"
  by (metis in_set_conv_nth)

section \<open>Transition systems\<close>

text \<open>
  A state machine with an invariant: what the initial states satisfy and every step keeps
  holds in every reachable state.
\<close>

locale invariant_system =
  fixes init :: "'s \<Rightarrow> bool"
    and trans :: "'s \<Rightarrow> 's \<Rightarrow> bool"
    and inv :: "'s \<Rightarrow> bool"
  assumes inv_init: "init s \<Longrightarrow> inv s"
    and inv_trans: "inv s \<Longrightarrow> trans s s' \<Longrightarrow> inv s'"
begin

lemma inv_steps: "trans\<^sup>*\<^sup>* s s' \<Longrightarrow> inv s \<Longrightarrow> inv s'"
  by (induction rule: rtranclp_induct) (auto intro: inv_trans)

lemma inv_reachable: "init s \<Longrightarrow> trans\<^sup>*\<^sup>* s s' \<Longrightarrow> inv s'"
  using inv_init inv_steps by blast

end

end
