(* ===== verification/Wedb_Bytes.thy ===== *)
theory Wedb_Bytes
  imports Wedb_Prelude
begin

text \<open>
  Byte strings: literals, little-endian images of integers, ASCII classes, decimal numbers,
  UTF-8 and the splitting of text at white space, as the standard library has them.  The
  components that read or write wire formats build on this theory.
\<close>

unbundle bit_operations_syntax

section \<open>Literals\<close>

text \<open>A byte-string literal of the source.\<close>

definition bstr :: "string \<Rightarrow> bytes" where
  "bstr s = map of_char s"

lemma of_char_u8: "unat (of_char c :: u8) = of_char c"
proof -
  have "(of_char c :: u8) = of_nat (of_char c)" by (simp only: of_nat_of_char)
  moreover have "of_char c < (256 :: nat)" by simp
  ultimately show ?thesis by (simp add: unsigned_of_nat take_bit_nat_eq_self)
qed

lemma of_char_u8_inj: "(of_char c :: u8) = of_char d \<longleftrightarrow> c = d"
proof
  assume "(of_char c :: u8) = of_char d"
  then have "(of_char c :: nat) = of_char d" by (metis of_char_u8)
  then show "c = d" by (simp only: of_char_eq_iff)
qed simp

lemma bstr_eq: "bstr a = bstr b \<longleftrightarrow> a = b"
  by (simp add: bstr_def inj_map_eq_map inj_def of_char_u8_inj)

lemma length_bstr [simp]: "length (bstr s) = length s"
  by (simp add: bstr_def)

lemma bstr_append: "bstr (a @ b) = bstr a @ bstr b"
  by (simp add: bstr_def)

lemma bstr_eq_Nil [simp]: "bstr s = [] \<longleftrightarrow> s = []"
  by (simp add: bstr_def)

section \<open>Little-endian integers\<close>

text \<open>\<open>u64::to_le_bytes\<close> and \<open>u64::from_le_bytes\<close>.\<close>

definition to_le_bytes :: "u64 \<Rightarrow> bytes" where
  "to_le_bytes w = map (\<lambda>i. ucast (drop_bit (8 * i) w)) [0..<8]"

definition from_le_bytes :: "bytes \<Rightarrow> u64" where
  "from_le_bytes bs = foldr (\<lambda>b acc. push_bit 8 acc OR ucast b) bs 0"

lemma length_to_le_bytes [simp]: "length (to_le_bytes w) = 8"
  by (simp add: to_le_bytes_def)

lemma foldr_le_bit:
  "bit (foldr (\<lambda>b acc. push_bit 8 acc OR ucast b) bs 0 :: u64) n \<longleftrightarrow>
     n < 64 \<and> n < 8 * length bs \<and> bit (bs ! (n div 8) :: u8) (n mod 8)"
proof (induction bs arbitrary: n)
  case Nil
  then show ?case by simp
next
  case (Cons b bs)
  define acc :: u64 where "acc = foldr (\<lambda>b acc. push_bit 8 acc OR ucast b) bs 0"
  have IH: "bit acc m \<longleftrightarrow> m < 64 \<and> m < 8 * length bs \<and> bit (bs ! (m div 8)) (m mod 8)" for m
    unfolding acc_def by (rule Cons.IH)
  have step: "bit (push_bit 8 acc OR ucast b) n \<longleftrightarrow>
      (8 \<le> n \<and> n < 64 \<and> bit acc (n - 8)) \<or> (n < 64 \<and> bit b n)"
    by (auto simp: bit_or_iff bit_push_bit_iff bit_ucast_iff)
  have "bit (push_bit 8 acc OR ucast b) n \<longleftrightarrow>
      n < 64 \<and> n < 8 * length (b # bs) \<and> bit ((b # bs) ! (n div 8)) (n mod 8)"
  proof (cases "n < 8")
    case True
    then show ?thesis by (simp add: step)
  next
    case False
    then have "n div 8 = Suc ((n - 8) div 8)" "n mod 8 = (n - 8) mod 8"
      by (simp_all add: le_div_geq le_mod_geq)
    moreover have "\<not> bit b n"
      using False bit_imp_le_length [of b n] by auto
    ultimately show ?thesis using False by (auto simp: step IH)
  qed
  then show ?case by (simp add: acc_def)
qed

lemma nth_to_le_bytes: "i < 8 \<Longrightarrow> to_le_bytes w ! i = ucast (drop_bit (8 * i) w)"
  unfolding to_le_bytes_def by (subst nth_map) (simp_all del: upt_rec_numeral)

lemma from_to_le_bytes: "from_le_bytes (to_le_bytes w) = w"
proof (rule bit_word_eqI)
  fix n
  assume "n < LENGTH(64)"
  then have n: "n < 64" by simp
  then have b: "to_le_bytes w ! (n div 8) = ucast (drop_bit (8 * (n div 8)) w)"
    by (intro nth_to_le_bytes) simp
  have "bit (ucast (drop_bit (8 * (n div 8)) w) :: u8) (n mod 8) = bit w (8 * (n div 8) + n mod 8)"
    by (simp add: bit_ucast_iff bit_drop_bit_eq)
  then show "bit (from_le_bytes (to_le_bytes w)) n = bit w n"
    using n by (simp add: from_le_bytes_def foldr_le_bit b)
qed

lemma to_from_le_bytes: "length bs = 8 \<Longrightarrow> to_le_bytes (from_le_bytes bs) = bs"
proof (rule nth_equalityI)
  fix i
  assume l: "length bs = 8" and "i < length (to_le_bytes (from_le_bytes bs))"
  then have i: "i < 8" by simp
  show "to_le_bytes (from_le_bytes bs) ! i = bs ! i"
  proof (rule bit_word_eqI)
    fix n
    assume "n < LENGTH(8)"
    then have n: "n < 8" by simp
    have "bit (to_le_bytes (from_le_bytes bs) ! i) n = bit (from_le_bytes bs) (8 * i + n)"
      using i n by (simp add: nth_to_le_bytes bit_ucast_iff bit_drop_bit_eq)
    also have "\<dots> = bit (bs ! i) n"
      using i n l by (simp add: from_le_bytes_def foldr_le_bit)
    finally show "bit (to_le_bytes (from_le_bytes bs) ! i) n = bit (bs ! i) n" .
  qed
qed simp

section \<open>ASCII classes\<close>

definition is_ascii_digit :: "u8 \<Rightarrow> bool" where
  "is_ascii_digit b \<longleftrightarrow> 48 \<le> b \<and> b \<le> 57"

definition is_ascii_hexdigit_u8 :: "u8 \<Rightarrow> bool" where
  "is_ascii_hexdigit_u8 b \<longleftrightarrow> (48 \<le> b \<and> b \<le> 57) \<or> (65 \<le> b \<and> b \<le> 70) \<or> (97 \<le> b \<and> b \<le> 102)"

definition lower_u8 :: "u8 \<Rightarrow> u8" where
  "lower_u8 b = (if 65 \<le> b \<and> b \<le> 90 then b + 32 else b)"

text \<open>\<open>eq_ignore_ascii_case\<close> on byte slices.\<close>

definition eq_ignore_case_u8 :: "bytes \<Rightarrow> bytes \<Rightarrow> bool" where
  "eq_ignore_case_u8 a b \<longleftrightarrow> map lower_u8 a = map lower_u8 b"

lemma eq_ignore_case_u8_refl [simp]: "eq_ignore_case_u8 a a"
  by (simp add: eq_ignore_case_u8_def)

section \<open>Decimal numbers\<close>

text \<open>\<open>checked_mul\<close> and \<open>checked_add\<close> on unsigned words, and the range check of a signed result.\<close>

definition checked_mul :: "u64 \<Rightarrow> u64 \<Rightarrow> u64 option" where
  "checked_mul a b = (if unat a * unat b < 2 ^ 64 then Some (a * b) else None)"

definition checked_add :: "u64 \<Rightarrow> u64 \<Rightarrow> u64 option" where
  "checked_add a b = (if unat a + unat b < 2 ^ 64 then Some (a + b) else None)"

definition checked_i64 :: "int \<Rightarrow> int option" where
  "checked_i64 x = (if i64_min \<le> x \<and> x \<le> i64_max then Some x else None)"

text \<open>Decimal digits as bytes.\<close>

definition dec :: "nat \<Rightarrow> bytes" where
  "dec n = bstr (show_nat n)"

definition dec_int :: "int \<Rightarrow> bytes" where
  "dec_int i = bstr (show_int i)"

lemma dec_step: "dec n = (if n < 10 then [of_nat (48 + n)] else dec (n div 10) @ [of_nat (48 + n mod 10)])"
proof -
  have "(of_char (char_of (48 + d) :: char) :: u8) = of_nat (48 + d)" if "d < 10" for d :: nat
    using of_char_digit [OF that] by (metis of_nat_of_char)
  then show ?thesis
    by (simp add: dec_def show_nat.simps [of n] bstr_def del: of_char_of of_nat_add)
qed

lemma dec_nonempty [simp]: "dec n \<noteq> []"
  by (simp add: dec_def)

lemma digit_u8: "d < 10 \<Longrightarrow> is_ascii_digit (of_nat (48 + d)) \<and> unat (of_nat (48 + d) - 48 :: u8) = d"
proof -
  assume d: "d < 10"
  then have "unat (of_nat (48 + d) :: u8) = 48 + d" by (simp only: unsigned_of_nat) (simp add: take_bit_nat_eq_self)
  moreover from this d have "(48 :: u8) \<le> of_nat (48 + d)" by (simp add: word_le_nat_alt)
  ultimately show ?thesis
    using d by (simp add: is_ascii_digit_def word_le_nat_alt unat_sub del: of_nat_add)
qed

lemma dec_digits: "b \<in> set (dec n) \<Longrightarrow> is_ascii_digit b"
proof (induction n rule: less_induct)
  case (less n)
  show ?case
  proof (cases "n < 10")
    case True
    with less.prems have "b = of_nat (48 + n)" by (subst (asm) dec_step) simp
    then show ?thesis using digit_u8 [OF True] by (simp del: of_nat_add)
  next
    case False
    with less.prems have "b \<in> set (dec (n div 10)) \<or> b = of_nat (48 + n mod 10)"
      by (subst (asm) dec_step) auto
    then show ?thesis
      using less.IH [of "n div 10"] False digit_u8 [of "n mod 10"] by (auto simp del: of_nat_add)
  qed
qed

section \<open>Text\<close>

text \<open>
  The length of the first encoded char of a byte string, \<open>0\<close> where the bytes are not well-formed
  UTF-8, and the chars of a well-formed string, each as its bytes.
\<close>

definition is_cont :: "u8 \<Rightarrow> bool" where
  "is_cont b \<longleftrightarrow> 0x80 \<le> b \<and> b \<le> 0xBF"

fun utf8_len :: "bytes \<Rightarrow> nat" where
  "utf8_len [] = 0"
| "utf8_len (a # bs) =
     (if a < 0x80 then 1
      else if 0xC2 \<le> a \<and> a \<le> 0xDF then
        (case bs of b # _ \<Rightarrow> if is_cont b then 2 else 0 | [] \<Rightarrow> 0)
      else if 0xE0 \<le> a \<and> a \<le> 0xEF then
        (case bs of
           b # c # _ \<Rightarrow>
             if is_cont b \<and> (a = 0xE0 \<longrightarrow> 0xA0 \<le> b) \<and> (a = 0xED \<longrightarrow> b \<le> 0x9F) \<and> is_cont c then 3 else 0
         | _ \<Rightarrow> 0)
      else if 0xF0 \<le> a \<and> a \<le> 0xF4 then
        (case bs of
           b # c # d # _ \<Rightarrow>
             if is_cont b \<and> (a = 0xF0 \<longrightarrow> 0x90 \<le> b) \<and> (a = 0xF4 \<longrightarrow> b \<le> 0x8F) \<and> is_cont c \<and> is_cont d
             then 4 else 0
         | _ \<Rightarrow> 0)
      else 0)"

function utf8_chars :: "bytes \<Rightarrow> bytes list option" where
  "utf8_chars bs =
     (if bs = [] then Some []
      else let n = utf8_len bs in
           if n = 0 then None else map_option ((#) (take n bs)) (utf8_chars (drop n bs)))"
  by auto
termination by (relation "measure length") auto

declare utf8_chars.simps [simp del]

text \<open>\<open>str::from_utf8\<close>: a \<open>str\<close> is its bytes.\<close>

definition from_utf8 :: "bytes \<Rightarrow> bytes option" where
  "from_utf8 bs = (if utf8_chars bs = None then None else Some bs)"

definition is_whitespace :: "bytes \<Rightarrow> bool" where
  "is_whitespace ch \<longleftrightarrow>
     (case ch of
        [a] \<Rightarrow> (9 \<le> a \<and> a \<le> 13) \<or> a = 32
      | [a, b] \<Rightarrow> a = 0xC2 \<and> (b = 0x85 \<or> b = 0xA0)
      | [a, b, c] \<Rightarrow>
          (a = 0xE1 \<and> b = 0x9A \<and> c = 0x80) \<or>
          (a = 0xE2 \<and> b = 0x80 \<and> ((0x80 \<le> c \<and> c \<le> 0x8A) \<or> c = 0xA8 \<or> c = 0xA9 \<or> c = 0xAF)) \<or>
          (a = 0xE2 \<and> b = 0x81 \<and> c = 0x9F) \<or> (a = 0xE3 \<and> b = 0x80 \<and> c = 0x80)
      | _ \<Rightarrow> False)"

text \<open>\<open>str::trim\<close> and \<open>str::split_whitespace\<close>, on the chars of the string.\<close>

definition trim_chars :: "bytes list \<Rightarrow> bytes list" where
  "trim_chars cs = rev (dropWhile is_whitespace (rev (dropWhile is_whitespace cs)))"

fun split_words :: "bytes list \<Rightarrow> bytes \<Rightarrow> bytes list" where
  "split_words [] w = (if w = [] then [] else [w])"
| "split_words (c # cs) w =
     (if is_whitespace c then (if w = [] then split_words cs [] else w # split_words cs [])
      else split_words cs (w @ c))"

definition split_whitespace :: "bytes list \<Rightarrow> bytes list" where
  "split_whitespace cs = split_words cs []"

lemma utf8_chars_ascii: "\<forall>b \<in> set bs. b < 0x80 \<Longrightarrow> utf8_chars bs = Some (map (\<lambda>b. [b]) bs)"
proof (induction bs)
  case Nil
  then show ?case by (simp add: utf8_chars.simps)
next
  case (Cons b bs)
  then show ?case by (subst utf8_chars.simps) (simp add: Let_def)
qed

lemma from_utf8_ascii: "\<forall>b \<in> set bs. b < 0x80 \<Longrightarrow> from_utf8 bs = Some bs"
  by (simp add: from_utf8_def utf8_chars_ascii)

lemma split_words_solid:
  "\<forall>b \<in> set bs. \<not> is_whitespace [b] \<Longrightarrow> split_words (map (\<lambda>b. [b]) bs @ cs) w = split_words cs (w @ bs)"
  by (induction bs arbitrary: w) auto

lemma digit_not_space: "is_ascii_digit b \<Longrightarrow> \<not> is_whitespace [b] \<and> b < 0x80"
  by (auto simp: is_ascii_digit_def is_whitespace_def word_le_nat_alt word_less_nat_alt)

end
