(* ===== verification/Cluster_Slot.thy ===== *)
theory Cluster_Slot
  imports Wedb_Prelude
begin

text \<open>
  The first half of \<open>src/wedb_cluster/src/slot.rs\<close>: slot states, the CRC-16 of a key and
  the hash-tag rule that assigns a key to one of 16384 slots. The lemmas show that the
  table-driven CRC is the bit-serial polynomial division, that every key has a slot in
  range, and that keys with the same hash tag share their slot.
\<close>

section \<open>Constants, states and hash slots\<close>

definition TOTAL_HASH_SLOTS :: nat where
  "TOTAL_HASH_SLOTS = 16384"

definition MAX_HASH_SLOT_VALUE :: nat where
  "MAX_HASH_SLOT_VALUE = 16384"

definition SLOT_MASK :: u16 where
  "SLOT_MASK = of_nat (TOTAL_HASH_SLOTS - 1)"

definition SLOT_WORDS :: nat where
  "SLOT_WORDS = TOTAL_HASH_SLOTS div 64"

definition SLOT_BYTES :: nat where
  "SLOT_BYTES = TOTAL_HASH_SLOTS div 8"

datatype SlotState = Offline | Stable | Migrating | Importing | Fail | Node | Invalid

definition SlotState_from_u8 :: "u8 \<Rightarrow> SlotState" where
  "SlotState_from_u8 v =
     (if v = 0 then Offline else if v = 1 then Stable else if v = 2 then Migrating
      else if v = 3 then Importing else if v = 4 then Fail else if v = 5 then Node
      else Invalid)"

fun SlotState_to_u8 :: "SlotState \<Rightarrow> u8" where
  "SlotState_to_u8 Offline = 0"
| "SlotState_to_u8 Stable = 1"
| "SlotState_to_u8 Migrating = 2"
| "SlotState_to_u8 Importing = 3"
| "SlotState_to_u8 Fail = 4"
| "SlotState_to_u8 Node = 5"
| "SlotState_to_u8 Invalid = 6"

record HashSlot =
  worker_id :: u16
  state :: SlotState

definition HashSlot_new :: "u16 \<Rightarrow> SlotState \<Rightarrow> HashSlot" where
  "HashSlot_new w st = \<lparr>worker_id = w, state = st\<rparr>"

text \<open>\<open>HashSlot::default()\<close> (derived): worker 0, offline.\<close>

definition HashSlot_default :: HashSlot where
  "HashSlot_default = \<lparr>worker_id = 0, state = Offline\<rparr>"

definition effective_worker_id :: "HashSlot \<Rightarrow> u16" where
  "effective_worker_id hs = (if state hs = Migrating then 1 else worker_id hs)"

definition out_of_range :: "nat \<Rightarrow> bool" where
  "out_of_range slot \<longleftrightarrow> MAX_HASH_SLOT_VALUE \<le> slot"

section \<open>CRC-16 and the slot of a key\<close>

definition CRC16_TABLE :: "u16 list" where
  "CRC16_TABLE =
    [0x0000, 0x1021, 0x2042, 0x3063, 0x4084, 0x50A5, 0x60C6, 0x70E7,
     0x8108, 0x9129, 0xA14A, 0xB16B, 0xC18C, 0xD1AD, 0xE1CE, 0xF1EF,
     0x1231, 0x0210, 0x3273, 0x2252, 0x52B5, 0x4294, 0x72F7, 0x62D6,
     0x9339, 0x8318, 0xB37B, 0xA35A, 0xD3BD, 0xC39C, 0xF3FF, 0xE3DE,
     0x2462, 0x3443, 0x0420, 0x1401, 0x64E6, 0x74C7, 0x44A4, 0x5485,
     0xA56A, 0xB54B, 0x8528, 0x9509, 0xE5EE, 0xF5CF, 0xC5AC, 0xD58D,
     0x3653, 0x2672, 0x1611, 0x0630, 0x76D7, 0x66F6, 0x5695, 0x46B4,
     0xB75B, 0xA77A, 0x9719, 0x8738, 0xF7DF, 0xE7FE, 0xD79D, 0xC7BC,
     0x48C4, 0x58E5, 0x6886, 0x78A7, 0x0840, 0x1861, 0x2802, 0x3823,
     0xC9CC, 0xD9ED, 0xE98E, 0xF9AF, 0x8948, 0x9969, 0xA90A, 0xB92B,
     0x5AF5, 0x4AD4, 0x7AB7, 0x6A96, 0x1A71, 0x0A50, 0x3A33, 0x2A12,
     0xDBFD, 0xCBDC, 0xFBBF, 0xEB9E, 0x9B79, 0x8B58, 0xBB3B, 0xAB1A,
     0x6CA6, 0x7C87, 0x4CE4, 0x5CC5, 0x2C22, 0x3C03, 0x0C60, 0x1C41,
     0xEDAE, 0xFD8F, 0xCDEC, 0xDDCD, 0xAD2A, 0xBD0B, 0x8D68, 0x9D49,
     0x7E97, 0x6EB6, 0x5ED5, 0x4EF4, 0x3E13, 0x2E32, 0x1E51, 0x0E70,
     0xFF9F, 0xEFBE, 0xDFDD, 0xCFFC, 0xBF1B, 0xAF3A, 0x9F59, 0x8F78,
     0x9188, 0x81A9, 0xB1CA, 0xA1EB, 0xD10C, 0xC12D, 0xF14E, 0xE16F,
     0x1080, 0x00A1, 0x30C2, 0x20E3, 0x5004, 0x4025, 0x7046, 0x6067,
     0x83B9, 0x9398, 0xA3FB, 0xB3DA, 0xC33D, 0xD31C, 0xE37F, 0xF35E,
     0x02B1, 0x1290, 0x22F3, 0x32D2, 0x4235, 0x5214, 0x6277, 0x7256,
     0xB5EA, 0xA5CB, 0x95A8, 0x8589, 0xF56E, 0xE54F, 0xD52C, 0xC50D,
     0x34E2, 0x24C3, 0x14A0, 0x0481, 0x7466, 0x6447, 0x5424, 0x4405,
     0xA7DB, 0xB7FA, 0x8799, 0x97B8, 0xE75F, 0xF77E, 0xC71D, 0xD73C,
     0x26D3, 0x36F2, 0x0691, 0x16B0, 0x6657, 0x7676, 0x4615, 0x5634,
     0xD94C, 0xC96D, 0xF90E, 0xE92F, 0x99C8, 0x89E9, 0xB98A, 0xA9AB,
     0x5844, 0x4865, 0x7806, 0x6827, 0x18C0, 0x08E1, 0x3882, 0x28A3,
     0xCB7D, 0xDB5C, 0xEB3F, 0xFB1E, 0x8BF9, 0x9BD8, 0xABBB, 0xBB9A,
     0x4A75, 0x5A54, 0x6A37, 0x7A16, 0x0AF1, 0x1AD0, 0x2AB3, 0x3A92,
     0xFD2E, 0xED0F, 0xDD6C, 0xCD4D, 0xBDAA, 0xAD8B, 0x9DE8, 0x8DC9,
     0x7C26, 0x6C07, 0x5C64, 0x4C45, 0x3CA2, 0x2C83, 0x1CE0, 0x0CC1,
     0xEF1F, 0xFF3E, 0xCF5D, 0xDF7C, 0xAF9B, 0xBFBA, 0x8FD9, 0x9FF8,
     0x6E17, 0x7E36, 0x4E55, 0x5E74, 0x2E93, 0x3EB2, 0x0ED1, 0x1EF0]"

definition crc16_step :: "u16 \<Rightarrow> u8 \<Rightarrow> u16" where
  "crc16_step result b =
     (let index = unat ((ucast (drop_bit 8 result) :: u8) XOR b)
      in CRC16_TABLE ! index XOR push_bit 8 result)"

definition crc16 :: "bytes \<Rightarrow> u16" where
  "crc16 data = foldl crc16_step 0 data"

text \<open>\<open>memchr\<close>: position of the first occurrence of a byte.\<close>

definition memchr :: "u8 \<Rightarrow> bytes \<Rightarrow> nat option" where
  "memchr b hay = position (\<lambda>x. x = b) hay"

text \<open>The braces \<open>{\<close> and \<open>}\<close> are the bytes 123 and 125.\<close>

definition hash_slot :: "bytes \<Rightarrow> u16" where
  "hash_slot key =
     (case memchr 123 key of
        None \<Rightarrow> crc16 key AND SLOT_MASK
      | Some start \<Rightarrow>
          (case memchr 125 (drop (start + 1) key) of
             None \<Rightarrow> crc16 key AND SLOT_MASK
           | Some offset \<Rightarrow>
               (let fin = start + 1 + offset
                in if start + 1 < fin
                   then crc16 (take (fin - (start + 1)) (drop (start + 1) key)) AND SLOT_MASK
                   else crc16 key AND SLOT_MASK)))"

section \<open>The CRC is polynomial division; slots of keys\<close>

text \<open>The bit-serial CRC-16-CCITT with polynomial \<open>0x1021\<close>, the reference for the table.\<close>

definition crc_bit :: "u16 \<Rightarrow> u16" where
  "crc_bit x = (if bit x 15 then push_bit 1 x XOR 0x1021 else push_bit 1 x)"

definition crc16_ref :: "bytes \<Rightarrow> u16" where
  "crc16_ref data = foldl (\<lambda>r b. (crc_bit ^^ 8) (r XOR push_bit 8 (ucast b))) 0 data"

lemma crc_bit_xor: "crc_bit (x XOR y) = crc_bit x XOR crc_bit y"
  by (cases "bit x 15"; cases "bit y 15")
     (simp_all add: crc_bit_def bit_xor_iff push_bit_xor xor.assoc xor.left_commute xor.commute)

lemma crc_bit_pow_xor: "(crc_bit ^^ n) (x XOR y) = (crc_bit ^^ n) x XOR (crc_bit ^^ n) y"
  by (induction n) (auto simp: crc_bit_xor)


lemma crc_bit_pow_low:
  "n \<le> 8 \<Longrightarrow> (crc_bit ^^ n) (take_bit 8 x) = push_bit n (take_bit 8 x)"
proof (induction n)
  case (Suc n)
  have "\<not> bit (push_bit n (take_bit 8 x)) 15"
    using Suc.prems by (auto simp: bit_push_bit_iff bit_take_bit_iff)
  with Suc show ?case by (simp add: crc_bit_def)
qed simp

lemma push_bit_low: "push_bit 8 (take_bit 8 x :: u16) = push_bit 8 x"
  by (rule bit_word_eqI) (auto simp: bit_push_bit_iff bit_take_bit_iff)

lemma crc_split:
  "r XOR push_bit 8 (ucast b) =
   push_bit 8 (ucast ((ucast (drop_bit 8 r) :: u8) XOR b)) XOR (take_bit 8 r :: u16)"
proof (rule bit_word_eqI)
  fix n
  assume "n < LENGTH(16)"
  then have n: "n < 16" by simp
  show "bit (r XOR push_bit 8 (ucast b)) n =
        bit (push_bit 8 (ucast ((ucast (drop_bit 8 r) :: u8) XOR b)) XOR (take_bit 8 r)) n"
  proof (cases "n < 8")
    case True
    then show ?thesis by (simp add: bit_xor_iff bit_push_bit_iff bit_take_bit_iff)
  next
    case False
    then show ?thesis using n
      by (auto simp: bit_xor_iff bit_push_bit_iff bit_take_bit_iff bit_ucast_iff bit_drop_bit_eq)
  qed
qed

lemma funpow_8: "(f ^^ 8) x = f (f (f (f (f (f (f (f x)))))))"
  by (simp add: numeral_eq_Suc)

definition crc_bits :: "int \<Rightarrow> u16" where
  "crc_bits i = (crc_bit ^^ 8) (push_bit 8 (word_of_int i))"

lemma crc_bits_numeral:
 "crc_bits 0 = 0" "crc_bits 1 = 0x1021" "crc_bits (numeral k) = crc_bit (crc_bit (crc_bit (crc_bit (crc_bit (crc_bit (crc_bit (crc_bit (push_bit 8 (numeral k)))))))))"
  by (simp_all add: crc_bits_def funpow_8 crc_bit_def)

lemma crc16_table_eq: "map crc_bits [0..255] = CRC16_TABLE"
  by (simp add: CRC16_TABLE_def crc_bits_numeral crc_bit_def upto.simps)

lemma crc16_table_nth:
  assumes "i < 256"
  shows "CRC16_TABLE ! i = (crc_bit ^^ 8) (push_bit 8 (word_of_nat i))"
proof -
  have "CRC16_TABLE ! i = crc_bits ([0..255] ! i)"
    using assms by (simp add: crc16_table_eq [symmetric])
  also have "[0..255] ! i = int i" using assms by simp
  finally show ?thesis by (simp add: crc_bits_def)
qed

lemma crc16_step_ref: "crc16_step r b = (crc_bit ^^ 8) (r XOR push_bit 8 (ucast b))"
proof -
  let ?i = "(ucast (drop_bit 8 r) :: u8) XOR b"
  have "unat ?i < 2 ^ LENGTH(8)" by (rule unsigned_less)
  then have "unat ?i < 256" by simp
  then have t: "CRC16_TABLE ! unat ?i = (crc_bit ^^ 8) (push_bit 8 (ucast ?i))"
    by (simp only: crc16_table_nth) (simp add: unsigned_of_nat)
  have "(crc_bit ^^ 8) (r XOR push_bit 8 (ucast b)) =
        (crc_bit ^^ 8) (push_bit 8 (ucast ?i)) XOR push_bit 8 r"
    by (simp only: crc_split crc_bit_pow_xor crc_bit_pow_low push_bit_low order_refl)
  then show ?thesis by (simp only: crc16_step_def Let_def t)
qed

lemma crc16_bitwise: "crc16 data = crc16_ref data"
proof -
  have "crc16_step = (\<lambda>r b. (crc_bit ^^ 8) (r XOR push_bit 8 (ucast b)))"
    by (intro ext) (rule crc16_step_ref)
  then show ?thesis by (simp add: crc16_def crc16_ref_def)
qed

lemma hash_slot_range: "unat (hash_slot key) < TOTAL_HASH_SLOTS"
proof -
  have "unat (x AND SLOT_MASK) < 16384" for x
  proof -
    have "x AND SLOT_MASK \<le> SLOT_MASK" by (rule word_and_le1)
    then have "unat (x AND SLOT_MASK) \<le> unat SLOT_MASK" by (simp add: word_le_nat_alt)
    then show ?thesis by (simp add: SLOT_MASK_def TOTAL_HASH_SLOTS_def)
  qed
  then show ?thesis
    by (auto simp: hash_slot_def TOTAL_HASH_SLOTS_def Let_def split: option.split)
qed


lemma hash_slot_tag:
  assumes "123 \<notin> set pre" and "tag \<noteq> []" and "125 \<notin> set tag"
  shows "hash_slot (pre @ 123 # tag @ 125 # post) = crc16 tag AND SLOT_MASK"
proof -
  have "memchr 123 (pre @ 123 # tag @ 125 # post) = Some (length pre)"
    unfolding memchr_def by (rule position_append) (use assms(1) in auto)
  moreover have "memchr 125 (tag @ 125 # post) = Some (length tag)"
    unfolding memchr_def by (rule position_append) (use assms(3) in auto)
  ultimately show ?thesis
    using assms(2) by (simp add: hash_slot_def Let_def)
qed

lemma slot_consts:
  "SLOT_WORDS = 256" "SLOT_BYTES = 2048" "TOTAL_HASH_SLOTS = 16384" "64 * SLOT_WORDS = TOTAL_HASH_SLOTS"
  by (simp_all add: SLOT_WORDS_def SLOT_BYTES_def TOTAL_HASH_SLOTS_def)

text \<open>
  C30: The table-driven \<open>crc16\<close> computes, for every input, the remainder of the bit-serial
  CRC-16-CCITT division (polynomial \<open>0x1021\<close>, initial value 0, most significant bit first),
  and the slot of a key is always a valid slot number.
\<close>

theorem crc16_correct: "crc16 data = crc16_ref data \<and> unat (hash_slot key) < TOTAL_HASH_SLOTS"
  by (simp only: crc16_bitwise hash_slot_range simp_thms)

text \<open>
  Hash tags.  Keys with the same non-empty tag between the first \<open>{\<close> and the next \<open>}\<close>
  have the same slot whatever surrounds the tag, and it is the slot of the tag itself if
  the tag contains no opening brace.
\<close>

theorem hash_slot_colocates:
  assumes "123 \<notin> set pre" and "123 \<notin> set pre'" and "tag \<noteq> []" and "125 \<notin> set tag"
  shows "hash_slot (pre @ 123 # tag @ 125 # post) = hash_slot (pre' @ 123 # tag @ 125 # post') \<and>
    (123 \<notin> set tag \<longrightarrow> hash_slot (pre @ 123 # tag @ 125 # post) = hash_slot tag)"
proof -
  have "memchr 123 tag = None" if "123 \<notin> set tag"
    unfolding memchr_def position_None using that by auto
  then have "hash_slot tag = crc16 tag AND SLOT_MASK" if "123 \<notin> set tag"
    using that by (simp add: hash_slot_def)
  then show ?thesis using hash_slot_tag [of pre tag post] hash_slot_tag [of pre' tag post'] assms by simp
qed

theorem hash_slot_colocates_witness:
  "hash_slot [97, 123, 120, 125, 98] = hash_slot [123, 120, 125]"
  using hash_slot_colocates [of "[97]" "[]" "[120]" "[98]" "[]"] by simp

end
