(* ===== verification/Cluster_Node.thy ===== *)
theory Cluster_Node
  imports Wedb_Prelude
begin

text \<open>
  Nodes of the cluster: \<open>src/wedb_cluster/src/node.rs\<close> (node ids, roles, link states),
  \<open>error.rs\<close> (the error type) and \<open>worker.rs\<close> (the worker record and its constructors).
  Error payloads that are message texts are modelled by a constructor per message, with
  the values that the message prints.
\<close>

section \<open>Roles and link states\<close>

datatype NodeRole = Primary | Replica | Unassigned

datatype LinkState = Connected | Disconnected

definition NodeRole_from_u8 :: "u8 \<Rightarrow> NodeRole" where
  "NodeRole_from_u8 v = (if v = 0 then Primary else if v = 1 then Replica else Unassigned)"

fun NodeRole_to_u8 :: "NodeRole \<Rightarrow> u8" where
  "NodeRole_to_u8 Primary = 0"
| "NodeRole_to_u8 Replica = 1"
| "NodeRole_to_u8 Unassigned = 2"

fun NodeRole_as_str :: "NodeRole \<Rightarrow> string" where
  "NodeRole_as_str Primary = ''master''"
| "NodeRole_as_str Replica = ''slave''"
| "NodeRole_as_str Unassigned = ''unassigned''"

fun LinkState_as_str :: "LinkState \<Rightarrow> string" where
  "LinkState_as_str Connected = ''connected''"
| "LinkState_as_str Disconnected = ''disconnected''"

fun NodeRole_display :: "NodeRole \<Rightarrow> string" where
  "NodeRole_display Primary = ''PRIMARY''"
| "NodeRole_display Replica = ''REPLICA''"
| "NodeRole_display Unassigned = ''UNASSIGNED''"

section \<open>Errors\<close>

datatype payload_reason =
    BadVersion u8
  | BadWorkerCount nat
  | BadOwnerIndex u16
  | BitcodeFailed

datatype param_reason =
    NoWorkers
  | SlotBusy u16
  | ImportingNotMaster NodeRole
  | AlreadyLocal u16
  | SlotNotOwnedBy u16 string
  | NodeIdDiffers string string
  | OnlyReplicaFailover
  | NoPrimaryAssigned
  | EpochStandaloneOnly

datatype node_id_reason = BadLength nat | BadHexChar char

datatype ClusterError =
    InvalidPayload payload_reason
  | UnknownNode string
  | TargetNotMaster string
  | MigrateToMyself
  | NotSlotOwner u16
  | SlotNotStable string
  | SlotAlreadyImporting string
  | CannotForgetMyself
  | CannotForgetMyPrimary
  | ResetWithKeysAssigned
  | SlotOutOfRange u16
  | InvalidParam param_reason
  | CannotReplicateSelf
  | EpochCollision
  | InvalidNodeId node_id_reason
  | InvalidNodeRole string
  | SlotBitmapError nat

definition from_role_str :: "string \<Rightarrow> ClusterError + NodeRole" where
  "from_role_str s =
     (if eq_ignore_ascii_case s ''master'' \<or> eq_ignore_ascii_case s ''primary'' then Inr Primary
      else if eq_ignore_ascii_case s ''slave'' \<or> eq_ignore_ascii_case s ''replica'' then Inr Replica
      else if eq_ignore_ascii_case s ''unassigned'' then Inr Unassigned
      else Inl (InvalidNodeRole s))"

section \<open>Node ids\<close>

type_synonym NodeId = string

definition HEX_CHARS :: string where
  "HEX_CHARS = ''0123456789abcdef''"

text \<open>\<open>n\<close> hexadecimal digits of a random word, low nibble first.\<close>

fun hex_digits :: "nat \<Rightarrow> 'a::len word \<Rightarrow> string" where
  "hex_digits 0 r = []"
| "hex_digits (Suc n) r = HEX_CHARS ! unat (r AND 0xF) # hex_digits n (drop_bit 4 r)"

text \<open>\<open>NodeId::generate\<close>; the three random words drawn from \<open>fastrand\<close> are arguments.\<close>

definition NodeId_generate :: "u64 \<Rightarrow> u64 \<Rightarrow> u32 \<Rightarrow> NodeId" where
  "NodeId_generate r1 r2 r3 = hex_digits 16 r1 @ hex_digits 16 r2 @ hex_digits 8 r3"

definition NodeId_default :: NodeId where
  "NodeId_default = replicate 40 (CHR ''0'')"

definition NodeId_is_empty :: "NodeId \<Rightarrow> bool" where
  "NodeId_is_empty nid \<longleftrightarrow> list_all (\<lambda>b. b = CHR ''0'') nid"

definition is_ascii_hexdigit :: "char \<Rightarrow> bool" where
  "is_ascii_hexdigit c \<longleftrightarrow>
     (let n = (of_char c :: nat)
      in (48 \<le> n \<and> n \<le> 57) \<or> (65 \<le> n \<and> n \<le> 70) \<or> (97 \<le> n \<and> n \<le> 102))"

fun lower_hex :: "string \<Rightarrow> ClusterError + string" where
  "lower_hex [] = Inr []"
| "lower_hex (b # bs) =
     (if \<not> is_ascii_hexdigit b then Inl (InvalidNodeId (BadHexChar b))
      else case lower_hex bs of Inl e \<Rightarrow> Inl e | Inr cs \<Rightarrow> Inr (to_ascii_lowercase b # cs))"

definition NodeId_from_str :: "string \<Rightarrow> ClusterError + NodeId" where
  "NodeId_from_str s =
     (if length s \<noteq> 40 then Inl (InvalidNodeId (BadLength (length s))) else lower_hex s)"

section \<open>Workers\<close>

record Worker =
  node_id :: "string option"
  address :: string
  port :: u16
  config_epoch :: int
  role :: NodeRole
  replica_of_node_id :: "string option"
  replication_offset :: int
  hostname :: "string option"
  link_state :: LinkState
  is_pfail :: bool
  is_fail :: bool
  handshake :: bool

definition Worker_default :: Worker where
  "Worker_default =
     \<lparr>node_id = None, address = ''unassigned'', port = 0, config_epoch = 0, role = Unassigned,
      replica_of_node_id = None, replication_offset = 0, hostname = None,
      link_state = Connected, is_pfail = False, is_fail = False, handshake = False\<rparr>"

definition Worker_unassigned :: Worker where
  "Worker_unassigned = Worker_default"

definition Worker_new :: "string \<Rightarrow> string \<Rightarrow> u16 \<Rightarrow> int \<Rightarrow> NodeRole \<Rightarrow> Worker" where
  "Worker_new nid addr p ep r =
     \<lparr>node_id = Some nid, address = addr, port = p, config_epoch = ep, role = r,
      replica_of_node_id = None, replication_offset = 0, hostname = None,
      link_state = Connected, is_pfail = False, is_fail = False, handshake = False\<rparr>"

definition Worker_primary :: "string \<Rightarrow> string \<Rightarrow> u16 \<Rightarrow> int \<Rightarrow> Worker" where
  "Worker_primary nid addr p ep = Worker_new nid addr p ep Primary"

definition with_replica_of :: "Worker \<Rightarrow> string \<Rightarrow> Worker" where
  "with_replica_of w rep = w\<lparr>replica_of_node_id := Some rep\<rparr>"

definition Worker_replica :: "string \<Rightarrow> string \<Rightarrow> u16 \<Rightarrow> int \<Rightarrow> string \<Rightarrow> Worker" where
  "Worker_replica nid addr p ep rep = with_replica_of (Worker_new nid addr p ep Replica) rep"

definition with_hostname :: "Worker \<Rightarrow> string \<Rightarrow> Worker" where
  "with_hostname w host = w\<lparr>hostname := (if host = [] then None else Some host)\<rparr>"

definition set_pfail :: "Worker \<Rightarrow> Worker" where
  "set_pfail w = (if \<not> is_fail w then w\<lparr>is_pfail := True\<rparr> else w)"

definition set_fail :: "Worker \<Rightarrow> Worker" where
  "set_fail w = w\<lparr>is_pfail := False, is_fail := True, link_state := Disconnected\<rparr>"

definition clear_fail :: "Worker \<Rightarrow> Worker" where
  "clear_fail w = w\<lparr>is_pfail := False, is_fail := False, link_state := Connected\<rparr>"

definition Worker_display :: "Worker \<Rightarrow> string" where
  "Worker_display w =
     (case node_id w of None \<Rightarrow> [] | Some i \<Rightarrow> i) @ '' '' @ address w @ '' '' @
     show_nat (unat (port w)) @ '' '' @ show_int (config_epoch w) @ '' '' @
     NodeRole_display (role w) @ '' '' @
     (case replica_of_node_id w of None \<Rightarrow> [] | Some i \<Rightarrow> i)"

section \<open>Lemmas\<close>

lemma NodeRole_u8_roundtrip: "NodeRole_from_u8 (NodeRole_to_u8 r) = r"
  by (cases r) (simp_all add: NodeRole_from_u8_def)

lemma NodeRole_str_roundtrip: "from_role_str (NodeRole_as_str r) = Inr r"
  by (cases r) (simp_all add: from_role_str_def eq_ignore_ascii_case_def to_ascii_lowercase_def)

lemma hex_char_nth: "i < 16 \<Longrightarrow> HEX_CHARS ! i \<in> set HEX_CHARS"
  by (rule nth_mem) (simp add: HEX_CHARS_def)

lemma nibble_less: "unat (r AND 0xF :: 'a::len word) < 16"
proof -
  have "unat (r AND 0xF) \<le> unat (0xF :: 'a word)"
    using word_and_le1 [of r "0xF"] by (simp add: word_le_nat_alt)
  also have "unat (0xF :: 'a word) = take_bit LENGTH('a) (15 :: nat)"
    by (metis of_nat_numeral unsigned_of_nat of_nat_id)
  also have "\<dots> \<le> 15" by (rule take_bit_nat_less_eq_self)
  finally show ?thesis by simp
qed

lemma length_hex_digits [simp]: "length (hex_digits n r) = n"
  by (induction n arbitrary: r) auto

lemma set_hex_digits: "set (hex_digits n r) \<subseteq> set HEX_CHARS"
  by (induction n arbitrary: r) (auto intro: hex_char_nth nibble_less)

lemma lower_hex_id: "set s \<subseteq> set HEX_CHARS \<Longrightarrow> lower_hex s = Inr s"
  by (induction s)
     (auto simp: HEX_CHARS_def is_ascii_hexdigit_def to_ascii_lowercase_def)

lemma NodeId_generate_valid:
  "length (NodeId_generate r1 r2 r3) = 40"
  "NodeId_from_str (NodeId_generate r1 r2 r3) = Inr (NodeId_generate r1 r2 r3)"
proof -
  show l: "length (NodeId_generate r1 r2 r3) = 40" by (simp add: NodeId_generate_def)
  have "set (NodeId_generate r1 r2 r3) \<subseteq> set HEX_CHARS"
    by (simp add: NodeId_generate_def set_hex_digits)
  then show "NodeId_from_str (NodeId_generate r1 r2 r3) = Inr (NodeId_generate r1 r2 r3)"
    by (simp add: NodeId_from_str_def l lower_hex_id)
qed

end
