(* ===== verification/Cluster_Bitmap.thy ===== *)
theory Cluster_Bitmap
  imports Wedb_Bytes Cluster_Slot Cluster_Node
begin

text \<open>
  The slot bitmap of \<open>src/wedb_cluster/src/slot.rs\<close>: 16384 bits in 256 machine words. Its
  interface is the locale \<open>slot_set\<close>, which the clients use. The lemmas show that the
  bitmap is a finite set of slots, that \<open>count\<close> is its cardinality, that its byte image
  round-trips in both directions, and that \<open>ranges\<close> lists exactly the maximal runs of
  set slots.
\<close>

unbundle bit_operations_syntax

section \<open>The slot bitmap\<close>

record SlotBitmap =
  bits :: "u64 list"

definition bm_new :: SlotBitmap where
  "bm_new = \<lparr>bits = replicate SLOT_WORDS 0\<rparr>"

definition bm_full :: SlotBitmap where
  "bm_full = \<lparr>bits = replicate SLOT_WORDS (- 1)\<rparr>"

definition bm_is_set :: "SlotBitmap \<Rightarrow> u16 \<Rightarrow> bool" where
  "bm_is_set bm slot =
     (let s = unat slot
      in if TOTAL_HASH_SLOTS \<le> s then False
         else (bits bm ! (s div 64)) AND push_bit (s mod 64) 1 \<noteq> 0)"

definition bm_set :: "SlotBitmap \<Rightarrow> u16 \<Rightarrow> SlotBitmap" where
  "bm_set bm slot =
     (let s = unat slot
      in if s < TOTAL_HASH_SLOTS
         then bm\<lparr>bits := (bits bm)[s div 64 := bits bm ! (s div 64) OR push_bit (s mod 64) 1]\<rparr>
         else bm)"

definition bm_clear :: "SlotBitmap \<Rightarrow> u16 \<Rightarrow> SlotBitmap" where
  "bm_clear bm slot =
     (let s = unat slot
      in if s < TOTAL_HASH_SLOTS
         then bm\<lparr>bits := (bits bm)[s div 64 := bits bm ! (s div 64) AND NOT (push_bit (s mod 64) 1)]\<rparr>
         else bm)"

definition bm_toggle :: "SlotBitmap \<Rightarrow> u16 \<Rightarrow> SlotBitmap" where
  "bm_toggle bm slot =
     (let s = unat slot
      in if s < TOTAL_HASH_SLOTS
         then bm\<lparr>bits := (bits bm)[s div 64 := bits bm ! (s div 64) XOR push_bit (s mod 64) 1]\<rparr>
         else bm)"

definition bm_clear_all :: "SlotBitmap \<Rightarrow> SlotBitmap" where
  "bm_clear_all bm = bm\<lparr>bits := replicate SLOT_WORDS 0\<rparr>"

text \<open>\<open>u64::count_ones\<close> and \<open>u64::trailing_zeros\<close> (64 on zero).\<close>

definition count_ones :: "u64 \<Rightarrow> nat" where
  "count_ones w = length (filter (bit w) [0..<64])"

definition trailing_zeros :: "u64 \<Rightarrow> nat" where
  "trailing_zeros w = length (takeWhile (\<lambda>n. \<not> bit w n) [0..<64])"

definition bm_count :: "SlotBitmap \<Rightarrow> nat" where
  "bm_count bm = sum_list (map count_ones (bits bm))"

definition bm_is_empty :: "SlotBitmap \<Rightarrow> bool" where
  "bm_is_empty bm \<longleftrightarrow> list_all (\<lambda>w. w = 0) (bits bm)"

definition bm_is_full :: "SlotBitmap \<Rightarrow> bool" where
  "bm_is_full bm \<longleftrightarrow> list_all (\<lambda>w. w = - 1) (bits bm)"

text \<open>
  One word of \<open>ranges\<close>: \<open>rest\<close> holds the unread bits, \<open>ofs\<close> the number of bits read. The
  loop jumps from one run of ones to the next with \<open>trailing_zeros\<close>.
\<close>

lemma tz_le: "trailing_zeros w \<le> 64"
  unfolding trailing_zeros_def by (metis diff_zero length_takeWhile_le length_upt)

lemma tz_below: "j < trailing_zeros w \<Longrightarrow> \<not> bit w j"
  unfolding trailing_zeros_def
  by (metis (no_types, lifting) add.left_neutral length_takeWhile_le length_upt
      nth_mem nth_upt order_less_le_trans set_takeWhileD takeWhile_nth diff_zero)

lemma tz_at: "trailing_zeros w < 64 \<Longrightarrow> bit w (trailing_zeros w)"
proof -
  assume a: "trailing_zeros w < 64"
  have "\<not> \<not> bit w ([0..<64] ! trailing_zeros w)"
    unfolding trailing_zeros_def
    by (rule nth_length_takeWhile) (use a in \<open>simp add: trailing_zeros_def\<close>)
  then show ?thesis using a by simp
qed

lemma tz_zero_iff: "trailing_zeros w = 64 \<longleftrightarrow> w = 0"
proof
  assume a: "trailing_zeros w = 64"
  show "w = 0"
  proof (rule bit_word_eqI)
    fix n
    assume "n < LENGTH(64)"
    then have "n < trailing_zeros w" using a by simp
    then show "bit w n = bit 0 n" using tz_below by simp
  qed
next
  assume "w = 0"
  then show "trailing_zeros w = 64"
    using tz_at [of w] tz_le [of w] by (auto simp: le_less)
qed

lemma drop_bit_less_word:
  fixes w :: "'a::len word"
  assumes "w \<noteq> 0" and "0 < n"
  shows "drop_bit n w < w"
proof -
  have "0 < unat w" using assms(1) by (simp add: unat_gt_0)
  moreover have "1 < (2::nat) ^ n" using assms(2) by (intro one_less_power) simp_all
  ultimately have "unat w div 2 ^ n < unat w" by (intro div_less_dividend)
  moreover have "unat (drop_bit n w) = drop_bit n (unat w)"
    by (simp add: unsigned_drop_bit_eq take_bit_nat_eq_self)
  then have "unat (drop_bit n w) = unat w div 2 ^ n"
    by (simp only: drop_bit_eq_div)
  ultimately show ?thesis
    by (simp add: word_less_nat_alt)
qed

lemma run_nonempty:
  assumes "rest \<noteq> 0"
  shows "0 < trailing_zeros (NOT (drop_bit (trailing_zeros rest) rest))"
proof -
  have "trailing_zeros rest < 64"
    using assms tz_le [of rest] tz_zero_iff [of rest] by linarith
  then have "bit rest (trailing_zeros rest)" by (rule tz_at)
  then have "\<not> bit (NOT (drop_bit (trailing_zeros rest) rest)) 0"
    by (simp add: bit_not_iff bit_drop_bit_eq)
  then show ?thesis
    using tz_at [of "NOT (drop_bit (trailing_zeros rest) rest)"] by (metis gr0I zero_less_numeral)
qed

function ranges_word ::
    "nat \<Rightarrow> u64 \<Rightarrow> nat \<Rightarrow> (u16 \<times> u16) list \<Rightarrow> u16 option \<Rightarrow> (u16 \<times> u16) list \<times> u16 option" where
  "ranges_word base rest ofs rs start =
     (if rest = 0 then (rs, start)
      else
        (let first = trailing_zeros rest;
             len = trailing_zeros (NOT (drop_bit first rest));
             bgn = base + ofs + first;
             fin = bgn + len - 1;
             s = (case start of None \<Rightarrow> as_u16 bgn | Some s \<Rightarrow> s);
             consumed = ofs + first + len
         in if consumed < 64
            then ranges_word base (drop_bit (first + len) rest) consumed (rs @ [(s, as_u16 fin)]) None
            else ranges_word base (if consumed = 64 then 0 else drop_bit (first + len) rest)
                   consumed rs (Some s)))"
  by pat_completeness auto
termination
  by (relation "measure (\<lambda>(base, rest, ofs, rs, start). unat rest)")
     (auto simp: Let_def run_nonempty drop_bit_less_word unat_mono unat_gt_0)

declare ranges_word.simps [simp del]

fun ranges_words ::
    "nat \<Rightarrow> u64 list \<Rightarrow> (u16 \<times> u16) list \<Rightarrow> u16 option \<Rightarrow> (u16 \<times> u16) list \<times> u16 option" where
  "ranges_words i [] rs start = (rs, start)"
| "ranges_words i (word # ws) rs start =
     (if word = 0 then
        (case start of
           Some s \<Rightarrow> ranges_words (Suc i) ws (rs @ [(s, as_u16 (i * 64 - 1))]) None
         | None \<Rightarrow> ranges_words (Suc i) ws rs None)
      else if word = - 1 then
        ranges_words (Suc i) ws rs
          (case start of None \<Rightarrow> Some (as_u16 (i * 64)) | Some s \<Rightarrow> Some s)
      else
        (let (rs1, start1) =
               (if word AND 1 = 0
                then (case start of Some s \<Rightarrow> (rs @ [(s, as_u16 (i * 64 - 1))], None)
                      | None \<Rightarrow> (rs, None))
                else (rs, start));
             (rs2, start2) = ranges_word (i * 64) word 0 rs1 start1
         in ranges_words (Suc i) ws rs2 start2))"

definition bm_ranges :: "SlotBitmap \<Rightarrow> (u16 \<times> u16) list" where
  "bm_ranges bm =
     (case ranges_words 0 (bits bm) [] None of
        (rs, Some s) \<Rightarrow> rs @ [(s, as_u16 (TOTAL_HASH_SLOTS - 1))]
      | (rs, None) \<Rightarrow> rs)"

definition bm_to_bytes :: "SlotBitmap \<Rightarrow> bytes" where
  "bm_to_bytes bm = concat (map to_le_bytes (bits bm))"

text \<open>\<open>slice::as_chunks::<8>().0\<close>: the whole chunks of eight bytes.\<close>

fun as_chunks8 :: "bytes \<Rightarrow> bytes list" where
  "as_chunks8 bs = (if length bs < 8 then [] else take 8 bs # as_chunks8 (drop 8 bs))"

declare as_chunks8.simps [simp del]

text \<open>The error carries the length the code prints in its message.\<close>

definition bm_from_bytes :: "bytes \<Rightarrow> ClusterError + SlotBitmap" where
  "bm_from_bytes sl =
     (if length sl \<noteq> SLOT_BYTES then Inl (SlotBitmapError (length sl))
      else Inr \<lparr>bits = map from_le_bytes (as_chunks8 sl)\<rparr>)"


section \<open>The bitmap is a set of slots\<close>

definition bm_wf :: "SlotBitmap \<Rightarrow> bool" where
  "bm_wf bm \<longleftrightarrow> length (bits bm) = SLOT_WORDS"

definition bm_bit :: "u64 list \<Rightarrow> nat \<Rightarrow> bool" where
  "bm_bit ws x \<longleftrightarrow> x < 64 * length ws \<and> bit (ws ! (x div 64)) (x mod 64)"

lemma and_exp_neq_0: "w AND 2 ^ n = (0::'a::len word) \<longleftrightarrow> \<not> bit w n"
proof
  assume a: "w AND 2 ^ n = 0"
  show "\<not> bit w n"
  proof
    assume "bit w n"
    then have "bit (w AND 2 ^ n) n"
      by (auto simp: bit_simps dest: bit_imp_le_length)
    with a show False by simp
  qed
next
  assume a: "\<not> bit w n"
  show "w AND 2 ^ n = 0"
    by (rule bit_word_eqI) (use a in \<open>auto simp: bit_simps\<close>)
qed

lemma bm_is_set_bit: "bm_wf bm \<Longrightarrow> bm_is_set bm s \<longleftrightarrow> bm_bit (bits bm) (unat s)"
  by (auto simp: bm_is_set_def Let_def bm_bit_def bm_wf_def slot_consts and_exp_neq_0)

lemma bm_bit_update:
  assumes "s < 64 * length ws" and "\<And>n. n < 64 \<Longrightarrow> bit w n = (if n = s mod 64 then v else bit (ws ! (s div 64)) n)"
  shows "bm_bit (ws[s div 64 := w]) x = (if x = s then v else bm_bit ws x)"
proof (cases "x div 64 = s div 64")
  case True
  then have "x mod 64 = s mod 64 \<longleftrightarrow> x = s"
    by (metis mod_mult_div_eq)
  with True assms show ?thesis
    by (auto simp: bm_bit_def div_less_iff_less_mult mult.commute)
next
  case False
  then show ?thesis using assms(1) by (auto simp: bm_bit_def)
qed


lemma word_bit_ops:
  fixes w :: u64
  assumes "k < 64"
  shows "bit (w OR push_bit k 1) n = (if n = k then True else bit w n)"
    and "bit (w AND NOT (push_bit k 1)) n = (if n = k then False else bit w n)"
    and "bit (w XOR push_bit k 1) n = (if n = k then \<not> bit w k else bit w n)"
  using assms
  by (auto simp: bit_simps dest: bit_imp_le_length)

lemma bm_set_bit:
  assumes "bm_wf bm"
  shows "bm_bit (bits (bm_set bm s)) x \<longleftrightarrow>
           (x = unat s \<and> x < TOTAL_HASH_SLOTS) \<or> bm_bit (bits bm) x"
proof (cases "unat s < TOTAL_HASH_SLOTS")
  case True
  then have "unat s < 64 * length (bits bm)" using assms by (simp add: bm_wf_def slot_consts)
  from bm_bit_update [OF this, of _ True, OF word_bit_ops(1)] True
  show ?thesis by (simp add: bm_set_def Let_def)
qed (auto simp: bm_set_def)

lemma bm_clear_bit:
  assumes "bm_wf bm"
  shows "bm_bit (bits (bm_clear bm s)) x \<longleftrightarrow> x \<noteq> unat s \<and> bm_bit (bits bm) x"
proof (cases "unat s < TOTAL_HASH_SLOTS")
  case True
  then have "unat s < 64 * length (bits bm)" using assms by (simp add: bm_wf_def slot_consts)
  from bm_bit_update [OF this, of _ False, OF word_bit_ops(2)] True
  show ?thesis by (simp add: bm_clear_def Let_def)
next
  case False
  then show ?thesis using assms by (auto simp: bm_clear_def bm_bit_def bm_wf_def slot_consts)
qed

lemma bm_toggle_bit:
  assumes "bm_wf bm"
  shows "bm_bit (bits (bm_toggle bm s)) x \<longleftrightarrow>
           (if x = unat s \<and> x < TOTAL_HASH_SLOTS then \<not> bm_bit (bits bm) x else bm_bit (bits bm) x)"
proof (cases "unat s < TOTAL_HASH_SLOTS")
  case True
  then have l: "unat s < 64 * length (bits bm)" using assms by (simp add: bm_wf_def slot_consts)
  from bm_bit_update [OF this, of _ "\<not> bit (bits bm ! (unat s div 64)) (unat s mod 64)", OF word_bit_ops(3)] True l
  show ?thesis by (simp add: bm_toggle_def Let_def bm_bit_def)
qed (auto simp: bm_toggle_def)

lemma bm_wf_ops [simp]:
  "bm_wf bm_new" "bm_wf bm_full"
  "bm_wf bm \<Longrightarrow> bm_wf (bm_set bm s)" "bm_wf bm \<Longrightarrow> bm_wf (bm_clear bm s)"
  "bm_wf bm \<Longrightarrow> bm_wf (bm_toggle bm s)" "bm_wf (bm_clear_all bm)"
  by (simp_all add: bm_wf_def bm_new_def bm_full_def bm_set_def bm_clear_def bm_toggle_def bm_clear_all_def Let_def)

text \<open>The interface the rest of the crate uses: a set of slots with insertion and removal.\<close>

locale slot_set =
  fixes inv :: "'b \<Rightarrow> bool"
    and none :: 'b
    and member :: "'b \<Rightarrow> u16 \<Rightarrow> bool"
    and add :: "'b \<Rightarrow> u16 \<Rightarrow> 'b"
    and remove :: "'b \<Rightarrow> u16 \<Rightarrow> 'b"
  assumes inv_none: "inv none"
    and inv_add: "inv b \<Longrightarrow> inv (add b s)"
    and inv_remove: "inv b \<Longrightarrow> inv (remove b s)"
    and member_none: "\<not> member none x"
    and member_add: "inv b \<Longrightarrow> member (add b s) x \<longleftrightarrow> (x = s \<and> unat s < TOTAL_HASH_SLOTS) \<or> member b x"
    and member_remove: "inv b \<Longrightarrow> member (remove b s) x \<longleftrightarrow> x \<noteq> s \<and> member b x"
begin

lemma inv_foldl: "inv b \<Longrightarrow> inv (foldl add b xs)"
  by (induction xs arbitrary: b) (simp_all add: inv_add)

lemma member_foldl:
  "inv b \<Longrightarrow> member (foldl add b xs) x \<longleftrightarrow>
     (x \<in> set xs \<and> unat x < TOTAL_HASH_SLOTS) \<or> member b x"
  by (induction xs arbitrary: b) (auto simp: inv_add member_add)

lemma member_of_list:
  "member (foldl add none xs) x \<longleftrightarrow> x \<in> set xs \<and> unat x < TOTAL_HASH_SLOTS"
  by (simp add: member_foldl inv_none member_none)

lemma add_idem: "inv b \<Longrightarrow> member b s \<Longrightarrow> member (add b s) x = member b x"
  by (auto simp: member_add)

end

interpretation bm: slot_set bm_wf bm_new bm_is_set bm_set bm_clear
proof unfold_locales
  show "\<not> bm_is_set bm_new x" for x
    by (auto simp: bm_is_set_def bm_new_def slot_consts Let_def div_less_iff_less_mult)
  show "bm_wf b \<Longrightarrow> bm_is_set (bm_set b s) x \<longleftrightarrow>
          (x = s \<and> unat s < TOTAL_HASH_SLOTS) \<or> bm_is_set b x" for b s x
    by (auto simp: bm_is_set_bit bm_set_bit word_unat_eq_iff)
  show "bm_wf b \<Longrightarrow> bm_is_set (bm_clear b s) x \<longleftrightarrow> x \<noteq> s \<and> bm_is_set b x" for b s x
    by (auto simp: bm_is_set_bit bm_clear_bit word_unat_eq_iff)
qed simp_all


section \<open>Counting and the byte image\<close>

lemma count_ones_card: "count_ones w = card {n. n < 64 \<and> bit w n}"
proof -
  have "count_ones w = card (set (filter (bit w) [0..<64]))"
    unfolding count_ones_def by (rule distinct_card [symmetric]) simp
  also have "set (filter (bit w) [0..<64]) = {n. n < 64 \<and> bit w n}" by auto
  finally show ?thesis .
qed

lemma bm_bit_Cons:
  "bm_bit (w # ws) x \<longleftrightarrow> (if x < 64 then bit w x else bm_bit ws (x - 64))"
proof (cases "x < 64")
  case True
  then show ?thesis by (simp add: bm_bit_def)
next
  case False
  then have "x div 64 = Suc ((x - 64) div 64)" "x mod 64 = (x - 64) mod 64"
    by (simp_all add: le_div_geq le_mod_geq)
  with False show ?thesis by (auto simp: bm_bit_def)
qed

lemma bm_bit_set_Cons:
  "{x. bm_bit (w # ws) x} = {n. n < 64 \<and> bit w n} \<union> (\<lambda>x. x + 64) ` {x. bm_bit ws x}"
proof (rule set_eqI)
  fix x
  have "x \<in> (\<lambda>x. x + 64) ` {x. bm_bit ws x} \<longleftrightarrow> 64 \<le> x \<and> bm_bit ws (x - 64)"
    by (auto simp: image_iff intro: exI [of _ "x - 64"])
  then show "x \<in> {x. bm_bit (w # ws) x} \<longleftrightarrow>
      x \<in> {n. n < 64 \<and> bit w n} \<union> (\<lambda>x. x + 64) ` {x. bm_bit ws x}"
    by (auto simp: bm_bit_Cons)
qed

lemma finite_bm_bit: "finite {x. bm_bit ws x}"
  by (rule finite_subset [of _ "{..<64 * length ws}"]) (auto simp: bm_bit_def)

lemma sum_count_ones: "sum_list (map count_ones ws) = card {x. bm_bit ws x}"
proof (induction ws)
  case Nil
  then show ?case by (simp add: bm_bit_def)
next
  case (Cons w ws)
  have "card ((\<lambda>x. x + 64) ` {x. bm_bit ws x}) = card {x. bm_bit ws x}"
    by (rule card_image) (simp add: inj_on_def)
  moreover have "card ({n. n < 64 \<and> bit w n} \<union> (\<lambda>x. x + 64) ` {x. bm_bit ws x}) =
      card {n. n < 64 \<and> bit w n} + card ((\<lambda>x. x + 64) ` {x. bm_bit ws x})"
    by (rule card_Un_disjoint) (auto simp: finite_bm_bit)
  ultimately show ?case
    using Cons.IH by (simp only: bm_bit_set_Cons count_ones_card [of w] list.map sum_list.Cons)
qed

lemma bm_count_card: "bm_wf bm \<Longrightarrow> bm_count bm = card {s. bm_is_set bm s}"
proof -
  assume wf: "bm_wf bm"
  have small: "x < 65536" if "bm_bit (bits bm) x" for x
    using that wf by (auto simp: bm_bit_def bm_wf_def slot_consts)
  have "bij_betw unat {s. bm_is_set bm s} {x. bm_bit (bits bm) x}"
    using wf small
    by (intro bij_betw_byWitness [where f' = as_u16]) (auto simp: bm_is_set_bit unat_as_u16)
  then have "card {s. bm_is_set bm s} = card {x. bm_bit (bits bm) x}"
    by (rule bij_betw_same_card)
  then show ?thesis by (simp add: bm_count_def sum_count_ones)
qed

subsection \<open>Byte image\<close>

lemma as_chunks8_concat:
  "\<forall>c \<in> set cs. length c = 8 \<Longrightarrow> as_chunks8 (concat cs) = cs"
proof (induction cs)
  case Nil
  then show ?case by (simp add: as_chunks8.simps)
next
  case (Cons c cs)
  then show ?case by (simp add: as_chunks8.simps [of "c @ concat cs"])
qed

lemma length_concat8:
  "\<forall>c \<in> set cs. length c = 8 \<Longrightarrow> length (concat cs) = 8 * length cs"
  by (induction cs) auto

lemma as_chunks8_props:
  "length bs = 8 * k \<Longrightarrow>
   concat (as_chunks8 bs) = bs \<and> length (as_chunks8 bs) = k \<and> (\<forall>c \<in> set (as_chunks8 bs). length c = 8)"
proof (induction k arbitrary: bs)
  case 0
  then show ?case by (simp add: as_chunks8.simps)
next
  case (Suc k)
  then have "length (drop 8 bs) = 8 * k" by simp
  with Suc.IH [of "drop 8 bs"] Suc.prems show ?case
    by (simp add: as_chunks8.simps [of bs])
qed

lemma bm_from_to_bytes: "bm_wf bm \<Longrightarrow> bm_from_bytes (bm_to_bytes bm) = Inr bm"
  by (simp add: bm_from_bytes_def bm_to_bytes_def bm_wf_def slot_consts as_chunks8_concat
      length_concat8 from_to_le_bytes o_def)

lemma bm_to_from_bytes:
  assumes "bm_from_bytes bs = Inr bm"
  shows "bm_wf bm \<and> bm_to_bytes bm = bs"
proof -
  from assms have l: "length bs = 8 * 256" and b: "bits bm = map from_le_bytes (as_chunks8 bs)"
    by (auto simp: bm_from_bytes_def slot_consts split: if_splits)
  from as_chunks8_props [OF l] have c: "concat (as_chunks8 bs) = bs" "length (as_chunks8 bs) = 256"
    "\<forall>c \<in> set (as_chunks8 bs). length c = 8" by auto
  have "map (to_le_bytes \<circ> from_le_bytes) (as_chunks8 bs) = as_chunks8 bs"
    using c(3) by (intro map_idI) (simp add: to_from_le_bytes)
  then show ?thesis using c by (simp add: bm_to_bytes_def bm_wf_def b slot_consts)
qed


section \<open>The ranges of a bitmap\<close>

definition run_ok :: "(nat \<Rightarrow> bool) \<Rightarrow> nat \<Rightarrow> nat \<times> nat \<Rightarrow> bool" where
  "run_ok S N p \<longleftrightarrow> fst p \<le> snd p \<and> snd p < N \<and> \<not> S (Suc (snd p)) \<and>
     (\<forall>x. fst p \<le> x \<and> x \<le> snd p \<longrightarrow> S x)"

definition rinv :: "(nat \<Rightarrow> bool) \<Rightarrow> nat \<Rightarrow> (nat \<times> nat) list \<Rightarrow> nat option \<Rightarrow> bool" where
  "rinv S N R st \<longleftrightarrow>
     (\<forall>p \<in> set R. run_ok S N p) \<and>
     sorted_wrt (\<lambda>p q. snd p < fst q) R \<and>
     (\<forall>x < N. S x \<longrightarrow> (\<exists>p \<in> set R. fst p \<le> x \<and> x \<le> snd p) \<or> (\<exists>s. st = Some s \<and> s \<le> x)) \<and>
     (\<forall>s. st = Some s \<longrightarrow> s < N \<and> (\<forall>x. s \<le> x \<and> x < N \<longrightarrow> S x) \<and> (\<forall>p \<in> set R. snd p < s))"

lemma run_ok_mono: "run_ok S N p \<Longrightarrow> N \<le> M \<Longrightarrow> run_ok S M p"
  by (auto simp: run_ok_def)

lemma rinv_skip:
  assumes "rinv S N R None" and "N \<le> M" and "\<And>x. N \<le> x \<Longrightarrow> x < M \<Longrightarrow> \<not> S x"
  shows "rinv S M R None"
proof -
  have "\<forall>x < M. S x \<longrightarrow> (\<exists>p \<in> set R. fst p \<le> x \<and> x \<le> snd p)"
  proof (intro allI impI)
    fix x
    assume "x < M" and "S x"
    then have "x < N" using assms(3) [of x] by linarith
    then show "\<exists>p \<in> set R. fst p \<le> x \<and> x \<le> snd p"
      using assms(1) \<open>S x\<close> by (simp add: rinv_def)
  qed
  moreover have "\<forall>p \<in> set R. run_ok S M p"
    using assms(1,2) run_ok_mono by (auto simp: rinv_def)
  ultimately show ?thesis
    using assms(1) by (simp add: rinv_def)
qed

lemma rinv_open:
  assumes "rinv S N R st" and "N < M" and "\<And>x. N \<le> x \<Longrightarrow> x < M \<Longrightarrow> S x"
    and "s = (case st of None \<Rightarrow> N | Some s \<Rightarrow> s)"
  shows "rinv S M R (Some s)"
proof -
  have s: "s \<le> N" using assms(1,4) by (auto simp: rinv_def less_imp_le split: option.splits)
  have run: "S x" if "s \<le> x" "x < M" for x
  proof (cases "x < N")
    case True
    with that assms(1,4) show ?thesis by (auto simp: rinv_def split: option.splits)
  next
    case False
    with that assms(3) show ?thesis by simp
  qed
  have "\<forall>p \<in> set R. snd p < s"
    using assms(1,4) by (auto simp: rinv_def run_ok_def split: option.splits)
  moreover have "\<forall>x < M. S x \<longrightarrow> (\<exists>p \<in> set R. fst p \<le> x \<and> x \<le> snd p) \<or> s \<le> x"
  proof (intro allI impI)
    fix x
    assume "x < M" and "S x"
    show "(\<exists>p \<in> set R. fst p \<le> x \<and> x \<le> snd p) \<or> s \<le> x"
    proof (cases "x < N")
      case True
      then have "(\<exists>p \<in> set R. fst p \<le> x \<and> x \<le> snd p) \<or> (\<exists>t. st = Some t \<and> t \<le> x)"
        using assms(1) \<open>S x\<close> by (simp add: rinv_def)
      then show ?thesis using assms(4) by auto
    next
      case False
      with s show ?thesis by simp
    qed
  qed
  moreover have "\<forall>p \<in> set R. run_ok S M p"
    using assms(1,2) run_ok_mono [of S N _ M] by (auto simp: rinv_def)
  ultimately show ?thesis
    using assms(1,2) s run by (simp add: rinv_def)
qed

lemma rinv_close:
  assumes "rinv S N R (Some s)" and "\<not> S N"
  shows "rinv S N (R @ [(s, N - 1)]) None"
proof -
  have s: "s < N" "\<forall>x. s \<le> x \<and> x < N \<longrightarrow> S x" "\<forall>p \<in> set R. snd p < s"
    using assms(1) by (auto simp: rinv_def)
  then have "run_ok S N (s, N - 1)"
    using assms(2) by (auto simp: run_ok_def)
  moreover have "\<forall>x < N. S x \<longrightarrow> (\<exists>p \<in> set (R @ [(s, N - 1)]). fst p \<le> x \<and> x \<le> snd p)"
    using assms(1) by (auto simp: rinv_def)
  moreover have "sorted_wrt (\<lambda>p q. snd p < fst q) (R @ [(s, N - 1)])"
    using assms(1) s(3) by (auto simp: rinv_def sorted_wrt_append)
  ultimately show ?thesis using assms(1) by (auto simp: rinv_def)
qed

abbreviation natp :: "(u16 \<times> u16) list \<Rightarrow> (nat \<times> nat) list" where
  "natp rs \<equiv> map (\<lambda>(a, b). (unat a, unat b)) rs"

lemma ranges_word_inv:
  assumes "rinv S (base + ofs) (natp rs) (map_option unat st)"
    and "rest = drop_bit ofs w" and "ofs \<le> 64" and "base + 64 \<le> TOTAL_HASH_SLOTS"
    and "\<And>n. n < 64 \<Longrightarrow> S (base + n) = bit w n"
    and "st \<noteq> None \<Longrightarrow> bit rest 0 \<or> ofs = 64"
    and "ranges_word base rest ofs rs st = (rs', st')"
  shows "rinv S (base + 64) (natp rs') (map_option unat st')"
  using assms
proof (induction base rest ofs rs st rule: ranges_word.induct)
  case (1 base rest ofs rs st)
  show ?case
  proof (cases "rest = 0")
    case True
    show ?thesis
    proof (cases "ofs = 64")
      case True
      then show ?thesis using \<open>rest = 0\<close> "1.prems" by (simp add: ranges_word.simps)
    next
      case False
      then have st: "st = None" using True "1.prems"(6) by (cases st) auto
      have "\<not> S x" if "base + ofs \<le> x" "x < base + 64" for x
      proof -
        have "bit w (x - base) = bit rest (x - base - ofs)"
          using that by (simp add: "1.prems"(2) bit_drop_bit_eq)
        then show ?thesis using that "1.prems"(5) [of "x - base"] True by simp
      qed
      then show ?thesis
        using "1.prems" True st by (auto simp: ranges_word.simps intro: rinv_skip)
    qed
  next
    case False
    define first where "first = trailing_zeros rest"
    define len where "len = trailing_zeros (NOT (drop_bit first rest))"
    define s where "s = (case st of None \<Rightarrow> as_u16 (base + ofs + first) | Some s \<Rightarrow> s)"
    define consumed where "consumed = ofs + first + len"
    have first64: "first < 64"
      using False tz_le [of rest] tz_zero_iff [of rest] by (simp add: first_def)
    have bitr: "bit rest n = bit w (ofs + n)" for n
      by (simp add: "1.prems"(2) bit_drop_bit_eq)
    have lenpos: "0 < len" using run_nonempty [OF False] by (simp add: len_def first_def)
    have zeros: "\<not> bit rest n" if "n < first" for n
      using that tz_below by (simp add: first_def)
    have ones: "bit rest (first + n)" if "n < len" for n
      using tz_below [of n "NOT (drop_bit first rest)"] that tz_le [of "NOT (drop_bit first rest)"]
      by (simp add: len_def bit_not_iff bit_drop_bit_eq)
    have "bit w (ofs + (first + (len - 1)))" using ones [of "len - 1"] lenpos by (simp add: bitr)
    then have "ofs + (first + (len - 1)) < 64" using bit_imp_le_length by fastforce
    then have cons: "consumed \<le> 64" using lenpos by (simp add: consumed_def)
    define N where "N = base + ofs + first"
    have small: "N < 65536" "base + consumed \<le> 65536"
      using "1.prems"(4) cons lenpos by (simp_all add: N_def consumed_def slot_consts)
    have skip: "rinv S N (natp rs) (map_option unat st)"
    proof (cases st)
      case None
      have "\<not> S x" if "base + ofs \<le> x" "x < N" for x
        using that zeros [of "x - base - ofs"] "1.prems"(5) [of "x - base"] cons lenpos
        by (simp add: N_def bitr consumed_def)
      then show ?thesis
        using "1.prems"(1) None by (auto simp: N_def intro: rinv_skip)
    next
      case (Some t)
      then have "bit rest 0" using "1.prems"(3,6) cons lenpos by (auto simp: consumed_def)
      then have "first = 0" using zeros [of 0] by (cases first) auto
      then show ?thesis using "1.prems"(1) by (simp add: N_def)
    qed
    have run: "S x" if "N \<le> x" "x < base + consumed" for x
      using that ones [of "x - N"] "1.prems"(5) [of "x - base"] cons
      by (simp add: N_def bitr consumed_def)
    have "unat s = (case map_option unat st of None \<Rightarrow> N | Some s \<Rightarrow> s)"
      using small(1) by (auto simp: s_def N_def unat_as_u16 simp del: of_nat_add split: option.split)
    with skip run lenpos have opened: "rinv S (base + consumed) (natp rs) (Some (unat s))"
      by (intro rinv_open [of S N]) (auto simp: N_def consumed_def)
    have e: "base + ofs + first + len - 1 = base + consumed - 1"
      by (simp add: consumed_def)
    have unfold: "ranges_word base rest ofs rs st =
        (if consumed < 64
         then ranges_word base (drop_bit (first + len) rest) consumed
                (rs @ [(s, as_u16 (base + consumed - 1))]) None
         else ranges_word base (if consumed = 64 then 0 else drop_bit (first + len) rest)
                consumed rs (Some s))"
      by (subst ranges_word.simps)
         (simp only: Let_def first_def [symmetric] len_def [symmetric] s_def [symmetric]
          consumed_def [symmetric] False if_False e)
    show ?thesis
    proof (cases "consumed < 64")
      case True
      then have "len < 64" by (simp add: consumed_def)
      then have "\<not> bit rest (first + len)"
        using tz_at [of "NOT (drop_bit first rest)"]
        by (simp add: len_def bit_not_iff bit_drop_bit_eq)
      then have "\<not> S (base + consumed)"
        using True "1.prems"(5) by (simp add: bitr consumed_def add.assoc)
      moreover have fin: "unat (as_u16 (base + consumed - 1)) = base + consumed - 1"
        using small(2) lenpos by (intro unat_as_u16) (auto simp: consumed_def)
      ultimately
      have "rinv S (base + consumed) (natp (rs @ [(s, as_u16 (base + consumed - 1))])) None"
        using rinv_close [OF opened] by (simp only: map_append list.map prod.case not_False_eq_True simp_thms)
      moreover have "ranges_word base (drop_bit (first + len) rest) consumed
          (rs @ [(s, as_u16 (base + consumed - 1))]) None = (rs', st')"
        using "1.prems"(7) unfold True by (simp only: if_True)
      moreover have "drop_bit (first + len) rest = drop_bit consumed w"
        by (simp add: "1.prems"(2) consumed_def drop_bit_drop_bit add.commute add.left_commute)
      ultimately show ?thesis
        using "1.IH"(1) [OF False first_def len_def refl refl s_def consumed_def True] True
          "1.prems"(4,5)
        by (simp add: consumed_def add.assoc)
    next
      case False2: False
      with cons have c: "consumed = 64" by simp
      with "1.prems"(7) unfold have "rs' = rs" "st' = Some s"
        by (simp_all add: ranges_word.simps [of base 0])
      then show ?thesis using opened c by simp
    qed
  qed
qed

lemma bit_minus_1: "n < 64 \<Longrightarrow> bit (- 1 :: u64) n"
  by simp

lemma ranges_words_inv:
  assumes "rinv S (64 * i) (natp rs) (map_option unat st)"
    and "64 * (i + length ws) \<le> TOTAL_HASH_SLOTS"
    and "\<And>j n. j < length ws \<Longrightarrow> n < 64 \<Longrightarrow> S (64 * (i + j) + n) = bit (ws ! j) n"
    and "ranges_words i ws rs st = (rs', st')"
  shows "rinv S (64 * (i + length ws)) (natp rs') (map_option unat st')"
  using assms
proof (induction i ws rs st rule: ranges_words.induct)
  case (1 i rs st)
  then show ?case by simp
next
  case (2 i w ws rs st)
  have Sw: "S (64 * i + n) = bit w n" if "n < 64" for n
    using "2.prems"(3) [of 0 n] that by simp
  have Sws: "S (64 * (Suc i + j) + n) = bit (ws ! j) n" if "j < length ws" "n < 64" for j n
    using "2.prems"(3) [of "Suc j" n] that by simp
  have small: "64 * i + 64 \<le> TOTAL_HASH_SLOTS" "64 * (Suc i + length ws) \<le> TOTAL_HASH_SLOTS"
    using "2.prems"(2) by simp_all
  have close: "rinv S (64 * i) (natp (rs @ [(s, as_u16 (i * 64 - 1))])) None"
    if "st = Some s" "\<not> bit w 0" for s
  proof -
    have "\<not> S (64 * i)" using Sw [of 0] that(2) by simp
    moreover have "unat (as_u16 (i * 64 - 1)) = 64 * i - 1"
      using small(1) by (subst unat_as_u16) (auto simp: slot_consts mult.commute)
    ultimately show ?thesis
      using rinv_close [of S "64 * i" "natp rs" "unat s"] "2.prems"(1) that(1) by simp
  qed
  consider (zero) "w = 0" | (full) "w \<noteq> 0" "w = - 1" | (part) "w \<noteq> 0" "w \<noteq> - 1" by blast
  then show ?case
  proof cases
    case zero
    have noS: "\<not> S x" if "64 * i \<le> x" "x < 64 * Suc i" for x
      using that Sw [of "x - 64 * i"] zero by simp
    show ?thesis
    proof (cases st)
      case None
      have "rinv S (64 * Suc i) (natp rs) None"
        using "2.prems"(1) None noS by (auto intro!: rinv_skip [of S "64 * i"])
      then show ?thesis
        using "2.IH"(1) [OF zero None] "2.prems"(4) small Sws zero None by simp
    next
      case (Some s)
      have "rinv S (64 * Suc i) (natp (rs @ [(s, as_u16 (i * 64 - 1))])) None"
      proof (rule rinv_skip)
        show "rinv S (64 * i) (natp (rs @ [(s, as_u16 (i * 64 - 1))])) None"
          by (rule close [OF Some]) (simp add: zero)
      qed (use noS in simp_all)
      then show ?thesis
        using "2.IH"(2) [OF zero Some] "2.prems"(4) small Sws zero Some by simp
    qed
  next
    case full
    have allS: "S x" if "64 * i \<le> x" "x < 64 * Suc i" for x
      using that Sw [of "x - 64 * i"] full by simp
    let ?st = "case st of None \<Rightarrow> Some (as_u16 (i * 64)) | Some s \<Rightarrow> Some s"
    have "unat (as_u16 (i * 64)) = 64 * i"
      using small(1) by (subst unat_as_u16) (auto simp: slot_consts mult.commute)
    then have "rinv S (64 * Suc i) (natp rs) (map_option unat ?st)"
      using "2.prems"(1) allS by (cases st) (auto intro!: rinv_open [of S "64 * i"])
    then show ?thesis
      using "2.IH"(3) [OF full] "2.prems"(4) small Sws full by simp
  next
    case part
    define p where "p = (if w AND 1 = 0
        then (case st of Some s \<Rightarrow> (rs @ [(s, as_u16 (i * 64 - 1))], None) | None \<Rightarrow> (rs, None))
        else (rs, st))"
    obtain rs1 st1 where p1: "p = (rs1, st1)" by (cases p)
    obtain rs2 st2 where p2: "ranges_word (i * 64) w 0 rs1 st1 = (rs2, st2)"
      by (cases "ranges_word (i * 64) w 0 rs1 st1")
    have w0: "w AND 1 = 0 \<longleftrightarrow> \<not> bit w 0"
      using and_exp_neq_0 [of w 0] by simp
    have "rinv S (64 * i) (natp rs1) (map_option unat st1) \<and> (st1 \<noteq> None \<longrightarrow> bit w 0)"
    proof (cases "bit w 0")
      case True
      then have "rs1 = rs" "st1 = st" using p1 by (simp_all add: p_def w0)
      with True "2.prems"(1) show ?thesis by simp
    next
      case False
      with close "2.prems"(1) p1 show ?thesis
        by (cases st) (auto simp: p_def w0)
    qed
    then have "rinv S (i * 64 + 64) (natp rs2) (map_option unat st2)"
      using ranges_word_inv [OF _ _ _ _ _ _ p2, of S w] Sw small by (simp add: mult.commute)
    moreover have "ranges_words i (w # ws) rs st = ranges_words (Suc i) ws rs2 st2"
      by (simp only: ranges_words.simps part if_False p_def [symmetric] p1 p2 Let_def prod.case)
    then have "ranges_words (Suc i) ws rs2 st2 = (rs', st')"
      using "2.prems"(4) by simp
    ultimately show ?thesis
      using "2.IH"(4) [OF part p1 [unfolded p_def, symmetric] refl p2 [symmetric] refl] small Sws
      by (simp add: mult.commute add.commute)
  qed
qed

lemma bm_ranges_inv:
  assumes "bm_wf bm"
  shows "rinv (bm_bit (bits bm)) TOTAL_HASH_SLOTS (natp (bm_ranges bm)) None"
proof -
  let ?S = "bm_bit (bits bm)"
  obtain rs st where r: "ranges_words 0 (bits bm) [] None = (rs, st)"
    by (cases "ranges_words 0 (bits bm) [] None")
  have len: "64 * (0 + length (bits bm)) = TOTAL_HASH_SLOTS"
    using assms by (simp add: bm_wf_def slot_consts)
  have "rinv ?S (64 * (0 + length (bits bm))) (natp rs) (map_option unat st)"
  proof (rule ranges_words_inv [OF _ _ _ r])
    show "rinv ?S (64 * 0) (natp []) (map_option unat None)"
      by (simp add: rinv_def)
    show "?S (64 * (0 + j) + n) = bit (bits bm ! j) n" if "j < length (bits bm)" "n < 64" for j n
      using that by (simp add: bm_bit_def)
  qed (use len in simp)
  then have i: "rinv ?S TOTAL_HASH_SLOTS (natp rs) (map_option unat st)" by (simp only: len)
  show ?thesis
  proof (cases st)
    case None
    with i r show ?thesis by (simp add: bm_ranges_def)
  next
    case (Some s)
    have "\<not> ?S TOTAL_HASH_SLOTS" using len by (simp add: bm_bit_def)
    moreover have "unat (as_u16 (TOTAL_HASH_SLOTS - 1)) = TOTAL_HASH_SLOTS - 1"
      by (simp add: slot_consts)
    ultimately show ?thesis
      using rinv_close [of ?S TOTAL_HASH_SLOTS "natp rs" "unat s"] i r Some
      by (simp add: bm_ranges_def)
  qed
qed


text \<open>
  C29: \<open>SlotBitmap::ranges\<close> (the word-skipping extraction with \<open>trailing_zeros\<close>) is
  correct on every bitmap: a slot is set exactly when one of the reported closed ranges
  contains it, every range is non-empty, and consecutive ranges are ascending and
  separated by at least one clear slot, so the list is the unique list of maximal runs.
\<close>

theorem bm_ranges_correct:
  assumes "bm_wf bm"
  shows "(\<forall>s. bm_is_set bm s \<longleftrightarrow> (\<exists>(a, b) \<in> set (bm_ranges bm). a \<le> s \<and> s \<le> b)) \<and>
    sorted_wrt (\<lambda>p q. unat (snd p) + 1 < unat (fst q)) (bm_ranges bm) \<and>
    (\<forall>(a, b) \<in> set (bm_ranges bm). a \<le> b)"
proof (intro conjI allI)
  let ?S = "bm_bit (bits bm)" and ?R = "natp (bm_ranges bm)"
  note i = bm_ranges_inv [OF assms]
  show "bm_is_set bm s \<longleftrightarrow> (\<exists>(a, b) \<in> set (bm_ranges bm). a \<le> s \<and> s \<le> b)" for s
  proof -
    have "?S (unat s) \<Longrightarrow> unat s < TOTAL_HASH_SLOTS"
      using assms by (simp add: bm_bit_def bm_wf_def slot_consts)
    then have "?S (unat s) \<longleftrightarrow> (\<exists>p \<in> set ?R. fst p \<le> unat s \<and> unat s \<le> snd p)"
      using i by (auto simp: rinv_def run_ok_def)
    then show ?thesis
      using assms by (fastforce simp: bm_is_set_bit word_le_nat_alt)
  qed
  have "sorted_wrt (\<lambda>p q. snd p + 1 < fst q) ?R"
  proof (rule sorted_wrt_mono_rel [of _ "\<lambda>p q. snd p < fst q"])
    fix p q
    assume "p \<in> set ?R" "q \<in> set ?R" and l: "snd p < fst q"
    then have "run_ok ?S TOTAL_HASH_SLOTS p" "run_ok ?S TOTAL_HASH_SLOTS q"
      using i unfolding rinv_def by blast+
    then have "\<not> ?S (Suc (snd p))" "?S (fst q)" by (auto simp: run_ok_def)
    then have "fst q \<noteq> Suc (snd p)" by metis
    with l show "snd p + 1 < fst q" by simp
  qed (use i in \<open>simp add: rinv_def\<close>)
  then show "sorted_wrt (\<lambda>p q. unat (snd p) + 1 < unat (fst q)) (bm_ranges bm)"
    by (simp add: sorted_wrt_map split_beta)
  show "\<forall>(a, b) \<in> set (bm_ranges bm). a \<le> b"
    using i by (fastforce simp: rinv_def run_ok_def word_le_nat_alt)
qed

theorem bm_ranges_correct_witness:
  "bm_is_set (bm_set (bm_set bm_new 5) 6) 6 \<and>
   (\<exists>(a, b) \<in> set (bm_ranges (bm_set (bm_set bm_new 5) 6)). a \<le> 6 \<and> 6 \<le> b)"
proof -
  have wf: "bm_wf (bm_set (bm_set bm_new 5) 6)" by simp
  have "bm_is_set (bm_set (bm_set bm_new 5) 6) 6"
    by (simp add: bm.member_add slot_consts)
  then show ?thesis using bm_ranges_correct [OF wf] by blast
qed

text \<open>
  \<open>SlotBitmap\<close> bytes round trip in both directions.  Decoding the little-endian image
  of a bitmap gives it back, an accepted byte string is the image of the bitmap it decodes
  to, exactly the strings of \<open>SLOT_BYTES\<close> bytes are accepted, and \<open>count\<close> is the number of
  set slots.
\<close>

theorem bm_bytes_roundtrip:
  assumes "bm_wf bm"
  shows "bm_from_bytes (bm_to_bytes bm) = Inr bm \<and>
    (\<forall>bs bm'. bm_from_bytes bs = Inr bm' \<longrightarrow> bm_wf bm' \<and> bm_to_bytes bm' = bs) \<and>
    (\<forall>bs. (\<exists>bm'. bm_from_bytes bs = Inr bm') \<longleftrightarrow> length bs = SLOT_BYTES) \<and>
    bm_count bm = card {s. bm_is_set bm s}"
proof (intro conjI allI impI)
  show "bm_from_bytes (bm_to_bytes bm) = Inr bm" by (rule bm_from_to_bytes [OF assms])
  show "bm_wf bm'" if "bm_from_bytes bs = Inr bm'" for bs bm' using bm_to_from_bytes [OF that] by simp
  show "bm_to_bytes bm' = bs" if "bm_from_bytes bs = Inr bm'" for bs bm' using bm_to_from_bytes [OF that] by simp
  show "(\<exists>bm'. bm_from_bytes bs = Inr bm') \<longleftrightarrow> length bs = SLOT_BYTES" for bs
    by (simp add: bm_from_bytes_def)
  show "bm_count bm = card {s. bm_is_set bm s}" by (rule bm_count_card [OF assms])
qed

theorem bm_bytes_roundtrip_witness:
  "bm_from_bytes (bm_to_bytes (bm_set bm_new 5)) = Inr (bm_set bm_new 5) \<and>
   bm_count (bm_set bm_new 5) = 1"
proof -
  have wf: "bm_wf (bm_set bm_new 5)" by simp
  have "{s. bm_is_set (bm_set bm_new 5) s} = {5}"
    by (auto simp: bm.member_add bm.member_none slot_consts)
  then show ?thesis using bm_bytes_roundtrip [OF wf] by simp
qed

end
