(* ===== verification/Cluster_Config.thy ===== *)
theory Cluster_Config
  imports Cluster_Bitmap
begin

text \<open>
  The cluster configuration of \<open>src/wedb_cluster/src/config.rs\<close>: the slot table and the
  worker table, the lookups on them, the operations that add and remove workers and
  change one slot, and the arbitration of equal configuration epochs.  Index 0 of the
  worker table is a reserved entry that stands for "nobody", index 1 is the local node.
\<close>

section \<open>State\<close>

definition RESERVED_WORKER_ID :: nat where
  "RESERVED_WORKER_ID = 0"

definition LOCAL_WORKER_ID :: nat where
  "LOCAL_WORKER_ID = 1"

definition CLUSTER_CONFIG_VERSION :: u8 where
  "CLUSTER_CONFIG_VERSION = 1"

record ClusterConfig =
  slot_map :: "HashSlot list"
  workers :: "Worker list"

definition ClusterConfig_new :: ClusterConfig where
  "ClusterConfig_new =
     \<lparr>slot_map = replicate TOTAL_HASH_SLOTS HashSlot_default,
      workers = [Worker_unassigned,
                 Worker_default\<lparr>node_id := None, address := ''127.0.0.1'', port := 0,
                   config_epoch := 0, role := Unassigned, replica_of_node_id := None,
                   replication_offset := 0, hostname := None\<rparr>]\<rparr>"

definition from_slots_and_workers :: "HashSlot list \<Rightarrow> Worker list \<Rightarrow> ClusterConfig" where
  "from_slots_and_workers sm ws =
     \<lparr>slot_map = sm,
      workers = (if ws = [] then [Worker_unassigned]
                 else ws[RESERVED_WORKER_ID := Worker_unassigned])\<rparr>"

definition num_workers :: "ClusterConfig \<Rightarrow> nat" where
  "num_workers c = (if workers c = [] then 0 else length (workers c) - 1)"

definition initialize_local_worker :: "ClusterConfig \<Rightarrow> Worker \<Rightarrow> ClusterConfig" where
  "initialize_local_worker c w =
     (let ws = (if length (workers c) < 2
                then workers c @ replicate (2 - length (workers c)) Worker_default
                else workers c)
      in c\<lparr>workers := ws[LOCAL_WORKER_ID := w]\<rparr>)"

section \<open>Lookups\<close>

definition local_node_ip :: "ClusterConfig \<Rightarrow> string" where
  "local_node_ip c =
     (case get (workers c) LOCAL_WORKER_ID of Some w \<Rightarrow> address w | None \<Rightarrow> ''127.0.0.1'')"

definition local_node_port :: "ClusterConfig \<Rightarrow> u16" where
  "local_node_port c = (case get (workers c) LOCAL_WORKER_ID of Some w \<Rightarrow> port w | None \<Rightarrow> 0)"

definition local_node_id :: "ClusterConfig \<Rightarrow> string option" where
  "local_node_id c = Option.bind (get (workers c) LOCAL_WORKER_ID) node_id"

definition local_node_role :: "ClusterConfig \<Rightarrow> NodeRole" where
  "local_node_role c =
     (case get (workers c) LOCAL_WORKER_ID of Some w \<Rightarrow> role w | None \<Rightarrow> Unassigned)"

definition local_node_config_epoch :: "ClusterConfig \<Rightarrow> int" where
  "local_node_config_epoch c =
     (case get (workers c) LOCAL_WORKER_ID of Some w \<Rightarrow> config_epoch w | None \<Rightarrow> 0)"

definition local_node_primary_id :: "ClusterConfig \<Rightarrow> string option" where
  "local_node_primary_id c = Option.bind (get (workers c) LOCAL_WORKER_ID) replica_of_node_id"

definition is_primary :: "ClusterConfig \<Rightarrow> bool" where
  "is_primary c \<longleftrightarrow> local_node_role c = Primary"

definition is_replica :: "ClusterConfig \<Rightarrow> bool" where
  "is_replica c \<longleftrightarrow> local_node_role c = Replica"

definition has_assigned_slots :: "ClusterConfig \<Rightarrow> u16 \<Rightarrow> bool" where
  "has_assigned_slots c wid \<longleftrightarrow> list_ex (\<lambda>hs. effective_worker_id hs = wid) (slot_map c)"

definition is_local :: "ClusterConfig \<Rightarrow> u16 \<Rightarrow> bool \<Rightarrow> bool" where
  "is_local c slot allow_replica_read \<longleftrightarrow>
     (let s = unat slot in
      if s \<ge> TOTAL_HASH_SLOTS then False
      else
        let item = slot_map c ! s in
        if worker_id item = as_u16 LOCAL_WORKER_ID then
          \<not> (is_replica c \<and> \<not> allow_replica_read)
        else if state item = Migrating then True
        else if allow_replica_read \<and> is_replica c \<and> worker_id item > as_u16 LOCAL_WORKER_ID then
          (case local_node_primary_id c of
             None \<Rightarrow> False
           | Some local_pri \<Rightarrow>
               (case get (workers c) (unat (worker_id item)) of
                  None \<Rightarrow> False
                | Some owner \<Rightarrow>
                    (case node_id owner of
                       None \<Rightarrow> False
                     | Some owner_id \<Rightarrow> eq_ignore_ascii_case owner_id local_pri)))
        else False)"

definition is_importing_slot :: "ClusterConfig \<Rightarrow> u16 \<Rightarrow> bool" where
  "is_importing_slot c slot \<longleftrightarrow>
     (case get (slot_map c) (unat slot) of None \<Rightarrow> False | Some item \<Rightarrow> state item = Importing)"

definition is_migrating_slot :: "ClusterConfig \<Rightarrow> u16 \<Rightarrow> bool" where
  "is_migrating_slot c slot \<longleftrightarrow>
     (case get (slot_map c) (unat slot) of None \<Rightarrow> False | Some item \<Rightarrow> state item = Migrating)"

definition get_worker_address :: "ClusterConfig \<Rightarrow> nat \<Rightarrow> string \<times> u16" where
  "get_worker_address c wid =
     (case get (workers c) wid of
        Some w \<Rightarrow> (address w, port w) | None \<Rightarrow> (''unassigned'', 0))"

text \<open>The test of one entry in the search by node id (case-insensitive).\<close>

definition has_node_id :: "string \<Rightarrow> Worker \<Rightarrow> bool" where
  "has_node_id nid w \<longleftrightarrow>
     (case node_id w of Some i \<Rightarrow> eq_ignore_ascii_case i nid | None \<Rightarrow> False)"

definition get_worker_id_from_node_id :: "ClusterConfig \<Rightarrow> string \<Rightarrow> nat" where
  "get_worker_id_from_node_id c nid =
     (case position (has_node_id nid) (drop 1 (workers c)) of Some p \<Rightarrow> p + 1 | None \<Rightarrow> 0)"

definition is_known :: "ClusterConfig \<Rightarrow> string \<Rightarrow> bool" where
  "is_known c nid \<longleftrightarrow> get_worker_id_from_node_id c nid \<noteq> 0"

definition get_node_role_from_node_id :: "ClusterConfig \<Rightarrow> string \<Rightarrow> NodeRole" where
  "get_node_role_from_node_id c nid =
     (let idx = get_worker_id_from_node_id c nid
      in if idx = 0 then Unassigned else role (workers c ! idx))"

definition get_worker_address_from_node_id :: "ClusterConfig \<Rightarrow> string \<Rightarrow> (string \<times> u16) option" where
  "get_worker_address_from_node_id c nid =
     (let idx = get_worker_id_from_node_id c nid
      in if idx = 0 then None else Some (address (workers c ! idx), port (workers c ! idx)))"

definition get_owner_id_from_slot :: "ClusterConfig \<Rightarrow> u16 \<Rightarrow> string option" where
  "get_owner_id_from_slot c slot =
     (let s = unat slot in
      if s \<ge> TOTAL_HASH_SLOTS then None
      else Option.bind (get (workers c) (unat (effective_worker_id (slot_map c ! s)))) node_id)"

definition get_node_id_from_slot :: "ClusterConfig \<Rightarrow> u16 \<Rightarrow> string option" where
  "get_node_id_from_slot c slot =
     (let s = unat slot in
      if s \<ge> TOTAL_HASH_SLOTS then None
      else Option.bind (get (workers c) (unat (worker_id (slot_map c ! s)))) node_id)"

definition get_state :: "ClusterConfig \<Rightarrow> u16 \<Rightarrow> SlotState" where
  "get_state c slot =
     (let s = unat slot in
      if s \<ge> TOTAL_HASH_SLOTS then Invalid else state (slot_map c ! s))"

definition get_slot_count_for_state :: "ClusterConfig \<Rightarrow> SlotState \<Rightarrow> nat" where
  "get_slot_count_for_state c st = length (filter (\<lambda>hs. state hs = st) (slot_map c))"

definition get_primary_count :: "ClusterConfig \<Rightarrow> nat" where
  "get_primary_count c = length (filter (\<lambda>w. role w = Primary) (drop 1 (workers c)))"

definition get_max_config_epoch :: "ClusterConfig \<Rightarrow> int" where
  "get_max_config_epoch c =
     (case map config_epoch (drop 1 (workers c)) of
        [] \<Rightarrow> 0 | e # es \<Rightarrow> foldl max e es)"

definition replicates :: "string \<Rightarrow> Worker \<Rightarrow> bool" where
  "replicates pid w \<longleftrightarrow>
     (case replica_of_node_id w of Some r \<Rightarrow> eq_ignore_ascii_case r pid | None \<Rightarrow> False)"

definition get_replica_ids :: "ClusterConfig \<Rightarrow> string \<Rightarrow> string list" where
  "get_replica_ids c pid =
     List.map_filter (\<lambda>w. if replicates pid w then node_id w else None) (drop 1 (workers c))"

definition get_replica_worker_ids :: "ClusterConfig \<Rightarrow> string \<Rightarrow> nat list" where
  "get_replica_worker_ids c pid =
     filter (\<lambda>i. replicates pid (workers c ! i) \<and> node_id (workers c ! i) \<noteq> None)
       [1..<length (workers c)]"

section \<open>Updates\<close>

definition update_slot_state :: "ClusterConfig \<Rightarrow> u16 \<Rightarrow> u16 \<Rightarrow> SlotState \<Rightarrow> ClusterConfig" where
  "update_slot_state c slot wid st =
     (let s = unat slot in
      if s < TOTAL_HASH_SLOTS
      then c\<lparr>slot_map := (slot_map c)[s := (slot_map c ! s)\<lparr>worker_id := wid, state := st\<rparr>]\<rparr>
      else c)"

definition add_worker :: "ClusterConfig \<Rightarrow> Worker \<Rightarrow> ClusterConfig \<times> nat" where
  "add_worker c w =
     (let existing = (case node_id w of
                        Some new_id \<Rightarrow> get_worker_id_from_node_id c new_id | None \<Rightarrow> 0) in
      if existing \<noteq> 0 then (c\<lparr>workers := (workers c)[existing := w]\<rparr>, existing)
      else (c\<lparr>workers := workers c @ [w]\<rparr>, length (workers c)))"

text \<open>What \<open>remove_worker\<close> does to one slot when worker \<open>removed\<close> leaves the table.\<close>

definition remove_slot_ref :: "u16 \<Rightarrow> HashSlot \<Rightarrow> HashSlot" where
  "remove_slot_ref removed hs =
     (if worker_id hs > removed then hs\<lparr>worker_id := worker_id hs - 1\<rparr>
      else if worker_id hs = removed then
        (case state hs of
           Migrating \<Rightarrow> hs\<lparr>worker_id := as_u16 LOCAL_WORKER_ID, state := Stable\<rparr>
         | _ \<Rightarrow> hs\<lparr>worker_id := 0, state := Offline\<rparr>)
      else hs)"

definition remove_worker :: "ClusterConfig \<Rightarrow> string \<Rightarrow> ClusterError + ClusterConfig" where
  "remove_worker c nid =
     (let idx = get_worker_id_from_node_id c nid in
      if idx = 0 then Inl (UnknownNode nid)
      else Inr (c\<lparr>slot_map := map (remove_slot_ref (as_u16 idx)) (slot_map c),
                  workers := remove_at idx (workers c)\<rparr>))"

definition resolve_epoch_collision :: "ClusterConfig \<Rightarrow> string \<Rightarrow> int \<Rightarrow> ClusterConfig \<times> bool" where
  "resolve_epoch_collision c remote_node_id remote_epoch =
     (case local_node_id c of
        None \<Rightarrow> (c, False)
      | Some local_id \<Rightarrow>
          if is_primary c \<and> local_node_config_epoch c = remote_epoch \<and> remote_epoch > 0
             \<and> local_id < remote_node_id
          then
            let new_epoch = i64_wrap (get_max_config_epoch c + 1) in
            ((case get (workers c) LOCAL_WORKER_ID of
                Some w \<Rightarrow> c\<lparr>workers := (workers c)[LOCAL_WORKER_ID := w\<lparr>config_epoch := new_epoch\<rparr>]\<rparr>
              | None \<Rightarrow> c), True)
          else (c, False))"

section \<open>Well-formed configurations\<close>

text \<open>
  The invariant: all slots are present, the reserved and the local entry exist, the
  reserved entry is never written, and every slot refers to an entry of the table.
\<close>

definition wf_config :: "ClusterConfig \<Rightarrow> bool" where
  "wf_config c \<longleftrightarrow>
     length (slot_map c) = TOTAL_HASH_SLOTS \<and> 2 \<le> length (workers c) \<and>
     workers c ! 0 = Worker_unassigned \<and>
     list_all (\<lambda>hs. unat (worker_id hs) < length (workers c)) (slot_map c)"

text \<open>A three-entry configuration with a local, a migrating, an importing and a remote slot.\<close>

definition sample_config :: ClusterConfig where
  "sample_config =
     \<lparr>slot_map = (replicate TOTAL_HASH_SLOTS (HashSlot_new 2 Stable))
        [0 := HashSlot_new 1 Stable, 1 := HashSlot_new 2 Migrating, 2 := HashSlot_new 2 Importing],
      workers = [Worker_unassigned, Worker_primary ''aa'' ''10.0.0.1'' 7001 4,
                 Worker_primary ''bb'' ''10.0.0.2'' 7002 4]\<rparr>"

section \<open>Lemmas\<close>

lemmas worker_index_defs [simp] = LOCAL_WORKER_ID_def RESERVED_WORKER_ID_def

lemma worker_lookup_Some:
  assumes "get_worker_id_from_node_id c nid = i" and "i \<noteq> 0"
  shows "i < length (workers c)" and "has_node_id nid (workers c ! i)"
    and "1 \<le> j \<Longrightarrow> j < i \<Longrightarrow> \<not> has_node_id nid (workers c ! j)"
proof -
  from assms obtain p where p: "position (has_node_id nid) (drop 1 (workers c)) = Some p"
    and i: "i = p + 1"
    by (auto simp: get_worker_id_from_node_id_def split: option.splits)
  then show "i < length (workers c)" and "has_node_id nid (workers c ! i)"
    by (auto simp: position_Some)
  assume "1 \<le> j" and "j < i"
  then show "\<not> has_node_id nid (workers c ! j)"
    using p i by (auto simp: position_Some dest!: spec [of _ "j - 1"])
qed

lemma worker_lookup_0:
  "get_worker_id_from_node_id c nid = 0 \<longleftrightarrow> (\<forall>w \<in> set (drop 1 (workers c)). \<not> has_node_id nid w)"
  by (simp add: get_worker_id_from_node_id_def position_None [symmetric] split: option.splits)

lemma foldl_max_eq: "foldl max e es = Max (set ((e :: 'a::linorder) # es))"
proof -
  have "(\<lambda>x a. max a x) = (max :: 'a \<Rightarrow> 'a \<Rightarrow> 'a)" by (simp add: fun_eq_iff max.commute)
  then show ?thesis by (simp only: foldl_conv_fold Max.set_eq_fold)
qed

lemma max_epoch_eq:
  assumes "2 \<le> length (workers c)"
  shows "get_max_config_epoch c = Max (config_epoch ` set (drop 1 (workers c)))"
proof -
  obtain w ws where "drop 1 (workers c) = w # ws"
    using assms by (cases "drop 1 (workers c)") auto
  then show ?thesis by (simp add: get_max_config_epoch_def foldl_max_eq)
qed

lemma max_epoch_ge:
  assumes "1 \<le> i" and "i < length (workers c)"
  shows "config_epoch (workers c ! i) \<le> get_max_config_epoch c"
proof -
  have "drop 1 (workers c) ! (i - 1) \<in> set (drop 1 (workers c))"
    using assms by (intro nth_mem) auto
  then have "workers c ! i \<in> set (drop 1 (workers c))" using assms by simp
  then show ?thesis using assms by (simp add: max_epoch_eq)
qed

lemma max_epoch_attained:
  assumes "2 \<le> length (workers c)"
  shows "\<exists>w \<in> set (drop 1 (workers c)). get_max_config_epoch c = config_epoch w"
proof -
  have "Max (config_epoch ` set (drop 1 (workers c))) \<in> config_epoch ` set (drop 1 (workers c))"
    using assms by (intro Max_in) auto
  then show ?thesis unfolding max_epoch_eq [OF assms] by (metis imageE)
qed

lemma wf_configD:
  assumes "wf_config c"
  shows "length (slot_map c) = TOTAL_HASH_SLOTS" and "2 \<le> length (workers c)"
    and "0 < length (workers c)" and "1 < length (workers c)"
    and "workers c ! 0 = Worker_unassigned"
    and "s < TOTAL_HASH_SLOTS \<Longrightarrow> unat (worker_id (slot_map c ! s)) < length (workers c)"
    and "hs \<in> set (slot_map c) \<Longrightarrow> unat (worker_id hs) < length (workers c)"
  using assms by (auto simp: wf_config_def list_all_iff)

lemma wf_config_slots:
  assumes "wf_config c" and "length sm = TOTAL_HASH_SLOTS"
    and "\<And>s. s < TOTAL_HASH_SLOTS \<Longrightarrow> unat (worker_id (sm ! s)) < length (workers c)"
  shows "wf_config (c\<lparr>slot_map := sm\<rparr>)"
  using assms by (auto simp: wf_config_def list_all_length)

lemma wf_config_worker_update:
  "wf_config c \<Longrightarrow> i \<noteq> 0 \<Longrightarrow> wf_config (c\<lparr>workers := (workers c)[i := w]\<rparr>)"
  by (simp add: wf_config_def)

lemma wf_config_worker_push:
  "wf_config c \<Longrightarrow> wf_config (c\<lparr>workers := workers c @ [w]\<rparr>)"
  by (auto simp: wf_config_def list_all_iff nth_append)

lemma wf_ClusterConfig_new [wedb_inv]: "wf_config ClusterConfig_new"
  by (simp add: wf_config_def ClusterConfig_new_def HashSlot_default_def list_all_iff)

lemma wf_initialize_local_worker [wedb_inv]:
  "wf_config c \<Longrightarrow> wf_config (initialize_local_worker c w)"
  by (simp add: initialize_local_worker_def wf_configD wf_config_worker_update leD)

lemma wf_update_slot_state [wedb_inv]:
  assumes "wf_config c" and "unat wid < length (workers c)"
  shows "wf_config (update_slot_state c slot wid st)"
  using assms
  by (auto simp: update_slot_state_def Let_def nth_list_update wf_configD intro!: wf_config_slots)

lemma wf_add_worker [wedb_inv]:
  "wf_config c \<Longrightarrow> wf_config (fst (add_worker c w))"
  by (simp add: add_worker_def Let_def wf_config_worker_update wf_config_worker_push)

lemma wf_resolve_epoch_collision [wedb_inv]:
  "wf_config c \<Longrightarrow> wf_config (fst (resolve_epoch_collision c rid re))"
  by (simp add: resolve_epoch_collision_def Let_def wf_config_worker_update split: option.splits)

lemma remove_slot_ref_bound:
  assumes "unat (worker_id hs) < n" and "idx < n" and "3 \<le> n"
  shows "unat (worker_id (remove_slot_ref (as_u16 idx) hs)) < n - 1"
proof -
  consider "worker_id hs > as_u16 idx" | "worker_id hs = as_u16 idx" | "worker_id hs < as_u16 idx"
    by force
  then show ?thesis
  proof cases
    case 1
    then have "1 \<le> worker_id hs" by (simp add: word_le_nat_alt word_less_nat_alt)
    then have "unat (worker_id hs - 1) = unat (worker_id hs) - 1" and "1 \<le> unat (worker_id hs)"
      by (simp_all add: unat_sub word_le_nat_alt)
    with 1 assms show ?thesis by (simp add: remove_slot_ref_def)
  next
    case 2
    with assms show ?thesis by (auto simp: remove_slot_ref_def split: SlotState.split)
  next
    case 3
    then have "unat (worker_id hs) < idx"
      using unat_as_u16_le [of idx] by (simp only: word_less_nat_alt)
    with 3 assms show ?thesis by (auto simp: remove_slot_ref_def)
  qed
qed

lemma wf_remove_worker [wedb_inv]:
  assumes "wf_config c" and "remove_worker c nid = Inr c'"
    and "get_worker_id_from_node_id c nid \<noteq> 1"
  shows "wf_config c'"
proof -
  define idx where "idx = get_worker_id_from_node_id c nid"
  have idx: "idx \<noteq> 0" "idx \<noteq> 1"
    and c': "c' = c\<lparr>slot_map := map (remove_slot_ref (as_u16 idx)) (slot_map c),
                    workers := remove_at idx (workers c)\<rparr>"
    using assms by (auto simp: remove_worker_def Let_def idx_def split: if_splits)
  have il: "idx < length (workers c)" using worker_lookup_Some(1) idx idx_def by metis
  then have "unat (worker_id hs) < length (workers c) \<Longrightarrow>
      unat (worker_id (remove_slot_ref (as_u16 idx) hs)) < length (workers c) - 1" for hs
    using idx by (intro remove_slot_ref_bound) auto
  then show ?thesis
    using assms(1) idx il
    by (auto simp: c' wf_config_def list_all_iff length_remove_at nth_remove_at)
qed

lemma remove_worker_slot:
  assumes "wf_config c" and "length (workers c) \<le> 65536" and "remove_worker c nid = Inr c'"
    and "unat slot < TOTAL_HASH_SLOTS"
    and "worker_id (slot_map c ! unat slot) \<noteq> as_u16 (get_worker_id_from_node_id c nid)"
  shows "get_node_id_from_slot c' slot = get_node_id_from_slot c slot"
    and "get_state c' slot = get_state c slot"
proof -
  define idx where "idx = get_worker_id_from_node_id c nid"
  define hs where "hs = slot_map c ! unat slot"
  have idx: "idx \<noteq> 0"
    and c': "c' = c\<lparr>slot_map := map (remove_slot_ref (as_u16 idx)) (slot_map c),
                    workers := remove_at idx (workers c)\<rparr>"
    using assms(3) by (auto simp: remove_worker_def Let_def idx_def split: if_splits)
  have il: "idx < length (workers c)" using worker_lookup_Some(1) idx idx_def by metis
  then have ui: "unat (as_u16 idx) = idx" using assms(2) by (intro unat_as_u16) simp
  have hl: "unat (worker_id hs) < length (workers c)"
    using assms(1,4) by (simp add: hs_def wf_configD)
  have hne: "unat (worker_id hs) \<noteq> idx"
    using assms(5) ui by (metis hs_def idx_def word_unat_eq_iff)
  have sl: "slot_map c' ! unat slot = remove_slot_ref (as_u16 idx) hs"
    using assms(1,4) by (simp add: c' hs_def wf_configD)
  have "state (remove_slot_ref (as_u16 idx) hs) = state hs"
    using assms(5) by (auto simp: remove_slot_ref_def hs_def idx_def)
  then show "get_state c' slot = get_state c slot"
    using assms(4) by (simp add: get_state_def sl hs_def)
  have "get (workers c') (unat (worker_id (remove_slot_ref (as_u16 idx) hs)))
        = get (workers c) (unat (worker_id hs))"
  proof (cases "worker_id hs > as_u16 idx")
    case True
    then have lt: "idx < unat (worker_id hs)" by (simp only: word_less_nat_alt ui)
    then have "unat (worker_id hs - 1) = unat (worker_id hs) - 1"
      by (simp add: unat_sub word_le_nat_alt)
    with True lt hl il show ?thesis
      by (auto simp: c' remove_slot_ref_def get_def length_remove_at nth_remove_at)
  next
    case False
    then have lt: "unat (worker_id hs) < idx" using hne by (simp add: word_less_nat_alt ui)
    then have "worker_id hs < as_u16 idx" by (simp only: word_less_nat_alt ui)
    with lt hl il show ?thesis
      by (auto simp: c' remove_slot_ref_def get_def length_remove_at nth_remove_at)
  qed
  then show "get_node_id_from_slot c' slot = get_node_id_from_slot c slot"
    using assms(4) by (simp add: get_node_id_from_slot_def sl hs_def [symmetric])
qed


lemma remove_worker_dangling:
  assumes "wf_config c" and "remove_worker c nid = Inr c'" and "unat slot < TOTAL_HASH_SLOTS"
    and "worker_id (slot_map c ! unat slot) = as_u16 (get_worker_id_from_node_id c nid)"
  shows "slot_map c' ! unat slot =
    (if state (slot_map c ! unat slot) = Migrating then HashSlot_new (as_u16 LOCAL_WORKER_ID) Stable
     else HashSlot_default)"
proof -
  have "slot_map c' ! unat slot
        = remove_slot_ref (worker_id (slot_map c ! unat slot)) (slot_map c ! unat slot)"
    using assms by (auto simp: remove_worker_def Let_def wf_configD split: if_splits)
  then show ?thesis
    by (cases "slot_map c ! unat slot")
       (simp add: remove_slot_ref_def HashSlot_new_def HashSlot_default_def split: SlotState.split)
qed

lemma resolve_epoch_collision_workers:
  assumes "resolve_epoch_collision c rid re = (c', True)" and "2 \<le> length (workers c)"
  shows "workers c' = (workers c)[1 := (workers c ! 1)\<lparr>config_epoch := i64_wrap (get_max_config_epoch c + 1)\<rparr>]"
  using assms by (auto simp: resolve_epoch_collision_def Let_def split: option.splits if_splits)

lemma sample_config_slots:
  "slot_map sample_config ! 0 = HashSlot_new 1 Stable"
  "slot_map sample_config ! 1 = HashSlot_new 2 Migrating"
  "slot_map sample_config ! Suc 0 = HashSlot_new 2 Migrating"
  "slot_map sample_config ! 2 = HashSlot_new 2 Importing"
  "slot_map sample_config ! 3 = HashSlot_new 2 Stable"
  by (simp_all add: sample_config_def slot_consts nth_list_update)

lemma sample_config_workers:
  "workers sample_config = [Worker_unassigned, Worker_primary ''aa'' ''10.0.0.1'' 7001 4,
                 Worker_primary ''bb'' ''10.0.0.2'' 7002 4]"
  by (simp add: sample_config_def)

lemma sample_config_wf: "wf_config sample_config"
  by (auto simp: wf_config_def sample_config_def list_all_length HashSlot_new_def nth_list_update
      slot_consts)

lemmas sample_config_simps = sample_config_slots sample_config_workers sample_config_wf

text \<open>
  C28: \<open>remove_worker\<close> drops exactly the entry of the removed node.  A slot that referred to
  another node keeps the node id and the state it had, although the indices behind the
  removed entry shift; a slot that was migrating to the removed node returns to the local
  node as stable, and every other slot that referred to it goes offline.
\<close>

theorem remove_worker_correct:
  assumes "wf_config c" and "length (workers c) \<le> 65536"
    and "remove_worker c nid = Inr c'" and "unat slot < TOTAL_HASH_SLOTS"
  shows "workers c' = remove_at (get_worker_id_from_node_id c nid) (workers c) \<and>
    (if worker_id (slot_map c ! unat slot) = as_u16 (get_worker_id_from_node_id c nid)
     then slot_map c' ! unat slot =
            (if state (slot_map c ! unat slot) = Migrating
             then HashSlot_new (as_u16 LOCAL_WORKER_ID) Stable else HashSlot_default)
     else get_node_id_from_slot c' slot = get_node_id_from_slot c slot \<and>
          get_state c' slot = get_state c slot)"
proof -
  have "workers c' = remove_at (get_worker_id_from_node_id c nid) (workers c)"
    using assms(3) by (auto simp: remove_worker_def Let_def split: if_splits)
  then show ?thesis
    using remove_worker_slot [OF assms] remove_worker_dangling [OF assms(1,3,4)] by simp
qed

theorem remove_worker_correct_witness:
  "\<exists>c'. remove_worker sample_config ''BB'' = Inr c' \<and>
    slot_map c' ! 1 = HashSlot_new 1 Stable \<and> slot_map c' ! 3 = HashSlot_default \<and>
    get_node_id_from_slot c' 0 = Some ''aa''"
proof -
  have idx: "get_worker_id_from_node_id sample_config ''BB'' = 2"
    by (simp add: get_worker_id_from_node_id_def sample_config_simps has_node_id_def
        Worker_primary_def Worker_new_def eq_ignore_ascii_case_def to_ascii_lowercase_def char_of_def bit_0)
  then obtain c' where c': "remove_worker sample_config ''BB'' = Inr c'"
    by (simp add: remove_worker_def Let_def)
  have l: "length (workers sample_config) \<le> 65536" by (simp add: sample_config_simps)
  note rw = remove_worker_correct [OF sample_config_wf l c']
  have "slot_map c' ! 1 = HashSlot_new 1 Stable"
    using rw [of 1] by (simp add: idx sample_config_slots HashSlot_new_def slot_consts)
  moreover have "slot_map c' ! 3 = HashSlot_default"
    using rw [of 3] by (simp add: idx sample_config_slots HashSlot_new_def slot_consts)
  moreover have "get_node_id_from_slot sample_config 0 = Some ''aa''"
    by (simp add: sample_config_slots HashSlot_new_def slot_consts get_node_id_from_slot_def
        sample_config_workers Worker_primary_def Worker_new_def)
  then have "get_node_id_from_slot c' 0 = Some ''aa''"
    using rw [of 0] by (simp add: idx sample_config_slots HashSlot_new_def slot_consts)
  ultimately show ?thesis using c' by blast
qed

text \<open>
  When a remote primary reports the epoch of the local primary, the node with the
  smaller id wins the tie: \<open>resolve_epoch_collision\<close> answers true exactly for a positive
  equal epoch and a smaller local id, and then the local epoch is strictly greater than
  every epoch the node knew, while nothing but that epoch changes.
\<close>

theorem resolve_epoch_collision_correct:
  assumes "wf_config c" and "local_node_id c = Some lid"
    and "get_max_config_epoch c < i64_max" and "0 < re"
  shows "case resolve_epoch_collision c rid re of (c', bumped) \<Rightarrow>
    bumped = (is_primary c \<and> local_node_config_epoch c = re \<and> lid < rid) \<and>
    slot_map c' = slot_map c \<and>
    (if bumped
     then workers c' = (workers c)[1 := (workers c ! 1)\<lparr>config_epoch := local_node_config_epoch c'\<rparr>] \<and>
          (\<forall>w \<in> set (drop 1 (workers c)). config_epoch w < local_node_config_epoch c')
     else c' = c)"
proof -
  have l: "2 \<le> length (workers c)" using assms(1) by (rule wf_configD)
  obtain c' b where eq: "resolve_epoch_collision c rid re = (c', b)" by force
  have b: "b = (is_primary c \<and> local_node_config_epoch c = re \<and> lid < rid)"
    using eq assms(2,4) by (auto simp: resolve_epoch_collision_def Let_def split: if_splits)
  have sm: "slot_map c' = slot_map c"
    using eq by (auto simp: resolve_epoch_collision_def Let_def split: if_splits option.splits)
  show ?thesis
  proof (cases b)
    case False
    then have "c' = c"
      using eq by (auto simp: resolve_epoch_collision_def Let_def split: if_splits option.splits)
    with False b sm eq show ?thesis by auto
  next
    case True
    have w: "workers c' = (workers c)[1 := (workers c ! 1)\<lparr>config_epoch := i64_wrap (get_max_config_epoch c + 1)\<rparr>]"
      using eq True l by (intro resolve_epoch_collision_workers) auto
    have "0 < get_max_config_epoch c"
      using max_epoch_ge [of 1 c] l True b assms(4) by (simp add: local_node_config_epoch_def)
    then have "i64_wrap (get_max_config_epoch c + 1) = get_max_config_epoch c + 1"
      using assms(3) by (intro i64_wrap_Suc) auto
    then have le: "local_node_config_epoch c' = get_max_config_epoch c + 1"
      using l by (simp add: w local_node_config_epoch_def)
    have "config_epoch x < get_max_config_epoch c + 1" if x: "x \<in> set (drop 1 (workers c))" for x
    proof -
      have "config_epoch x \<le> Max (config_epoch ` set (drop 1 (workers c)))"
        using x by (intro Max_ge) auto
      then show ?thesis using max_epoch_eq [OF l] by simp
    qed
    moreover have "workers c' = (workers c)[1 := (workers c ! 1)\<lparr>config_epoch := local_node_config_epoch c'\<rparr>]"
      using w le \<open>i64_wrap (get_max_config_epoch c + 1) = get_max_config_epoch c + 1\<close> by simp
    ultimately show ?thesis using True b sm eq le by simp
  qed
qed

theorem resolve_epoch_collision_correct_witness:
  "snd (resolve_epoch_collision sample_config ''bb'' 4) \<and>
   local_node_config_epoch (fst (resolve_epoch_collision sample_config ''bb'' 4)) > 4"
proof -
  have "local_node_id sample_config = Some ''aa''" and "get_max_config_epoch sample_config < i64_max"
    and "is_primary sample_config" and "local_node_config_epoch sample_config = 4"
    and "Worker_primary ''bb'' ''10.0.0.2'' 7002 4 \<in> set (drop 1 (workers sample_config))"
    by (simp_all add: sample_config_workers local_node_id_def local_node_config_epoch_def is_primary_def
        local_node_role_def get_max_config_epoch_def Worker_primary_def Worker_new_def i64_max_def)
  then show ?thesis
    using resolve_epoch_collision_correct [OF sample_config_wf, of "''aa''" 4 "''bb''"]
    by (auto simp: Worker_primary_def Worker_new_def split: prod.splits if_splits)
qed

end
