(* ===== verification/Cluster_Merge.thy ===== *)
theory Cluster_Merge
  imports Cluster_Config
begin

text \<open>
  Merging of gossip into a configuration (\<open>config.rs\<close>, \<open>merge_worker\<close>,
  \<open>merge_worker_ref\<close> and \<open>merge_sender_slots\<close>).  Worker data is accepted by configuration
  epoch; slots that a sender claims move to it unless their owner has an epoch that is not
  smaller, and slots that it no longer claims go offline.
\<close>

section \<open>Worker data\<close>

record WorkerMeta =
  m_node_id :: "string option"
  m_address :: string
  m_port :: u16
  m_config_epoch :: int
  m_role :: NodeRole
  m_replica_of :: "string option"
  m_hostname :: "string option"

definition merge_worker_ref :: "ClusterConfig \<Rightarrow> WorkerMeta \<Rightarrow> bool \<Rightarrow> ClusterConfig \<times> bool" where
  "merge_worker_ref c meta confirm_handshake =
     (case m_node_id meta of
        None \<Rightarrow> (c, False)
      | Some new_id \<Rightarrow>
        if new_id = [] then (c, False)
        else
          (case position (\<lambda>w. node_id w = Some new_id) (drop 1 (workers c)) of
             None \<Rightarrow>
               (c\<lparr>workers := workers c @
                   [Worker_default
                     \<lparr>node_id := Some new_id, address := m_address meta, port := m_port meta,
                      config_epoch := m_config_epoch meta, role := m_role meta,
                      replica_of_node_id := m_replica_of meta, hostname := m_hostname meta,
                      handshake := \<not> confirm_handshake\<rparr>]\<rparr>, True)
           | Some pos \<Rightarrow>
               let idx = pos + 1;
                   stored = workers c ! idx;
                   handshake_ok = confirm_handshake \<and> handshake stored
                                  \<and> m_config_epoch meta \<ge> config_epoch stored
               in
               if \<not> (m_config_epoch meta > config_epoch stored \<or> handshake_ok) then (c, False)
               else
                 let changed = (m_config_epoch meta \<noteq> config_epoch stored
                                \<or> m_address meta \<noteq> address stored
                                \<or> m_port meta \<noteq> port stored
                                \<or> m_role meta \<noteq> role stored
                                \<or> m_replica_of meta \<noteq> replica_of_node_id stored
                                \<or> m_hostname meta \<noteq> hostname stored);
                     stored' = stored
                       \<lparr>config_epoch := m_config_epoch meta, port := m_port meta,
                        role := m_role meta, handshake := False,
                        address := (if address stored \<noteq> m_address meta
                                    then m_address meta else address stored),
                        replica_of_node_id := (if replica_of_node_id stored \<noteq> m_replica_of meta
                                               then m_replica_of meta else replica_of_node_id stored),
                        hostname := (if hostname stored \<noteq> m_hostname meta
                                     then m_hostname meta else hostname stored)\<rparr>
                 in (c\<lparr>workers := (workers c)[idx := stored']\<rparr>, changed)))"

definition meta_of :: "Worker \<Rightarrow> WorkerMeta" where
  "meta_of w =
     \<lparr>m_node_id = node_id w, m_address = address w, m_port = port w,
      m_config_epoch = config_epoch w, m_role = role w,
      m_replica_of = replica_of_node_id w, m_hostname = hostname w\<rparr>"

definition merge_worker :: "ClusterConfig \<Rightarrow> Worker \<Rightarrow> ClusterConfig \<times> bool" where
  "merge_worker c w = merge_worker_ref c (meta_of w) False"

section \<open>Slots\<close>

text \<open>One claim of the sender: the first loop of \<open>merge_sender_slots\<close>.\<close>

definition claim_slot :: "Worker list \<Rightarrow> u16 \<Rightarrow> int \<Rightarrow> HashSlot list \<times> bool \<Rightarrow> u16 \<Rightarrow> HashSlot list \<times> bool" where
  "claim_slot ws sender_wid sender_epoch acc slot =
     (case acc of (sm, updated) \<Rightarrow>
        let s = unat slot in
        if s \<ge> TOTAL_HASH_SLOTS then (sm, updated)
        else
          let cur = sm ! s;
              owner_epoch = (case get ws (unat (worker_id cur)) of
                               Some w \<Rightarrow> config_epoch w | None \<Rightarrow> 0)
          in
          if sender_epoch \<noteq> 0 \<and> owner_epoch \<ge> sender_epoch then (sm, updated)
          else if worker_id cur \<noteq> sender_wid \<or> state cur \<noteq> Stable
               then (sm[s := HashSlot_new sender_wid Stable], True)
               else (sm, updated))"

text \<open>The test of the second loop: a slot of the sender that it no longer claims.\<close>

definition abdicated :: "u16 \<Rightarrow> SlotBitmap \<Rightarrow> nat \<Rightarrow> HashSlot \<Rightarrow> bool" where
  "abdicated sender_wid claimed s cur \<longleftrightarrow>
     worker_id cur = sender_wid \<and> (state cur = Stable \<or> state cur = Importing)
     \<and> \<not> bm_is_set claimed (as_u16 s)"

definition merge_sender_slots ::
  "ClusterConfig \<Rightarrow> string \<Rightarrow> int \<Rightarrow> u16 list \<Rightarrow> u16 list \<Rightarrow> ClusterConfig \<times> bool" where
  "merge_sender_slots c sender_id sender_epoch sender_slots migrating_slots =
     (if sender_id = [] then (c, False)
      else
        let wid = get_worker_id_from_node_id c sender_id in
        if wid = 0 then (c, False)
        else
          let sender_wid = as_u16 wid;
              claimed = foldl bm_set (foldl bm_set bm_new sender_slots) migrating_slots;
              (sm, updated) = foldl (claim_slot (workers c) sender_wid sender_epoch)
                                (slot_map c, False) sender_slots;
              sm' = map (\<lambda>(s, cur). if abdicated sender_wid claimed s cur
                                     then HashSlot_default else cur)
                        (List.enumerate 0 sm);
              updated' = (updated \<or> list_ex (\<lambda>(s, cur). abdicated sender_wid claimed s cur)
                                      (List.enumerate 0 sm))
          in (c\<lparr>slot_map := sm'\<rparr>, updated'))"

section \<open>Specification of the slot merge\<close>

definition owner_epoch_of :: "Worker list \<Rightarrow> HashSlot \<Rightarrow> int" where
  "owner_epoch_of ws cur = (case get ws (unat (worker_id cur)) of Some w \<Rightarrow> config_epoch w | None \<Rightarrow> 0)"

definition claim_wins :: "Worker list \<Rightarrow> int \<Rightarrow> HashSlot \<Rightarrow> bool" where
  "claim_wins ws sender_epoch cur \<longleftrightarrow> sender_epoch = 0 \<or> owner_epoch_of ws cur < sender_epoch"

text \<open>What one merge makes of the entry \<open>cur\<close> of one slot.\<close>

definition merged_slot ::
  "Worker list \<Rightarrow> u16 \<Rightarrow> int \<Rightarrow> u16 list \<Rightarrow> u16 list \<Rightarrow> u16 \<Rightarrow> HashSlot \<Rightarrow> HashSlot" where
  "merged_slot ws wid ep claims migs slot cur =
     (if slot \<in> set claims \<and> claim_wins ws ep cur then HashSlot_new wid Stable
      else if worker_id cur = wid \<and> state cur \<in> {Stable, Importing}
              \<and> slot \<notin> set claims \<union> set migs then HashSlot_default
      else cur)"

section \<open>Lemmas\<close>

lemma HashSlot_new_eq: "cur = HashSlot_new w st \<longleftrightarrow> worker_id cur = w \<and> state cur = st"
  by (cases cur) (simp add: HashSlot_new_def)

lemma claim_slot_eq:
  "claim_slot ws wid ep (sm, u) slot =
     (if unat slot < TOTAL_HASH_SLOTS \<and> claim_wins ws ep (sm ! unat slot)
      then (sm[unat slot := HashSlot_new wid Stable], u \<or> sm ! unat slot \<noteq> HashSlot_new wid Stable)
      else (sm, u))"
proof (cases "sm ! unat slot = HashSlot_new wid Stable")
  case True
  then have "sm[unat slot := HashSlot_new wid Stable] = sm" by (metis list_update_id)
  with True show ?thesis
    by (simp add: claim_slot_def Let_def HashSlot_new_eq)
next
  case False
  then have "worker_id (sm ! unat slot) \<noteq> wid \<or> state (sm ! unat slot) \<noteq> Stable"
    by (simp add: HashSlot_new_eq)
  with False show ?thesis
    by (auto simp: claim_slot_def Let_def claim_wins_def owner_epoch_of_def)
qed

lemma claim_fold:
  assumes "length sm = TOTAL_HASH_SLOTS" and "foldl (claim_slot ws wid ep) (sm, u) xs = (sm', u')"
  shows "length sm' = TOTAL_HASH_SLOTS \<and>
    (\<forall>s < TOTAL_HASH_SLOTS. sm' ! s =
       (if as_u16 s \<in> set xs \<and> claim_wins ws ep (sm ! s) then HashSlot_new wid Stable else sm ! s)) \<and>
    (u' \<longleftrightarrow> u \<or> sm' \<noteq> sm)"
  using assms
proof (induction xs arbitrary: sm u)
  case Nil
  then show ?case by simp
next
  case (Cons x xs)
  show ?case
  proof (cases "unat x < TOTAL_HASH_SLOTS \<and> claim_wins ws ep (sm ! unat x)")
    case False
    have ne: "s \<noteq> unat x" if "s < TOTAL_HASH_SLOTS" "claim_wins ws ep (sm ! s)" for s
      using False that by auto
    have nx: "as_u16 s = x \<Longrightarrow> s < TOTAL_HASH_SLOTS \<Longrightarrow> s = unat x" for s
      using unat_as_u16 [of s] by (simp add: slot_consts)
    have "claim_slot ws wid ep (sm, u) x = (sm, u)"
      using False by (simp only: claim_slot_eq if_False)
    then have "foldl (claim_slot ws wid ep) (sm, u) xs = (sm', u')"
      using Cons.prems by simp
    from Cons.IH [OF Cons.prems(1) this] show ?thesis
      using ne nx by (auto)
  next
    case True
    define sm1 where "sm1 = sm[unat x := HashSlot_new wid Stable]"
    have l1: "length sm1 = TOTAL_HASH_SLOTS" using Cons.prems by (simp add: sm1_def)
    have nx: "as_u16 s = x \<longleftrightarrow> s = unat x" if "s < TOTAL_HASH_SLOTS" for s
      using unat_as_u16 [of s] that by (auto simp: slot_consts)
    have "foldl (claim_slot ws wid ep) (sm1, u \<or> sm ! unat x \<noteq> HashSlot_new wid Stable) xs = (sm', u')"
      using Cons.prems True by (simp add: claim_slot_eq sm1_def)
    note IH = Cons.IH [OF l1 this]
    have x: "sm' ! unat x = HashSlot_new wid Stable"
      using IH True Cons.prems(1) by (simp add: sm1_def)
    have u: "u' \<longleftrightarrow> u \<or> sm' \<noteq> sm"
    proof (cases "sm ! unat x = HashSlot_new wid Stable")
      case True
      then have "sm1 = sm" unfolding sm1_def by (metis list_update_id)
      with IH True show ?thesis by simp
    next
      case False
      with x IH show ?thesis by auto
    qed
    have "sm' ! s = (if as_u16 s \<in> set (x # xs) \<and> claim_wins ws ep (sm ! s)
                     then HashSlot_new wid Stable else sm ! s)" if "s < TOTAL_HASH_SLOTS" for s
      using IH that nx [OF that] x True Cons.prems(1)
      by (cases "s = unat x") (auto simp: sm1_def)
    with IH u show ?thesis by blast
  qed
qed

lemma merge_sender_slots_spec:
  assumes wf: "wf_config c" and len: "length (workers c) \<le> 65536"
    and known: "sender \<noteq> []" "get_worker_id_from_node_id c sender \<noteq> 0"
    and m: "merge_sender_slots c sender ep claims migs = (c', updated)"
  shows "workers c' = workers c" and "length (slot_map c') = TOTAL_HASH_SLOTS"
    and "unat slot < TOTAL_HASH_SLOTS \<Longrightarrow> slot_map c' ! unat slot =
      merged_slot (workers c) (as_u16 (get_worker_id_from_node_id c sender)) ep claims migs slot
        (slot_map c ! unat slot)"
    and "updated \<longleftrightarrow> c' \<noteq> c"
proof -
  define wid where "wid = as_u16 (get_worker_id_from_node_id c sender)"
  define claimed where "claimed = foldl bm_set (foldl bm_set bm_new claims) migs"
  have "unat wid = get_worker_id_from_node_id c sender"
    unfolding wid_def using worker_lookup_Some(1) [OF refl known(2)] len by (intro unat_as_u16) simp
  with known(2) have wid0: "wid \<noteq> 0" by auto
  have cl: "bm_is_set claimed x \<longleftrightarrow> x \<in> set claims \<union> set migs \<and> unat x < TOTAL_HASH_SLOTS" for x
    by (auto simp: claimed_def bm.member_foldl bm.inv_foldl bm.inv_none bm.member_of_list bm.member_none)
  obtain sm u where f: "foldl (claim_slot (workers c) wid ep) (slot_map c, False) claims = (sm, u)"
    by force
  note F = claim_fold [OF wf_configD(1) [OF wf] f]
  define ab where "ab = (\<lambda>(s, cur). abdicated wid claimed s cur)"
  define sm' where "sm' = map (\<lambda>p. if ab p then HashSlot_default else snd p) (List.enumerate 0 sm)"
  have "merge_sender_slots c sender ep claims migs =
     (c\<lparr>slot_map := sm'\<rparr>, u \<or> list_ex ab (List.enumerate 0 sm))"
    using known f by (simp add: merge_sender_slots_def Let_def wid_def [symmetric]
        claimed_def [symmetric] sm'_def ab_def case_prod_unfold)
  with m have c': "c' = c\<lparr>slot_map := sm'\<rparr>"
    and up: "updated \<longleftrightarrow> u \<or> list_ex ab (List.enumerate 0 sm)" by auto
  show "workers c' = workers c" by (simp add: c')
  have l': "length sm' = TOTAL_HASH_SLOTS" using F by (simp add: sm'_def)
  then show "length (slot_map c') = TOTAL_HASH_SLOTS" by (simp add: c')
  have abs: "ab (s, sm ! s) \<longleftrightarrow>
      worker_id (slot_map c ! s) = wid \<and> state (slot_map c ! s) \<in> {Stable, Importing}
      \<and> as_u16 s \<notin> set claims \<union> set migs" if "s < TOTAL_HASH_SLOTS" for s
  proof (cases "as_u16 s \<in> set claims")
    case True
    then have "bm_is_set claimed (as_u16 s)" using that by (simp add: cl unat_as_u16 slot_consts)
    with True show ?thesis by (simp add: ab_def abdicated_def)
  next
    case False
    with F that have "sm ! s = slot_map c ! s" by simp
    with False that show ?thesis by (auto simp: ab_def abdicated_def cl unat_as_u16 slot_consts)
  qed
  have nth': "sm' ! s = (if ab (s, sm ! s) then HashSlot_default else sm ! s)"
    if "s < TOTAL_HASH_SLOTS" for s
    using that F by (simp add: sm'_def nth_enumerate_eq)
  show "slot_map c' ! unat slot = merged_slot (workers c)
      (as_u16 (get_worker_id_from_node_id c sender)) ep claims migs slot (slot_map c ! unat slot)"
    if "unat slot < TOTAL_HASH_SLOTS"
    using nth' [OF that] abs [OF that] F that
    by (auto simp: c' merged_slot_def wid_def [symmetric])
  have ex: "list_ex ab (List.enumerate 0 sm) \<longleftrightarrow> (\<exists>s < TOTAL_HASH_SLOTS. ab (s, sm ! s))"
    using F by (auto simp: list_ex_iff in_set_enumerate_eq)
  have "u \<or> (\<exists>s < TOTAL_HASH_SLOTS. ab (s, sm ! s)) \<longleftrightarrow> sm' \<noteq> slot_map c"
  proof (cases "\<exists>s < TOTAL_HASH_SLOTS. ab (s, sm ! s)")
    case True
    then obtain s where s: "s < TOTAL_HASH_SLOTS" "ab (s, sm ! s)" by blast
    then have "worker_id (slot_map c ! s) \<noteq> worker_id (sm' ! s)"
      using abs [OF s(1)] nth' [OF s(1)] wid0 by (simp add: HashSlot_default_def)
    with True show ?thesis by auto
  next
    case False
    then have "sm' = sm" using nth' l' F by (auto intro!: nth_equalityI)
    with False F show ?thesis by auto
  qed
  then show "updated \<longleftrightarrow> c' \<noteq> c" unfolding up ex by (cases c) (simp add: c')
qed

lemma claim_fold_bound:
  assumes "unat wid < n" and "\<forall>hs \<in> set sm. unat (worker_id hs) < n"
  shows "\<forall>hs \<in> set (fst (foldl (claim_slot ws wid ep) (sm, u) xs)). unat (worker_id hs) < n"
  using assms(2)
proof (induction xs arbitrary: sm u)
  case (Cons x xs)
  have "\<forall>hs \<in> set (fst (claim_slot ws wid ep (sm, u) x)). unat (worker_id hs) < n"
    using Cons.prems assms(1) set_update_subset_insert [of sm "unat x" "HashSlot_new wid Stable"]
    by (auto simp: claim_slot_eq HashSlot_new_def)
  then show ?case using Cons.IH by (metis foldl_Cons prod.collapse)
qed simp

lemma claim_fold_length:
  "length (fst (foldl (claim_slot ws wid ep) (sm, u) xs)) = length sm"
proof (induction xs arbitrary: sm u)
  case (Cons x xs)
  have "length (fst (claim_slot ws wid ep (sm, u) x)) = length sm" by (simp add: claim_slot_eq)
  then show ?case using Cons.IH by (metis foldl_Cons prod.collapse)
qed simp

lemma merge_sender_slots_workers [simp]:
  "workers (fst (merge_sender_slots c sender ep claims migs)) = workers c"
  by (simp add: merge_sender_slots_def Let_def split: prod.split)

lemma wf_merge_sender_slots [wedb_inv]:
  assumes "wf_config c"
  shows "wf_config (fst (merge_sender_slots c sender ep claims migs))"
proof (cases "sender = [] \<or> get_worker_id_from_node_id c sender = 0")
  case True
  then show ?thesis using assms by (auto simp: merge_sender_slots_def)
next
  case False
  define wid where "wid = as_u16 (get_worker_id_from_node_id c sender)"
  define claimed where "claimed = foldl bm_set (foldl bm_set bm_new claims) migs"
  define sm where "sm = fst (foldl (claim_slot (workers c) wid ep) (slot_map c, False) claims)"
  have w: "unat wid < length (workers c)"
    using worker_lookup_Some(1) [of c sender] False unat_as_u16_le le_less_trans unfolding wid_def
    by blast
  have sm: "length sm = TOTAL_HASH_SLOTS" "\<forall>hs \<in> set sm. unat (worker_id hs) < length (workers c)"
    using claim_fold_bound [OF w, of "slot_map c"] assms
    by (auto simp: sm_def claim_fold_length wf_configD)
  have eq: "fst (merge_sender_slots c sender ep claims migs) =
     c\<lparr>slot_map := map (\<lambda>(s, cur). if abdicated wid claimed s cur then HashSlot_default else cur)
       (List.enumerate 0 sm)\<rparr>"
    using False by (simp add: merge_sender_slots_def Let_def wid_def [symmetric] claimed_def [symmetric]
        sm_def split: prod.split)
  have "unat (worker_id HashSlot_default) < length (workers c)"
    using wf_configD(3) [OF assms] by (simp add: HashSlot_default_def)
  then show ?thesis unfolding eq
    using sm by (intro wf_config_slots [OF assms]) (auto simp: nth_enumerate_eq)
qed

text \<open>
  C16: Functional correctness of \<open>merge_sender_slots\<close> for a known sender, slot by slot.  A
  claimed slot moves to the sender, stable, exactly if the sender's epoch is zero or the
  epoch of the recorded owner is smaller; a slot recorded as held by, or imported from, the
  sender that it neither claims nor migrates goes offline; every other slot is untouched.
  The order and the repetitions of the claims do not matter, the worker table is kept,
  and the answer is true exactly when the configuration changed.
\<close>

theorem merge_sender_slots_correct:
  assumes "wf_config c" and "length (workers c) \<le> 65536"
    and "sender \<noteq> []" and "get_worker_id_from_node_id c sender \<noteq> 0"
    and "merge_sender_slots c sender ep claims migs = (c', updated)"
  shows "wf_config c' \<and> workers c' = workers c \<and> (updated \<longleftrightarrow> c' \<noteq> c) \<and>
    (\<forall>slot. unat slot < TOTAL_HASH_SLOTS \<longrightarrow> slot_map c' ! unat slot =
       merged_slot (workers c) (as_u16 (get_worker_id_from_node_id c sender)) ep claims migs slot
         (slot_map c ! unat slot))"
  using merge_sender_slots_spec [OF assms]
    wf_merge_sender_slots [OF assms(1), of sender ep claims migs] assms(5) by simp

theorem merge_sender_slots_correct_witness:
  "slot_map (fst (merge_sender_slots sample_config ''bb'' 9 [0, 3] [])) ! 0 = HashSlot_new 2 Stable \<and>
   slot_map (fst (merge_sender_slots sample_config ''bb'' 9 [0, 3] [])) ! 2 = HashSlot_default"
proof -
  have idx: "get_worker_id_from_node_id sample_config ''bb'' = 2"
    by (simp add: get_worker_id_from_node_id_def sample_config_simps has_node_id_def
        Worker_primary_def Worker_new_def eq_ignore_ascii_case_def to_ascii_lowercase_def)
  obtain c' u where m: "merge_sender_slots sample_config ''bb'' 9 [0, 3] [] = (c', u)" by force
  have "length (workers sample_config) \<le> 65536" by (simp add: sample_config_simps)
  note spec = merge_sender_slots_correct [OF sample_config_wf this _ _ m]
  have *: "\<forall>slot. unat slot < TOTAL_HASH_SLOTS \<longrightarrow> slot_map c' ! unat slot =
       merged_slot (workers sample_config) 2 9 [0, 3] [] slot (slot_map sample_config ! unat slot)"
    using spec by (simp add: idx)
  show ?thesis
    using * [rule_format, of 0] * [rule_format, of 2]
    by (simp add: m slot_consts merged_slot_def claim_wins_def owner_epoch_of_def sample_config_slots
        sample_config_workers HashSlot_new_def Worker_primary_def Worker_new_def)
qed

text \<open>
  C17: Conflicting claims converge.  Two known senders that claim the same slot with
  different positive epochs, as recorded in the worker table, leave the slot with the
  sender of the larger epoch whichever of the two messages is merged first, provided the
  previous owner's epoch is below the larger one.
\<close>

theorem merge_sender_slots_converges:
  assumes "wf_config c" and "length (workers c) \<le> 65536"
    and "a \<noteq> []" and "b \<noteq> []"
    and "ia = get_worker_id_from_node_id c a" and "ia \<noteq> 0"
    and "ib = get_worker_id_from_node_id c b" and "ib \<noteq> 0"
    and "config_epoch (workers c ! ib) = eb" and "0 < ea" and "ea < eb"
    and "config_epoch (workers c ! ia) = ea"
    and "unat slot < TOTAL_HASH_SLOTS" and "slot \<in> set ca" and "slot \<in> set cb"
    and "owner_epoch_of (workers c) (slot_map c ! unat slot) < eb"
  shows "slot_map (fst (merge_sender_slots (fst (merge_sender_slots c a ea ca ma)) b eb cb mb)) ! unat slot
           = HashSlot_new (as_u16 ib) Stable \<and>
         slot_map (fst (merge_sender_slots (fst (merge_sender_slots c b eb cb mb)) a ea ca ma)) ! unat slot
           = HashSlot_new (as_u16 ib) Stable"
proof -
  have spec: "slot_map (fst (merge_sender_slots d x e cl mg)) ! unat slot =
      merged_slot (workers d) (as_u16 (get_worker_id_from_node_id d x)) e cl mg slot (slot_map d ! unat slot)"
    if "wf_config d" "workers d = workers c" "x \<noteq> []" "get_worker_id_from_node_id d x \<noteq> 0" for d x e cl mg
  proof -
    obtain d' u where "merge_sender_slots d x e cl mg = (d', u)" by force
    then show ?thesis using merge_sender_slots_spec(3) [OF that(1) _ that(3,4)] assms(2,13) that(2)
      by simp
  qed
  have lk: "get_worker_id_from_node_id (fst (merge_sender_slots c x e cl mg)) y
            = get_worker_id_from_node_id c y" for x e cl mg y
    by (simp add: get_worker_id_from_node_id_def)
  have ep: "owner_epoch_of (workers c) (HashSlot_new (as_u16 i) Stable) = config_epoch (workers c ! i)"
    if "i = get_worker_id_from_node_id c x" "i \<noteq> 0" for i x
    using worker_lookup_Some(1) [OF that(1) [symmetric] that(2)] assms(2)
    by (simp add: owner_epoch_of_def HashSlot_new_def unat_as_u16)
  have first: "slot_map (fst (merge_sender_slots c a ea ca ma)) ! unat slot
      \<in> {HashSlot_new (as_u16 ia) Stable, slot_map c ! unat slot}"
    using spec [OF assms(1) refl assms(3)] assms(5,6,14) by (simp add: merged_slot_def)
  have snd: "slot_map (fst (merge_sender_slots c b eb cb mb)) ! unat slot = HashSlot_new (as_u16 ib) Stable"
    using spec [OF assms(1) refl assms(4)] assms(7,8,15,16)
    by (simp add: merged_slot_def claim_wins_def)
  have "owner_epoch_of (workers c) (slot_map (fst (merge_sender_slots c a ea ca ma)) ! unat slot) < eb"
    using first ep [OF assms(5,6)] assms(11,12,16) by auto
  moreover have "\<not> owner_epoch_of (workers c) (HashSlot_new (as_u16 ib) Stable) < ea"
    using ep [OF assms(7,8)] assms(9,11) by simp
  ultimately show ?thesis
    using spec [OF wf_merge_sender_slots [OF assms(1)] merge_sender_slots_workers assms(4)]
      spec [OF wf_merge_sender_slots [OF assms(1)] merge_sender_slots_workers assms(3)]
      snd assms(5-8,10,14,15)
    by (simp add: lk merged_slot_def claim_wins_def)
qed

theorem merge_sender_slots_converges_witness:
  "slot_map (fst (merge_sender_slots (fst (merge_sender_slots
      (sample_config\<lparr>workers := (workers sample_config)[2 := Worker_primary ''bb'' ''10.0.0.2'' 7002 6]\<rparr>)
      ''aa'' 4 [0] [])) ''bb'' 6 [0] [])) ! 0 = HashSlot_new 2 Stable"
proof -
  define c where "c = sample_config\<lparr>workers := (workers sample_config)
      [2 := Worker_primary ''bb'' ''10.0.0.2'' 7002 6]\<rparr>"
  have ws: "workers c = [Worker_unassigned, Worker_primary ''aa'' ''10.0.0.1'' 7001 4,
                 Worker_primary ''bb'' ''10.0.0.2'' 7002 6]"
    by (simp add: c_def sample_config_workers)
  have "wf_config c" unfolding c_def by (intro wf_config_worker_update sample_config_wf) simp
  moreover have "get_worker_id_from_node_id c ''aa'' = 1" "get_worker_id_from_node_id c ''bb'' = 2"
    by (simp_all add: get_worker_id_from_node_id_def ws has_node_id_def
        Worker_primary_def Worker_new_def eq_ignore_ascii_case_def to_ascii_lowercase_def)
  moreover have "owner_epoch_of (workers c) (slot_map c ! unat (0 :: u16)) < 6"
    by (simp add: owner_epoch_of_def ws) (simp add: c_def sample_config_slots HashSlot_new_def
        Worker_primary_def Worker_new_def)
  ultimately have "slot_map (fst (merge_sender_slots (fst (merge_sender_slots c ''aa'' 4 [0] []))
      ''bb'' 6 [0] [])) ! 0 = HashSlot_new 2 Stable"
    using merge_sender_slots_converges [of c "''aa''" "''bb''" 1 2 6 4 0 "[0]" "[0]" "[]" "[]"]
    by (simp add: ws Worker_primary_def Worker_new_def slot_consts)
  then show ?thesis by (simp only: c_def)
qed

lemma merge_worker_ref_cases:
  assumes "merge_worker_ref c meta cf = (c', changed)"
  obtains (ignored) "c' = c" "\<not> changed" "m_node_id meta = None \<or> m_node_id meta = Some []"
  | (added) new_id w where "m_node_id meta = Some new_id" "new_id \<noteq> []" "changed"
      "\<forall>w \<in> set (drop 1 (workers c)). node_id w \<noteq> Some new_id"
      "c' = c\<lparr>workers := workers c @ [w]\<rparr>" "meta_of w = meta" "handshake w \<longleftrightarrow> \<not> cf"
  | (stale) new_id i where "m_node_id meta = Some new_id" "new_id \<noteq> []" "c' = c" "\<not> changed"
      "position (\<lambda>w. node_id w = Some new_id) (drop 1 (workers c)) = Some i"
      "m_config_epoch meta \<le> config_epoch (workers c ! Suc i)"
      "\<not> (cf \<and> handshake (workers c ! Suc i) \<and> m_config_epoch meta = config_epoch (workers c ! Suc i))"
  | (updated) new_id i w where "m_node_id meta = Some new_id" "new_id \<noteq> []"
      "position (\<lambda>w. node_id w = Some new_id) (drop 1 (workers c)) = Some i"
      "c' = c\<lparr>workers := (workers c)[Suc i := w]\<rparr>" "meta_of w = meta" "\<not> handshake w"
      "config_epoch (workers c ! Suc i) \<le> m_config_epoch meta"
      "m_config_epoch meta > config_epoch (workers c ! Suc i) \<or> cf \<and> handshake (workers c ! Suc i)"
      "replication_offset w = replication_offset (workers c ! Suc i)"
      "link_state w = link_state (workers c ! Suc i)"
      "is_pfail w = is_pfail (workers c ! Suc i)" "is_fail w = is_fail (workers c ! Suc i)"
      "changed \<longleftrightarrow> meta_of (workers c ! Suc i) \<noteq> meta"
proof (cases "m_node_id meta = None \<or> m_node_id meta = Some []")
  case True
  then show ?thesis using assms by (intro ignored) (auto simp: merge_worker_ref_def)
next
  case False
  then obtain new_id where n: "m_node_id meta = Some new_id" "new_id \<noteq> []" by auto
  show ?thesis
  proof (cases "position (\<lambda>w. node_id w = Some new_id) (drop 1 (workers c))")
    case None
    have "\<forall>w \<in> set (drop 1 (workers c)). node_id w \<noteq> Some new_id"
      using None by (simp only: position_None)
    with assms n None show ?thesis
      by (intro added [of new_id "last (workers c')"]) (auto simp: merge_worker_ref_def meta_of_def)
  next
    case (Some i)
    have i: "Suc i < length (workers c)" "node_id (workers c ! Suc i) = Some new_id"
      using position_drop1 [OF Some] by simp_all
    show ?thesis
    proof (cases "m_config_epoch meta > config_epoch (workers c ! Suc i) \<or>
        cf \<and> handshake (workers c ! Suc i) \<and> m_config_epoch meta \<ge> config_epoch (workers c ! Suc i)")
      case True
      with assms n Some i show ?thesis
        by (intro updated [of new_id i "workers c' ! Suc i"])
           (auto simp: merge_worker_ref_def Let_def meta_of_def i)
    next
      case False
      with assms n Some i show ?thesis
        by (intro stale [of new_id i]) (auto simp: merge_worker_ref_def Let_def)
    qed
  qed
qed

lemma wf_merge_worker_ref [wedb_inv]:
  assumes "wf_config c"
  shows "wf_config (fst (merge_worker_ref c meta cf))"
proof -
  obtain c' u where m: "merge_worker_ref c meta cf = (c', u)" by force
  from m have "wf_config c'"
    by (cases rule: merge_worker_ref_cases)
       (auto simp: assms wf_config_worker_push wf_config_worker_update)
  with m show ?thesis by simp
qed

lemma merge_worker_ref_again:
  assumes "wf_config c" and m: "merge_worker_ref c meta cf = (c', changed)"
  shows "merge_worker_ref c' meta cf = (c', False)"
  using m
proof (cases rule: merge_worker_ref_cases)
  case ignored
  then show ?thesis by (auto simp: merge_worker_ref_def)
next
  case (stale new_id i)
  with m show ?thesis by simp
next
  case (added new_id w)
  have w: "node_id w = Some new_id" "config_epoch w = m_config_epoch meta"
    using added(1,6) by (auto simp: meta_of_def)
  have "drop 1 (workers c') = drop 1 (workers c) @ [w]"
    using wf_configD(2) [OF assms(1)] added(5) by simp
  then have "position (\<lambda>w. node_id w = Some new_id) (drop 1 (workers c')) = Some (length (workers c) - 1)"
    using position_append [of "drop 1 (workers c)" _ w "[]"] added(4) w by simp
  moreover have "workers c' ! length (workers c) = w" using added(5) by simp
  moreover have "Suc (length (workers c) - 1) = length (workers c)" using wf_configD(2) [OF assms(1)] by simp
  ultimately show ?thesis using added(1,2,7) w by (simp add: merge_worker_ref_def Let_def)
next
  case (updated new_id i w)
  have w: "node_id w = Some new_id" "config_epoch w = m_config_epoch meta"
    using updated(1,5) by (auto simp: meta_of_def)
  have d: "drop 1 (workers c') = (drop 1 (workers c))[i := w]"
    using updated(4) by (simp add: drop_update_swap)
  have "position (\<lambda>w. node_id w = Some new_id) (drop 1 (workers c')) = Some i"
    using updated(3) w unfolding d position_Some by auto
  moreover have "workers c' ! Suc i = w"
    using updated(3,4) position_drop1 [OF updated(3)] by simp
  ultimately show ?thesis using updated(1,2,6) w by (simp add: merge_worker_ref_def Let_def)
qed

text \<open>
  Merging worker data is monotone and idempotent.  Slots are not touched, no entry
  disappears, node ids stay, no configuration epoch decreases, the entries of other nodes
  and the runtime fields (replication offset, link state, failure flags) are kept, and
  merging the same data again changes nothing.
\<close>

theorem merge_worker_ref_monotone:
  assumes "wf_config c" and "merge_worker_ref c meta cf = (c', changed)"
  shows "slot_map c' = slot_map c \<and> length (workers c) \<le> length (workers c') \<and>
    (\<forall>i < length (workers c).
       node_id (workers c' ! i) = node_id (workers c ! i) \<and>
       config_epoch (workers c ! i) \<le> config_epoch (workers c' ! i) \<and>
       replication_offset (workers c' ! i) = replication_offset (workers c ! i) \<and>
       link_state (workers c' ! i) = link_state (workers c ! i) \<and>
       is_pfail (workers c' ! i) = is_pfail (workers c ! i) \<and>
       is_fail (workers c' ! i) = is_fail (workers c ! i) \<and>
       (node_id (workers c ! i) \<noteq> m_node_id meta \<longrightarrow> workers c' ! i = workers c ! i)) \<and>
    merge_worker_ref c' meta cf = (c', False)"
proof -
  from assms(2) have "slot_map c' = slot_map c \<and> length (workers c) \<le> length (workers c') \<and>
    (\<forall>i < length (workers c).
       node_id (workers c' ! i) = node_id (workers c ! i) \<and>
       config_epoch (workers c ! i) \<le> config_epoch (workers c' ! i) \<and>
       replication_offset (workers c' ! i) = replication_offset (workers c ! i) \<and>
       link_state (workers c' ! i) = link_state (workers c ! i) \<and>
       is_pfail (workers c' ! i) = is_pfail (workers c ! i) \<and>
       is_fail (workers c' ! i) = is_fail (workers c ! i) \<and>
       (node_id (workers c ! i) \<noteq> m_node_id meta \<longrightarrow> workers c' ! i = workers c ! i))"
  proof (cases rule: merge_worker_ref_cases)
    case (updated new_id k w)
    have "node_id (workers c ! Suc k) = Some new_id" using position_drop1 [OF updated(3)] by simp
    moreover have "node_id w = Some new_id" "config_epoch w = m_config_epoch meta"
      using updated(1,5) by (auto simp: meta_of_def)
    moreover have "workers c' ! i = (if i = Suc k then w else workers c ! i)" for i
      using updated(4) position_drop1 [OF updated(3)] by simp
    moreover have "slot_map c' = slot_map c" "length (workers c') = length (workers c)"
      using updated(4) by simp_all
    ultimately show ?thesis using updated(1,7,9-12) by simp
  qed (auto simp: nth_append)
  with merge_worker_ref_again [OF assms] show ?thesis by blast
qed

theorem merge_worker_ref_monotone_witness:
  "merge_worker_ref
     (fst (merge_worker_ref sample_config (meta_of (Worker_primary ''bb'' ''10.0.0.9'' 7009 5)) True))
     (meta_of (Worker_primary ''bb'' ''10.0.0.9'' 7009 5)) True =
   (fst (merge_worker_ref sample_config (meta_of (Worker_primary ''bb'' ''10.0.0.9'' 7009 5)) True), False)"
proof -
  obtain c' u where
    m: "merge_worker_ref sample_config (meta_of (Worker_primary ''bb'' ''10.0.0.9'' 7009 5)) True = (c', u)"
    by force
  from merge_worker_ref_monotone [OF sample_config_wf m] m show ?thesis by simp
qed

text \<open>
  When the data of a known node is accepted.  The entry is replaced exactly if the
  reported epoch is strictly larger, or the report is direct, the entry is still in
  handshake and the epoch is not smaller; an accepted report always ends the handshake,
  also one that comes from a third party.
\<close>

theorem merge_worker_ref_accepts:
  assumes "m_node_id meta = Some nid" and "nid \<noteq> []"
    and "position (\<lambda>w. node_id w = Some nid) (drop 1 (workers c)) = Some i"
  shows "let old = workers c ! Suc i; new = workers (fst (merge_worker_ref c meta cf)) ! Suc i in
    if m_config_epoch meta > config_epoch old
       \<or> (cf \<and> handshake old \<and> m_config_epoch meta \<ge> config_epoch old)
    then meta_of new = meta \<and> \<not> handshake new \<and>
         snd (merge_worker_ref c meta cf) = (meta_of old \<noteq> meta)
    else merge_worker_ref c meta cf = (c, False)"
proof -
  obtain c' u where m: "merge_worker_ref c meta cf = (c', u)" by force
  from m show ?thesis
  proof (cases rule: merge_worker_ref_cases)
    case (updated new_id k w)
    then have "new_id = nid" "k = i" using assms by auto
    with updated m position_drop1 [OF assms(3)] show ?thesis by (auto simp: Let_def)
  next
    case (stale new_id k)
    then have "new_id = nid" "k = i" using assms by auto
    with stale m show ?thesis by (auto simp: Let_def)
  next
    case (added new_id w)
    then have "new_id = nid" using assms by auto
    with added assms(3) show ?thesis by (auto simp: position_None [symmetric])
  qed (use assms in auto)
qed

theorem merge_worker_ref_accepts_witness:
  "\<not> handshake (workers (fst (merge_worker
      (sample_config\<lparr>workers := (workers sample_config)
         [2 := (Worker_primary ''bb'' ''10.0.0.2'' 7002 0)\<lparr>handshake := True\<rparr>]\<rparr>)
      (Worker_primary ''bb'' ''10.0.0.2'' 7002 5))) ! 2)"
  using merge_worker_ref_accepts
    [of "meta_of (Worker_primary ''bb'' ''10.0.0.2'' 7002 5)" "''bb''"
        "sample_config\<lparr>workers := (workers sample_config)
           [2 := (Worker_primary ''bb'' ''10.0.0.2'' 7002 0)\<lparr>handshake := True\<rparr>]\<rparr>" 1 False]
  by (simp add: merge_worker_def sample_config_workers meta_of_def Worker_primary_def Worker_new_def
      Let_def numeral_2_eq_2)

end
