(* ===== verification/Cluster_Gossip.thy ===== *)
theory Cluster_Gossip
  imports Cluster_Merge
begin

text \<open>
  The gossip tracker of \<open>src/wedb_cluster/src/gossip.rs\<close>: packets, the ban list, building a
  packet from a random sample of the known nodes, merging a received packet, and the
  majority vote that promotes suspected failures.

  Readings of the clock are arguments: \<open>now\<close> where an operation reads it once, and
  \<open>clock k\<close> for the k-th reading of \<open>process_packet\<close> (0 for the sender, i + 1 for section i).
  The values drawn from the random generator are the argument \<open>rnd\<close>, one per round.  Hash
  maps are maps and hash sets are sets.
\<close>

section \<open>Packets and tracker\<close>

definition MAX_GOSSIP_SECTIONS :: nat where
  "MAX_GOSSIP_SECTIONS = 1024"

record GossipHeader =
  sender_id :: string
  sender_addr :: string
  sender_port :: u16
  sender_role :: NodeRole
  header_epoch :: int
  assigned_slots :: "u16 list"
  migrating_slots :: "u16 list"
  header_replica_of :: "string option"
  header_hostname :: "string option"

record GossipNodeSection =
  sec_node_id :: string
  sec_address :: string
  sec_port :: u16
  sec_role :: NodeRole
  sec_config_epoch :: int
  sec_is_pfail :: bool
  sec_is_fail :: bool
  sec_replica_of :: "string option"
  sec_hostname :: "string option"

record GossipPacket =
  header :: GossipHeader
  sections :: "GossipNodeSection list"

record GossipTracker =
  pfail_reports :: "string \<rightharpoonup> string set"
  local_pfails :: "string set"
  fail_nodes :: "string set"
  ban_list :: "string \<rightharpoonup> u64"

definition GossipHeader_default :: GossipHeader where
  "GossipHeader_default =
     \<lparr>sender_id = [], sender_addr = [], sender_port = 0, sender_role = Primary,
      header_epoch = 0, assigned_slots = [], migrating_slots = [],
      header_replica_of = None, header_hostname = None\<rparr>"

definition GossipNodeSection_default :: GossipNodeSection where
  "GossipNodeSection_default =
     \<lparr>sec_node_id = [], sec_address = [], sec_port = 0, sec_role = Primary,
      sec_config_epoch = 0, sec_is_pfail = False, sec_is_fail = False,
      sec_replica_of = None, sec_hostname = None\<rparr>"

definition GossipTracker_new :: GossipTracker where
  "GossipTracker_new =
     \<lparr>pfail_reports = Map.empty, local_pfails = {}, fail_nodes = {}, ban_list = Map.empty\<rparr>"

section \<open>Ban list\<close>

definition ban :: "u64 \<Rightarrow> GossipTracker \<Rightarrow> string \<Rightarrow> u64 \<Rightarrow> GossipTracker" where
  "ban now t nid ttl_secs = t\<lparr>ban_list := (ban_list t)(nid \<mapsto> now + ttl_secs)\<rparr>"

definition is_banned :: "u64 \<Rightarrow> GossipTracker \<Rightarrow> string \<Rightarrow> GossipTracker \<times> bool" where
  "is_banned now t nid =
     (case ban_list t nid of
        Some expiry \<Rightarrow>
          if expiry > now then (t, True)
          else (t\<lparr>ban_list := (ban_list t)(nid := None)\<rparr>, False)
      | None \<Rightarrow> (t, False))"

text \<open>The exported list is in hash order, which is not specified: its elements are a set.\<close>

definition banned_ids :: "u64 \<Rightarrow> GossipTracker \<Rightarrow> GossipTracker \<times> string set" where
  "banned_ids now t =
     (let kept = (\<lambda>k. case ban_list t k of
                        Some expiry \<Rightarrow> if expiry > now then Some expiry else None
                      | None \<Rightarrow> None)
      in (t\<lparr>ban_list := kept\<rparr>, dom kept))"

section \<open>Building a packet\<close>

definition build_section :: "GossipTracker \<Rightarrow> Worker \<Rightarrow> GossipNodeSection" where
  "build_section t w =
     (let i = (case node_id w of Some i \<Rightarrow> i | None \<Rightarrow> []) in
      \<lparr>sec_node_id = i, sec_address = address w, sec_port = port w, sec_role = role w,
       sec_config_epoch = config_epoch w, sec_is_pfail = (i \<in> local_pfails t),
       sec_is_fail = (i \<in> fail_nodes t), sec_replica_of = replica_of_node_id w,
       sec_hostname = hostname w\<rparr>)"

definition swap_at :: "nat \<Rightarrow> nat \<Rightarrow> 'a list \<Rightarrow> 'a list" where
  "swap_at i j xs = xs[i := xs ! j, j := xs ! i]"

text \<open>The partial shuffle: round \<open>i\<close> exchanges positions \<open>i\<close> and \<open>rnd i\<close>.\<close>

definition shuffle_prefix :: "(nat \<Rightarrow> nat) \<Rightarrow> nat \<Rightarrow> 'a list \<Rightarrow> 'a list" where
  "shuffle_prefix rnd count xs = foldl (\<lambda>ys i. swap_at i (rnd i) ys) xs [0..<count]"

definition packet_known :: "ClusterConfig \<Rightarrow> Worker list" where
  "packet_known c =
     filter (\<lambda>w. case node_id w of Some i \<Rightarrow> i \<noteq> [] | None \<Rightarrow> False) (drop 2 (workers c))"

definition packet_slot_step :: "u16 list \<times> u16 list \<Rightarrow> nat \<times> HashSlot \<Rightarrow> u16 list \<times> u16 list" where
  "packet_slot_step acc s =
     (case (acc, s) of ((assigned, migrating), (slot, hs)) \<Rightarrow>
        if effective_worker_id hs = as_u16 LOCAL_WORKER_ID \<and> state hs = Stable
        then (assigned @ [as_u16 slot], migrating)
        else if state hs = Migrating then (assigned, migrating @ [as_u16 slot])
        else (assigned, migrating))"

definition packet_slots :: "ClusterConfig \<Rightarrow> u16 list \<times> u16 list" where
  "packet_slots c = foldl packet_slot_step ([], []) (List.enumerate 0 (slot_map c))"

definition create_packet :: "(nat \<Rightarrow> nat) \<Rightarrow> GossipTracker \<Rightarrow> ClusterConfig \<Rightarrow> nat \<Rightarrow> GossipPacket" where
  "create_packet rnd t c sample_count =
     (case packet_slots c of (assigned, migrating) \<Rightarrow>
        let hd' = (case get (workers c) LOCAL_WORKER_ID of
                     None \<Rightarrow> GossipHeader_default
                   | Some local \<Rightarrow>
                       \<lparr>sender_id = (case node_id local of Some i \<Rightarrow> i | None \<Rightarrow> []),
                        sender_addr = address local, sender_port = port local,
                        sender_role = role local, header_epoch = config_epoch local,
                        assigned_slots = assigned, migrating_slots = migrating,
                        header_replica_of = replica_of_node_id local,
                        header_hostname = hostname local\<rparr>);
            known = packet_known c;
            count = min sample_count (length known);
            secs = (if count \<ge> length known then map (build_section t) known
                    else map (\<lambda>idx. build_section t (known ! idx))
                           (take count (shuffle_prefix rnd count [0..<length known])))
        in \<lparr>header = hd', sections = secs\<rparr>)"

section \<open>Merging a packet\<close>

definition header_meta :: "GossipHeader \<Rightarrow> WorkerMeta" where
  "header_meta h =
     \<lparr>m_node_id = Some (sender_id h), m_address = sender_addr h, m_port = sender_port h,
      m_config_epoch = header_epoch h, m_role = sender_role h,
      m_replica_of = header_replica_of h, m_hostname = header_hostname h\<rparr>"

definition section_meta :: "GossipNodeSection \<Rightarrow> WorkerMeta" where
  "section_meta s =
     \<lparr>m_node_id = Some (sec_node_id s), m_address = sec_address s, m_port = sec_port s,
      m_config_epoch = sec_config_epoch s, m_role = sec_role s,
      m_replica_of = sec_replica_of s, m_hostname = sec_hostname s\<rparr>"

text \<open>Recording or withdrawing the sender's vote on one section.\<close>

definition record_vote :: "string \<Rightarrow> GossipNodeSection \<Rightarrow> GossipTracker \<Rightarrow> GossipTracker" where
  "record_vote sender sec t =
     (if sec_is_pfail sec \<or> sec_is_fail sec then
        t\<lparr>pfail_reports := (pfail_reports t)(sec_node_id sec \<mapsto>
            insert sender (case pfail_reports t (sec_node_id sec) of Some rs \<Rightarrow> rs | None \<Rightarrow> {}))\<rparr>
      else
        (case pfail_reports t (sec_node_id sec) of
           Some rs \<Rightarrow> t\<lparr>pfail_reports := (pfail_reports t)(sec_node_id sec \<mapsto> rs - {sender})\<rparr>
         | None \<Rightarrow> t))"

type_synonym gossip_state = "GossipTracker \<times> ClusterConfig \<times> bool"

definition process_section ::
  "(nat \<Rightarrow> u64) \<Rightarrow> string \<Rightarrow> gossip_state \<Rightarrow> nat \<times> GossipNodeSection \<Rightarrow> gossip_state" where
  "process_section clock sender st isec =
     (case (st, isec) of ((t, c, changed), (i, sec)) \<Rightarrow>
        if sec_node_id sec = [] \<or> sec_node_id sec = sender
           \<or> local_node_id c = Some (sec_node_id sec) then (t, c, changed)
        else
          (case is_banned (clock (i + 1)) t (sec_node_id sec) of (t1, banned) \<Rightarrow>
             if banned then (t1, c, changed)
             else
               (case merge_worker_ref c (section_meta sec) False of (c1, ch) \<Rightarrow>
                  (record_vote sender sec t1, c1, changed \<or> ch))))"

definition process_packet ::
  "(nat \<Rightarrow> u64) \<Rightarrow> GossipTracker \<Rightarrow> ClusterConfig \<Rightarrow> GossipPacket \<Rightarrow> gossip_state" where
  "process_packet clock t c packet =
     (let h = header packet; sender = sender_id h in
      if sender = [] then (t, c, False)
      else
        (case is_banned (clock 0) t sender of (t1, banned) \<Rightarrow>
           if banned then (t1, c, False)
           else if local_node_id c = Some sender then (t1, c, False)
           else
             (case merge_worker_ref c (header_meta h) True of (c1, ch1) \<Rightarrow>
                (case (if sender_role h = Primary
                       then merge_sender_slots c1 sender (header_epoch h)
                              (assigned_slots h) (migrating_slots h)
                       else (c1, False)) of (c2, ch2) \<Rightarrow>
                   let secs = (if length (sections packet) > MAX_GOSSIP_SECTIONS
                               then take MAX_GOSSIP_SECTIONS (sections packet)
                               else sections packet)
                   in foldl (process_section clock sender) (t1, c2, ch1 \<or> ch2)
                        (List.enumerate 0 secs)))))"

section \<open>Failure detection\<close>

definition mark_local_pfail :: "GossipTracker \<Rightarrow> string \<Rightarrow> GossipTracker" where
  "mark_local_pfail t nid = t\<lparr>local_pfails := insert nid (local_pfails t)\<rparr>"

definition clear_local_pfail :: "GossipTracker \<Rightarrow> string \<Rightarrow> GossipTracker" where
  "clear_local_pfail t nid =
     t\<lparr>local_pfails := local_pfails t - {nid}, fail_nodes := fail_nodes t - {nid},
       pfail_reports := (pfail_reports t)(nid := None)\<rparr>"

text \<open>Votes against a node: the local one, if a primary, and those of reporting primaries.\<close>

definition fail_votes :: "GossipTracker \<Rightarrow> ClusterConfig \<Rightarrow> string \<Rightarrow> nat" where
  "fail_votes t c nid =
     (if is_primary c \<and> nid \<in> local_pfails t then 1 else 0) +
     (case pfail_reports t nid of
        Some voters \<Rightarrow> card (Set.filter (\<lambda>v. get_node_role_from_node_id c v = Primary) voters)
      | None \<Rightarrow> 0)"

definition fail_majority :: "ClusterConfig \<Rightarrow> nat" where
  "fail_majority c = get_primary_count c div 2 + 1"

definition evaluate_worker ::
  "ClusterConfig \<Rightarrow> GossipTracker \<times> string list \<Rightarrow> Worker \<Rightarrow> GossipTracker \<times> string list" where
  "evaluate_worker c acc w =
     (case acc of (t, newly) \<Rightarrow>
        (case node_id w of
           None \<Rightarrow> (t, newly)
         | Some i \<Rightarrow>
             if i \<in> fail_nodes t then (t, newly)
             else if fail_votes t c i \<ge> fail_majority c
                  then (t\<lparr>fail_nodes := insert i (fail_nodes t)\<rparr>, newly @ [i])
                  else (t, newly)))"

definition evaluate_fail_status :: "GossipTracker \<Rightarrow> ClusterConfig \<Rightarrow> GossipTracker \<times> string list" where
  "evaluate_fail_status t c = foldl (evaluate_worker c) (t, []) (drop 2 (workers c))"

section \<open>Order on configurations\<close>

text \<open>The order in which merging moves a configuration: entries stay, epochs grow.\<close>

definition extends :: "ClusterConfig \<Rightarrow> ClusterConfig \<Rightarrow> bool" where
  "extends c c' \<longleftrightarrow>
     length (workers c) \<le> length (workers c') \<and>
     (\<forall>i < length (workers c).
        node_id (workers c' ! i) = node_id (workers c ! i) \<and>
        config_epoch (workers c ! i) \<le> config_epoch (workers c' ! i))"

definition gossip_ok :: "gossip_state \<Rightarrow> bool" where
  "gossip_ok st \<longleftrightarrow> wf_config (fst (snd st))"

definition gossip_le :: "gossip_state \<Rightarrow> gossip_state \<Rightarrow> bool" where
  "gossip_le st st' \<longleftrightarrow>
     extends (fst (snd st)) (fst (snd st')) \<and>
     slot_map (fst (snd st')) = slot_map (fst (snd st)) \<and>
     workers (fst (snd st')) ! 1 = workers (fst (snd st)) ! 1"

text \<open>The node is in the table under exactly this id.\<close>

definition listed :: "ClusterConfig \<Rightarrow> string \<Rightarrow> bool" where
  "listed c nid \<longleftrightarrow> list_ex (\<lambda>w. node_id w = Some nid) (drop 1 (workers c))"

text \<open>Steps that only move up in an order, as merging does.\<close>

locale inflationary =
  fixes le :: "'s \<Rightarrow> 's \<Rightarrow> bool"
    and ok :: "'s \<Rightarrow> bool"
    and step :: "'s \<Rightarrow> 'a \<Rightarrow> 's"
  assumes le_refl: "le s s"
    and le_trans: "le s t \<Longrightarrow> le t u \<Longrightarrow> le s u"
    and step_ok: "ok s \<Longrightarrow> ok (step s x)"
    and step_le: "ok s \<Longrightarrow> le s (step s x)"
begin

lemma foldl_ok_le: "ok s \<Longrightarrow> ok (foldl step s xs) \<and> le s (foldl step s xs)"
proof (induction xs arbitrary: s)
  case Nil
  then show ?case by (simp add: le_refl)
next
  case (Cons x xs)
  from Cons.IH [OF step_ok [OF Cons.prems, of x]] show ?case
    using step_le [OF Cons.prems, of x] le_trans by auto
qed

end

lemma extends_refl [simp]: "extends c c"
  by (simp add: extends_def)

lemma extends_trans: "extends c c' \<Longrightarrow> extends c' c'' \<Longrightarrow> extends c c''"
  unfolding extends_def
proof (intro conjI allI impI; elim conjE)
  fix i assume a: "\<forall>i<length (workers c). node_id (workers c' ! i) = node_id (workers c ! i) \<and>
        config_epoch (workers c ! i) \<le> config_epoch (workers c' ! i)"
     "\<forall>i<length (workers c'). node_id (workers c'' ! i) = node_id (workers c' ! i) \<and>
        config_epoch (workers c' ! i) \<le> config_epoch (workers c'' ! i)"
     "i < length (workers c)" "length (workers c) \<le> length (workers c')"
  from a(1,3) a(2) [rule_format, of i] a(4)
  show "node_id (workers c'' ! i) = node_id (workers c ! i)"
    and "config_epoch (workers c ! i) \<le> config_epoch (workers c'' ! i)"
    by auto
qed simp

lemma merge_worker_ref_extends:
  assumes "merge_worker_ref c meta cf = (c', ch)"
  shows "extends c c' \<and> slot_map c' = slot_map c \<and>
    (1 < length (workers c) \<and> node_id (workers c ! 1) \<noteq> m_node_id meta \<longrightarrow> workers c' ! 1 = workers c ! 1)
    \<and> length (workers c') \<le> Suc (length (workers c))"
  using assms
proof (cases rule: merge_worker_ref_cases)
  case (updated new_id k w)
  have p: "Suc k < length (workers c)" "node_id (workers c ! Suc k) = Some new_id"
    using position_drop1 [OF updated(3)] by simp_all
  have w: "node_id w = Some new_id" "config_epoch w = m_config_epoch meta"
    using updated(1,5) by (auto simp: meta_of_def)
  have "workers c' ! i = (if i = Suc k then w else workers c ! i)" for i
    using updated(4) p by simp
  moreover have "slot_map c' = slot_map c" "length (workers c') = length (workers c)"
    using updated(4) by simp_all
  ultimately show ?thesis using updated(1,7) p w by (auto simp: extends_def)
qed (auto simp: extends_def nth_append)

lemma merge_worker_ref_other:
  assumes "merge_worker_ref c meta cf = (c', ch)" and "i < length (workers c)"
    and "node_id (workers c ! i) \<noteq> m_node_id meta"
  shows "workers c' ! i = workers c ! i"
  using assms(1)
proof (cases rule: merge_worker_ref_cases)
  case (updated new_id k w)
  then have "node_id (workers c ! Suc k) = m_node_id meta" using position_drop1 [OF updated(3)] by simp
  then have "i \<noteq> Suc k" using assms(3) by auto
  then show ?thesis using updated(4) by simp
qed (use assms(2) in \<open>simp_all add: nth_append\<close>)

lemma is_banned_frame:
  "fst (is_banned now t nid) = t\<lparr>ban_list := ban_list (fst (is_banned now t nid))\<rparr>"
  by (simp add: is_banned_def split: option.split)

lemma is_banned_keeps:
  assumes "ban_list t b = Some e" and "now < e"
  shows "ban_list (fst (is_banned now t nid)) b = Some e" and "nid = b \<Longrightarrow> snd (is_banned now t nid)"
  using assms by (auto simp: is_banned_def split: option.split)

lemma record_vote_ban [simp]: "ban_list (record_vote s sec t) = ban_list t"
  by (simp add: record_vote_def split: option.split)

lemma process_section_cases:
  assumes "process_section clock sender (t, c, ch) (i, sec) = (t', c', ch')"
  obtains (skip) "c' = c" "ch' = ch"
      "t' = t \<or> t' = fst (is_banned (clock (i + 1)) t (sec_node_id sec))"
  | (merge) m where "sec_node_id sec \<noteq> []" "sec_node_id sec \<noteq> sender"
      "local_node_id c \<noteq> Some (sec_node_id sec)"
      "\<not> snd (is_banned (clock (i + 1)) t (sec_node_id sec))"
      "merge_worker_ref c (section_meta sec) False = (c', m)" "ch' \<longleftrightarrow> ch \<or> m"
      "t' = record_vote sender sec (fst (is_banned (clock (i + 1)) t (sec_node_id sec)))"
proof (cases "sec_node_id sec = [] \<or> sec_node_id sec = sender \<or> local_node_id c = Some (sec_node_id sec)")
  case True
  then show ?thesis using assms by (intro skip) (simp_all add: process_section_def)
next
  case False
  obtain t1 b where ib: "is_banned (clock (i + 1)) t (sec_node_id sec) = (t1, b)" by force
  show ?thesis
  proof (cases b)
    case True
    then show ?thesis using assms ib False by (intro skip) (simp_all add: process_section_def)
  next
    case nb: False
    obtain c1 m where m: "merge_worker_ref c (section_meta sec) False = (c1, m)" by force
    show ?thesis using assms ib False nb m by (intro merge [of m]) (simp_all add: process_section_def)
  qed
qed

lemma local_node_id_nth: "wf_config c \<Longrightarrow> local_node_id c = node_id (workers c ! 1)"
  using wf_configD(4) [of c] by (simp add: local_node_id_def)

lemma process_section_le:
  assumes "gossip_ok st"
  shows "gossip_ok (process_section clock sender st isec)"
    and "gossip_le st (process_section clock sender st isec)"
proof -
  obtain t c ch where st: "st = (t, c, ch)" by (cases st)
  obtain i sec where isec: "isec = (i, sec)" by (cases isec)
  obtain t' c' ch' where eq: "process_section clock sender (t, c, ch) (i, sec) = (t', c', ch')"
    by (metis prod_cases3)
  have wf: "wf_config c" using assms by (simp add: gossip_ok_def st)
  have "wf_config c' \<and> extends c c' \<and> slot_map c' = slot_map c \<and> workers c' ! 1 = workers c ! 1"
    using eq
  proof (cases rule: process_section_cases)
    case skip
    then show ?thesis using wf by simp
  next
    case (merge m)
    have "node_id (workers c ! 1) \<noteq> m_node_id (section_meta sec)"
      using merge(3) local_node_id_nth [OF wf] by (simp add: section_meta_def)
    moreover have "wf_config c'" using wf_merge_worker_ref [OF wf] merge(5) by (metis fst_conv)
    ultimately show ?thesis
      using merge_worker_ref_extends [OF merge(5)] wf_configD(4) [OF wf] by simp
  qed
  then show "gossip_ok (process_section clock sender st isec)"
    and "gossip_le st (process_section clock sender st isec)"
    by (simp_all add: gossip_ok_def gossip_le_def st isec eq)
qed

interpretation secs: inflationary gossip_le gossip_ok "process_section clock sender" for clock sender
proof unfold_locales
  show "gossip_le s s" for s by (simp add: gossip_le_def)
  show "gossip_le s t \<Longrightarrow> gossip_le t u \<Longrightarrow> gossip_le s u" for s t u
    using extends_trans by (auto simp: gossip_le_def)
qed (rule process_section_le; assumption)+

lemma process_packet_cases:
  assumes "process_packet clock t c p = (t', c', ch)"
  obtains (refused) "c' = c" "\<not> ch" "t' = t \<or> t' = fst (is_banned (clock 0) t (sender_id (header p)))"
      "sender_id (header p) = [] \<or> snd (is_banned (clock 0) t (sender_id (header p))) \<or>
       local_node_id c = Some (sender_id (header p))"
  | (merged) c1 ch1 c2 ch2 where
      "sender_id (header p) \<noteq> []" "\<not> snd (is_banned (clock 0) t (sender_id (header p)))"
      "local_node_id c \<noteq> Some (sender_id (header p))"
      "merge_worker_ref c (header_meta (header p)) True = (c1, ch1)"
      "(if sender_role (header p) = Primary
        then merge_sender_slots c1 (sender_id (header p)) (header_epoch (header p))
               (assigned_slots (header p)) (migrating_slots (header p))
        else (c1, False)) = (c2, ch2)"
      "(t', c', ch) = foldl (process_section clock (sender_id (header p)))
         (fst (is_banned (clock 0) t (sender_id (header p))), c2, ch1 \<or> ch2)
         (List.enumerate 0 (take MAX_GOSSIP_SECTIONS (sections p)))"
proof -
  obtain t1 b where ib: "is_banned (clock 0) t (sender_id (header p)) = (t1, b)" by force
  show ?thesis
  proof (cases "sender_id (header p) = [] \<or> b \<or> local_node_id c = Some (sender_id (header p))")
    case True
    then show ?thesis using assms ib
      by (intro refused) (auto simp: process_packet_def Let_def split: if_splits)
  next
    case False
    obtain c1 ch1 where m1: "merge_worker_ref c (header_meta (header p)) True = (c1, ch1)" by force
    obtain c2 ch2 where m2: "(if sender_role (header p) = Primary
        then merge_sender_slots c1 (sender_id (header p)) (header_epoch (header p))
               (assigned_slots (header p)) (migrating_slots (header p))
        else (c1, False)) = (c2, ch2)" by force
    have "(if length (sections p) > MAX_GOSSIP_SECTIONS then take MAX_GOSSIP_SECTIONS (sections p)
           else sections p) = take MAX_GOSSIP_SECTIONS (sections p)" by simp
    then show ?thesis using assms False ib
      by (intro merged [OF _ _ _ m1 m2]) (simp_all add: process_packet_def Let_def m1 m2 del: if_split_asm)
  qed
qed

lemma process_section_length:
  "length (workers (fst (snd (process_section clock sender st x)))) \<le> Suc (length (workers (fst (snd st))))"
proof -
  obtain t c ch where st: "st = (t, c, ch)" by (cases st)
  obtain i sec where x: "x = (i, sec)" by (cases x)
  obtain t' c' ch' where eq: "process_section clock sender (t, c, ch) (i, sec) = (t', c', ch')"
    by (metis prod_cases3)
  from eq have "length (workers c') \<le> Suc (length (workers c))"
    by (cases rule: process_section_cases) (use merge_worker_ref_extends in auto)
  then show ?thesis by (simp add: st x eq)
qed

lemma process_sections_length:
  "length (workers (fst (snd (foldl (process_section clock sender) st xs))))
     \<le> length (workers (fst (snd st))) + length xs"
proof (induction xs arbitrary: st)
  case (Cons x xs)
  from Cons.IH [of "process_section clock sender st x"] process_section_length [of clock sender st x]
  show ?case by simp
qed simp

lemma extends_slots: "workers c' = workers c \<Longrightarrow> extends c c'"
  by (simp add: extends_def)

text \<open>
  C9: Safety of \<open>process_packet\<close> for an arbitrary packet, hostile ones included.  The
  configuration stays well formed, no known node disappears and no configuration epoch
  decreases, the entry of the local node is not modified in any field, and the worker
  table grows by at most one entry for the sender and \<open>MAX_GOSSIP_SECTIONS\<close> others.
\<close>

theorem process_packet_safe:
  assumes "wf_config c" and "process_packet clock t c p = (t', c', ch)"
  shows "wf_config c' \<and> extends c c' \<and> workers c' ! LOCAL_WORKER_ID = workers c ! LOCAL_WORKER_ID \<and>
    length (workers c') \<le> length (workers c) + 1 + MAX_GOSSIP_SECTIONS"
  using assms(2)
proof (cases rule: process_packet_cases)
  case refused
  then show ?thesis using assms(1) by simp
next
  case (merged c1 ch1 c2 ch2)
  define st where "st = (fst (is_banned (clock 0) t (sender_id (header p))), c2, ch1 \<or> ch2)"
  have wf1: "wf_config c1" using wf_merge_worker_ref [OF assms(1)] merged(4) by (metis fst_conv)
  have c2: "workers c2 = workers c1 \<and> wf_config c2"
    using merged(5) wf1 wf_merge_sender_slots [OF wf1] merge_sender_slots_workers
    by (metis fst_conv)
  have "node_id (workers c ! 1) \<noteq> m_node_id (header_meta (header p))"
    using merged(3) local_node_id_nth [OF assms(1)] by (simp add: header_meta_def)
  with merge_worker_ref_extends [OF merged(4)] wf_configD(4) [OF assms(1)]
  have e1: "extends c c1" "workers c1 ! 1 = workers c ! 1" "length (workers c1) \<le> Suc (length (workers c))"
    by auto
  have "gossip_ok st" using c2 by (simp add: gossip_ok_def st_def)
  note F = secs.foldl_ok_le [OF this, of clock "sender_id (header p)"
      "List.enumerate 0 (take MAX_GOSSIP_SECTIONS (sections p))", folded merged(6) [folded st_def]]
  have "extends c1 c'" using F extends_trans [OF extends_slots] c2 by (auto simp: gossip_le_def st_def)
  moreover have "length (workers c') \<le> length (workers c2) + MAX_GOSSIP_SECTIONS"
    using process_sections_length [of clock "sender_id (header p)" st
        "List.enumerate 0 (take MAX_GOSSIP_SECTIONS (sections p))"] merged(6) [folded st_def, symmetric]
    by (simp add: st_def)
  ultimately show ?thesis
    using F e1 c2 extends_trans [OF e1(1)] by (auto simp: gossip_ok_def gossip_le_def st_def)
qed

theorem process_packet_safe_witness:
  "workers (fst (snd (process_packet (\<lambda>_. 0) GossipTracker_new sample_config
      \<lparr>header = GossipHeader_default\<lparr>sender_id := ''zz''\<rparr>, sections = []\<rparr>))) ! 1
   = Worker_primary ''aa'' ''10.0.0.1'' 7001 4"
proof -
  obtain t' c' ch where p: "process_packet (\<lambda>_. 0) GossipTracker_new sample_config
      \<lparr>header = GossipHeader_default\<lparr>sender_id := ''zz''\<rparr>, sections = []\<rparr> = (t', c', ch)"
    by (metis prod_cases3)
  show ?thesis using process_packet_safe [OF sample_config_wf p] by (simp add: p sample_config_workers)
qed

lemma listed_iff:
  "listed c nid \<longleftrightarrow> (\<exists>i. 1 \<le> i \<and> i < length (workers c) \<and> node_id (workers c ! i) = Some nid)"
proof -
  have "listed c nid \<longleftrightarrow> (\<exists>k < length (workers c) - 1. node_id (drop 1 (workers c) ! k) = Some nid)"
    by (auto simp: listed_def list_ex_length)
  also have "\<dots> \<longleftrightarrow> (\<exists>k < length (workers c) - 1. node_id (workers c ! Suc k) = Some nid)"
    by (intro ex_cong1 conj_cong refl) simp
  also have "\<dots> \<longleftrightarrow> (\<exists>i. 1 \<le> i \<and> i < length (workers c) \<and> node_id (workers c ! i) = Some nid)"
    by (metis One_nat_def Suc_le_D Suc_less_eq diff_Suc_1 le_add1 less_diff_conv plus_1_eq_Suc add.commute)
  finally show ?thesis .
qed

lemma merge_worker_ref_listed:
  assumes "2 \<le> length (workers c)" and "merge_worker_ref c meta cf = (c', ch)" and "m_node_id meta \<noteq> Some b"
  shows "listed c' b \<longleftrightarrow> listed c b"
  using assms(2)
proof (cases rule: merge_worker_ref_cases)
  case (added new_id w)
  then show ?thesis using assms(1,3) by (auto simp: listed_def meta_of_def)
next
  case (updated new_id k w)
  have p: "Suc k < length (workers c)" "node_id (workers c ! Suc k) = Some new_id"
    using position_drop1 [OF updated(3)] by simp_all
  have "node_id w = Some new_id" using updated(1,5) by (auto simp: meta_of_def)
  then have "node_id (workers c' ! i) = node_id (workers c ! i)" for i
    using updated(4) p by (cases "i = Suc k") simp_all
  moreover have "length (workers c') = length (workers c)" using updated(4) by simp
  ultimately show ?thesis by (simp add: listed_iff)
qed (simp_all)

lemma process_section_ban:
  assumes "gossip_ok st" and "ban_list (fst st) b = Some e" and "\<forall>k. clock k < e"
  shows "ban_list (fst (process_section clock sender st x)) b = Some e"
    and "listed (fst (snd (process_section clock sender st x))) b = listed (fst (snd st)) b"
proof -
  obtain t c ch where st: "st = (t, c, ch)" by (cases st)
  obtain i sec where x: "x = (i, sec)" by (cases x)
  obtain t' c' ch' where eq: "process_section clock sender (t, c, ch) (i, sec) = (t', c', ch')"
    by (metis prod_cases3)
  have l: "2 \<le> length (workers c)" using assms(1) by (simp add: gossip_ok_def st wf_configD)
  have k: "ban_list (fst (is_banned (clock (i + 1)) t nid)) b = Some e"
      "nid = b \<Longrightarrow> snd (is_banned (clock (i + 1)) t nid)" for nid
    using is_banned_keeps [of t b e "clock (i + 1)" nid] assms(2,3) by (simp_all add: st)
  have "ban_list t' b = Some e \<and> listed c' b = listed c b"
    using eq
  proof (cases rule: process_section_cases)
    case skip
    then show ?thesis using k assms(2) st by auto
  next
    case (merge m)
    have "m_node_id (section_meta sec) \<noteq> Some b" using merge(4) k(2) by (auto simp: section_meta_def)
    then show ?thesis using merge_worker_ref_listed [OF l merge(5)] merge(7) k(1) by simp
  qed
  then show "ban_list (fst (process_section clock sender st x)) b = Some e"
    and "listed (fst (snd (process_section clock sender st x))) b = listed (fst (snd st)) b"
    by (simp_all add: st x eq)
qed

lemma process_sections_ban:
  assumes "gossip_ok st" and "ban_list (fst st) b = Some e" and "\<forall>k. clock k < e"
  shows "ban_list (fst (foldl (process_section clock sender) st xs)) b = Some e \<and>
    listed (fst (snd (foldl (process_section clock sender) st xs))) b = listed (fst (snd st)) b"
  using assms(1,2)
proof (induction xs arbitrary: st)
  case (Cons x xs)
  from Cons.IH [OF secs.step_ok [OF Cons.prems(1)] process_section_ban(1) [OF Cons.prems assms(3)]]
  show ?case using process_section_ban(2) [OF Cons.prems assms(3)] by simp
qed simp

lemma process_packet_bans:
  assumes "wf_config c" and "ban_list t b = Some e" and "\<forall>k. clock k < e"
    and "process_packet clock t c p = (t', c', ch)"
  shows "ban_list t' b = Some e \<and> (listed c' b \<longleftrightarrow> listed c b)"
  using assms(4)
proof (cases rule: process_packet_cases)
  case refused
  then show ?thesis using is_banned_keeps(1) [OF assms(2)] assms(2,3) by auto
next
  case (merged c1 ch1 c2 ch2)
  define st where "st = (fst (is_banned (clock 0) t (sender_id (header p))), c2, ch1 \<or> ch2)"
  have wf1: "wf_config c1" using wf_merge_worker_ref [OF assms(1)] merged(4) by (metis fst_conv)
  have c2: "workers c2 = workers c1 \<and> wf_config c2"
    using merged(5) wf1 wf_merge_sender_slots [OF wf1] merge_sender_slots_workers
    by (metis fst_conv)
  have "m_node_id (header_meta (header p)) \<noteq> Some b"
    using merged(2) is_banned_keeps(2) [OF assms(2)] assms(3) by (auto simp: header_meta_def)
  then have l1: "listed c1 b \<longleftrightarrow> listed c b"
    using merge_worker_ref_listed [OF wf_configD(2) [OF assms(1)] merged(4)] by simp
  have "gossip_ok st" using c2 by (simp add: gossip_ok_def st_def)
  moreover have "ban_list (fst st) b = Some e"
    using is_banned_keeps(1) [OF assms(2)] assms(3) by (simp add: st_def)
  ultimately have "ban_list t' b = Some e \<and> listed c' b = listed c2 b"
    using process_sections_ban [of st b e clock] assms(3) merged(6) [folded st_def, symmetric]
    by (metis fst_conv snd_conv st_def)
  then show ?thesis using l1 c2 by (simp add: listed_def)
qed

text \<open>
  A forgotten node stays forgotten.  As long as the ban of a node id has not expired at
  any clock reading, no packet, sent by it or mentioning it, brings that id into the
  worker table (or out of it), and the ban itself survives.
\<close>

theorem process_packet_respects_ban:
  assumes "wf_config c" and "ban_list t b = Some e" and "\<forall>k. clock k < e"
    and "process_packet clock t c p = (t', c', ch)"
  shows "ban_list t' b = Some e \<and> (listed c' b \<longleftrightarrow> listed c b)"
  by (rule process_packet_bans [OF assms])

theorem process_packet_respects_ban_witness:
  "\<not> listed (fst (snd (process_packet (\<lambda>_. 5) (ban 0 GossipTracker_new ''cc'' 60) sample_config
      \<lparr>header = GossipHeader_default\<lparr>sender_id := ''cc''\<rparr>, sections = []\<rparr>))) ''cc''"
proof -
  obtain t' c' ch where p: "process_packet (\<lambda>_. 5) (ban 0 GossipTracker_new ''cc'' 60) sample_config
      \<lparr>header = GossipHeader_default\<lparr>sender_id := ''cc''\<rparr>, sections = []\<rparr> = (t', c', ch)"
    by (metis prod_cases3)
  have "ban_list (ban 0 GossipTracker_new ''cc'' 60) ''cc'' = Some 60"
    by (simp add: ban_def GossipTracker_new_def)
  from process_packet_respects_ban [OF sample_config_wf this _ p] show ?thesis
    by (simp add: p listed_def sample_config_workers Worker_primary_def Worker_new_def)
qed

lemma fail_votes_frame [simp]: "fail_votes (t\<lparr>fail_nodes := X\<rparr>) c j = fail_votes t c j"
  by (simp add: fail_votes_def)

lemma evaluate_fold:
  assumes "foldl (evaluate_worker c) (t, ns) ws = (t', ns')" and "set ns \<subseteq> fail_nodes t"
  shows "fail_nodes t' = fail_nodes t \<union> (set ns' - set ns) \<and>
    t' = t\<lparr>fail_nodes := fail_nodes t'\<rparr> \<and>
    (\<exists>new. ns' = ns @ new \<and> distinct new \<and>
      (\<forall>i. i \<in> set new \<longleftrightarrow> i \<notin> fail_nodes t \<and> (\<exists>w \<in> set ws. node_id w = Some i) \<and>
         fail_majority c \<le> fail_votes t c i))"
  using assms
proof (induction ws arbitrary: t ns)
  case Nil
  then show ?case by auto
next
  case (Cons w ws)
  show ?case
  proof (cases "\<exists>i. node_id w = Some i \<and> i \<notin> fail_nodes t \<and> fail_majority c \<le> fail_votes t c i")
    case False
    then have s: "evaluate_worker c (t, ns) w = (t, ns)"
      by (auto simp: evaluate_worker_def split: option.splits)
    with Cons.prems have "foldl (evaluate_worker c) (t, ns) ws = (t', ns')" by simp
    from Cons.IH [OF this Cons.prems(2)] False show ?thesis by auto
  next
    case True
    then obtain i where i: "node_id w = Some i" "i \<notin> fail_nodes t" "fail_majority c \<le> fail_votes t c i" by blast
    define t1 where "t1 = t\<lparr>fail_nodes := insert i (fail_nodes t)\<rparr>"
    have s: "evaluate_worker c (t, ns) w = (t1, ns @ [i])"
      using i by (simp add: evaluate_worker_def t1_def)
    with Cons.prems have "foldl (evaluate_worker c) (t1, ns @ [i]) ws = (t', ns')" by simp
    moreover have "set (ns @ [i]) \<subseteq> fail_nodes t1" using Cons.prems(2) by (auto simp: t1_def)
    ultimately have IH: "fail_nodes t' = fail_nodes t1 \<union> (set ns' - set (ns @ [i])) \<and>
      t' = t1\<lparr>fail_nodes := fail_nodes t'\<rparr> \<and>
      (\<exists>new. ns' = (ns @ [i]) @ new \<and> distinct new \<and>
        (\<forall>j. j \<in> set new \<longleftrightarrow> j \<notin> fail_nodes t1 \<and> (\<exists>w \<in> set ws. node_id w = Some j) \<and>
           fail_majority c \<le> fail_votes t1 c j))"
      by (rule Cons.IH)
    then obtain new where new: "ns' = (ns @ [i]) @ new" "distinct new"
      "\<And>j. j \<in> set new \<longleftrightarrow> j \<notin> fail_nodes t1 \<and> (\<exists>w \<in> set ws. node_id w = Some j) \<and>
           fail_majority c \<le> fail_votes t1 c j" by blast
    have "j \<in> set (i # new) \<longleftrightarrow> j \<notin> fail_nodes t \<and> (\<exists>w \<in> set (w # ws). node_id w = Some j) \<and>
         fail_majority c \<le> fail_votes t c j" for j
      using new(3) [of j] i by (cases "j = i") (simp_all add: t1_def)
    moreover have "ns' = ns @ (i # new)" "distinct (i # new)"
      using new(1,2) new(3) [of i] by (simp_all add: t1_def)
    moreover have "fail_nodes t' = fail_nodes t \<union> (set ns' - set ns)"
      using IH i(2) Cons.prems(2) new(1) by (auto simp: t1_def)
    moreover have "t' = t\<lparr>fail_nodes := fail_nodes t'\<rparr>" using IH by (cases t; cases t') (simp add: t1_def)
    ultimately show ?thesis by blast
  qed
qed


text \<open>
  C39: Failure detection needs a strict majority.  \<open>evaluate_fail_status\<close> reports, without
  repetition, exactly the remote nodes that are not failed yet and against which the local
  primary and the reporting primaries cast at least \<open>n div 2 + 1\<close> votes, that is more than
  half of the \<open>n\<close> known primaries; it records exactly these as failed and changes nothing else.
\<close>

theorem evaluate_fail_status_correct:
  "case evaluate_fail_status t c of (t', newly) \<Rightarrow>
     distinct newly \<and> t' = t\<lparr>fail_nodes := fail_nodes t \<union> set newly\<rparr> \<and>
     (\<forall>i. i \<in> set newly \<longleftrightarrow> i \<notin> fail_nodes t \<and> Some i \<in> node_id ` set (drop 2 (workers c)) \<and>
        get_primary_count c < 2 * fail_votes t c i)"
proof -
  obtain t' newly where eq: "evaluate_fail_status t c = (t', newly)" by force
  have half: "fail_majority c \<le> v \<longleftrightarrow> get_primary_count c < 2 * v" for v
    by (auto simp: fail_majority_def)
  have ex: "(\<exists>w \<in> set ws. node_id w = Some i) \<longleftrightarrow> Some i \<in> node_id ` set ws" for ws i
    by force
  have f: "foldl (evaluate_worker c) (t, []) (drop 2 (workers c)) = (t', newly)"
    using eq by (simp only: evaluate_fail_status_def)
  have "set [] \<subseteq> fail_nodes t" by simp
  note E = evaluate_fold [OF f this]
  have fn: "fail_nodes t' = fail_nodes t \<union> set newly" using conjunct1 [OF E] by simp
  have "t' = t\<lparr>fail_nodes := fail_nodes t'\<rparr>" using E by blast
  also have "\<dots> = t\<lparr>fail_nodes := fail_nodes t \<union> set newly\<rparr>" by (simp only: fn)
  finally have t': "t' = t\<lparr>fail_nodes := fail_nodes t \<union> set newly\<rparr>" .
  have "distinct newly \<and>
      (\<forall>i. i \<in> set newly \<longleftrightarrow> i \<notin> fail_nodes t \<and> (\<exists>w \<in> set (drop 2 (workers c)). node_id w = Some i) \<and>
         fail_majority c \<le> fail_votes t c i)"
    using conjunct2 [OF conjunct2 [OF E]] by auto
  then show ?thesis unfolding eq case_prod_conv half ex using t' by blast
qed

lemma shuffle_prefix_inv:
  assumes "\<forall>i < count. i \<le> rnd i \<and> rnd i < length xs" and "count \<le> length xs" and "distinct xs"
  shows "distinct (shuffle_prefix rnd count xs) \<and> set (shuffle_prefix rnd count xs) = set xs \<and>
    length (shuffle_prefix rnd count xs) = length xs"
  using assms
proof (induction count)
  case 0
  then show ?case by (simp add: shuffle_prefix_def)
next
  case (Suc n)
  define ys where "ys = shuffle_prefix rnd n xs"
  have y: "distinct ys \<and> set ys = set xs \<and> length ys = length xs"
    unfolding ys_def using Suc by auto
  have "shuffle_prefix rnd (Suc n) xs = swap_at n (rnd n) ys"
    by (simp add: shuffle_prefix_def ys_def)
  moreover have "n < length ys" "rnd n < length ys" using Suc.prems y by auto
  ultimately show ?case using y by (simp add: swap_at_def)
qed

lemma create_packet_sections:
  "sections (create_packet rnd t c n) =
     (if length (packet_known c) \<le> n then map (build_section t) (packet_known c)
      else map (\<lambda>idx. build_section t (packet_known c ! idx))
             (take n (shuffle_prefix rnd n [0..<length (packet_known c)])))"
  by (cases "packet_slots c") (simp add: create_packet_def Let_def min_def)

text \<open>
  The sample of a packet.  If every random draw of round \<open>i\<close> lies in the range that
  \<open>i..known.len()\<close> asks for, the sections of \<open>create_packet\<close> describe pairwise different
  known remote nodes, and as many of them as were asked for or as there are.
\<close>

theorem create_packet_sample:
  assumes "\<forall>i < sample_count. i < length (packet_known c) \<longrightarrow> i \<le> rnd i \<and> rnd i < length (packet_known c)"
  shows "\<exists>idxs. distinct idxs \<and> set idxs \<subseteq> {..<length (packet_known c)} \<and>
    length idxs = min sample_count (length (packet_known c)) \<and>
    sections (create_packet rnd t c sample_count) = map (\<lambda>i. build_section t (packet_known c ! i)) idxs"
proof (cases "length (packet_known c) \<le> sample_count")
  case True
  have "map (build_section t) (packet_known c)
        = map (\<lambda>i. build_section t (packet_known c ! i)) [0..<length (packet_known c)]"
    by (rule nth_equalityI) simp_all
  with True have "sections (create_packet rnd t c sample_count)
        = map (\<lambda>i. build_section t (packet_known c ! i)) [0..<length (packet_known c)]"
    by (simp only: create_packet_sections if_True)
  then show ?thesis using True
    by (intro exI [of _ "[0..<length (packet_known c)]"]) (simp add: min_absorb2 atLeast0LessThan)
next
  case False
  define sh where "sh = shuffle_prefix rnd sample_count [0..<length (packet_known c)]"
  have "\<forall>i < sample_count. i \<le> rnd i \<and> rnd i < length [0..<length (packet_known c)]"
    using assms False by simp
  then have sh: "distinct sh \<and> set sh = set [0..<length (packet_known c)] \<and> length sh = length [0..<length (packet_known c)]"
    unfolding sh_def using False by (intro shuffle_prefix_inv) simp_all
  have "sections (create_packet rnd t c sample_count)
        = map (\<lambda>i. build_section t (packet_known c ! i)) (take sample_count sh)"
    using False by (simp only: create_packet_sections if_False sh_def)
  moreover have "distinct (take sample_count sh)" using sh by (simp add: distinct_take)
  moreover have "set (take sample_count sh) \<subseteq> {..<length (packet_known c)}"
    using sh set_take_subset [of sample_count sh] by auto
  moreover have "length (take sample_count sh) = min sample_count (length (packet_known c))"
    using sh by simp
  ultimately show ?thesis by blast
qed

theorem create_packet_sample_witness:
  "length (sections (create_packet (\<lambda>_. 0) GossipTracker_new sample_config 1)) = 1"
proof -
  have l: "length (packet_known sample_config) = 1"
    by (simp add: packet_known_def sample_config_workers Worker_primary_def Worker_new_def)
  obtain idxs where "length idxs = min 1 (length (packet_known sample_config))"
    "sections (create_packet (\<lambda>_. 0) GossipTracker_new sample_config 1) =
       map (\<lambda>i. build_section GossipTracker_new (packet_known sample_config ! i)) idxs"
    using create_packet_sample [of 1 sample_config "\<lambda>_. 0" GossipTracker_new] l by auto
  then show ?thesis using l by simp
qed

lemma packet_slots_list:
  "set (fst (foldl packet_slot_step ([], []) (List.enumerate 0 sm)))
     = as_u16 ` {s. s < length sm \<and> worker_id (sm ! s) = 1 \<and> state (sm ! s) = Stable}"
proof (induction sm rule: rev_induct)
  case Nil
  then show ?case by simp
next
  case (snoc hs sm)
  obtain a m where am: "foldl packet_slot_step ([], []) (List.enumerate 0 sm) = (a, m)" by force
  have e: "foldl packet_slot_step ([], []) (List.enumerate 0 (sm @ [hs]))
           = packet_slot_step (a, m) (length sm, hs)"
    by (simp add: enumerate_append_eq am)
  have s: "{s. s < length (sm @ [hs]) \<and> worker_id ((sm @ [hs]) ! s) = 1 \<and> state ((sm @ [hs]) ! s) = Stable}
    = {s. s < length sm \<and> worker_id (sm ! s) = 1 \<and> state (sm ! s) = Stable} \<union>
      (if worker_id hs = 1 \<and> state hs = Stable then {length sm} else {})"
    by (auto simp: nth_append less_Suc_eq split: if_splits)
  have a: "set a = as_u16 ` {s. s < length sm \<and> worker_id (sm ! s) = 1 \<and> state (sm ! s) = Stable}"
    using snoc by (simp add: am)
  show ?case
    unfolding e s image_Un a [symmetric]
    by (simp add: packet_slot_step_def effective_worker_id_def)
qed

lemma packet_slots_assigned:
  assumes "wf_config c"
  shows "slot \<in> set (fst (packet_slots c)) \<longleftrightarrow> unat slot < TOTAL_HASH_SLOTS \<and>
    worker_id (slot_map c ! unat slot) = 1 \<and> state (slot_map c ! unat slot) = Stable"
proof -
  have "as_u16 (unat slot) = slot" by simp
  then show ?thesis
    unfolding packet_slots_def packet_slots_list wf_configD(1) [OF assms]
    by (auto simp: unat_as_u16 slot_consts image_iff intro: exI [of _ "unat slot"])
qed

lemma merge_worker_ref_lists:
  assumes "merge_worker_ref c meta cf = (c', ch)" and "m_node_id meta = Some b" and "b \<noteq> []" and "1 < length (workers c)"
  shows "listed c' b"
  using assms(1)
proof (cases rule: merge_worker_ref_cases)
  case (added new_id w)
  then show ?thesis using assms(2,4) by (auto simp: listed_def meta_of_def)
next
  case (stale new_id i)
  then show ?thesis using assms(2) position_drop1 [OF stale(5)]
    by (auto simp: listed_iff intro!: exI [of _ "Suc i"])
next
  case (updated new_id i w)
  have "node_id w = Some b" using updated(5) assms(2) by (auto simp: meta_of_def)
  then show ?thesis using updated(4) position_drop1 [OF updated(3)]
    by (auto simp: listed_iff intro!: exI [of _ "Suc i"])
qed (use assms in auto)

lemma merge_worker_ref_listed_self:
  assumes "merge_worker_ref c meta cf = (c', ch)" and "m_node_id meta = Some b" and "b \<noteq> []" and "1 < length (workers c)"
  shows "get_worker_id_from_node_id c' b \<noteq> 0"
proof -
  have "listed c' b" using merge_worker_ref_lists [OF assms] .
  then show ?thesis
    unfolding listed_def list_ex_iff worker_lookup_0 by (force simp: has_node_id_def)
qed

lemma create_packet_header:
  assumes "wf_config a"
  shows "header (create_packet rnd t a n) =
    \<lparr>sender_id = (case node_id (workers a ! 1) of Some i \<Rightarrow> i | None \<Rightarrow> []),
     sender_addr = address (workers a ! 1), sender_port = port (workers a ! 1),
     sender_role = role (workers a ! 1), header_epoch = config_epoch (workers a ! 1),
     assigned_slots = fst (packet_slots a), migrating_slots = snd (packet_slots a),
     header_replica_of = replica_of_node_id (workers a ! 1),
     header_hostname = hostname (workers a ! 1)\<rparr>"
  using wf_configD(4) [OF assms]
  by (cases "packet_slots a") (simp add: create_packet_def Let_def)

text \<open>
  C13: Ownership travels with gossip.  If a primary builds a packet while it holds a slot as
  stable, and a receiver that has not banned it records another owner with a smaller
  epoch for that slot, then after processing the packet the receiver attributes the slot,
  as stable, to the sender.
\<close>

theorem gossip_propagates_slot:
  assumes "wf_config a" and "wf_config c" and "length (workers c) < 65536"
    and lid: "node_id (workers a ! 1) = Some lid" "lid \<noteq> []" "role (workers a ! 1) = Primary"
    and ep: "config_epoch (workers a ! 1) = e" "0 < e"
    and slot: "unat slot < TOTAL_HASH_SLOTS" "slot_map a ! unat slot = HashSlot_new 1 Stable"
    and rcv: "local_node_id c \<noteq> Some lid" "\<not> snd (is_banned (clock 0) t lid)"
    and owner: "ow = workers c ! unat (worker_id (slot_map c ! unat slot))"
      "node_id ow \<noteq> Some lid" "config_epoch ow < e"
    and p: "process_packet clock t c (create_packet rnd ta a n) = (t', c', ch)"
  shows "\<exists>o'. get_owner_id_from_slot c' slot = Some o' \<and> eq_ignore_ascii_case o' lid \<and>
    get_state c' slot = Stable"
proof -
  define h where "h = header (create_packet rnd ta a n)"
  have h: "sender_id h = lid" "sender_role h = Primary" "header_epoch h = e"
    "assigned_slots h = fst (packet_slots a)"
    using create_packet_header [OF assms(1)] lid ep by (simp_all add: h_def)
  have claim: "slot \<in> set (assigned_slots h)"
    using slot by (simp add: h packet_slots_assigned [OF assms(1)] HashSlot_new_def)
  from p show ?thesis
  proof (cases rule: process_packet_cases)
    case refused
    then show ?thesis using rcv lid(2) by (simp add: h_def [symmetric] h)
  next
    case (merged c1 ch1 c2 ch2)
    note m = merged [folded h_def, unfolded h]
    define st where "st = (fst (is_banned (clock 0) t lid), c2, ch1 \<or> ch2)"
    have wf1: "wf_config c1" using wf_merge_worker_ref [OF assms(2)] m(4) by (metis fst_conv)
    define wid where "wid = get_worker_id_from_node_id c1 lid"
    have wid: "wid \<noteq> 0" unfolding wid_def
      using merge_worker_ref_listed_self [OF m(4) _ lid(2) wf_configD(4) [OF assms(2)]]
      by (simp add: header_meta_def h)
    note look = worker_lookup_Some [OF wid_def [symmetric] wid]
    have x: "slot_map c1 = slot_map c" "length (workers c1) \<le> 65536"
      using merge_worker_ref_extends [OF m(4)] assms(3) by auto
    have ow: "workers c1 ! unat (worker_id (slot_map c ! unat slot)) = ow"
      unfolding owner(1)
      by (rule merge_worker_ref_other [OF m(4)])
         (use wf_configD(6) [OF assms(2) slot(1)] owner(1,2) in \<open>simp_all add: header_meta_def h\<close>)
    have "claim_wins (workers c1) e (slot_map c1 ! unat slot)"
      using wf_configD(6) [OF wf1 slot(1)] ow owner(3) x(1) by (simp add: claim_wins_def owner_epoch_of_def)
    then have s2: "slot_map c2 ! unat slot = HashSlot_new (as_u16 wid) Stable"
      using merge_sender_slots_spec(3) [OF wf1 x(2) lid(2), of e "assigned_slots h" "migrating_slots h" c2 ch2 slot]
        m(5) wid slot(1) claim h(4) by (simp add: wid_def merged_slot_def)
    have c2: "workers c2 = workers c1 \<and> wf_config c2"
      using m(5) wf_merge_sender_slots [OF wf1] merge_sender_slots_workers by (metis fst_conv)
    have "gossip_ok st" using c2 by (simp add: gossip_ok_def st_def)
    note F = secs.foldl_ok_le [OF this, of clock lid
      "List.enumerate 0 (take MAX_GOSSIP_SECTIONS (sections (create_packet rnd ta a n)))",
      folded m(6) [folded st_def]]
    have uw: "unat (as_u16 wid) = wid" using look(1) x(2) by (intro unat_as_u16) simp
    have "wid < length (workers c') \<and> node_id (workers c' ! wid) = node_id (workers c1 ! wid)"
      using F look(1) c2 by (auto simp: gossip_le_def extends_def st_def)
    moreover have "slot_map c' ! unat slot = HashSlot_new (as_u16 wid) Stable"
      using F s2 by (simp add: gossip_le_def st_def)
    moreover obtain o' where "node_id (workers c1 ! wid) = Some o'" "eq_ignore_ascii_case o' lid"
      using look(2) by (auto simp: has_node_id_def split: option.splits)
    ultimately show ?thesis using slot(1) uw
      by (simp add: get_owner_id_from_slot_def get_state_def HashSlot_new_def effective_worker_id_def)
  qed
qed

theorem gossip_propagates_slot_witness:
  "\<exists>o'. get_owner_id_from_slot (fst (snd (process_packet (\<lambda>_. 0) GossipTracker_new sample_config
      (create_packet (\<lambda>i. i) GossipTracker_new
        (sample_config\<lparr>workers := (workers sample_config)[1 := Worker_primary ''cc'' ''10.0.0.3'' 7003 9]\<rparr>) 0)))) 0
    = Some o' \<and> eq_ignore_ascii_case o' ''cc''"
proof -
  define a where "a = sample_config\<lparr>workers := (workers sample_config)
      [1 := Worker_primary ''cc'' ''10.0.0.3'' 7003 9]\<rparr>"
  have wf: "wf_config a" unfolding a_def by (intro wf_config_worker_update sample_config_wf) simp
  obtain t' c' ch where p: "process_packet (\<lambda>_. 0) GossipTracker_new sample_config
      (create_packet (\<lambda>i. i) GossipTracker_new a 0) = (t', c', ch)" by (metis prod_cases3)
  have "\<exists>o'. get_owner_id_from_slot c' 0 = Some o' \<and> eq_ignore_ascii_case o' ''cc'' \<and>
    get_state c' 0 = Stable"
    by (rule gossip_propagates_slot [OF wf sample_config_wf _ _ _ _ refl _ _ _ _ _ refl _ _ p])
       (simp_all add: a_def sample_config_workers sample_config_slots Worker_primary_def Worker_new_def
         slot_consts local_node_id_def is_banned_def GossipTracker_new_def HashSlot_new_def)
  then show ?thesis using p by (auto simp: a_def)
qed

end
