(* ===== verification/Cluster_Route.thy ===== *)
theory Cluster_Route
  imports Cluster_Config
begin

text \<open>
  Request routing: \<open>src/wedb_cluster/src/migration.rs\<close>, the redirection replies of
  \<open>protocol.rs\<close>, and the verification entry points of \<open>manager.rs\<close> (\<open>verify_key\<close>,
  \<open>verify_keys\<close>, \<open>to_resp_error\<close>), which read the current configuration and nothing else.
\<close>

datatype RouteResult =
    ROk u16
  | Moved u16 string
  | Ask u16 string
  | CrossSlot
  | ClusterDown

definition make_endpoint_route ::
  "ClusterConfig \<Rightarrow> nat \<Rightarrow> u16 \<Rightarrow> (u16 \<Rightarrow> string \<Rightarrow> RouteResult) \<Rightarrow> RouteResult" where
  "make_endpoint_route c wid slot ctor =
     (if wid = 0 then ClusterDown
      else case get_worker_address c wid of (ip, p) \<Rightarrow>
        if ip = ''unassigned'' \<or> p = 0 then ClusterDown
        else ctor slot (ip @ '':'' @ show_nat (unat p)))"

definition route_slot_ext :: "ClusterConfig \<Rightarrow> u16 \<Rightarrow> bool \<Rightarrow> bool \<Rightarrow> bool \<Rightarrow> RouteResult" where
  "route_slot_ext c slot is_asking key_exists_locally read_only =
     (if is_local c slot read_only then
        (case get_state c slot of
           Stable \<Rightarrow> ROk slot
         | Migrating \<Rightarrow>
             if key_exists_locally then ROk slot
             else make_endpoint_route c (unat (worker_id (slot_map c ! unat slot))) slot Ask
         | _ \<Rightarrow> ClusterDown)
      else if get_state c slot = Importing \<and> is_asking then ROk slot
      else if get_state c slot = Importing \<or> get_state c slot = Stable then
        (let owner_wid = unat (effective_worker_id (slot_map c ! unat slot));
             owner_wid' =
               (if owner_wid = LOCAL_WORKER_ID \<and> is_replica c then
                  (case local_node_primary_id c of
                     None \<Rightarrow> owner_wid
                   | Some pri_id \<Rightarrow>
                       (let p_wid = get_worker_id_from_node_id c pri_id
                        in if p_wid > 0 then p_wid else owner_wid))
                else owner_wid)
         in make_endpoint_route c owner_wid' slot Moved)
      else ClusterDown)"

definition route_request_ext :: "ClusterConfig \<Rightarrow> bytes \<Rightarrow> bool \<Rightarrow> bool \<Rightarrow> bool \<Rightarrow> RouteResult" where
  "route_request_ext c key is_asking key_exists_locally read_only =
     route_slot_ext c (hash_slot key) is_asking key_exists_locally read_only"

definition route_request :: "ClusterConfig \<Rightarrow> bytes \<Rightarrow> bool \<Rightarrow> bool \<Rightarrow> RouteResult" where
  "route_request c key is_asking key_exists_locally =
     route_request_ext c key is_asking key_exists_locally False"

definition verify_key :: "ClusterConfig \<Rightarrow> bytes \<Rightarrow> bool \<Rightarrow> bool \<Rightarrow> bool \<Rightarrow> RouteResult" where
  "verify_key c key key_exists session_asking read_only =
     route_request_ext c key session_asking key_exists read_only"

definition verify_keys :: "ClusterConfig \<Rightarrow> bytes list \<Rightarrow> bool \<Rightarrow> bool \<Rightarrow> bool \<Rightarrow> RouteResult" where
  "verify_keys c ks key_exists session_asking read_only =
     (case ks of
        [] \<Rightarrow> ROk 0
      | k # rest \<Rightarrow>
          (let first_slot = hash_slot k in
           if list_ex (\<lambda>key. hash_slot key \<noteq> first_slot) rest then CrossSlot
           else route_slot_ext c first_slot session_asking key_exists read_only))"

section \<open>Replies\<close>

definition format_moved_err :: "u16 \<Rightarrow> string \<Rightarrow> string" where
  "format_moved_err slot endpoint = ''-MOVED '' @ show_nat (unat slot) @ '' '' @ endpoint @ CRLF"

definition format_ask_err :: "u16 \<Rightarrow> string \<Rightarrow> string" where
  "format_ask_err slot endpoint = ''-ASK '' @ show_nat (unat slot) @ '' '' @ endpoint @ CRLF"

definition format_clusterdown_err :: "string \<Rightarrow> string" where
  "format_clusterdown_err reason = ''-CLUSTERDOWN '' @ reason @ CRLF"

fun to_resp_error :: "RouteResult \<Rightarrow> string option" where
  "to_resp_error (ROk s) = None"
| "to_resp_error (Moved slot endpoint) = Some (format_moved_err slot endpoint)"
| "to_resp_error (Ask slot endpoint) = Some (format_ask_err slot endpoint)"
| "to_resp_error CrossSlot =
     Some (''-CROSSSLOT Keys in request don'' @ [CHR 0x27] @ ''t hash to the same slot'' @ CRLF)"
| "to_resp_error ClusterDown = Some (format_clusterdown_err ''Hash slot not served'')"

section \<open>Specification\<close>

text \<open>When the local node may serve a request for a slot.\<close>

definition serves :: "ClusterConfig \<Rightarrow> u16 \<Rightarrow> bool \<Rightarrow> bool \<Rightarrow> bool \<Rightarrow> bool" where
  "serves c slot asking key_exists read_only \<longleftrightarrow>
     unat slot < TOTAL_HASH_SLOTS \<and>
     (let hs = slot_map c ! unat slot;
          my_own = (worker_id hs = 1 \<and> (\<not> is_replica c \<or> read_only));
          my_primarys = (read_only \<and> is_replica c \<and> 1 < worker_id hs \<and>
             (\<exists>p o'. local_node_primary_id c = Some p \<and> get_node_id_from_slot c slot = Some o' \<and>
                eq_ignore_ascii_case o' p))
      in (case state hs of
            Stable \<Rightarrow> my_own \<or> my_primarys
          | Migrating \<Rightarrow> key_exists \<and> (my_own \<or> worker_id hs \<noteq> 1)
          | Importing \<Rightarrow> asking \<and> \<not> my_own \<and> \<not> my_primarys
          | _ \<Rightarrow> False))"

text \<open>The worker a redirection names.\<close>

definition redirect_worker :: "ClusterConfig \<Rightarrow> u16 \<Rightarrow> nat" where
  "redirect_worker c slot =
     (let o' = unat (worker_id (slot_map c ! unat slot)) in
      case local_node_primary_id c of
        Some p \<Rightarrow> (if o' = 1 \<and> is_replica c \<and> is_known c p then get_worker_id_from_node_id c p else o')
      | None \<Rightarrow> o')"

definition worker_endpoint :: "ClusterConfig \<Rightarrow> nat \<Rightarrow> string" where
  "worker_endpoint c i = address (workers c ! i) @ '':'' @ show_nat (unat (port (workers c ! i)))"

section \<open>Lemmas\<close>

lemma make_endpoint_route_cases:
  assumes "make_endpoint_route c wid slot ctor = r" and "r \<noteq> ClusterDown"
  shows "0 < wid" and "wid < length (workers c)" and "r = ctor slot (worker_endpoint c wid)"
    and "address (workers c ! wid) \<noteq> ''unassigned''" and "port (workers c ! wid) \<noteq> 0"
  using assms
  by (auto simp: make_endpoint_route_def get_worker_address_def get_def worker_endpoint_def
      split: if_splits prod.splits)

lemma is_local_iff:
  assumes "unat slot < TOTAL_HASH_SLOTS"
  shows "is_local c slot ro \<longleftrightarrow>
    (let hs = slot_map c ! unat slot in
     if worker_id hs = 1 then \<not> is_replica c \<or> ro
     else state hs = Migrating \<or>
       (ro \<and> is_replica c \<and> 1 < worker_id hs \<and>
        (\<exists>p o'. local_node_primary_id c = Some p \<and> get_node_id_from_slot c slot = Some o' \<and>
           eq_ignore_ascii_case o' p)))"
  using assms
  by (auto simp: is_local_def get_node_id_from_slot_def Let_def get_def split: option.splits)

lemma not_cd_Ask: "make_endpoint_route c w s Ask \<noteq> ROk x" "make_endpoint_route c w s Ask \<noteq> Moved x e"
    "make_endpoint_route c w s Ask \<noteq> CrossSlot"
  by (auto simp: make_endpoint_route_def split: prod.splits)

lemma not_cd_Moved: "make_endpoint_route c w s Moved \<noteq> ROk x" "make_endpoint_route c w s Moved \<noteq> Ask x e"
    "make_endpoint_route c w s Moved \<noteq> CrossSlot"
  by (auto simp: make_endpoint_route_def split: prod.splits)

lemma route_slot_out_of_range:
  "TOTAL_HASH_SLOTS \<le> unat slot \<Longrightarrow> route_slot_ext c slot a k r = ClusterDown"
  by (simp add: route_slot_ext_def is_local_def get_state_def)

text \<open>
  C19: Exactness of local service.  \<open>route_slot_ext\<close> lets a request through exactly when
  the node may serve the slot: its own stable slot (on a replica only for a read-only
  session), a stable slot of its primary for a read-only session, a migrating slot whose
  key is still present, or an importing slot after \<open>ASKING\<close>.
\<close>

theorem route_slot_ext_ok_iff:
  "route_slot_ext c slot asking exists ro = ROk s \<longleftrightarrow> s = slot \<and> serves c slot asking exists ro"
proof (cases "unat slot < TOTAL_HASH_SLOTS")
  case False
  then show ?thesis by (simp add: route_slot_out_of_range serves_def)
next
  case True
  have st: "get_state c slot = state (slot_map c ! unat slot)" using True by (simp add: get_state_def)
  show ?thesis
    unfolding route_slot_ext_def st serves_def is_local_iff [OF True]
    using True by (cases "state (slot_map c ! unat slot)")
      (auto simp: Let_def not_cd_Ask not_cd_Moved)
qed

text \<open>
  C22: A \<open>MOVED\<close> reply names the address of a worker of the table, with a usable port, that
  is not the local node unless the local node is a replica that does not know its primary:
  the recorded owner of the slot, or the primary of a local replica that is recorded as owner.
\<close>

theorem route_slot_ext_moved:
  assumes "route_slot_ext c slot asking exists ro = Moved s ep"
  shows "let i = redirect_worker c slot in
    s = slot \<and> unat slot < TOTAL_HASH_SLOTS \<and> 0 < i \<and> i < length (workers c) \<and>
    ep = worker_endpoint c i \<and> port (workers c ! i) \<noteq> 0 \<and>
    (state (slot_map c ! unat slot) = Stable \<or> state (slot_map c ! unat slot) = Importing) \<and>
    (i = LOCAL_WORKER_ID \<longrightarrow> is_replica c)"
proof -
  have r: "unat slot < TOTAL_HASH_SLOTS"
    using assms route_slot_out_of_range by (metis RouteResult.distinct(13) not_less)
  have st: "get_state c slot = state (slot_map c ! unat slot)" using r by (simp add: get_state_def)
  have nl: "\<not> is_local c slot ro"
    and s: "state (slot_map c ! unat slot) = Stable \<or> state (slot_map c ! unat slot) = Importing"
    using assms unfolding route_slot_ext_def st
    by (auto simp: not_cd_Ask split: if_splits SlotState.splits)
  then have ew: "effective_worker_id (slot_map c ! unat slot) = worker_id (slot_map c ! unat slot)"
    by (auto simp: effective_worker_id_def)
  have m: "make_endpoint_route c (redirect_worker c slot) slot Moved = Moved s ep"
    using assms nl s unfolding route_slot_ext_def st ew
    by (auto simp: redirect_worker_def Let_def is_known_def split: if_splits option.splits)
  have "\<not> is_replica c \<Longrightarrow> redirect_worker c slot \<noteq> 1"
    using nl unfolding is_local_iff [OF r]
    by (auto simp: redirect_worker_def Let_def word_unat_eq_iff split: if_splits option.splits)
  with make_endpoint_route_cases [OF m] r s show ?thesis by (auto simp: Let_def)
qed

theorem route_slot_ext_moved_witness:
  "route_slot_ext sample_config 3 False False False = Moved 3 ''10.0.0.2:7002'' \<and>
   redirect_worker sample_config 3 = 2"
proof -
  have m: "route_slot_ext sample_config 3 False False False = Moved 3 ''10.0.0.2:7002''"
    by (simp add: route_slot_ext_def is_local_def get_state_def slot_consts sample_config_slots
        HashSlot_new_def effective_worker_id_def make_endpoint_route_def get_worker_address_def
        sample_config_workers Worker_primary_def Worker_new_def show_nat.simps char_of_def bit_0)
  show ?thesis using m route_slot_ext_moved [OF m]
    by (simp add: redirect_worker_def sample_config_slots HashSlot_new_def local_node_primary_id_def
        sample_config_workers Worker_primary_def Worker_new_def)
qed

text \<open>
  An \<open>ASK\<close> reply is given only for a migrating slot whose key is gone, and names the
  migration target.
\<close>

theorem route_slot_ext_ask:
  assumes "route_slot_ext c slot asking exists ro = Ask s ep"
  shows "s = slot \<and> unat slot < TOTAL_HASH_SLOTS \<and> state (slot_map c ! unat slot) = Migrating \<and> \<not> exists \<and>
    ep = worker_endpoint c (unat (worker_id (slot_map c ! unat slot))) \<and>
    0 < unat (worker_id (slot_map c ! unat slot)) \<and>
    unat (worker_id (slot_map c ! unat slot)) < length (workers c)"
proof -
  have r: "unat slot < TOTAL_HASH_SLOTS"
    using assms route_slot_out_of_range by (metis RouteResult.distinct(17) not_less)
  have st: "get_state c slot = state (slot_map c ! unat slot)" using r by (simp add: get_state_def)
  have m: "make_endpoint_route c (unat (worker_id (slot_map c ! unat slot))) slot Ask = Ask s ep"
    and "state (slot_map c ! unat slot) = Migrating \<and> \<not> exists"
    using assms unfolding route_slot_ext_def st
    by (auto simp: not_cd_Moved Let_def split: if_splits SlotState.splits)
  with make_endpoint_route_cases [OF m] r show ?thesis by auto
qed

theorem route_slot_ext_ask_witness:
  "\<exists>ep. route_slot_ext sample_config 1 False False False = Ask 1 ep \<and> ep = worker_endpoint sample_config 2"
proof -
  obtain ep where m: "route_slot_ext sample_config 1 False False False = Ask 1 ep"
    by (simp add: route_slot_ext_def is_local_def get_state_def slot_consts sample_config_slots
        HashSlot_new_def make_endpoint_route_def get_worker_address_def
        sample_config_workers Worker_primary_def Worker_new_def)
  show ?thesis using m route_slot_ext_ask [OF m] by (simp add: sample_config_slots HashSlot_new_def)
qed

text \<open>
  C24: Multi-key requests.  \<open>verify_keys\<close> answers \<open>CROSSSLOT\<close> exactly when two of the keys
  hash to different slots; otherwise it answers what \<open>verify_key\<close> answers for every one of them.
\<close>

theorem verify_keys_correct:
  assumes "k \<in> set ks"
  shows "verify_keys c ks exists asking ro =
    (if \<forall>a \<in> set ks. \<forall>b \<in> set ks. hash_slot a = hash_slot b
     then verify_key c k exists asking ro else CrossSlot)"
proof -
  obtain k0 rest where ks: "ks = k0 # rest" using assms by (cases ks) auto
  show ?thesis
  proof (cases "list_ex (\<lambda>key. hash_slot key \<noteq> hash_slot k0) rest")
    case True
    then have "\<not> (\<forall>a \<in> set ks. \<forall>b \<in> set ks. hash_slot a = hash_slot b)"
      by (auto simp: ks list_ex_iff)
    moreover have "verify_keys c ks exists asking ro = CrossSlot"
      using True by (simp add: verify_keys_def ks)
    ultimately show ?thesis by (simp only: if_False)
  next
    case False
    then have "\<forall>a \<in> set ks. hash_slot a = hash_slot k0" by (auto simp: ks list_ex_iff)
    moreover from this assms have "hash_slot k = hash_slot k0" by simp
    ultimately show ?thesis using False
      by (simp add: verify_keys_def ks verify_key_def route_request_ext_def)
  qed
qed

theorem verify_keys_correct_witness:
  "verify_keys sample_config [[97], [123, 97, 125]] True False False =
   verify_key sample_config [97] True False False"
proof -
  have "hash_slot [123, 97, 125] = crc16 [97] AND SLOT_MASK"
    using hash_slot_tag [of "[]" "[97]" "[]"] by simp
  moreover have "hash_slot [97] = crc16 [97] AND SLOT_MASK"
    by (simp add: hash_slot_def memchr_def)
  ultimately show ?thesis
    using verify_keys_correct [of "[97]" "[[97], [123, 97, 125]]" sample_config True False False] by simp
qed

text \<open>
  The replies are unambiguous: two routing results that are answered by an error frame
  are answered by the same frame only if they are equal.
\<close>

theorem to_resp_error_inj:
  assumes "to_resp_error r = Some e" and "to_resp_error r' = Some e"
  shows "r = r'"
proof -
  have sp: "\<not> (48 \<le> (of_char (CHR '' '') :: nat) \<and> (of_char (CHR '' '') :: nat) \<le> 57)" by simp
  show ?thesis
    using assms
    by (cases r; cases r')
       (auto simp: format_moved_err_def format_ask_err_def format_clusterdown_err_def word_unat_eq_iff
          dest: show_nat_append_inj [OF _ sp])
qed

theorem to_resp_error_inj_witness:
  "\<exists>e. to_resp_error (Moved 3 ''h:1'') = Some e \<and> to_resp_error (Ask 3 ''h:1'') \<noteq> Some e"
proof -
  obtain e where e: "to_resp_error (Moved 3 ''h:1'') = Some e" by simp
  then show ?thesis using to_resp_error_inj [OF e, of "Ask 3 ''h:1''"] by auto
qed

end
