(* ===== verification/Cluster_Manager.thy ===== *)
theory Cluster_Manager
  imports Cluster_Gossip Cluster_Route
begin

text \<open>
  The cluster manager of \<open>src/wedb_cluster/src/manager.rs\<close>.  Its state is the current
  configuration and the gossip tracker; every operation runs under \<open>state_lock\<close> and is one
  transition of that state.  An operation returns the new state and its \<open>Result\<close>; the state
  is the old one where the code returns an error.  \<open>manager_step\<close> collects all transitions.
\<close>

section \<open>State and local updates\<close>

record ClusterManager =
  current_config :: ClusterConfig
  gossip :: GossipTracker

definition ClusterManager_new :: ClusterManager where
  "ClusterManager_new = \<lparr>current_config = ClusterConfig_new, gossip = GossipTracker_new\<rparr>"

text \<open>\<open>if let Some(w) = conf.workers.get_mut(LOCAL_WORKER_ID) { .. }\<close>\<close>

definition update_local :: "(Worker \<Rightarrow> Worker) \<Rightarrow> ClusterConfig \<Rightarrow> ClusterConfig" where
  "update_local f c =
     (case get (workers c) LOCAL_WORKER_ID of
        Some w \<Rightarrow> c\<lparr>workers := (workers c)[LOCAL_WORKER_ID := f w]\<rparr> | None \<Rightarrow> c)"

definition unsafe_set_config :: "ClusterManager \<Rightarrow> ClusterConfig \<Rightarrow> ClusterManager" where
  "unsafe_set_config m c = m\<lparr>current_config := c\<rparr>"

definition init_local :: "ClusterManager \<Rightarrow> Worker \<Rightarrow> ClusterManager" where
  "init_local m w = m\<lparr>current_config := initialize_local_worker (current_config m) w\<rparr>"

section \<open>Slots\<close>

fun check_add_slots :: "ClusterConfig \<Rightarrow> u16 list \<Rightarrow> ClusterError option" where
  "check_add_slots c [] = None"
| "check_add_slots c (slot # slots) =
     (if out_of_range (unat slot) then Some (SlotOutOfRange slot)
      else if state (slot_map c ! unat slot) \<noteq> Offline then Some (InvalidParam (SlotBusy slot))
      else check_add_slots c slots)"

definition try_add_slots :: "ClusterManager \<Rightarrow> u16 list \<Rightarrow> ClusterManager \<times> (ClusterError + nat)" where
  "try_add_slots m slots =
     (let c = current_config m in
      if num_workers c = 0 then (m, Inl (InvalidParam NoWorkers))
      else case check_add_slots c slots of
        Some e \<Rightarrow> (m, Inl e)
      | None \<Rightarrow>
          (m\<lparr>current_config := c\<lparr>slot_map :=
               foldl (\<lambda>sm slot. sm[unat slot := HashSlot_new (as_u16 LOCAL_WORKER_ID) Stable])
                 (slot_map c) slots\<rparr>\<rparr>,
           Inr (length slots)))"

fun check_remove_slots :: "ClusterConfig \<Rightarrow> u16 list \<Rightarrow> ClusterError option" where
  "check_remove_slots c [] = None"
| "check_remove_slots c (slot # slots) =
     (if out_of_range (unat slot) then Some (SlotOutOfRange slot)
      else if worker_id (slot_map c ! unat slot) = 0 then Some (NotSlotOwner slot)
      else check_remove_slots c slots)"

definition try_remove_slots :: "ClusterManager \<Rightarrow> u16 list \<Rightarrow> ClusterManager \<times> (ClusterError + nat)" where
  "try_remove_slots m slots =
     (let c = current_config m in
      if num_workers c = 0 then (m, Inl (InvalidParam NoWorkers))
      else case check_remove_slots c slots of
        Some e \<Rightarrow> (m, Inl e)
      | None \<Rightarrow>
          let c1 = c\<lparr>slot_map := foldl (\<lambda>sm slot. sm[unat slot := HashSlot_new 0 Offline])
                                 (slot_map c) slots\<rparr>;
              max_epoch = get_max_config_epoch c1
          in (m\<lparr>current_config := update_local (\<lambda>w. w\<lparr>config_epoch := i64_wrap (max_epoch + 1)\<rparr>) c1\<rparr>,
              Inr (length slots)))"

definition try_prepare_slot_for_migration ::
  "ClusterManager \<Rightarrow> u16 \<Rightarrow> string \<Rightarrow> ClusterManager \<times> (ClusterError + unit)" where
  "try_prepare_slot_for_migration m slot target =
     (let c = current_config m; target_wid = get_worker_id_from_node_id c target in
      if out_of_range (unat slot) then (m, Inl (SlotOutOfRange slot))
      else if target_wid = 0 then (m, Inl (UnknownNode target))
      else if (case local_node_id c of Some l \<Rightarrow> eq_ignore_ascii_case l target | None \<Rightarrow> False)
        then (m, Inl MigrateToMyself)
      else if get_node_role_from_node_id c target \<noteq> Primary then (m, Inl (TargetNotMaster target))
      else if \<not> is_local c slot False then (m, Inl (NotSlotOwner slot))
      else if get_state c slot \<noteq> Stable
        then (m, Inl (SlotNotStable (case get_owner_id_from_slot c slot of
                                       Some i \<Rightarrow> i | None \<Rightarrow> ''unknown'')))
      else (m\<lparr>current_config := update_slot_state c slot (as_u16 target_wid) Migrating\<rparr>, Inr ()))"

definition try_prepare_slot_for_import ::
  "ClusterManager \<Rightarrow> u16 \<Rightarrow> string \<Rightarrow> ClusterManager \<times> (ClusterError + unit)" where
  "try_prepare_slot_for_import m slot source =
     (let c = current_config m; source_wid = get_worker_id_from_node_id c source in
      if out_of_range (unat slot) then (m, Inl (SlotOutOfRange slot))
      else if source_wid = 0 then (m, Inl (UnknownNode source))
      else if local_node_role c \<noteq> Primary
        then (m, Inl (InvalidParam (ImportingNotMaster (local_node_role c))))
      else if is_local c slot False then (m, Inl (InvalidParam (AlreadyLocal slot)))
      else case get_node_id_from_slot c slot of
        None \<Rightarrow> (m, Inl (InvalidParam (SlotNotOwnedBy slot source)))
      | Some current_owner \<Rightarrow>
          if \<not> eq_ignore_ascii_case current_owner source
            then (m, Inl (InvalidParam (SlotNotOwnedBy slot source)))
          else if get_state c slot \<noteq> Stable then (m, Inl (SlotAlreadyImporting source))
          else (m\<lparr>current_config := update_slot_state c slot (as_u16 source_wid) Importing\<rparr>, Inr ()))"

definition try_prepare_slot_for_ownership_change ::
  "ClusterManager \<Rightarrow> u16 \<Rightarrow> string \<Rightarrow> ClusterManager \<times> (ClusterError + unit)" where
  "try_prepare_slot_for_ownership_change m slot new_owner =
     (let c = current_config m; wid = get_worker_id_from_node_id c new_owner in
      if out_of_range (unat slot) then (m, Inl (SlotOutOfRange slot))
      else if wid = 0 then (m, Inl (UnknownNode new_owner))
      else case get_state c slot of
        Migrating \<Rightarrow> (m\<lparr>current_config := update_slot_state c slot (as_u16 wid) Stable\<rparr>, Inr ())
      | Importing \<Rightarrow>
          (case local_node_id c of
             Some local_id \<Rightarrow>
               if \<not> eq_ignore_ascii_case local_id new_owner
               then (m, Inl (InvalidParam (NodeIdDiffers new_owner local_id)))
               else
                 (let c1 = update_slot_state c slot (as_u16 LOCAL_WORKER_ID) Stable;
                      max_epoch = get_max_config_epoch c1
                  in (m\<lparr>current_config := update_local (\<lambda>w. w\<lparr>config_epoch := i64_wrap (max_epoch + 1)\<rparr>) c1\<rparr>,
                      Inr ()))
           | None \<Rightarrow>
               (let c1 = update_slot_state c slot (as_u16 LOCAL_WORKER_ID) Stable;
                    max_epoch = get_max_config_epoch c1
                in (m\<lparr>current_config := update_local (\<lambda>w. w\<lparr>config_epoch := i64_wrap (max_epoch + 1)\<rparr>) c1\<rparr>,
                    Inr ())))
      | _ \<Rightarrow> (m\<lparr>current_config := update_slot_state c slot (as_u16 wid) Stable\<rparr>, Inr ()))"

definition try_prepare_slot_for_stable ::
  "ClusterManager \<Rightarrow> u16 \<Rightarrow> ClusterManager \<times> (ClusterError + unit)" where
  "try_prepare_slot_for_stable m slot =
     (let c = current_config m; s = unat slot in
      if out_of_range s then (m, Inl (SlotOutOfRange slot))
      else
        let cur = slot_map c ! s;
            cur' = (case state cur of
                      Migrating \<Rightarrow> cur\<lparr>worker_id := as_u16 LOCAL_WORKER_ID, state := Stable\<rparr>
                    | Importing \<Rightarrow> cur\<lparr>state := Stable\<rparr>
                    | _ \<Rightarrow> cur)
        in (m\<lparr>current_config := c\<lparr>slot_map := (slot_map c)[s := cur']\<rparr>\<rparr>, Inr ()))"

section \<open>Members\<close>

definition try_meet ::
  "ClusterManager \<Rightarrow> string \<Rightarrow> u16 \<Rightarrow> string option \<Rightarrow> ClusterManager \<times> (ClusterError + nat)" where
  "try_meet m addr p nid =
     (let c = current_config m;
          existing = (case nid of Some i \<Rightarrow> get_worker_id_from_node_id c i | None \<Rightarrow> 0)
      in
      if existing > 0 then
        (m\<lparr>current_config := c\<lparr>workers := (workers c)
             [existing := (workers c ! existing)\<lparr>address := addr, port := p\<rparr>]\<rparr>\<rparr>, Inr existing)
      else case position (\<lambda>w. address w = addr \<and> port w = p) (drop 1 (workers c)) of
        Some pos \<Rightarrow>
          (let idx = pos + 1 in
           (case nid of
              Some i \<Rightarrow> m\<lparr>current_config := c\<lparr>workers := (workers c)
                          [idx := (workers c ! idx)\<lparr>node_id := Some i\<rparr>]\<rparr>\<rparr>
            | None \<Rightarrow> m, Inr idx))
      | None \<Rightarrow>
          (case add_worker c (Worker_default\<lparr>node_id := nid, address := addr, port := p,
                  config_epoch := 0, role := Primary, handshake := True\<rparr>) of
             (c1, idx) \<Rightarrow> (m\<lparr>current_config := c1\<rparr>, Inr idx)))"

definition try_remove_worker ::
  "u64 \<Rightarrow> ClusterManager \<Rightarrow> string \<Rightarrow> u64 \<Rightarrow> ClusterManager \<times> (ClusterError + unit)" where
  "try_remove_worker now m nid expiry_seconds =
     (let c = current_config m in
      if (case local_node_id c of Some l \<Rightarrow> eq_ignore_ascii_case l nid | None \<Rightarrow> False)
        then (m, Inl CannotForgetMyself)
      else if get_node_role_from_node_id c nid = Unassigned then (m, Inl (UnknownNode nid))
      else if local_node_role c = Replica
              \<and> (case local_node_primary_id c of Some p \<Rightarrow> eq_ignore_ascii_case p nid | None \<Rightarrow> False)
        then (m, Inl CannotForgetMyPrimary)
      else case remove_worker c nid of
        Inl e \<Rightarrow> (m, Inl e)
      | Inr c1 \<Rightarrow> (m\<lparr>current_config := c1, gossip := ban now (gossip m) nid expiry_seconds\<rparr>, Inr ()))"

text \<open>\<open>fresh\<close> is the result of \<open>NodeId::generate()\<close>, used by a hard reset.\<close>

definition try_reset ::
  "NodeId \<Rightarrow> ClusterManager \<Rightarrow> bool \<Rightarrow> bool \<Rightarrow> ClusterManager \<times> (ClusterError + unit)" where
  "try_reset fresh m soft has_keys_in_slots =
     (let c = current_config m in
      if has_keys_in_slots \<and> has_assigned_slots c (as_u16 LOCAL_WORKER_ID)
        then (m, Inl ResetWithKeysAssigned)
      else
        let local_id = (if soft then local_node_id c else Some fresh);
            ep = (if soft then local_node_config_epoch c else 0);
            host = Option.bind (get (workers c) LOCAL_WORKER_ID) hostname;
            local = (Worker_primary (case local_id of Some i \<Rightarrow> i | None \<Rightarrow> [])
                       (local_node_ip c) (local_node_port c) ep)\<lparr>hostname := host\<rparr>
        in (m\<lparr>current_config := initialize_local_worker ClusterConfig_new local\<rparr>, Inr ()))"

section \<open>Replication roles and epochs\<close>

definition try_failover :: "ClusterManager \<Rightarrow> ClusterManager \<times> (ClusterError + int)" where
  "try_failover m =
     (let c = current_config m in
      if local_node_role c \<noteq> Replica then (m, Inl (InvalidParam OnlyReplicaFailover))
      else case local_node_primary_id c of
        None \<Rightarrow> (m, Inl (InvalidParam NoPrimaryAssigned))
      | Some old_primary_id \<Rightarrow>
          let old_wid = get_worker_id_from_node_id c old_primary_id;
              c1 = (if old_wid > 0
                    then c\<lparr>slot_map := map (\<lambda>hs. if worker_id hs = as_u16 old_wid
                             then hs\<lparr>worker_id := as_u16 LOCAL_WORKER_ID, state := Stable\<rparr> else hs)
                           (slot_map c)\<rparr>
                    else c);
              new_epoch = i64_wrap (get_max_config_epoch c1 + 1)
          in (m\<lparr>current_config := update_local (\<lambda>w. w\<lparr>role := Primary,
                  replica_of_node_id := None, config_epoch := new_epoch\<rparr>) c1\<rparr>, Inr new_epoch))"

definition try_replicaof :: "ClusterManager \<Rightarrow> string \<Rightarrow> ClusterManager \<times> (ClusterError + unit)" where
  "try_replicaof m pid =
     (let c = current_config m; wid = get_worker_id_from_node_id c pid in
      if wid = 0 then (m, Inl (UnknownNode pid))
      else if (case local_node_id c of Some l \<Rightarrow> eq_ignore_ascii_case l pid | None \<Rightarrow> False)
        then (m, Inl CannotReplicateSelf)
      else if get_node_role_from_node_id c pid \<noteq> Primary then (m, Inl (TargetNotMaster pid))
      else
        let c1 = c\<lparr>slot_map := map (\<lambda>hs. if effective_worker_id hs = as_u16 LOCAL_WORKER_ID
                                   then HashSlot_new (as_u16 wid) Stable else hs) (slot_map c)\<rparr>
        in (m\<lparr>current_config := update_local (\<lambda>w. w\<lparr>role := Replica,
                replica_of_node_id := Some pid\<rparr>) c1\<rparr>, Inr ()))"

definition try_replicaof_no_one :: "ClusterManager \<Rightarrow> ClusterManager \<times> (ClusterError + int)" where
  "try_replicaof_no_one m =
     (let c = current_config m in
      if local_node_role c \<noteq> Replica then (m, Inr (local_node_config_epoch c))
      else
        let new_epoch = i64_wrap (get_max_config_epoch c + 1)
        in (m\<lparr>current_config := update_local (\<lambda>w. w\<lparr>role := Primary,
                replica_of_node_id := None, config_epoch := new_epoch\<rparr>) c\<rparr>, Inr new_epoch))"

definition try_set_local_config_epoch ::
  "ClusterManager \<Rightarrow> int \<Rightarrow> ClusterManager \<times> (ClusterError + unit)" where
  "try_set_local_config_epoch m epoch =
     (let c = current_config m in
      if num_workers c > 1 then (m, Inl (InvalidParam EpochStandaloneOnly))
      else if local_node_config_epoch c \<noteq> 0 \<or> epoch \<le> 0 then (m, Inl EpochCollision)
      else (m\<lparr>current_config := update_local (\<lambda>w. w\<lparr>config_epoch := epoch\<rparr>) c\<rparr>, Inr ()))"

definition try_bump_cluster_epoch :: "ClusterManager \<Rightarrow> ClusterManager \<times> int" where
  "try_bump_cluster_epoch m =
     (let c = current_config m; new_epoch = i64_wrap (get_max_config_epoch c + 1)
      in (m\<lparr>current_config := update_local (\<lambda>w. w\<lparr>config_epoch := new_epoch\<rparr>) c\<rparr>, new_epoch))"

section \<open>Gossip\<close>

definition build_gossip_packet :: "(nat \<Rightarrow> nat) \<Rightarrow> ClusterManager \<Rightarrow> nat \<Rightarrow> GossipPacket" where
  "build_gossip_packet rnd m sample_count =
     create_packet rnd (gossip m) (current_config m) sample_count"

definition try_merge_gossip :: "(nat \<Rightarrow> u64) \<Rightarrow> ClusterManager \<Rightarrow> GossipPacket \<Rightarrow> ClusterManager \<times> bool" where
  "try_merge_gossip clock m packet =
     (case process_packet clock (gossip m) (current_config m) packet of (t, c, changed) \<Rightarrow>
        (case resolve_epoch_collision c (sender_id (header packet)) (header_epoch (header packet)) of
           (c1, bumped) \<Rightarrow> (m\<lparr>current_config := c1, gossip := t\<rparr>, bumped \<or> changed)))"

definition mark_node_pfail :: "ClusterManager \<Rightarrow> string \<Rightarrow> ClusterManager" where
  "mark_node_pfail m nid = m\<lparr>gossip := mark_local_pfail (gossip m) nid\<rparr>"

definition clear_node_pfail :: "ClusterManager \<Rightarrow> string \<Rightarrow> ClusterManager" where
  "clear_node_pfail m nid =
     (let c = current_config m; wid = get_worker_id_from_node_id c nid
      in m\<lparr>gossip := clear_local_pfail (gossip m) nid,
           current_config := (if wid > 0
             then c\<lparr>workers := (workers c)[wid := clear_fail (workers c ! wid)]\<rparr> else c)\<rparr>)"

definition fail_worker :: "ClusterConfig \<Rightarrow> string \<Rightarrow> ClusterConfig" where
  "fail_worker c nid =
     (let wid = get_worker_id_from_node_id c nid
      in if wid > 0 then c\<lparr>workers := (workers c)[wid := set_fail (workers c ! wid)]\<rparr> else c)"

definition mgr_evaluate_fail_status :: "ClusterManager \<Rightarrow> ClusterManager \<times> string list" where
  "mgr_evaluate_fail_status m =
     (case evaluate_fail_status (gossip m) (current_config m) of (t, newly) \<Rightarrow>
        (m\<lparr>gossip := t, current_config := foldl fail_worker (current_config m) newly\<rparr>, newly))"

definition is_node_failed :: "ClusterManager \<Rightarrow> string \<Rightarrow> bool" where
  "is_node_failed m nid \<longleftrightarrow> nid \<in> fail_nodes (gossip m)"

section \<open>Transitions\<close>

inductive manager_step :: "ClusterManager \<Rightarrow> ClusterManager \<Rightarrow> bool" where
  init_local: "manager_step m (init_local m w)"
| add_slots: "manager_step m (fst (try_add_slots m slots))"
| remove_slots: "manager_step m (fst (try_remove_slots m slots))"
| migrating: "manager_step m (fst (try_prepare_slot_for_migration m slot nid))"
| importing: "manager_step m (fst (try_prepare_slot_for_import m slot nid))"
| ownership: "manager_step m (fst (try_prepare_slot_for_ownership_change m slot nid))"
| stable: "manager_step m (fst (try_prepare_slot_for_stable m slot))"
| meet: "manager_step m (fst (try_meet m addr p nido))"
| forget: "manager_step m (fst (try_remove_worker now m nid secs))"
| reset: "manager_step m (fst (try_reset fresh m soft keys))"
| failover: "manager_step m (fst (try_failover m))"
| replicaof: "manager_step m (fst (try_replicaof m nid))"
| replicaof_no_one: "manager_step m (fst (try_replicaof_no_one m))"
| set_epoch: "manager_step m (fst (try_set_local_config_epoch m e))"
| bump_epoch: "manager_step m (fst (try_bump_cluster_epoch m))"
| merge_gossip: "manager_step m (fst (try_merge_gossip clock m packet))"
| mark_pfail: "manager_step m (mark_node_pfail m nid)"
| clear_pfail: "manager_step m (clear_node_pfail m nid)"
| eval_fail: "manager_step m (fst (mgr_evaluate_fail_status m))"

text \<open>
  Slots store worker indices in 16 bits.  \<open>bounded\<close> says that the worker table has not
  outgrown them; \<open>manager_trans\<close> are the transitions between bounded states.
\<close>

definition bounded :: "ClusterManager \<Rightarrow> bool" where
  "bounded m \<longleftrightarrow> length (workers (current_config m)) \<le> 65536"

definition manager_trans :: "ClusterManager \<Rightarrow> ClusterManager \<Rightarrow> bool" where
  "manager_trans m m' \<longleftrightarrow> manager_step m m' \<and> bounded m'"

text \<open>The entries a slot can have: no other combination of state and owner occurs.\<close>

definition slot_ok :: "HashSlot \<Rightarrow> bool" where
  "slot_ok hs \<longleftrightarrow>
     (case state hs of
        Offline \<Rightarrow> worker_id hs = 0
      | Stable \<Rightarrow> worker_id hs \<noteq> 0
      | Migrating \<Rightarrow> 1 < worker_id hs
      | Importing \<Rightarrow> worker_id hs \<noteq> 0
      | _ \<Rightarrow> False)"

definition manager_inv :: "ClusterManager \<Rightarrow> bool" where
  "manager_inv m \<longleftrightarrow>
     bounded m \<and> wf_config (current_config m) \<and> list_all slot_ok (slot_map (current_config m))"

definition config_inv :: "ClusterConfig \<Rightarrow> bool" where
  "config_inv c \<longleftrightarrow> wf_config c \<and> list_all slot_ok (slot_map c)"

text \<open>A manager over the sample configuration, for the examples.\<close>

definition sample_manager :: ClusterManager where
  "sample_manager = \<lparr>current_config = sample_config, gossip = GossipTracker_new\<rparr>"

section \<open>Preservation of the invariant\<close>

lemma manager_inv_iff: "manager_inv m \<longleftrightarrow> bounded m \<and> config_inv (current_config m)"
  by (simp add: manager_inv_def config_inv_def)

lemma config_invD:
  assumes "config_inv c"
  shows "wf_config c" and "s < TOTAL_HASH_SLOTS \<Longrightarrow> slot_ok (slot_map c ! s)"
  using assms by (auto simp: config_inv_def list_all_length wf_configD)

lemma config_inv_slots:
  assumes "config_inv c" and "length sm = TOTAL_HASH_SLOTS"
    and "\<And>s. s < TOTAL_HASH_SLOTS \<Longrightarrow> slot_ok (sm ! s) \<and> unat (worker_id (sm ! s)) < length (workers c)"
  shows "config_inv (c\<lparr>slot_map := sm\<rparr>)"
  using assms wf_config_slots [of c sm] by (auto simp: config_inv_def list_all_length)

lemma config_inv_slot_update:
  assumes "config_inv c" and "slot_ok hs" and "unat (worker_id hs) < length (workers c)"
  shows "config_inv (c\<lparr>slot_map := (slot_map c)[s := hs]\<rparr>)"
proof (rule config_inv_slots [OF assms(1)])
  show "length ((slot_map c)[s := hs]) = TOTAL_HASH_SLOTS"
    using config_invD(1) [OF assms(1)] by (simp add: wf_configD)
  fix i assume i: "i < TOTAL_HASH_SLOTS"
  then have "slot_ok (slot_map c ! i)" "unat (worker_id (slot_map c ! i)) < length (workers c)"
    "i < length (slot_map c)"
    using config_invD [OF assms(1)] wf_configD by auto
  then show "slot_ok ((slot_map c)[s := hs] ! i) \<and>
      unat (worker_id ((slot_map c)[s := hs] ! i)) < length (workers c)"
    using assms(2,3) by (cases "s = i") simp_all
qed

lemma config_inv_slot_map:
  assumes "config_inv c"
    and "\<And>hs. slot_ok hs \<Longrightarrow> unat (worker_id hs) < length (workers c) \<Longrightarrow>
           slot_ok (f hs) \<and> unat (worker_id (f hs)) < length (workers c)"
  shows "config_inv (c\<lparr>slot_map := map f (slot_map c)\<rparr>)"
proof (rule config_inv_slots [OF assms(1)])
  show "length (map f (slot_map c)) = TOTAL_HASH_SLOTS"
    using config_invD(1) [OF assms(1)] by (simp add: wf_configD)
  fix i assume i: "i < TOTAL_HASH_SLOTS"
  then have "slot_ok (slot_map c ! i)" "unat (worker_id (slot_map c ! i)) < length (workers c)"
    "i < length (slot_map c)"
    using config_invD [OF assms(1)] wf_configD by auto
  then show "slot_ok (map f (slot_map c) ! i) \<and> unat (worker_id (map f (slot_map c) ! i)) < length (workers c)"
    using assms(2) by simp
qed

lemma config_inv_slot_fold:
  assumes "config_inv c" and "slot_ok hs" and "unat (worker_id hs) < length (workers c)"
  shows "config_inv (c\<lparr>slot_map := foldl (\<lambda>sm slot. sm[unat slot := hs]) (slot_map c) slots\<rparr>)"
  using assms
proof (induction slots arbitrary: c)
  case (Cons x xs)
  from Cons.IH [OF config_inv_slot_update [OF Cons.prems, of "unat x"]] Cons.prems show ?case by simp
qed simp

lemma config_inv_worker_update:
  "config_inv c \<Longrightarrow> i \<noteq> 0 \<Longrightarrow> config_inv (c\<lparr>workers := (workers c)[i := w]\<rparr>)"
  by (simp add: config_inv_def wf_config_worker_update)

lemma config_inv_worker_push: "config_inv c \<Longrightarrow> config_inv (c\<lparr>workers := workers c @ [w]\<rparr>)"
  by (simp add: config_inv_def wf_config_worker_push)

lemma config_inv_update_local: "config_inv c \<Longrightarrow> config_inv (update_local f c)"
  by (auto simp: update_local_def config_inv_worker_update split: option.split)

lemma HashSlot_update_both: "hs\<lparr>worker_id := w, state := st\<rparr> = HashSlot_new w st"
  by (cases hs) (simp add: HashSlot_new_def)

lemma update_slot_state_eq:
  "update_slot_state c slot wid st =
     (if unat slot < TOTAL_HASH_SLOTS
      then c\<lparr>slot_map := (slot_map c)[unat slot := HashSlot_new wid st]\<rparr> else c)"
  by (simp add: update_slot_state_def HashSlot_update_both)

lemma config_inv_update_slot_state:
  "config_inv c \<Longrightarrow> slot_ok (HashSlot_new wid st) \<Longrightarrow> unat wid < length (workers c) \<Longrightarrow>
   config_inv (update_slot_state c slot wid st)"
  using config_inv_slot_update [of c "HashSlot_new wid st" "unat slot"]
  by (simp add: update_slot_state_eq) (simp add: HashSlot_new_def)

lemma config_inv_initialize: "config_inv c \<Longrightarrow> config_inv (initialize_local_worker c w)"
  by (simp add: initialize_local_worker_def config_invD wf_configD config_inv_worker_update leD)

lemma config_inv_new: "config_inv ClusterConfig_new"
  using wf_ClusterConfig_new
  by (simp add: config_inv_def ClusterConfig_new_def HashSlot_default_def slot_ok_def list_all_iff)

lemma slot_ok_new:
  "slot_ok (HashSlot_new w Stable) \<longleftrightarrow> w \<noteq> 0" "slot_ok (HashSlot_new w Importing) \<longleftrightarrow> w \<noteq> 0"
  "slot_ok (HashSlot_new w Migrating) \<longleftrightarrow> 1 < w" "slot_ok (HashSlot_new 0 Offline)"
  "slot_ok HashSlot_default" "worker_id (HashSlot_new w st) = w" "state (HashSlot_new w st) = st"
  by (simp_all add: slot_ok_def HashSlot_new_def HashSlot_default_def)

lemma known_index:
  assumes "get_worker_id_from_node_id c nid = i" and "i \<noteq> 0" and "length (workers c) \<le> 65536"
  shows "unat (as_u16 i) = i" and "i < length (workers c)" and "as_u16 i \<noteq> 0"
    and "i \<noteq> 1 \<Longrightarrow> 1 < as_u16 i"
proof -
  show l: "i < length (workers c)" using worker_lookup_Some(1) [OF assms(1,2)] .
  then show u: "unat (as_u16 i) = i" using assms(3) by (intro unat_as_u16) simp
  show "as_u16 i \<noteq> 0" using u assms(2) by (metis unsigned_0)
  show "1 < as_u16 i" if "i \<noteq> 1" using u that assms(2) by (simp only: word_less_nat_alt) simp
qed

lemma not_local_index:
  assumes "wf_config c" and "get_worker_id_from_node_id c nid = i" and "i \<noteq> 0"
    and "\<not> (case local_node_id c of Some l \<Rightarrow> eq_ignore_ascii_case l nid | None \<Rightarrow> False)"
  shows "i \<noteq> 1"
proof
  assume "i = 1"
  then have "has_node_id nid (workers c ! 1)" using worker_lookup_Some(2) [OF assms(2,3)] by simp
  then show False using assms(4) by (simp add: local_node_id_nth [OF assms(1)] has_node_id_def)
qed

lemma out_of_range_iff: "out_of_range s \<longleftrightarrow> TOTAL_HASH_SLOTS \<le> s"
  by (simp add: out_of_range_def MAX_HASH_SLOT_VALUE_def slot_consts)

lemma inv_try_add_slots: "config_inv (current_config m) \<Longrightarrow> config_inv (current_config (fst (try_add_slots m slots)))"
  using config_invD(1) wf_configD(4)
  by (auto simp: try_add_slots_def Let_def slot_ok_new intro!: config_inv_slot_fold split: option.split)

lemma inv_try_remove_slots:
  "config_inv (current_config m) \<Longrightarrow> config_inv (current_config (fst (try_remove_slots m slots)))"
  using config_invD(1) wf_configD(3)
  by (auto simp: try_remove_slots_def Let_def slot_ok_new
      intro!: config_inv_slot_fold config_inv_update_local split: option.split)

lemma inv_migration:
  assumes "manager_inv m"
  shows "config_inv (current_config (fst (try_prepare_slot_for_migration m slot nid)))"
proof -
  define c where "c = current_config m"
  have c: "config_inv c" "length (workers c) \<le> 65536"
    using assms by (auto simp: manager_inv_iff bounded_def c_def)
  show ?thesis
  proof (cases "get_worker_id_from_node_id c nid = 0 \<or>
      (case local_node_id c of Some l \<Rightarrow> eq_ignore_ascii_case l nid | None \<Rightarrow> False)")
    case True
    then show ?thesis using c by (auto simp: try_prepare_slot_for_migration_def Let_def c_def)
  next
    case False
    then have k: "get_worker_id_from_node_id c nid \<noteq> 0" and n1: "get_worker_id_from_node_id c nid \<noteq> 1"
      using not_local_index [OF config_invD(1) [OF c(1)] refl] by auto
    note K = known_index [OF refl k c(2)]
    have "config_inv (update_slot_state c slot (as_u16 (get_worker_id_from_node_id c nid)) Migrating)"
      using c(1) K n1 by (intro config_inv_update_slot_state) (simp_all add: slot_ok_new)
    then show ?thesis using c by (simp add: try_prepare_slot_for_migration_def Let_def c_def [symmetric])
  qed
qed

lemma inv_import:
  assumes "manager_inv m"
  shows "config_inv (current_config (fst (try_prepare_slot_for_import m slot nid)))"
proof -
  define c where "c = current_config m"
  have c: "config_inv c" "length (workers c) \<le> 65536"
    using assms by (auto simp: manager_inv_iff bounded_def c_def)
  have "config_inv (update_slot_state c slot (as_u16 (get_worker_id_from_node_id c nid)) Importing)"
    if k: "get_worker_id_from_node_id c nid \<noteq> 0"
    using c(1) known_index [OF refl k c(2)]
    by (intro config_inv_update_slot_state) (simp_all add: slot_ok_new)
  then show ?thesis using c
    by (simp add: try_prepare_slot_for_import_def Let_def c_def [symmetric] split: option.split)
qed

lemma inv_ownership:
  assumes "manager_inv m"
  shows "config_inv (current_config (fst (try_prepare_slot_for_ownership_change m slot nid)))"
proof -
  define c where "c = current_config m"
  have c: "config_inv c" "length (workers c) \<le> 65536"
    using assms by (auto simp: manager_inv_iff bounded_def c_def)
  have a: "config_inv (update_slot_state c slot (as_u16 (get_worker_id_from_node_id c nid)) Stable)"
    if k: "get_worker_id_from_node_id c nid \<noteq> 0"
    using c(1) known_index [OF refl k c(2)]
    by (intro config_inv_update_slot_state) (simp_all add: slot_ok_new)
  have "config_inv (update_slot_state c slot 1 Stable)"
    using c(1) wf_configD(4) [OF config_invD(1) [OF c(1)]]
    by (intro config_inv_update_slot_state) (simp_all add: slot_ok_new)
  with a c show ?thesis
    by (simp add: try_prepare_slot_for_ownership_change_def Let_def c_def [symmetric]
        config_inv_update_local split: option.split SlotState.split)
qed

lemma inv_stable:
  assumes "config_inv (current_config m)"
  shows "config_inv (current_config (fst (try_prepare_slot_for_stable m slot)))"
proof (cases "out_of_range (unat slot)")
  case True
  then show ?thesis using assms by (simp add: try_prepare_slot_for_stable_def Let_def)
next
  case False
  define c where "c = current_config m"
  define cur where "cur = slot_map c ! unat slot"
  define cur' where "cur' = (case state cur of
       Migrating \<Rightarrow> cur\<lparr>worker_id := as_u16 LOCAL_WORKER_ID, state := Stable\<rparr>
     | Importing \<Rightarrow> cur\<lparr>state := Stable\<rparr> | _ \<Rightarrow> cur)"
  have s: "unat slot < TOTAL_HASH_SLOTS" using False by (simp add: out_of_range_iff)
  have "slot_ok cur" "unat (worker_id cur) < length (workers c)" "1 < length (workers c)"
    using config_invD [OF assms] s wf_configD by (auto simp: cur_def c_def)
  then have "slot_ok cur'" "unat (worker_id cur') < length (workers c)"
    by (auto simp: cur'_def slot_ok_def split: SlotState.splits)
  then have "config_inv (c\<lparr>slot_map := (slot_map c)[unat slot := cur']\<rparr>)"
    using assms by (intro config_inv_slot_update) (simp_all add: c_def)
  then show ?thesis using False unfolding cur'_def cur_def c_def
    by (simp add: try_prepare_slot_for_stable_def Let_def)
qed


lemma inv_meet: "config_inv (current_config m) \<Longrightarrow> config_inv (current_config (fst (try_meet m addr p nido)))"
  by (auto simp: try_meet_def Let_def add_worker_def config_inv_worker_update config_inv_worker_push
      split: option.split if_splits)

lemma remove_slot_ref_ok:
  assumes "slot_ok hs" and "2 \<le> idx" and "idx < 65536"
  shows "slot_ok (remove_slot_ref (as_u16 idx) hs)"
proof -
  have u: "unat (as_u16 idx) = idx" using assms(3) by (rule unat_as_u16)
  consider "worker_id hs > as_u16 idx" | "worker_id hs = as_u16 idx" | "worker_id hs < as_u16 idx" by force
  then show ?thesis
  proof cases
    case 1
    then have "2 < unat (worker_id hs)" using u assms(2) by (simp only: word_less_nat_alt)
    then have "2 \<le> unat (worker_id hs - 1)" by (simp add: unat_sub word_le_nat_alt)
    then have "1 < worker_id hs - 1" "worker_id hs - 1 \<noteq> 0" by (auto simp: word_less_nat_alt)
    moreover have "state hs \<noteq> Offline" using assms(1) \<open>2 < unat (worker_id hs)\<close> by (auto simp: slot_ok_def)
    ultimately show ?thesis using 1 assms(1)
      by (auto simp: remove_slot_ref_def slot_ok_def split: SlotState.splits)
  next
    case 2
    then show ?thesis by (auto simp: remove_slot_ref_def slot_ok_def split: SlotState.splits)
  next
    case 3
    then show ?thesis using assms(1) by (auto simp: remove_slot_ref_def)
  qed
qed

lemma inv_remove_worker:
  assumes "config_inv c" and "length (workers c) \<le> 65536" and "remove_worker c nid = Inr c'"
    and "get_worker_id_from_node_id c nid \<noteq> 1"
  shows "config_inv c'"
proof -
  define idx where "idx = get_worker_id_from_node_id c nid"
  have k: "idx \<noteq> 0" and sm: "slot_map c' = map (remove_slot_ref (as_u16 idx)) (slot_map c)"
    using assms(3) by (auto simp: remove_worker_def Let_def idx_def split: if_splits)
  then have "2 \<le> idx" "idx < 65536"
    using known_index(2) [OF idx_def [symmetric] k assms(2)] assms(2,4) by (auto simp: idx_def)
  then have "list_all slot_ok (slot_map c')"
    using assms(1) by (auto simp: config_inv_def sm list_all_iff intro: remove_slot_ref_ok)
  with wf_remove_worker [OF config_invD(1) [OF assms(1)] assms(3,4)] show ?thesis by (simp add: config_inv_def)
qed

lemma inv_forget:
  assumes "manager_inv m"
  shows "config_inv (current_config (fst (try_remove_worker now m nid secs)))"
proof -
  define c where "c = current_config m"
  have c: "config_inv c" "length (workers c) \<le> 65536"
    using assms by (auto simp: manager_inv_iff bounded_def c_def)
  show ?thesis
  proof (cases "case local_node_id c of Some l \<Rightarrow> eq_ignore_ascii_case l nid | None \<Rightarrow> False")
    case True
    then show ?thesis using c by (simp add: try_remove_worker_def Let_def c_def)
  next
    case False
    have "config_inv c1" if r: "remove_worker c nid = Inr c1" for c1
    proof (rule inv_remove_worker [OF c r])
      have "get_worker_id_from_node_id c nid \<noteq> 0" using r by (auto simp: remove_worker_def Let_def split: if_splits)
      then show "get_worker_id_from_node_id c nid \<noteq> 1"
        using not_local_index [OF config_invD(1) [OF c(1)] refl _ False] by simp
    qed
    then show ?thesis using c
      by (auto simp: try_remove_worker_def Let_def c_def [symmetric] split: sum.split)
  qed
qed

lemma inv_reset: "config_inv (current_config m) \<Longrightarrow> config_inv (current_config (fst (try_reset fresh m soft keys)))"
  by (simp add: try_reset_def Let_def config_inv_initialize config_inv_new)

lemma inv_failover:
  assumes "config_inv (current_config m)"
  shows "config_inv (current_config (fst (try_failover m)))"
proof -
  have "1 < length (workers (current_config m))" using wf_configD(4) [OF config_invD(1) [OF assms]] .
  then have "config_inv ((current_config m)\<lparr>slot_map := map (\<lambda>hs. if worker_id hs = as_u16 old
       then hs\<lparr>worker_id := as_u16 LOCAL_WORKER_ID, state := Stable\<rparr> else hs) (slot_map (current_config m))\<rparr>)" for old
    by (intro config_inv_slot_map assms) (simp add: HashSlot_update_both slot_ok_new)
  then show ?thesis using assms
    by (simp add: try_failover_def Let_def config_inv_update_local split: option.split)
qed

lemma inv_replicaof:
  assumes "manager_inv m"
  shows "config_inv (current_config (fst (try_replicaof m nid)))"
proof -
  define c where "c = current_config m"
  have c: "config_inv c" "length (workers c) \<le> 65536"
    using assms by (auto simp: manager_inv_iff bounded_def c_def)
  have "config_inv (c\<lparr>slot_map := map (\<lambda>hs. if effective_worker_id hs = as_u16 LOCAL_WORKER_ID
      then HashSlot_new (as_u16 (get_worker_id_from_node_id c nid)) Stable else hs) (slot_map c)\<rparr>)"
    if k: "get_worker_id_from_node_id c nid \<noteq> 0"
    using known_index [OF refl k c(2)] by (intro config_inv_slot_map c(1)) (simp add: slot_ok_new)
  then show ?thesis using c
    by (simp add: try_replicaof_def Let_def c_def [symmetric] config_inv_update_local)
qed

lemma inv_epochs:
  assumes "config_inv (current_config m)"
  shows "config_inv (current_config (fst (try_replicaof_no_one m)))"
    and "config_inv (current_config (fst (try_set_local_config_epoch m e)))"
    and "config_inv (current_config (fst (try_bump_cluster_epoch m)))"
  using assms
  by (simp_all add: try_replicaof_no_one_def try_set_local_config_epoch_def try_bump_cluster_epoch_def
      Let_def config_inv_update_local)

lemma inv_clear_pfail: "config_inv (current_config m) \<Longrightarrow> config_inv (current_config (clear_node_pfail m nid))"
  by (simp add: clear_node_pfail_def Let_def config_inv_worker_update)

lemma inv_eval_fail:
  assumes "config_inv (current_config m)"
  shows "config_inv (current_config (fst (mgr_evaluate_fail_status m)))"
proof -
  have "config_inv c \<Longrightarrow> config_inv (foldl fail_worker c ids)" for c ids
    by (induction ids arbitrary: c) (simp_all add: fail_worker_def Let_def config_inv_worker_update)
  then show ?thesis using assms by (simp add: mgr_evaluate_fail_status_def split: prod.split)
qed

lemma inv_resolve: "config_inv c \<Longrightarrow> config_inv (fst (resolve_epoch_collision c rid re))"
  by (simp add: resolve_epoch_collision_def Let_def config_inv_worker_update split: option.split)

lemma inv_merge_slots:
  assumes "config_inv c" and "length (workers c) \<le> 65536"
  shows "config_inv (fst (merge_sender_slots c sender ep claims migs))"
proof (cases "sender = [] \<or> get_worker_id_from_node_id c sender = 0")
  case True
  then show ?thesis using assms by (auto simp: merge_sender_slots_def)
next
  case False
  obtain c' u where m: "merge_sender_slots c sender ep claims migs = (c', u)" by force
  have wf: "wf_config c" using assms(1) by (rule config_invD)
  have k: "as_u16 (get_worker_id_from_node_id c sender) \<noteq> 0"
    using known_index(3) [OF refl _ assms(2)] False by simp
  have "slot_ok (slot_map c' ! s)" if s: "s < TOTAL_HASH_SLOTS" for s
  proof -
    have u: "unat (as_u16 s) = s" using s by (intro unat_as_u16) (simp add: slot_consts)
    show ?thesis
      using merge_sender_slots_spec(3) [OF wf assms(2) _ _ m, of "as_u16 s"] False s u k config_invD(2) [OF assms(1) s]
      by (auto simp: merged_slot_def slot_ok_new)
  qed
  moreover have "wf_config c'" using wf_merge_sender_slots [OF wf, of sender ep claims migs] m by simp
  ultimately show ?thesis using m by (simp add: config_inv_def list_all_length wf_configD)
qed

lemma inv_process_packet:
  assumes "config_inv c" and "process_packet clock t c p = (t', c', ch)" and "length (workers c') \<le> 65536"
  shows "config_inv c'"
  using assms(2)
proof (cases rule: process_packet_cases)
  case refused
  then show ?thesis using assms(1) by simp
next
  case (merged c1 ch1 c2 ch2)
  define st where "st = (fst (is_banned (clock 0) t (sender_id (header p))), c2, ch1 \<or> ch2)"
  have "wf_config c1" "slot_map c1 = slot_map c"
    using wf_merge_worker_ref [OF config_invD(1) [OF assms(1)]] merge_worker_ref_extends [OF merged(4)] merged(4)
    by (metis fst_conv, simp)
  then have c1: "config_inv c1" using assms(1) by (simp add: config_inv_def)
  have c2: "workers c2 = workers c1" using merged(5) merge_sender_slots_workers by (metis fst_conv)
  have "wf_config c2"
    using merged(5) wf_merge_sender_slots [OF config_invD(1) [OF c1]] config_invD(1) [OF c1] by (metis fst_conv)
  then have "gossip_ok st" by (simp add: gossip_ok_def st_def)
  note F = secs.foldl_ok_le [OF this, of clock "sender_id (header p)"
      "List.enumerate 0 (take MAX_GOSSIP_SECTIONS (sections p))", folded merged(6) [folded st_def]]
  have "length (workers c1) \<le> 65536"
    using F assms(3) c2 by (simp add: gossip_le_def extends_def st_def)
  then have "config_inv c2" using merged(5) inv_merge_slots [OF c1] c1 by (metis fst_conv)
  then show ?thesis using F by (simp add: config_inv_def gossip_ok_def gossip_le_def st_def)
qed

lemma manager_step_inv:
  assumes "manager_inv m" and "manager_trans m m'"
  shows "manager_inv m'"
proof -
  have c: "config_inv (current_config m)" using assms(1) by (simp add: manager_inv_iff)
  have b: "bounded m'" and st: "manager_step m m'" using assms(2) by (simp_all add: manager_trans_def)
  from st b have "config_inv (current_config m')"
  proof cases
    case (init_local w)
    then show ?thesis using c by (simp add: init_local_def config_inv_initialize)
  next
    case (merge_gossip clock packet)
    obtain t c1 ch where p: "process_packet clock (gossip m) (current_config m) packet = (t, c1, ch)"
      by (metis prod_cases3)
    obtain c2 u where r: "resolve_epoch_collision c1 (sender_id (header packet)) (header_epoch (header packet)) = (c2, u)"
      by force
    have l: "length (workers c2) = length (workers c1)"
      using r by (auto simp: resolve_epoch_collision_def Let_def split: option.splits if_splits)
    have m': "current_config m' = c2" using merge_gossip p r by (simp add: try_merge_gossip_def)
    then have "length (workers c1) \<le> 65536" using b l by (simp add: bounded_def)
    from inv_resolve [OF inv_process_packet [OF c p this]] r m' show ?thesis by (metis fst_conv)
  next
    case (mark_pfail nid)
    then show ?thesis using c by (simp add: mark_node_pfail_def)
  qed (use c assms(1) in \<open>simp_all add: inv_try_add_slots inv_try_remove_slots inv_migration inv_import
      inv_ownership inv_stable inv_meet inv_forget inv_reset inv_failover inv_replicaof inv_epochs
      inv_clear_pfail inv_eval_fail\<close>)
  with b show ?thesis by (simp add: manager_inv_iff)
qed

interpretation mgr: invariant_system "\<lambda>m. m = ClusterManager_new" manager_trans manager_inv
proof unfold_locales
  show "m = ClusterManager_new \<Longrightarrow> manager_inv m" for m
    using config_inv_new
    by (auto simp: manager_inv_iff ClusterManager_new_def bounded_def) (simp add: ClusterConfig_new_def)
qed (rule manager_step_inv)

text \<open>
  C1: The invariant of the cluster manager.  In every state reachable from a fresh manager
  by any sequence of administrative commands, gossip packets (with arbitrary contents) and
  failure evaluations, as long as the worker table fits 16-bit indices, all slots are
  present, each refers to an existing worker, the reserved entry is intact, and a slot is
  offline exactly when it has no owner, migrating only towards a remote node, and never in
  one of the three states that no operation produces.
\<close>

theorem manager_reachable_inv:
  assumes "manager_trans\<^sup>*\<^sup>* ClusterManager_new m"
  shows "manager_inv m"
  using mgr.inv_reachable [OF refl assms] .

theorem manager_reachable_inv_witness:
  "manager_inv (fst (try_add_slots (init_local ClusterManager_new (Worker_primary ''aa'' ''10.0.0.1'' 7001 1)) [0, 5]))"
proof (rule manager_reachable_inv)
  let ?m0 = ClusterManager_new
  let ?m1 = "init_local ?m0 (Worker_primary ''aa'' ''10.0.0.1'' 7001 1)"
  let ?m2 = "fst (try_add_slots ?m1 [0, 5])"
  have l1: "length (workers (current_config ?m1)) = 2"
    by (simp add: init_local_def initialize_local_worker_def ClusterManager_new_def ClusterConfig_new_def)
  have l2: "length (workers (current_config ?m2)) = length (workers (current_config ?m1))"
    by (simp add: try_add_slots_def Let_def split: option.split)
  have "manager_trans ?m0 ?m1" "manager_trans ?m1 ?m2"
    using l1 l2 by (simp_all add: manager_trans_def bounded_def manager_step.init_local manager_step.add_slots)
  then show "manager_trans\<^sup>*\<^sup>* ?m0 ?m2" by auto
qed

text \<open>
  An operation that reports an error leaves the manager as it was.
\<close>

theorem errors_change_nothing:
  "\<forall>e. (snd (try_add_slots m slots) = Inl e \<longrightarrow> fst (try_add_slots m slots) = m) \<and>
       (snd (try_remove_slots m slots) = Inl e \<longrightarrow> fst (try_remove_slots m slots) = m) \<and>
       (snd (try_prepare_slot_for_migration m slot nid) = Inl e \<longrightarrow>
          fst (try_prepare_slot_for_migration m slot nid) = m) \<and>
       (snd (try_prepare_slot_for_import m slot nid) = Inl e \<longrightarrow>
          fst (try_prepare_slot_for_import m slot nid) = m) \<and>
       (snd (try_prepare_slot_for_ownership_change m slot nid) = Inl e \<longrightarrow>
          fst (try_prepare_slot_for_ownership_change m slot nid) = m) \<and>
       (snd (try_remove_worker now m nid secs) = Inl e \<longrightarrow> fst (try_remove_worker now m nid secs) = m) \<and>
       (snd (try_reset fresh m soft keys) = Inl e \<longrightarrow> fst (try_reset fresh m soft keys) = m) \<and>
       (snd (try_failover m) = Inl e \<longrightarrow> fst (try_failover m) = m) \<and>
       (snd (try_replicaof m nid) = Inl e \<longrightarrow> fst (try_replicaof m nid) = m) \<and>
       (snd (try_set_local_config_epoch m ep) = Inl e \<longrightarrow> fst (try_set_local_config_epoch m ep) = m)"
proof (intro allI conjI impI)
  fix e
  show "snd (try_add_slots m slots) = Inl e \<Longrightarrow> fst (try_add_slots m slots) = m"
    by (auto simp: try_add_slots_def Let_def split: if_splits option.splits)
  show "snd (try_remove_slots m slots) = Inl e \<Longrightarrow> fst (try_remove_slots m slots) = m"
    by (auto simp: try_remove_slots_def Let_def split: if_splits option.splits)
  show "snd (try_prepare_slot_for_migration m slot nid) = Inl e \<Longrightarrow>
          fst (try_prepare_slot_for_migration m slot nid) = m"
    by (simp add: try_prepare_slot_for_migration_def Let_def split: if_splits)
  show "snd (try_prepare_slot_for_import m slot nid) = Inl e \<Longrightarrow>
          fst (try_prepare_slot_for_import m slot nid) = m"
    by (simp add: try_prepare_slot_for_import_def Let_def split: if_splits option.splits)
  show "snd (try_prepare_slot_for_ownership_change m slot nid) = Inl e \<Longrightarrow>
          fst (try_prepare_slot_for_ownership_change m slot nid) = m"
    by (simp add: try_prepare_slot_for_ownership_change_def Let_def split: if_splits option.splits SlotState.splits)
  show "snd (try_remove_worker now m nid secs) = Inl e \<Longrightarrow> fst (try_remove_worker now m nid secs) = m"
    by (simp add: try_remove_worker_def Let_def split: if_splits sum.splits)
  show "snd (try_reset fresh m soft keys) = Inl e \<Longrightarrow> fst (try_reset fresh m soft keys) = m"
    by (simp add: try_reset_def Let_def split: if_splits)
  show "snd (try_failover m) = Inl e \<Longrightarrow> fst (try_failover m) = m"
    by (simp add: try_failover_def Let_def split: if_splits option.splits)
  show "snd (try_replicaof m nid) = Inl e \<Longrightarrow> fst (try_replicaof m nid) = m"
    by (simp add: try_replicaof_def Let_def split: if_splits)
  show "snd (try_set_local_config_epoch m ep) = Inl e \<Longrightarrow> fst (try_set_local_config_epoch m ep) = m"
    by (auto simp: try_set_local_config_epoch_def Let_def split: if_splits)
qed

theorem errors_change_nothing_witness:
  "snd (try_failover ClusterManager_new) = Inl (InvalidParam OnlyReplicaFailover) \<and>
   fst (try_failover ClusterManager_new) = ClusterManager_new"
proof -
  have "snd (try_failover ClusterManager_new) = Inl (InvalidParam OnlyReplicaFailover)"
    by (simp add: try_failover_def Let_def ClusterManager_new_def ClusterConfig_new_def local_node_role_def)
  then show ?thesis using errors_change_nothing [of ClusterManager_new] by blast
qed


lemma check_add_slots_None:
  "check_add_slots c slots = None \<longleftrightarrow>
     (\<forall>s \<in> set slots. unat s < TOTAL_HASH_SLOTS \<and> state (slot_map c ! unat s) = Offline)"
  by (induction slots) (auto simp: out_of_range_iff)

lemma slot_fold_nth:
  assumes "length sm = TOTAL_HASH_SLOTS" and "i < TOTAL_HASH_SLOTS"
  shows "foldl (\<lambda>sm slot. sm[unat slot := hs]) sm slots ! i =
    (if as_u16 i \<in> set slots then hs else sm ! i)"
  using assms(1)
proof (induction slots arbitrary: sm)
  case (Cons x xs)
  have "as_u16 i = x \<longleftrightarrow> i = unat x"
    using assms(2) unat_as_u16 [of i] by (auto simp: slot_consts)
  then show ?case using Cons.IH [of "sm[unat x := hs]"] Cons.prems assms(2) by auto
qed simp

text \<open>
  \<open>CLUSTER ADDSLOTS\<close> is all or nothing.  It succeeds exactly when every slot is in range
  and offline; then exactly the listed slots become stable slots of the local node.
\<close>

theorem try_add_slots_correct:
  assumes "wf_config (current_config m)"
  shows "let c = current_config m; c' = current_config (fst (try_add_slots m slots)) in
    ((\<exists>n. snd (try_add_slots m slots) = Inr n) \<longleftrightarrow>
       (\<forall>s \<in> set slots. unat s < TOTAL_HASH_SLOTS \<and> state (slot_map c ! unat s) = Offline)) \<and>
    ((\<exists>n. snd (try_add_slots m slots) = Inr n) \<longrightarrow>
       workers c' = workers c \<and>
       (\<forall>i < TOTAL_HASH_SLOTS. slot_map c' ! i =
          (if as_u16 i \<in> set slots then HashSlot_new (as_u16 LOCAL_WORKER_ID) Stable else slot_map c ! i)))"
proof (cases "check_add_slots (current_config m) slots")
  case None
  have nw: "num_workers (current_config m) \<noteq> 0" using wf_configD(2) [OF assms] by (auto simp: num_workers_def)
  with None show ?thesis
    using slot_fold_nth [OF wf_configD(1) [OF assms]] check_add_slots_None [of "current_config m" slots]
    by (simp add: try_add_slots_def Let_def)
next
  case (Some e)
  then have "\<not> (\<forall>s \<in> set slots. unat s < TOTAL_HASH_SLOTS \<and> state (slot_map (current_config m) ! unat s) = Offline)"
    using check_add_slots_None [of "current_config m" slots] by (metis option.distinct(1))
  moreover have "\<not> (\<exists>n. snd (try_add_slots m slots) = Inr n)"
    using Some by (simp add: try_add_slots_def Let_def)
  ultimately show ?thesis by (simp only: Let_def) blast
qed

theorem try_add_slots_correct_witness:
  "slot_map (current_config (fst (try_add_slots ClusterManager_new [7]))) ! 7 = HashSlot_new 1 Stable"
proof -
  have wf: "wf_config (current_config ClusterManager_new)"
    by (simp add: ClusterManager_new_def wf_ClusterConfig_new)
  have off: "\<forall>s \<in> set [7 :: u16]. unat s < TOTAL_HASH_SLOTS \<and>
      state (slot_map (current_config ClusterManager_new) ! unat s) = Offline"
    by (simp add: ClusterManager_new_def ClusterConfig_new_def slot_consts HashSlot_default_def)
  from try_add_slots_correct [OF wf, of "[7]"] off
  have "\<forall>i < TOTAL_HASH_SLOTS. slot_map (current_config (fst (try_add_slots ClusterManager_new [7]))) ! i =
      (if as_u16 i \<in> set [7] then HashSlot_new (as_u16 LOCAL_WORKER_ID) Stable
       else slot_map (current_config ClusterManager_new) ! i)"
    unfolding Let_def by blast
  from this [rule_format, of 7] show ?thesis by (simp add: slot_consts)
qed

lemma update_local_eq:
  "wf_config c \<Longrightarrow> update_local f c = c\<lparr>workers := (workers c)[1 := f (workers c ! 1)]\<rparr>"
  using wf_configD(4) [of c] by (simp add: update_local_def)

lemma i64_wrap_next: "i64_min \<le> x \<Longrightarrow> x < i64_max \<Longrightarrow> i64_wrap (x + 1) = x + 1"
  by (rule i64_wrap_id) simp_all

lemma max_epoch_slots [simp]: "get_max_config_epoch (c\<lparr>slot_map := sm\<rparr>) = get_max_config_epoch c"
  by (simp add: get_max_config_epoch_def)

lemma local_after_update:
  assumes "wf_config c"
  shows "local_node_role (c\<lparr>slot_map := sm, workers := (workers c)[Suc 0 := w]\<rparr>) = role w"
    and "local_node_primary_id (c\<lparr>slot_map := sm, workers := (workers c)[Suc 0 := w]\<rparr>) = replica_of_node_id w"
    and "local_node_config_epoch (c\<lparr>slot_map := sm, workers := (workers c)[Suc 0 := w]\<rparr>) = config_epoch w"
  using wf_configD(4) [OF assms]
  by (simp_all add: local_node_role_def local_node_primary_id_def local_node_config_epoch_def)

lemma max_epoch_bound:
  assumes "wf_config c" and "w \<in> set (drop 1 (workers c))"
  shows "config_epoch w \<le> get_max_config_epoch c"
  using assms(2) Max_ge [of "config_epoch ` set (drop 1 (workers c))" "config_epoch w"]
  by (simp add: max_epoch_eq [OF wf_configD(2) [OF assms(1)]])

text \<open>
  C35: \<open>CLUSTER FAILOVER\<close>.  A replica that succeeds becomes a primary without a replication
  source, its epoch is strictly greater than every epoch it knew, and it takes over as
  stable exactly the slots that were recorded for its old primary, all others being kept.
\<close>

theorem try_failover_correct:
  assumes "wf_config (current_config m)" and "try_failover m = (m', Inr e)"
    and "i64_min \<le> get_max_config_epoch (current_config m)"
    and "get_max_config_epoch (current_config m) < i64_max"
  shows "let c = current_config m; c' = current_config m' in
    is_replica c \<and> is_primary c' \<and> local_node_primary_id c' = None \<and> local_node_config_epoch c' = e \<and>
    (\<forall>w \<in> set (drop 1 (workers c)). config_epoch w < e) \<and>
    (\<exists>old. local_node_primary_id c = Some old \<and>
      (\<forall>s < TOTAL_HASH_SLOTS. slot_map c' ! s =
        (if is_known c old \<and> worker_id (slot_map c ! s) = as_u16 (get_worker_id_from_node_id c old)
         then HashSlot_new (as_u16 LOCAL_WORKER_ID) Stable else slot_map c ! s)))"
proof -
  define c where "c = current_config m"
  have wf: "wf_config c" using assms(1) by (simp add: c_def)
  obtain old where r: "local_node_role c = Replica" and old: "local_node_primary_id c = Some old"
    using assms(2) by (auto simp: try_failover_def Let_def c_def split: if_splits option.splits)
  define wid where "wid = get_worker_id_from_node_id c old"
  define sm where "sm = (if wid > 0 then map (\<lambda>hs. if worker_id hs = as_u16 wid
       then HashSlot_new (as_u16 LOCAL_WORKER_ID) Stable else hs) (slot_map c) else slot_map c)"
  have c1: "(if wid > 0 then c\<lparr>slot_map := map (\<lambda>hs. if worker_id hs = as_u16 wid
       then hs\<lparr>worker_id := as_u16 LOCAL_WORKER_ID, state := Stable\<rparr> else hs) (slot_map c)\<rparr> else c)
     = c\<lparr>slot_map := sm\<rparr>"
    by (simp add: sm_def HashSlot_update_both)
  have e: "e = get_max_config_epoch c + 1"
    and m': "current_config m' = update_local (\<lambda>w. w\<lparr>role := Primary, replica_of_node_id := None,
       config_epoch := e\<rparr>) (c\<lparr>slot_map := sm\<rparr>)"
    using assms(2) r old i64_wrap_next assms(3,4)
    by (auto simp: try_failover_def Let_def c_def [symmetric] wid_def [symmetric] c1)
  have "1 < length (workers c)" by (rule wf_configD(4) [OF wf])
  then have c': "current_config m' = c\<lparr>slot_map := sm, workers := (workers c)
       [1 := (workers c ! 1)\<lparr>role := Primary, replica_of_node_id := None, config_epoch := e\<rparr>]\<rparr>"
    by (simp add: m' update_local_def)
  have "slot_map (current_config m') ! s =
        (if is_known c old \<and> worker_id (slot_map c ! s) = as_u16 wid
         then HashSlot_new (as_u16 LOCAL_WORKER_ID) Stable else slot_map c ! s)" if "s < TOTAL_HASH_SLOTS" for s
    using that wf_configD(1) [OF wf] by (simp add: c' sm_def is_known_def wid_def)
  moreover have "config_epoch w < e" if "w \<in> set (drop 1 (workers c))" for w
    using max_epoch_bound [OF wf that] e by simp
  ultimately show ?thesis
    using r old by (simp add: Let_def c_def [symmetric] wid_def [symmetric] is_replica_def is_primary_def
        c' local_after_update [OF wf])
qed

theorem try_failover_correct_witness:
  "\<exists>m' e. try_failover \<lparr>current_config = sample_config\<lparr>workers := (workers sample_config)
       [1 := Worker_replica ''aa'' ''10.0.0.1'' 7001 2 ''bb'']\<rparr>, gossip = GossipTracker_new\<rparr> = (m', Inr e) \<and>
     slot_map (current_config m') ! 3 = HashSlot_new 1 Stable"
proof -
  define c where "c = sample_config\<lparr>workers := (workers sample_config)
       [1 := Worker_replica ''aa'' ''10.0.0.1'' 7001 2 ''bb'']\<rparr>"
  define m where "m = \<lparr>current_config = c, gossip = GossipTracker_new\<rparr>"
  have wf: "wf_config (current_config m)"
    unfolding m_def c_def by (simp add: wf_config_worker_update sample_config_wf)
  have ws: "workers c = [Worker_unassigned, Worker_replica ''aa'' ''10.0.0.1'' 7001 2 ''bb'',
                 Worker_primary ''bb'' ''10.0.0.2'' 7002 4]"
    by (simp add: c_def sample_config_workers)
  have x: "local_node_role c = Replica" "local_node_primary_id c = Some ''bb''"
    "get_worker_id_from_node_id c ''bb'' = 2" "get_max_config_epoch c = 4"
    by (simp_all add: ws local_node_role_def local_node_primary_id_def get_worker_id_from_node_id_def
        has_node_id_def get_max_config_epoch_def Worker_primary_def Worker_replica_def Worker_new_def
        with_replica_of_def eq_ignore_ascii_case_def to_ascii_lowercase_def)
  obtain m' e where f: "try_failover m = (m', Inr e)"
    by (simp add: try_failover_def Let_def m_def x)
  have "i64_min \<le> get_max_config_epoch (current_config m)" "get_max_config_epoch (current_config m) < i64_max"
    by (simp_all add: m_def x i64_min_def i64_max_def)
  from try_failover_correct [OF wf f this] have
    "\<forall>s < TOTAL_HASH_SLOTS. slot_map (current_config m') ! s =
        (if is_known c ''bb'' \<and> worker_id (slot_map c ! s) = as_u16 2
         then HashSlot_new (as_u16 LOCAL_WORKER_ID) Stable else slot_map c ! s)"
    by (simp add: Let_def m_def x)
  from this [rule_format, of 3] have "slot_map (current_config m') ! 3 = HashSlot_new 1 Stable"
    by (simp add: slot_consts is_known_def x) (simp add: c_def sample_config_slots HashSlot_new_def)
  with f show ?thesis unfolding m_def c_def by blast
qed

text \<open>
  C36: \<open>CLUSTER REPLICATE\<close>.  A node that becomes a replica keeps no slot: afterwards no slot
  is effectively local, every slot that was (migrating ones included) belongs to the new
  primary as stable, the others are kept, and the node follows that primary.
\<close>

theorem try_replicaof_correct:
  assumes "wf_config (current_config m)" and "length (workers (current_config m)) \<le> 65536"
    and "try_replicaof m pid = (m', Inr u)"
  shows "let c = current_config m; c' = current_config m' in
    is_replica c' \<and> local_node_primary_id c' = Some pid \<and> \<not> has_assigned_slots c' (as_u16 LOCAL_WORKER_ID) \<and>
    (\<forall>s < TOTAL_HASH_SLOTS. slot_map c' ! s =
       (if effective_worker_id (slot_map c ! s) = as_u16 LOCAL_WORKER_ID
        then HashSlot_new (as_u16 (get_worker_id_from_node_id c pid)) Stable else slot_map c ! s))"
proof -
  define c where "c = current_config m"
  define wid where "wid = get_worker_id_from_node_id c pid"
  have wf: "wf_config c" and len: "length (workers c) \<le> 65536" using assms(1,2) by (simp_all add: c_def)
  have k: "wid \<noteq> 0" and nl: "\<not> (case local_node_id c of Some l \<Rightarrow> eq_ignore_ascii_case l pid | None \<Rightarrow> False)"
    using assms(3) by (auto simp: try_replicaof_def Let_def c_def wid_def split: if_splits)
  define f where "f = (\<lambda>hs. if effective_worker_id hs = as_u16 LOCAL_WORKER_ID
                            then HashSlot_new (as_u16 wid) Stable else hs)"
  have "1 < length (workers c)" by (rule wf_configD(4) [OF wf])
  then have c': "current_config m' = c\<lparr>slot_map := map f (slot_map c), workers := (workers c)
       [1 := (workers c ! 1)\<lparr>role := Replica, replica_of_node_id := Some pid\<rparr>]\<rparr>"
    using assms(3) k
    by (auto simp: try_replicaof_def Let_def c_def [symmetric] wid_def [symmetric] f_def update_local_def
        split: if_splits)
  have "wid \<noteq> 1" using not_local_index [OF wf wid_def [symmetric] k nl] .
  then have "1 < as_u16 wid" using known_index(4) [OF wid_def [symmetric] k len] by simp
  then have "effective_worker_id (f hs) \<noteq> 1" for hs
    by (auto simp: f_def effective_worker_id_def HashSlot_new_def)
  then have "\<not> has_assigned_slots (current_config m') (as_u16 LOCAL_WORKER_ID)"
    by (auto simp: has_assigned_slots_def c' list_ex_iff)
  moreover have "slot_map (current_config m') ! s = f (slot_map c ! s)" if "s < TOTAL_HASH_SLOTS" for s
    using that wf_configD(1) [OF wf] by (simp add: c')
  ultimately show ?thesis
    by (simp add: Let_def c_def [symmetric] wid_def [symmetric] is_replica_def f_def)
       (simp add: c' local_after_update [OF wf])
qed

theorem try_replicaof_correct_witness:
  "\<exists>m'. try_replicaof \<lparr>current_config = sample_config, gossip = GossipTracker_new\<rparr> ''bb'' = (m', Inr ()) \<and>
     \<not> has_assigned_slots (current_config m') 1"
proof -
  have x: "get_worker_id_from_node_id sample_config ''bb'' = 2" "local_node_id sample_config = Some ''aa''"
    by (simp_all add: sample_config_workers get_worker_id_from_node_id_def has_node_id_def local_node_id_def
        Worker_primary_def Worker_new_def eq_ignore_ascii_case_def to_ascii_lowercase_def)
  have y: "\<not> eq_ignore_ascii_case ''aa'' ''bb''" "role (workers sample_config ! 2) = Primary"
    by (simp_all add: sample_config_workers Worker_primary_def Worker_new_def eq_ignore_ascii_case_def
        to_ascii_lowercase_def)
  obtain m' where f: "try_replicaof \<lparr>current_config = sample_config, gossip = GossipTracker_new\<rparr> ''bb'' = (m', Inr ())"
    using x y by (simp add: try_replicaof_def Let_def get_node_role_from_node_id_def)
  have wf: "wf_config (current_config \<lparr>current_config = sample_config, gossip = GossipTracker_new\<rparr>)"
    and l: "length (workers (current_config \<lparr>current_config = sample_config, gossip = GossipTracker_new\<rparr>)) \<le> 65536"
    by (simp_all add: sample_config_wf sample_config_workers)
  from try_replicaof_correct [OF wf l f] have "\<not> has_assigned_slots (current_config m') 1"
    by (simp add: Let_def)
  with f show ?thesis by blast
qed

lemma sample_lookups:
  "get_worker_id_from_node_id sample_config ''bb'' = 2" "get_worker_id_from_node_id sample_config ''BB'' = 2"
  "get_worker_id_from_node_id sample_config ''aa'' = 1"
  "local_node_id sample_config = Some ''aa''" "local_node_role sample_config = Primary"
  "get_node_role_from_node_id sample_config ''bb'' = Primary"
  "get_node_role_from_node_id sample_config ''BB'' = Primary" "get_max_config_epoch sample_config = 4"
  "\<not> eq_ignore_ascii_case ''aa'' ''bb''" "\<not> eq_ignore_ascii_case ''aa'' ''BB''"
  by (simp_all add: sample_config_workers get_worker_id_from_node_id_def has_node_id_def local_node_id_def
      local_node_role_def get_node_role_from_node_id_def get_max_config_epoch_def
      Worker_primary_def Worker_new_def eq_ignore_ascii_case_def to_ascii_lowercase_def char_of_def bit_0)

lemma sample_manager_inv: "manager_inv sample_manager"
  using sample_config_wf
  by (auto simp: manager_inv_def bounded_def sample_manager_def sample_config_workers)
     (auto simp: sample_config_def list_all_length nth_list_update slot_consts slot_ok_new)

lemma local_stable_entry:
  assumes "is_local c slot False" and "get_state c slot = Stable"
  shows "unat slot < TOTAL_HASH_SLOTS" and "slot_map c ! unat slot = HashSlot_new 1 Stable"
proof -
  show r: "unat slot < TOTAL_HASH_SLOTS" using assms(1) by (auto simp: is_local_def Let_def split: if_splits)
  have "state (slot_map c ! unat slot) = Stable" using assms(2) r by (simp add: get_state_def)
  moreover from this have "worker_id (slot_map c ! unat slot) = 1"
    using assms(1) unfolding is_local_iff [OF r] by (auto simp: Let_def split: if_splits)
  ultimately show "slot_map c ! unat slot = HashSlot_new 1 Stable" by (simp add: HashSlot_new_eq)
qed

text \<open>
  C37: Cancelling a migration.  If \<open>SETSLOT MIGRATING\<close> succeeds, the slot was a stable slot
  of the local node, and \<open>SETSLOT STABLE\<close> restores the manager to what it was before.
\<close>

theorem migration_cancel_roundtrip:
  assumes "wf_config (current_config m)"
    and "try_prepare_slot_for_migration m slot nid = (m1, Inr u)"
  shows "slot_map (current_config m) ! unat slot = HashSlot_new (as_u16 LOCAL_WORKER_ID) Stable \<and>
    get_state (current_config m1) slot = Migrating \<and>
    try_prepare_slot_for_stable m1 slot = (m, Inr ())"
proof -
  define c where "c = current_config m"
  define wid where "wid = as_u16 (get_worker_id_from_node_id c nid)"
  have "is_local c slot False" "get_state c slot = Stable"
    and m1: "m1 = m\<lparr>current_config := update_slot_state c slot wid Migrating\<rparr>"
    using assms(2)
    by (auto simp: try_prepare_slot_for_migration_def Let_def c_def wid_def split: if_splits)
  then have r: "unat slot < TOTAL_HASH_SLOTS" and e: "slot_map c ! unat slot = HashSlot_new 1 Stable"
    using local_stable_entry by auto
  have l: "length (slot_map c) = TOTAL_HASH_SLOTS" using assms(1) by (simp add: c_def wf_configD)
  have c1: "current_config m1 = c\<lparr>slot_map := (slot_map c)[unat slot := HashSlot_new wid Migrating]\<rparr>"
    using r by (simp add: m1 update_slot_state_eq)
  have n1: "slot_map (current_config m1) ! unat slot = HashSlot_new wid Migrating"
    using r l by (simp add: c1)
  have "try_prepare_slot_for_stable m1 slot =
     (m1\<lparr>current_config := c\<lparr>slot_map := (slot_map c)[unat slot := HashSlot_new 1 Stable]\<rparr>\<rparr>, Inr ())"
    using r by (simp add: try_prepare_slot_for_stable_def Let_def out_of_range_iff n1 slot_ok_new
        HashSlot_update_both) (simp add: c1)
  also have "(slot_map c)[unat slot := HashSlot_new 1 Stable] = slot_map c" using e by (metis list_update_id)
  finally have "try_prepare_slot_for_stable m1 slot = (m, Inr ())" by (simp add: m1 c_def)
  then show ?thesis using e r n1 by (simp add: c_def get_state_def slot_ok_new)
qed

theorem migration_cancel_roundtrip_witness:
  "\<exists>m1. try_prepare_slot_for_migration sample_manager 0 ''bb'' = (m1, Inr ()) \<and>
     try_prepare_slot_for_stable m1 0 = (sample_manager, Inr ())"
proof -
  obtain m1 where m1: "try_prepare_slot_for_migration sample_manager 0 ''bb'' = (m1, Inr ())"
    by (simp add: try_prepare_slot_for_migration_def Let_def sample_manager_def out_of_range_iff
        sample_lookups is_local_def get_state_def sample_config_slots HashSlot_new_def slot_consts is_replica_def)
  have "wf_config (current_config sample_manager)" by (simp add: sample_manager_def sample_config_wf)
  from migration_cancel_roundtrip [OF this m1] m1 show ?thesis by blast
qed

text \<open>
  Completing an import.  When a slot is importing and the node is told that it is the
  new owner, the slot becomes a stable slot of the local node and the local epoch rises
  strictly above every epoch the node knew, so that its claim wins at every receiver that
  records an owner known to it.
\<close>

theorem import_completion:
  assumes "wf_config (current_config m)" and "local_node_id (current_config m) = Some lid"
    and "get_state (current_config m) slot = Importing"
    and "try_prepare_slot_for_ownership_change m slot nid = (m', Inr u)"
    and "i64_min \<le> get_max_config_epoch (current_config m)"
    and "get_max_config_epoch (current_config m) < i64_max"
  shows "let c = current_config m; c' = current_config m' in
    eq_ignore_ascii_case lid nid \<and>
    slot_map c' = (slot_map c)[unat slot := HashSlot_new (as_u16 LOCAL_WORKER_ID) Stable] \<and>
    (\<forall>w \<in> set (drop 1 (workers c)). config_epoch w < local_node_config_epoch c')"
proof -
  define c where "c = current_config m"
  have wf: "wf_config c" using assms(1) by (simp add: c_def)
  have r: "unat slot < TOTAL_HASH_SLOTS" using assms(3) by (auto simp: get_state_def Let_def split: if_splits)
  have "1 < length (workers c)" by (rule wf_configD(4) [OF wf])
  then have eq: "eq_ignore_ascii_case lid nid" and
    c': "current_config m' = c\<lparr>slot_map := (slot_map c)[unat slot := HashSlot_new 1 Stable],
       workers := (workers c)[1 := (workers c ! 1)\<lparr>config_epoch := get_max_config_epoch c + 1\<rparr>]\<rparr>"
    using assms(2-4) r i64_wrap_next [OF assms(5,6)]
    by (auto simp: try_prepare_slot_for_ownership_change_def Let_def c_def [symmetric] update_slot_state_eq
        update_local_def split: if_splits)
  have "config_epoch w < get_max_config_epoch c + 1" if "w \<in> set (drop 1 (workers c))" for w
    using max_epoch_bound [OF wf that] by simp
  then show ?thesis using eq
    by (simp add: Let_def c_def [symmetric] c' local_after_update [OF wf])
qed

theorem import_completion_witness:
  "\<exists>m'. try_prepare_slot_for_ownership_change sample_manager 2 ''aa'' = (m', Inr ()) \<and>
     slot_map (current_config m') ! 2 = HashSlot_new 1 Stable \<and>
     4 < local_node_config_epoch (current_config m')"
proof -
  have im: "get_state (current_config sample_manager) 2 = Importing"
    by (simp add: sample_manager_def get_state_def sample_config_slots HashSlot_new_def slot_consts)
  then obtain m' where m': "try_prepare_slot_for_ownership_change sample_manager 2 ''aa'' = (m', Inr ())"
    by (simp add: try_prepare_slot_for_ownership_change_def Let_def sample_manager_def out_of_range_iff
        sample_lookups slot_consts)
  have wf: "wf_config (current_config sample_manager)" by (simp add: sample_manager_def sample_config_wf)
  have lid: "local_node_id (current_config sample_manager) = Some ''aa''"
    and ep: "i64_min \<le> get_max_config_epoch (current_config sample_manager)"
      "get_max_config_epoch (current_config sample_manager) < i64_max"
    by (simp_all add: sample_manager_def sample_lookups i64_min_def i64_max_def)
  have in2: "Worker_primary ''bb'' ''10.0.0.2'' 7002 4 \<in> set (drop 1 (workers (current_config sample_manager)))"
    by (simp add: sample_manager_def sample_config_workers)
  from import_completion [OF wf lid im m' ep]
  have "slot_map (current_config m') = (slot_map sample_config)[2 := HashSlot_new 1 Stable] \<and>
     (\<forall>w \<in> set (drop 1 (workers (current_config sample_manager))). config_epoch w < local_node_config_epoch (current_config m'))"
    by (simp add: Let_def sample_manager_def)
  moreover have "2 < length (slot_map sample_config)"
    by (simp add: wf_configD(1) [OF sample_config_wf] slot_consts)
  moreover have "config_epoch (Worker_primary ''bb'' ''10.0.0.2'' 7002 4) = 4"
    by (simp add: Worker_primary_def Worker_new_def)
  ultimately show ?thesis using m' in2 by force
qed

lemma remove_worker_workers:
  assumes "remove_worker c nid = Inr c'"
  shows "get_worker_id_from_node_id c nid \<noteq> 0"
    and "workers c' = remove_at (get_worker_id_from_node_id c nid) (workers c)"
  using assms by (auto simp: remove_worker_def Let_def split: if_splits)

lemma resolve_listed:
  assumes "resolve_epoch_collision c rid re = (c2, b)"
  shows "listed c2 nid = listed c nid"
proof -
  have "node_id (workers c2 ! i) = node_id (workers c ! i)" for i
    using assms by (cases "i = Suc 0")
      (auto simp: resolve_epoch_collision_def Let_def get_def split: option.splits if_splits)
  moreover have "length (workers c2) = length (workers c)"
    using assms by (auto simp: resolve_epoch_collision_def Let_def split: option.splits if_splits)
  ultimately show ?thesis by (simp add: listed_iff)
qed




lemma process_packet_lists_sender:
  assumes "wf_config c" and "process_packet clock t c p = (t', c', ch)"
    and "sender_id (header p) = b" and "b \<noteq> []" and "\<not> snd (is_banned (clock 0) t b)"
    and "local_node_id c \<noteq> Some b"
  shows "listed c' b"
  using assms(2)
proof (cases rule: process_packet_cases)
  case refused
  then show ?thesis using assms by simp
next
  case (merged c1 ch1 c2 ch2)
  define st where "st = (fst (is_banned (clock 0) t (sender_id (header p))), c2, ch1 \<or> ch2)"
  have wf1: "wf_config c1" using wf_merge_worker_ref [OF assms(1)] merged(4) by (metis fst_conv)
  have c2: "workers c2 = workers c1 \<and> wf_config c2"
    using merged(5) wf1 wf_merge_sender_slots [OF wf1] merge_sender_slots_workers by (metis fst_conv)
  have "listed c1 b"
    using merge_worker_ref_lists [OF merged(4) _ assms(4) wf_configD(4) [OF assms(1)]] assms(3)
    by (simp add: header_meta_def)
  then obtain i where i: "1 \<le> i" "i < length (workers c1)" "node_id (workers c1 ! i) = Some b"
    by (auto simp: listed_iff)
  have "gossip_ok st" using c2 by (simp add: gossip_ok_def st_def)
  note F = secs.foldl_ok_le [OF this, of clock "sender_id (header p)"
      "List.enumerate 0 (take MAX_GOSSIP_SECTIONS (sections p))", folded merged(6) [folded st_def]]
  have "i < length (workers c') \<and> node_id (workers c' ! i) = Some b"
    using F i c2 by (auto simp: gossip_le_def extends_def st_def)
  with i(1) show ?thesis by (auto simp: listed_iff)
qed

text \<open>
  The ban recorded by \<open>CLUSTER FORGET\<close> depends on the spelling.  The node is found
  ignoring case, but the ban is stored under the spelling of the command and compared
  exactly: if the two differ in case, the next packet of the forgotten node lists it again.
\<close>

theorem forget_ban_depends_on_case:
  assumes "manager_inv m" and "try_remove_worker now m nid secs = (m', Inr u)"
    and "eq_ignore_ascii_case real nid" and "real \<noteq> nid" and "real \<noteq> []"
    and "ban_list (gossip m) real = None" and "sender_id (header p) = real"
  shows "listed (current_config (fst (try_merge_gossip clock m' p))) real"
proof -
  define c where "c = current_config m"
  obtain t c1 ch where pp: "process_packet clock (gossip m') (current_config m') p = (t, c1, ch)"
    by (metis prod_cases3)
  obtain c2 b where r: "resolve_epoch_collision c1 (sender_id (header p)) (header_epoch (header p)) = (c2, b)"
    by force
  have wfc: "wf_config c" using assms(1) by (simp add: c_def manager_inv_def)
  have wf: "wf_config (current_config m')"
    using inv_forget [OF assms(1), of now nid secs] assms(2) by (simp add: config_inv_def)
  have g: "ban_list (gossip m') real = None"
    using assms(2,4,6) by (auto simp: try_remove_worker_def Let_def ban_def split: if_splits sum.splits)
  then have nb: "\<not> snd (is_banned (clock 0) (gossip m') real)" by (simp add: is_banned_def)
  have rm: "remove_worker c nid = Inr (current_config m')"
    and nl: "\<not> (case local_node_id c of Some l \<Rightarrow> eq_ignore_ascii_case l nid | None \<Rightarrow> False)"
    using assms(2) by (auto simp: try_remove_worker_def Let_def c_def split: if_splits sum.splits)
  define idx where "idx = get_worker_id_from_node_id c nid"
  have k: "idx \<noteq> 0" and ws: "workers (current_config m') = remove_at idx (workers c)"
    using remove_worker_workers [OF rm] by (simp_all add: idx_def)
  have "idx \<noteq> 1" using not_local_index [OF wfc idx_def [symmetric] k nl] .
  then have "workers (current_config m') ! 1 = workers c ! 1"
    using worker_lookup_Some(1) [OF idx_def [symmetric] k] k by (simp add: ws nth_remove_at)
  then have "local_node_id (current_config m') = local_node_id c"
    by (simp add: local_node_id_nth [OF wf] local_node_id_nth [OF wfc])
  moreover have "local_node_id c \<noteq> Some real" using nl assms(3) by auto
  ultimately have "listed c1 real"
    using process_packet_lists_sender [OF wf pp assms(7,5) nb] by simp
  then show ?thesis using resolve_listed [OF r] pp r by (simp add: try_merge_gossip_def)
qed

theorem forget_ban_depends_on_case_witness:
  "\<exists>m'. try_remove_worker 0 sample_manager ''BB'' 60 = (m', Inr ()) \<and>
     listed (current_config (fst (try_merge_gossip (\<lambda>_. 5) m'
         \<lparr>header = GossipHeader_default\<lparr>sender_id := ''bb''\<rparr>, sections = []\<rparr>))) ''bb''"
proof -
  obtain m' where m': "try_remove_worker 0 sample_manager ''BB'' 60 = (m', Inr ())"
    by (simp add: try_remove_worker_def Let_def sample_manager_def sample_lookups remove_worker_def)
  have "eq_ignore_ascii_case ''bb'' ''BB''"
    by (simp add: eq_ignore_ascii_case_def to_ascii_lowercase_def char_of_def bit_0)
  from forget_ban_depends_on_case [OF sample_manager_inv m' this, of _ "\<lambda>_. 5"] m' show ?thesis
    by (auto simp: sample_manager_def GossipTracker_new_def)
qed

end
