(* ===== verification/Cluster_Codec.thy ===== *)
theory Cluster_Codec
  imports Cluster_Config
begin

text \<open>
  Persistence of a configuration (\<open>config.rs\<close>, \<open>to_bitcode_payload\<close> and
  \<open>from_bitcode_payload\<close>): the slot table is run-length encoded into segments.  The
  \<open>bitcode\<close> crate that turns the payload into bytes is a parameter of \<open>to_bitcode\<close> and
  \<open>from_bitcode\<close>.
\<close>

record ClusterConfigSegment =
  seg_count :: u16
  seg_worker_id :: u16
  seg_state :: SlotState

record ClusterConfigBitcode =
  cb_version :: u8
  cb_segments :: "ClusterConfigSegment list"
  cb_workers :: "Worker list"

definition try_peek_version :: "bytes \<Rightarrow> u8 option" where
  "try_peek_version data = (case data of [] \<Rightarrow> None | b # _ \<Rightarrow> Some b)"

text \<open>The loop of \<open>to_bitcode_payload\<close> over the slots after the first.\<close>

fun rle_loop :: "HashSlot list \<Rightarrow> u16 \<Rightarrow> u16 \<Rightarrow> SlotState \<Rightarrow> ClusterConfigSegment list \<Rightarrow>
    ClusterConfigSegment list" where
  "rle_loop [] count wid st segs = segs @ [\<lparr>seg_count = count, seg_worker_id = wid, seg_state = st\<rparr>]"
| "rle_loop (slot # slots) count wid st segs =
     (if worker_id slot \<noteq> wid \<or> state slot \<noteq> st
      then rle_loop slots 1 (worker_id slot) (state slot)
             (segs @ [\<lparr>seg_count = count, seg_worker_id = wid, seg_state = st\<rparr>])
      else rle_loop slots (count + 1) wid st segs)"

definition to_bitcode_payload :: "ClusterConfig \<Rightarrow> ClusterConfigBitcode" where
  "to_bitcode_payload c =
     \<lparr>cb_version = CLUSTER_CONFIG_VERSION,
      cb_segments = rle_loop (drop 1 (slot_map c)) 1 (worker_id (slot_map c ! 0))
                      (state (slot_map c ! 0)) [],
      cb_workers = workers c\<rparr>"

text \<open>The loop of \<open>from_bitcode_payload\<close>: fills the table segment by segment.\<close>

fun fill_segments :: "nat \<Rightarrow> ClusterConfigSegment list \<Rightarrow> HashSlot list \<Rightarrow> nat \<Rightarrow>
    ClusterError + HashSlot list" where
  "fill_segments n [] sm slot_offset = Inr sm"
| "fill_segments n (seg # segs) sm slot_offset =
     (if unat (seg_worker_id seg) \<ge> n then Inl (InvalidPayload (BadOwnerIndex (seg_worker_id seg)))
      else
        let fin = min (slot_offset + unat (seg_count seg)) TOTAL_HASH_SLOTS in
        if slot_offset < fin
        then fill_segments n segs
               (copy_at slot_offset (replicate (fin - slot_offset)
                  (HashSlot_new (seg_worker_id seg) (seg_state seg))) sm) fin
        else fill_segments n segs sm slot_offset)"

definition from_bitcode_payload :: "ClusterConfigBitcode \<Rightarrow> ClusterError + ClusterConfig" where
  "from_bitcode_payload payload =
     (if cb_version payload \<noteq> CLUSTER_CONFIG_VERSION
        then Inl (InvalidPayload (BadVersion (cb_version payload)))
      else
        let n = length (cb_workers payload) in
        if n = 0 \<or> n > TOTAL_HASH_SLOTS then Inl (InvalidPayload (BadWorkerCount n))
        else case fill_segments n (cb_segments payload)
                    (replicate TOTAL_HASH_SLOTS HashSlot_default) 0 of
          Inl e \<Rightarrow> Inl e
        | Inr sm \<Rightarrow> Inr \<lparr>slot_map = sm, workers = cb_workers payload\<rparr>)"

definition to_bitcode :: "(ClusterConfigBitcode \<Rightarrow> bytes) \<Rightarrow> ClusterConfig \<Rightarrow> bytes" where
  "to_bitcode encode c = encode (to_bitcode_payload c)"

definition from_bitcode ::
  "(bytes \<Rightarrow> ClusterConfigBitcode option) \<Rightarrow> bytes \<Rightarrow> ClusterError + ClusterConfig" where
  "from_bitcode decode bs =
     (case decode bs of
        None \<Rightarrow> Inl (InvalidPayload BitcodeFailed)
      | Some payload \<Rightarrow> from_bitcode_payload payload)"

text \<open>The slots a list of segments stands for.\<close>

definition expand :: "ClusterConfigSegment list \<Rightarrow> HashSlot list" where
  "expand segs = concat (map (\<lambda>s. replicate (unat (seg_count s)) (HashSlot_new (seg_worker_id s) (seg_state s))) segs)"

section \<open>Lemmas\<close>

lemma expand_simps [simp]:
  "expand [] = []"
  "expand (s # segs) = replicate (unat (seg_count s)) (HashSlot_new (seg_worker_id s) (seg_state s)) @ expand segs"
  "expand (xs @ ys) = expand xs @ expand ys"
  by (simp_all add: expand_def)

lemma unat_u16_Suc: "unat (n :: u16) + 1 < 65536 \<Longrightarrow> unat (n + 1) = unat n + 1"
  by (simp add: unat_word_ariths unsigned_1)

lemma HashSlot_collapse: "HashSlot_new (worker_id hs) (state hs) = hs"
  by (cases hs) (simp add: HashSlot_new_def)

lemma rle_loop_expand:
  assumes "unat count + length slots < 65536" and "0 < unat count"
  shows "expand (rle_loop slots count wid st segs) =
    expand segs @ replicate (unat count) (HashSlot_new wid st) @ slots"
  using assms
proof (induction slots count wid st segs rule: rle_loop.induct)
  case (1 count wid st segs)
  then show ?case by simp
next
  case (2 slot slots count wid st segs)
  show ?case
  proof (cases "worker_id slot \<noteq> wid \<or> state slot \<noteq> st")
    case True
    then have "expand (rle_loop (slot # slots) count wid st segs) =
      expand (rle_loop slots 1 (worker_id slot) (state slot)
        (segs @ [\<lparr>seg_count = count, seg_worker_id = wid, seg_state = st\<rparr>]))" by simp
    also have "\<dots> = expand (segs @ [\<lparr>seg_count = count, seg_worker_id = wid, seg_state = st\<rparr>]) @
       replicate (unat (1 :: u16)) (HashSlot_new (worker_id slot) (state slot)) @ slots"
      using "2.IH"(1) [OF True] "2.prems" by simp
    finally show ?thesis by (simp add: HashSlot_collapse)
  next
    case False
    have u: "unat (count + 1) = unat count + 1" using "2.prems" by (intro unat_u16_Suc) simp
    have "expand (rle_loop (slot # slots) count wid st segs) = expand (rle_loop slots (count + 1) wid st segs)"
      using False by simp
    also have "\<dots> = expand segs @ replicate (unat (count + 1)) (HashSlot_new wid st) @ slots"
      using "2.IH"(2) [OF False] "2.prems" u by simp
    also have "replicate (unat (count + 1)) (HashSlot_new wid st) = replicate (unat count) (HashSlot_new wid st) @ [slot]"
      using False u HashSlot_collapse [of slot] by (simp add: replicate_append_same)
    finally show ?thesis by simp
  qed
qed

lemma rle_loop_workers:
  "set (map seg_worker_id (rle_loop slots count wid st segs)) =
     set (map seg_worker_id segs) \<union> {wid} \<union> worker_id ` set slots"
  by (induction slots count wid st segs rule: rle_loop.induct) auto

lemma fill_segments_spec:
  assumes "\<forall>s \<in> set segs. unat (seg_worker_id s) < n" and "length sm = TOTAL_HASH_SLOTS"
    and "ofs \<le> TOTAL_HASH_SLOTS"
  shows "fill_segments n segs sm ofs =
    Inr (take TOTAL_HASH_SLOTS (take ofs sm @ expand segs @ drop (ofs + length (expand segs)) sm))"
  using assms
proof (induction segs arbitrary: sm ofs)
  case Nil
  then show ?case by simp
next
  case (Cons s segs)
  define k where "k = unat (seg_count s)"
  define v where "v = HashSlot_new (seg_worker_id s) (seg_state s)"
  define fin where "fin = min (ofs + k) TOTAL_HASH_SLOTS"
  define sm' where "sm' = copy_at ofs (replicate (fin - ofs) v) sm"
  have fin: "ofs \<le> fin" "fin \<le> TOTAL_HASH_SLOTS" using Cons.prems(3) by (simp_all add: fin_def)
  have l': "length sm' = TOTAL_HASH_SLOTS" using Cons.prems(2) fin by (simp add: sm'_def)
  have n0: "ofs = fin \<Longrightarrow> sm' = sm" by (simp add: sm'_def copy_at_def)
  have step: "fill_segments n (s # segs) sm ofs = fill_segments n segs sm' fin"
  proof (cases "ofs < fin")
    case True
    then show ?thesis using Cons.prems(1) by (simp add: Let_def fin_def k_def sm'_def v_def)
  next
    case False
    then have "ofs = fin" using fin by simp
    then show ?thesis using False n0 Cons.prems(1) by (simp add: Let_def fin_def k_def)
  qed
  have IH: "fill_segments n segs sm' fin =
     Inr (take TOTAL_HASH_SLOTS (take fin sm' @ expand segs @ drop (fin + length (expand segs)) sm'))"
    using Cons.IH [OF _ l' fin(2)] Cons.prems(1) by simp
  have tk: "take fin sm' = take ofs sm @ replicate (fin - ofs) v"
    using Cons.prems(2) fin by (simp add: sm'_def copy_at_def min_def)
  have dr: "drop (fin + m) sm' = drop (fin + m) sm" for m
    using Cons.prems(2) fin by (simp add: sm'_def copy_at_def add.commute)
  have mn: "take TOTAL_HASH_SLOTS (take ofs sm @ replicate (fin - ofs) v @ expand segs @
        drop (fin + length (expand segs)) sm) =
     take TOTAL_HASH_SLOTS (take ofs sm @ replicate k v @ expand segs @ drop (ofs + (k + length (expand segs))) sm)"
  proof (cases "ofs + k \<le> TOTAL_HASH_SLOTS")
    case True
    then have "fin = ofs + k" by (simp add: fin_def)
    then show ?thesis by (simp add: add.assoc)
  next
    case False
    then have "fin = TOTAL_HASH_SLOTS" by (simp add: fin_def)
    with False show ?thesis using Cons.prems(2,3) by (simp add: min_def) linarith
  qed
  have ex: "expand (s # segs) = replicate k v @ expand segs" by (simp add: k_def v_def)
  show ?case
    by (simp only: step IH tk dr ex append_assoc mn length_append length_replicate)
qed

lemma fill_segments_checks:
  "fill_segments n segs sm ofs = Inr sm' \<Longrightarrow> \<forall>s \<in> set segs. unat (seg_worker_id s) < n"
  by (induction n segs sm ofs rule: fill_segments.induct) (auto simp: Let_def split: if_splits)

lemma expand_workers: "\<forall>s \<in> set segs. unat (seg_worker_id s) < n \<Longrightarrow> \<forall>hs \<in> set (expand segs). unat (worker_id hs) < n"
  by (induction segs) (auto simp: HashSlot_new_def)

lemma payload_expand:
  assumes "length (slot_map c) = TOTAL_HASH_SLOTS"
  shows "expand (cb_segments (to_bitcode_payload c)) = slot_map c"
proof -
  obtain hs sm where sm: "slot_map c = hs # sm"
    using assms by (cases "slot_map c") (auto simp: slot_consts)
  then have "length sm < 65535" using assms by (simp add: slot_consts)
  then show ?thesis
    using rle_loop_expand [of 1 sm "worker_id hs" "state hs" "[]"]
    by (simp add: to_bitcode_payload_def sm HashSlot_collapse)
qed

text \<open>
  C20: Saving and restoring a configuration.  For a well-formed configuration with at most
  \<open>TOTAL_HASH_SLOTS\<close> workers, restoring what was saved gives the configuration back, for
  every byte encoding that decodes the payload it encoded.
\<close>

theorem bitcode_roundtrip:
  assumes "wf_config c" and "length (workers c) \<le> TOTAL_HASH_SLOTS"
    and "decode (encode (to_bitcode_payload c)) = Some (to_bitcode_payload c)"
  shows "from_bitcode decode (to_bitcode encode c) = Inr c"
proof -
  define p where "p = to_bitcode_payload c"
  have l: "length (slot_map c) = TOTAL_HASH_SLOTS" using assms(1) by (rule wf_configD)
  have e: "expand (cb_segments p) = slot_map c" unfolding p_def by (rule payload_expand [OF l])
  obtain hs sm where sm: "slot_map c = hs # sm" using l by (cases "slot_map c") (auto simp: slot_consts)
  have "set (map seg_worker_id (cb_segments p)) \<subseteq> worker_id ` set (slot_map c)"
    using rle_loop_workers [of sm 1 "worker_id hs" "state hs" "[]"]
    by (auto simp: p_def to_bitcode_payload_def sm)
  then have w: "\<forall>s \<in> set (cb_segments p). unat (seg_worker_id s) < length (workers c)"
    using wf_configD(7) [OF assms(1)] by fastforce
  have "fill_segments (length (workers c)) (cb_segments p) (replicate TOTAL_HASH_SLOTS HashSlot_default) 0
     = Inr (slot_map c)"
    using fill_segments_spec [OF w, of "replicate TOTAL_HASH_SLOTS HashSlot_default" 0] l by (simp add: e)
  moreover have "length (workers c) \<noteq> 0" using wf_configD(3) [OF assms(1)] by simp
  ultimately have "from_bitcode_payload p = Inr c"
    using assms(2) by (simp add: from_bitcode_payload_def p_def to_bitcode_payload_def Let_def)
  then show ?thesis by (simp add: from_bitcode_def to_bitcode_def assms(3) p_def)
qed

theorem bitcode_roundtrip_witness:
  "from_bitcode (\<lambda>bs. if bs = [7] then Some (to_bitcode_payload sample_config) else None)
     (to_bitcode (\<lambda>p. [7]) sample_config) = Inr sample_config"
  using bitcode_roundtrip [OF sample_config_wf,
      of "\<lambda>bs. if bs = [7] then Some (to_bitcode_payload sample_config) else None" "\<lambda>p. [7]"]
  by (simp add: sample_config_workers slot_consts)

text \<open>
  C40: Restoring is safe on every payload, damaged ones included: what is accepted has the
  full slot table, and every slot refers to an entry of the accepted worker table.
\<close>

theorem from_bitcode_payload_safe:
  assumes "from_bitcode_payload p = Inr c"
  shows "length (slot_map c) = TOTAL_HASH_SLOTS \<and> workers c = cb_workers p \<and> workers c \<noteq> [] \<and>
    (\<forall>hs \<in> set (slot_map c). unat (worker_id hs) < length (workers c)) \<and>
    slot_map c = take TOTAL_HASH_SLOTS (expand (cb_segments p) @ replicate TOTAL_HASH_SLOTS HashSlot_default)"
proof -
  let ?n = "length (cb_workers p)" and ?sm = "replicate TOTAL_HASH_SLOTS HashSlot_default"
  obtain f: "fill_segments ?n (cb_segments p) ?sm 0 = Inr (slot_map c)"
    and w: "workers c = cb_workers p" "cb_workers p \<noteq> []"
    using assms by (auto simp: from_bitcode_payload_def Let_def split: if_splits sum.splits)
  note ok = fill_segments_checks [OF f]
  have sm: "slot_map c = take TOTAL_HASH_SLOTS (expand (cb_segments p) @ drop (length (expand (cb_segments p))) ?sm)"
    using fill_segments_spec [OF ok, of ?sm 0] f by simp
  then have sm': "slot_map c = take TOTAL_HASH_SLOTS (expand (cb_segments p) @ ?sm)"
    by (simp add: min_def)
  have "\<forall>hs \<in> set (slot_map c). unat (worker_id hs) < ?n"
    using expand_workers [OF ok] w(2)
    by (auto simp: sm' HashSlot_default_def dest!: in_set_takeD)
  with sm' w show ?thesis by (simp add: min_def)
qed

theorem from_bitcode_payload_safe_witness:
  "\<exists>c. from_bitcode_payload \<lparr>cb_version = 1,
      cb_segments = [\<lparr>seg_count = 20000, seg_worker_id = 1, seg_state = Stable\<rparr>],
      cb_workers = workers sample_config\<rparr> = Inr c \<and> length (slot_map c) = TOTAL_HASH_SLOTS"
proof -
  obtain c where c: "from_bitcode_payload \<lparr>cb_version = 1,
      cb_segments = [\<lparr>seg_count = 20000, seg_worker_id = 1, seg_state = Stable\<rparr>],
      cb_workers = workers sample_config\<rparr> = Inr c"
    by (simp add: from_bitcode_payload_def CLUSTER_CONFIG_VERSION_def sample_config_workers slot_consts Let_def)
  from from_bitcode_payload_safe [OF c] c show ?thesis by blast
qed

end
