(* ===== verification/Cluster_Report.thy ===== *)
theory Cluster_Report
  imports Cluster_Config
begin

text \<open>
  The introspection replies of \<open>config.rs\<close>: \<open>CLUSTER INFO\<close>, \<open>CLUSTER NODES\<close>,
  \<open>CLUSTER SLOTS\<close> and \<open>CLUSTER SHARDS\<close>, with the helpers that append the slot ranges and the
  node descriptions.  A \<open>&mut String\<close> argument is passed and returned.
\<close>

section \<open>Helpers\<close>

definition resp_bulk :: "string \<Rightarrow> string" where
  "resp_bulk s = ''$'' @ show_nat (length s) @ CRLF @ s @ CRLF"

definition push_slot_range :: "string \<Rightarrow> u16 \<Rightarrow> u16 \<Rightarrow> string" where
  "push_slot_range out bgn fin =
     out @ '' '' @ show_nat (unat bgn) @ (if bgn \<noteq> fin then ''-'' @ show_nat (unat fin) else [])"

definition append_node_resp_meta :: "string \<Rightarrow> string \<Rightarrow> u16 \<Rightarrow> string \<Rightarrow> string option \<Rightarrow> string" where
  "append_node_resp_meta sb ip p nid host =
     sb @ ''*4'' @ CRLF @ resp_bulk ip @ '':'' @ show_nat (unat p) @ CRLF @ resp_bulk nid @
     (case host of
        Some h \<Rightarrow> ''*2'' @ CRLF @ ''$8'' @ CRLF @ ''hostname'' @ CRLF @ resp_bulk h
      | None \<Rightarrow> ''*0'' @ CRLF)"

definition append_shard_node_entry :: "string \<Rightarrow> Worker \<Rightarrow> string \<Rightarrow> bool \<Rightarrow> string" where
  "append_shard_node_entry sb w nid connected =
     sb @ ''*'' @ (if hostname w \<noteq> None then ''16'' else ''14'') @ CRLF @
     ''$2'' @ CRLF @ ''id'' @ CRLF @ resp_bulk nid @
     ''$4'' @ CRLF @ ''port'' @ CRLF @ '':'' @ show_nat (unat (port w)) @ CRLF @
     ''$2'' @ CRLF @ ''ip'' @ CRLF @ resp_bulk (address w) @
     ''$8'' @ CRLF @ ''endpoint'' @ CRLF @ resp_bulk (address w) @
     (case hostname w of
        Some h \<Rightarrow> ''$8'' @ CRLF @ ''hostname'' @ CRLF @ resp_bulk h
      | None \<Rightarrow> []) @
     ''$4'' @ CRLF @ ''role'' @ CRLF @ resp_bulk (NodeRole_as_str (role w)) @
     ''$18'' @ CRLF @ ''replication-offset'' @ CRLF @ '':'' @ show_int (replication_offset w) @ CRLF @
     ''$6'' @ CRLF @ ''health'' @ CRLF @
     (if connected then ''$6'' @ CRLF @ ''online'' @ CRLF else ''$7'' @ CRLF @ ''offline'' @ CRLF)"

section \<open>CLUSTER INFO\<close>

definition get_cluster_info :: "ClusterConfig \<Rightarrow> string" where
  "get_cluster_info c =
     (let stable_count = length (filter (\<lambda>hs. state hs = Stable) (slot_map c));
          fail_count = length (filter (\<lambda>hs. state hs = Fail) (slot_map c))
      in ''cluster_state:'' @ (if fail_count > 0 then ''fail'' else ''ok'') @ CRLF @
         ''cluster_slots_assigned:'' @ show_nat stable_count @ CRLF @
         ''cluster_slots_ok:'' @ show_nat stable_count @ CRLF @
         ''cluster_slots_pfail:'' @ show_nat fail_count @ CRLF @
         ''cluster_slots_fail:'' @ show_nat fail_count @ CRLF @
         ''cluster_known_nodes:'' @ show_nat (num_workers c) @ CRLF @
         ''cluster_size:'' @ show_nat (get_primary_count c) @ CRLF @
         ''cluster_current_epoch:'' @ show_int (get_max_config_epoch c) @ CRLF @
         ''cluster_my_epoch:'' @ show_int (local_node_config_epoch c) @ CRLF @
         ''cluster_stats_messages_sent:0'' @ CRLF @
         ''cluster_stats_messages_received:0'' @ CRLF)"

section \<open>CLUSTER NODES\<close>

text \<open>
  One iteration of \<open>append_slot_ranges\<close>: \<open>bgn\<close> is \<open>u16::MAX\<close> while no range is open, \<open>fin\<close> the
  last slot of the open range.
\<close>

definition slot_range_step ::
  "u16 \<Rightarrow> string \<times> u16 \<times> u16 \<Rightarrow> nat \<times> HashSlot \<Rightarrow> string \<times> u16 \<times> u16" where
  "slot_range_step wid acc islot =
     (case (acc, islot) of ((out, bgn, fin), (i, slot)) \<Rightarrow>
        let idx = as_u16 i in
        if effective_worker_id slot = wid \<and> state slot \<noteq> Offline
        then (out, if bgn = - 1 then idx else bgn, idx)
        else if bgn \<noteq> - 1 then (push_slot_range out bgn fin, - 1, fin)
        else (out, bgn, fin))"

definition append_slot_ranges :: "ClusterConfig \<Rightarrow> string \<Rightarrow> u16 \<Rightarrow> string" where
  "append_slot_ranges c out wid =
     (case foldl (slot_range_step wid) (out, - 1, 0) (List.enumerate 0 (slot_map c)) of
        (out', bgn, fin) \<Rightarrow> if bgn \<noteq> - 1 then push_slot_range out' bgn fin else out')"

definition special_state :: "ClusterConfig \<Rightarrow> nat \<times> HashSlot \<Rightarrow> string" where
  "special_state c islot =
     (case islot of (i, slot) \<Rightarrow>
        (case Option.bind (get (workers c) (unat (worker_id slot))) node_id of
           None \<Rightarrow> []
         | Some target_id \<Rightarrow>
             (case state slot of
                Migrating \<Rightarrow> '' ['' @ show_nat i @ ''->-'' @ target_id @ '']''
              | Importing \<Rightarrow> '' ['' @ show_nat i @ ''-<-'' @ target_id @ '']''
              | _ \<Rightarrow> [])))"

definition append_special_states :: "ClusterConfig \<Rightarrow> string \<Rightarrow> string" where
  "append_special_states c out = out @ concat (map (special_state c) (List.enumerate 0 (slot_map c)))"

definition cluster_node_line :: "ClusterConfig \<Rightarrow> string \<Rightarrow> nat \<times> Worker \<Rightarrow> string" where
  "cluster_node_line c out iw =
     (case iw of (i, w) \<Rightarrow>
        let nid = (case node_id w of Some n \<Rightarrow> n | None \<Rightarrow> replicate 40 (CHR ''0''));
            cport = saturating_add (port w) 10000;
            host_suffix = (case hostname w of Some h \<Rightarrow> '','' @ h | None \<Rightarrow> []);
            myself_flag = (if i = LOCAL_WORKER_ID then ''myself,'' else []);
            role_flag = (if role w = Primary then ''master'' else ''slave'');
            fail_flag = (if is_fail w then '',fail'' else if is_pfail w then '',fail?'' else []);
            primary_id = (if role w = Replica
                          then (case replica_of_node_id w of Some r \<Rightarrow> r | None \<Rightarrow> ''-'') else ''-'');
            out1 = out @ nid @ '' '' @ address w @ '':'' @ show_nat (unat (port w)) @ ''@'' @
                   show_nat (unat cport) @ host_suffix @ '' '' @ myself_flag @ role_flag @ fail_flag @
                   '' '' @ primary_id @ '' 0 0 '' @ show_int (config_epoch w) @ '' '' @
                   LinkState_as_str (link_state w);
            out2 = append_slot_ranges c out1 (as_u16 i);
            out3 = (if i = LOCAL_WORKER_ID then append_special_states c out2 else out2)
        in out3 @ [CHR 0x0A])"

definition get_cluster_nodes :: "ClusterConfig \<Rightarrow> string" where
  "get_cluster_nodes c =
     foldl (cluster_node_line c) [] (drop 1 (List.enumerate 0 (workers c)))"

section \<open>CLUSTER SLOTS\<close>

text \<open>The inner loop: the last slot of the run that starts at \<open>fin\<close>.\<close>

function run_end :: "HashSlot list \<Rightarrow> u16 \<Rightarrow> nat \<Rightarrow> nat" where
  "run_end sm wid fin =
     (if fin + 1 < TOTAL_HASH_SLOTS \<and> state (sm ! (fin + 1)) \<noteq> Offline
         \<and> effective_worker_id (sm ! (fin + 1)) = wid
      then run_end sm wid (fin + 1) else fin)"
  by pat_completeness auto
termination
  by (relation "measure (\<lambda>(sm, wid, fin). TOTAL_HASH_SLOTS - fin)") auto

declare run_end.simps [simp del]

lemma run_end_ge: "fin \<le> run_end sm wid fin"
  by (induction sm wid fin rule: run_end.induct) (subst run_end.simps, auto)

type_synonym slot_run = "nat \<times> nat \<times> nat"

text \<open>The outer loop: the runs \<open>(start, end, worker)\<close> whose worker is in the table.\<close>

function slot_runs :: "ClusterConfig \<Rightarrow> nat \<Rightarrow> slot_run list \<Rightarrow> slot_run list" where
  "slot_runs c bgn ranges =
     (if bgn < TOTAL_HASH_SLOTS then
        if state (slot_map c ! bgn) = Offline then slot_runs c (bgn + 1) ranges
        else
          let wid = effective_worker_id (slot_map c ! bgn);
              fin = run_end (slot_map c) wid bgn
          in if unat wid < length (workers c)
             then slot_runs c (fin + 1) (ranges @ [(bgn, fin, unat wid)])
             else slot_runs c (fin + 1) ranges
      else ranges)"
  by pat_completeness auto
termination
proof (relation "measure (\<lambda>(c, bgn, ranges). TOTAL_HASH_SLOTS - bgn)", goal_cases)
  case (3 c bgn ranges wid fin)
  then show ?case using run_end_ge [of bgn "slot_map c" wid] by auto
next
  case (4 c bgn ranges wid fin)
  then show ?case using run_end_ge [of bgn "slot_map c" wid] by auto
qed auto

declare slot_runs.simps [simp del]

definition replica_meta :: "ClusterConfig \<Rightarrow> string \<Rightarrow> nat \<Rightarrow> string" where
  "replica_meta c sb rep_wid =
     (case get (workers c) rep_wid of
        None \<Rightarrow> sb
      | Some rep \<Rightarrow>
          (case node_id rep of
             None \<Rightarrow> sb
           | Some rep_id \<Rightarrow> append_node_resp_meta sb (address rep) (port rep) rep_id (hostname rep)))"

definition slot_run_entry :: "ClusterConfig \<Rightarrow> string \<Rightarrow> slot_run \<Rightarrow> string" where
  "slot_run_entry c sb run =
     (case run of (bgn, fin, wid) \<Rightarrow>
        let w = workers c ! wid;
            nid = (case node_id w of Some n \<Rightarrow> n | None \<Rightarrow> []);
            reps = get_replica_worker_ids c nid;
            sb1 = sb @ ''*'' @ show_nat (3 + length reps) @ CRLF @ '':'' @ show_nat bgn @ CRLF @
                  '':'' @ show_nat fin @ CRLF;
            sb2 = append_node_resp_meta sb1 (address w) (port w) nid (hostname w)
        in foldl (replica_meta c) sb2 reps)"

definition get_slots_info :: "ClusterConfig \<Rightarrow> string" where
  "get_slots_info c =
     (let ranges = slot_runs c 0 []
      in foldl (slot_run_entry c) (''*'' @ show_nat (length ranges) @ CRLF) ranges)"

section \<open>CLUSTER SHARDS\<close>

text \<open>One iteration of the scan: closed runs, owner, start and whether a run is open.\<close>

definition shard_run_step ::
  "(u16 \<times> u16 \<times> u16) list \<times> u16 \<times> u16 \<times> bool \<Rightarrow> nat \<times> HashSlot \<Rightarrow>
   (u16 \<times> u16 \<times> u16) list \<times> u16 \<times> u16 \<times> bool" where
  "shard_run_step acc islot =
     (case (acc, islot) of ((runs, run_wid, run_start, run_open), (i, slot)) \<Rightarrow>
        let wid = (if state slot = Offline then - 1 else effective_worker_id slot);
            (runs1, open1) =
              (if run_open \<and> wid \<noteq> run_wid
               then (if run_wid \<noteq> - 1 then runs @ [(run_wid, run_start, as_u16 (i - 1))] else runs, False)
               else (runs, run_open))
        in if \<not> open1 then (runs1, wid, as_u16 i, wid \<noteq> - 1)
           else (runs1, run_wid, run_start, open1))"

definition shard_runs :: "ClusterConfig \<Rightarrow> (u16 \<times> u16 \<times> u16) list" where
  "shard_runs c =
     (case foldl shard_run_step ([], - 1, 0, False) (List.enumerate 0 (slot_map c)) of
        (runs, run_wid, run_start, run_open) \<Rightarrow>
          if run_open then runs @ [(run_wid, run_start, as_u16 (TOTAL_HASH_SLOTS - 1))] else runs)"

definition shard_replica :: "ClusterConfig \<Rightarrow> string \<Rightarrow> nat \<Rightarrow> string" where
  "shard_replica c sb rep_wid =
     (case get (workers c) rep_wid of
        None \<Rightarrow> sb
      | Some rep \<Rightarrow>
          (case node_id rep of
             None \<Rightarrow> sb
           | Some rep_id \<Rightarrow> append_shard_node_entry sb rep rep_id (link_state rep = Connected)))"

definition shard_entry :: "ClusterConfig \<Rightarrow> (u16 \<times> u16 \<times> u16) list \<Rightarrow> string \<Rightarrow> nat \<times> Worker \<Rightarrow> string" where
  "shard_entry c runs sb iw =
     (case iw of (i, w) \<Rightarrow>
        if role w \<noteq> Primary then sb
        else
          let wid = as_u16 i;
              mine = filter (\<lambda>r. fst r = wid) runs;
              sb1 = sb @ ''*4'' @ CRLF @ ''$5'' @ CRLF @ ''slots'' @ CRLF @ ''*'' @
                    show_nat (length mine * 2) @ CRLF;
              sb2 = sb1 @ concat (map (\<lambda>(_, bgn, fin). '':'' @ show_nat (unat bgn) @ CRLF @
                                         '':'' @ show_nat (unat fin) @ CRLF) mine);
              nid = (case node_id w of Some n \<Rightarrow> n | None \<Rightarrow> []);
              reps = get_replica_worker_ids c nid;
              sb3 = sb2 @ ''$5'' @ CRLF @ ''nodes'' @ CRLF @ ''*'' @ show_nat (1 + length reps) @ CRLF;
              connected = (i = LOCAL_WORKER_ID \<or> link_state w = Connected)
          in foldl (shard_replica c) (append_shard_node_entry sb3 w nid connected) reps)"

definition get_shards_info :: "ClusterConfig \<Rightarrow> string" where
  "get_shards_info c =
     foldl (shard_entry c (shard_runs c)) (''*'' @ show_nat (get_primary_count c) @ CRLF)
       (drop 1 (List.enumerate 0 (workers c)))"

section \<open>protocol.rs\<close>

definition format_cluster_nodes :: "ClusterConfig \<Rightarrow> string" where
  "format_cluster_nodes c = get_cluster_nodes c"

definition format_cluster_slots :: "ClusterConfig \<Rightarrow> string" where
  "format_cluster_slots c = get_slots_info c"

definition format_cluster_shards :: "ClusterConfig \<Rightarrow> string" where
  "format_cluster_shards c = get_shards_info c"

definition format_cluster_info :: "ClusterConfig \<Rightarrow> string" where
  "format_cluster_info c = get_cluster_info c"

section \<open>The slot ranges the replies report\<close>

definition owned :: "HashSlot list \<Rightarrow> u16 \<Rightarrow> nat \<Rightarrow> bool" where
  "owned sm wid s \<longleftrightarrow> s < length sm \<and> effective_worker_id (sm ! s) = wid \<and> state (sm ! s) \<noteq> Offline"

definition push_ranges :: "string \<Rightarrow> (u16 \<times> u16) list \<Rightarrow> string" where
  "push_ranges out rs = foldl (\<lambda>o' (a, b). push_slot_range o' a b) out rs"

lemma enumerate_take_Suc:
  "n < length xs \<Longrightarrow> List.enumerate 0 (take (Suc n) xs) = List.enumerate 0 (take n xs) @ [(n, xs ! n)]"
  by (simp add: take_Suc_conv_app_nth enumerate_append_eq)

lemma u16_slot_not_max: "n < 65535 \<Longrightarrow> as_u16 n \<noteq> - 1"
proof
  assume "n < 65535" and "as_u16 n = - 1"
  then have "unat (as_u16 n) = unat (- 1 :: u16)" by simp
  with \<open>n < 65535\<close> show False by (simp add: unat_as_u16 unsigned_minus_1_eq_mask mask_eq_exp_minus_1)
qed

lemma slot_range_loop:
  assumes "length sm \<le> 16384" and "n \<le> length sm"
    and "foldl (slot_range_step wid) (out, - 1, 0) (List.enumerate 0 (take n sm)) = (out', bgn, fin)"
  shows "\<exists>rs. out' = push_ranges out rs \<and>
    rinv (owned sm wid) n (natp rs) (if bgn = - 1 then None else Some (unat bgn)) \<and>
    (bgn \<noteq> - 1 \<longrightarrow> unat fin = n - 1)"
  using assms(2,3)
proof (induction n arbitrary: out' bgn fin)
  case 0
  then have "out' = push_ranges out []" "bgn = - 1" by (auto simp: push_ranges_def)
  moreover have "rinv (owned sm wid) 0 (natp []) None" by (simp add: rinv_def)
  ultimately show ?case by (intro exI [of _ "[]"]) simp
next
  case (Suc n)
  obtain o1 b1 f1 where f: "foldl (slot_range_step wid) (out, - 1, 0) (List.enumerate 0 (take n sm)) = (o1, b1, f1)"
    by (metis prod_cases3)
  obtain rs where rs: "o1 = push_ranges out rs"
    "rinv (owned sm wid) n (natp rs) (if b1 = - 1 then None else Some (unat b1))"
    "b1 \<noteq> - 1 \<longrightarrow> unat f1 = n - 1"
    using Suc.IH [OF _ f] Suc.prems(1) by auto
  have step: "slot_range_step wid (o1, b1, f1) (n, sm ! n) = (out', bgn, fin)"
    using Suc.prems f by (simp add: enumerate_take_Suc)
  have u: "unat (as_u16 n) = n" "as_u16 n \<noteq> - 1"
    using Suc.prems(1) assms(1) by (simp_all add: unat_as_u16 u16_slot_not_max)
  show ?case
  proof (cases "owned sm wid n")
    case True
    then have e: "out' = o1" "bgn = (if b1 = - 1 then as_u16 n else b1)" "fin = as_u16 n"
      using step by (auto simp: slot_range_step_def owned_def Let_def)
    then have b: "bgn \<noteq> - 1" using u(2) by simp
    have "rinv (owned sm wid) (Suc n) (natp rs) (Some (unat bgn))"
      using rinv_open [OF rs(2), of "Suc n" "unat bgn"] True e(2) u(1) by (auto simp: less_Suc_eq_le le_less)
    with e rs(1) b u(1) show ?thesis by auto
  next
    case False
    then have nf: "\<not> (effective_worker_id (sm ! n) = wid \<and> state (sm ! n) \<noteq> Offline)"
      using Suc.prems(1) by (simp add: owned_def)
    have sk: "rinv (owned sm wid) n R None \<Longrightarrow> rinv (owned sm wid) (Suc n) R None" for R
      using rinv_skip [of "owned sm wid" n R "Suc n"] False by (auto simp: less_Suc_eq_le le_less)
    show ?thesis
    proof (cases "b1 = - 1")
      case True
      then have "out' = o1" "bgn = - 1" using step nf by (auto simp: slot_range_step_def Let_def)
      with rs(1,2) True sk show ?thesis by auto
    next
      case b1: False
      then have e: "out' = push_slot_range o1 b1 f1" "bgn = - 1"
        using step nf by (auto simp: slot_range_step_def Let_def)
      have "rinv (owned sm wid) n (natp rs @ [(unat b1, n - 1)]) None"
        using rinv_close [of "owned sm wid" n "natp rs" "unat b1"] False rs(2) b1 by simp
      then have "rinv (owned sm wid) (Suc n) (natp (rs @ [(b1, f1)])) None"
        using sk rs(3) b1 by simp
      moreover have "out' = push_ranges out (rs @ [(b1, f1)])" using e rs(1) by (simp add: push_ranges_def)
      ultimately show ?thesis using e by auto
    qed
  qed
qed

lemma append_slot_ranges_runs:
  assumes "length (slot_map c) = TOTAL_HASH_SLOTS"
  shows "\<exists>rs. append_slot_ranges c out wid = push_ranges out rs \<and>
    rinv (owned (slot_map c) wid) TOTAL_HASH_SLOTS (natp rs) None"
proof -
  obtain o1 b1 f1 where f: "foldl (slot_range_step wid) (out, - 1, 0) (List.enumerate 0 (slot_map c)) = (o1, b1, f1)"
    by (metis prod_cases3)
  obtain rs where rs: "o1 = push_ranges out rs"
    "rinv (owned (slot_map c) wid) TOTAL_HASH_SLOTS (natp rs) (if b1 = - 1 then None else Some (unat b1))"
    "b1 \<noteq> - 1 \<longrightarrow> unat f1 = TOTAL_HASH_SLOTS - 1"
    using slot_range_loop [of "slot_map c" TOTAL_HASH_SLOTS wid out o1 b1 f1] assms f by (auto simp: slot_consts)
  show ?thesis
  proof (cases "b1 = - 1")
    case True
    then show ?thesis using rs f by (auto simp: append_slot_ranges_def)
  next
    case False
    have "\<not> owned (slot_map c) wid TOTAL_HASH_SLOTS" using assms by (simp add: owned_def)
    then have "rinv (owned (slot_map c) wid) TOTAL_HASH_SLOTS (natp (rs @ [(b1, f1)])) None"
      using rinv_close [of _ _ "natp rs" "unat b1"] rs False by simp
    moreover have "append_slot_ranges c out wid = push_ranges out (rs @ [(b1, f1)])"
      using rs(1) f False by (simp add: append_slot_ranges_def push_ranges_def)
    ultimately show ?thesis by blast
  qed
qed

definition slot_key :: "HashSlot \<Rightarrow> u16" where
  "slot_key hs = (if state hs = Offline then - 1 else effective_worker_id hs)"

lemma owned_key: "wid \<noteq> - 1 \<Longrightarrow> owned sm wid s \<longleftrightarrow> s < length sm \<and> slot_key (sm ! s) = wid"
  by (auto simp: owned_def slot_key_def)

abbreviation runs_of :: "u16 \<Rightarrow> (u16 \<times> u16 \<times> u16) list \<Rightarrow> (u16 \<times> u16) list" where
  "runs_of wid runs \<equiv> map snd (filter (\<lambda>r. fst r = wid) runs)"

lemma shard_run_step_eq:
  "shard_run_step (runs, rw, rs, op) (i, slot) =
     (let k = slot_key slot in
      if op \<and> k = rw then (runs, rw, rs, True)
      else ((if op \<and> rw \<noteq> - 1 then runs @ [(rw, rs, as_u16 (i - 1))] else runs), k, as_u16 i, k \<noteq> - 1))"
  by (auto simp: shard_run_step_def slot_key_def Let_def)

lemma shard_run_loop:
  assumes "length sm \<le> 16384" and "n \<le> length sm" and "wid \<noteq> - 1"
    and "foldl shard_run_step ([], - 1, 0, False) (List.enumerate 0 (take n sm)) = (runs, rw, st, op)"
  shows "rinv (owned sm wid) n (natp (runs_of wid runs)) (if op \<and> rw = wid then Some (unat st) else None) \<and>
    (op \<longrightarrow> rw \<noteq> - 1)"
  using assms(2,4)
proof (induction n arbitrary: runs rw st op)
  case 0
  then show ?case by (auto simp: rinv_def)
next
  case (Suc n)
  obtain rs1 rw1 st1 op1 where
    f: "foldl shard_run_step ([], - 1, 0, False) (List.enumerate 0 (take n sm)) = (rs1, rw1, st1, op1)"
    by (metis prod_cases4)
  have IH: "rinv (owned sm wid) n (natp (runs_of wid rs1)) (if op1 \<and> rw1 = wid then Some (unat st1) else None)"
    "op1 \<longrightarrow> rw1 \<noteq> - 1" using Suc.IH [OF _ f] Suc.prems(1) by auto
  define k where "k = slot_key (sm ! n)"
  have step: "shard_run_step (rs1, rw1, st1, op1) (n, sm ! n) = (runs, rw, st, op)"
    using Suc.prems f by (simp add: enumerate_take_Suc)
  have o: "owned sm wid n \<longleftrightarrow> k = wid" using Suc.prems(1) assms(3) by (simp add: owned_key k_def)
  have u: "unat (as_u16 n) = n" using Suc.prems(1) assms(1) by (simp add: unat_as_u16)
  have u1: "unat (as_u16 (n - 1)) = n - 1" using Suc.prems(1) assms(1) by (simp add: unat_as_u16)
  have sk: "k \<noteq> wid \<Longrightarrow> rinv (owned sm wid) n R None \<Longrightarrow> rinv (owned sm wid) (Suc n) R None" for R
    using rinv_skip [of "owned sm wid" n R "Suc n"] o by (auto simp: less_Suc_eq_le le_less)
  have op': "k = wid \<Longrightarrow> rinv (owned sm wid) n R s0 \<Longrightarrow>
      rinv (owned sm wid) (Suc n) R (Some (case s0 of None \<Rightarrow> n | Some s \<Rightarrow> s))" for R s0
    using rinv_open [of "owned sm wid" n R s0 "Suc n"] o by (auto simp: less_Suc_eq_le le_less)
  show ?case
  proof (cases "op1 \<and> k = rw1")
    case True
    then have "runs = rs1" "rw = rw1" "st = st1" "op" using step by (auto simp: shard_run_step_eq k_def Let_def)
    then show ?thesis using True IH sk [of "natp (runs_of wid rs1)"] op' [OF _ IH(1)] by (cases "k = wid") auto
  next
    case False
    define runs' where "runs' = (if op1 then rs1 @ [(rw1, st1, as_u16 (n - 1))] else rs1)"
    have e: "runs = runs'" "rw = k" "st = as_u16 n" "op = (k \<noteq> - 1)"
      using step False IH(2) by (auto simp: shard_run_step_eq k_def Let_def runs'_def)
    have "rinv (owned sm wid) n (natp (runs_of wid runs')) None"
    proof (cases "op1 \<and> rw1 = wid")
      case True
      then have "\<not> owned sm wid n" using False o by auto
      then show ?thesis using rinv_close [of "owned sm wid" n "natp (runs_of wid rs1)" "unat st1"] IH(1) True u1
        by (simp add: runs'_def)
    next
      case False
      then show ?thesis using IH(1) by (auto simp: runs'_def)
    qed
    then show ?thesis using e sk op' [of _ None] u assms(3) by (cases "k = wid") auto
  qed
qed

lemma shard_runs_runs:
  assumes "length (slot_map c) = TOTAL_HASH_SLOTS" and "wid \<noteq> - 1"
  shows "rinv (owned (slot_map c) wid) TOTAL_HASH_SLOTS (natp (runs_of wid (shard_runs c))) None"
proof -
  obtain runs rw st op where
    f: "foldl shard_run_step ([], - 1, 0, False) (List.enumerate 0 (slot_map c)) = (runs, rw, st, op)"
    by (metis prod_cases4)
  have L: "rinv (owned (slot_map c) wid) TOTAL_HASH_SLOTS (natp (runs_of wid runs))
      (if op \<and> rw = wid then Some (unat st) else None)"
    using shard_run_loop [of "slot_map c" TOTAL_HASH_SLOTS wid runs rw st op] assms f by (simp add: slot_consts)
  have n: "\<not> owned (slot_map c) wid TOTAL_HASH_SLOTS" using assms by (simp add: owned_def)
  have u: "unat (as_u16 (TOTAL_HASH_SLOTS - 1)) = TOTAL_HASH_SLOTS - 1"
    by (rule unat_as_u16) (simp add: slot_consts)
  show ?thesis
  proof (cases "op \<and> rw = wid")
    case True
    then have "shard_runs c = runs @ [(wid, st, as_u16 (TOTAL_HASH_SLOTS - 1))]" using f by (simp add: shard_runs_def)
    then show ?thesis using rinv_close [of "owned (slot_map c) wid" TOTAL_HASH_SLOTS "natp (runs_of wid runs)" "unat st"] n L True u
      by simp
  next
    case False
    then show ?thesis using L f by (auto simp: shard_runs_def)
  qed
qed

lemma run_end_spec:
  assumes "length sm = TOTAL_HASH_SLOTS" and "owned sm wid bgn"
  shows "run_end sm wid bgn < TOTAL_HASH_SLOTS \<and> (\<forall>x. bgn \<le> x \<and> x \<le> run_end sm wid bgn \<longrightarrow> owned sm wid x) \<and>
    \<not> owned sm wid (Suc (run_end sm wid bgn))"
  using assms
proof (induction sm wid bgn rule: run_end.induct)
  case (1 sm wid fin)
  show ?case
  proof (cases "owned sm wid (Suc fin)")
    case True
    then have "run_end sm wid fin = run_end sm wid (Suc fin)"
      using "1.prems" by (subst run_end.simps) (simp add: owned_def)
    moreover have "Suc fin < TOTAL_HASH_SLOTS \<and> state (sm ! Suc fin) \<noteq> Offline \<and> effective_worker_id (sm ! Suc fin) = wid"
      using True "1.prems" by (simp add: owned_def)
    moreover have "owned sm wid x" if "fin \<le> x" "Suc fin \<le> x \<Longrightarrow> owned sm wid x" for x
      using that "1.prems"(2) by (metis not_less_eq_eq le_antisym)
    ultimately show ?thesis using "1.IH" "1.prems"(1) True by (metis Suc_eq_plus1)
  next
    case False
    then have "run_end sm wid fin = fin" using "1.prems" by (subst run_end.simps) (auto simp: owned_def)
    then show ?thesis using False "1.prems" by (auto simp: owned_def dest: le_antisym)
  qed
qed

abbreviation slot_runs_of :: "u16 \<Rightarrow> slot_run list \<Rightarrow> (nat \<times> nat) list" where
  "slot_runs_of wid runs \<equiv> map (\<lambda>(a, b, w). (a, b)) (filter (\<lambda>(a, b, w). w = unat wid) runs)"

lemma slot_runs_loop:
  assumes "length (slot_map c) = TOTAL_HASH_SLOTS" and "unat wid < length (workers c)"
    and "bgn \<le> TOTAL_HASH_SLOTS"
    and "rinv (owned (slot_map c) wid) bgn (slot_runs_of wid ranges) None"
  shows "rinv (owned (slot_map c) wid) TOTAL_HASH_SLOTS (slot_runs_of wid (slot_runs c bgn ranges)) None"
  using assms
proof (induction c bgn ranges rule: slot_runs.induct)
  case (1 c bgn ranges)
  let ?S = "owned (slot_map c) wid"
  consider (fin) "bgn = TOTAL_HASH_SLOTS" | (off) "bgn < TOTAL_HASH_SLOTS" "state (slot_map c ! bgn) = Offline"
    | (run) "bgn < TOTAL_HASH_SLOTS" "state (slot_map c ! bgn) \<noteq> Offline"
    using "1.prems"(3) by linarith
  then show ?case
  proof cases
    case fin
    then show ?thesis using "1.prems"(4) by (subst slot_runs.simps) simp
  next
    case off
    have "rinv ?S (bgn + 1) (slot_runs_of wid ranges) None"
      using off by (intro rinv_skip [OF "1.prems"(4)]) (auto simp: owned_def le_less_Suc_eq)
    then show ?thesis using "1.IH"(1) [OF off "1.prems"(1,2)] off by (subst slot_runs.simps) simp
  next
    case run
    define w where "w = effective_worker_id (slot_map c ! bgn)"
    define fin where "fin = run_end (slot_map c) w bgn"
    have ow: "owned (slot_map c) w bgn" using run "1.prems"(1) by (simp add: owned_def w_def)
    note sp = run_end_spec [OF "1.prems"(1) ow, folded fin_def]
    have le: "bgn \<le> fin" by (simp add: fin_def run_end_ge)
    have eq: "slot_runs c bgn ranges =
        slot_runs c (fin + 1) (if unat w < length (workers c) then ranges @ [(bgn, fin, unat w)] else ranges)"
      using run by (subst slot_runs.simps) (simp add: w_def fin_def Let_def)
    define ranges' where "ranges' = (if unat w < length (workers c) then ranges @ [(bgn, fin, unat w)] else ranges)"
    have inv: "rinv ?S (fin + 1) (slot_runs_of wid ranges') None"
    proof (cases "w = wid")
      case True
      have "rinv ?S (fin + 1) (slot_runs_of wid ranges) (Some bgn)"
        using sp True le by (intro rinv_open [OF "1.prems"(4)]) auto
      then have "rinv ?S (fin + 1) (slot_runs_of wid ranges @ [(bgn, fin + 1 - 1)]) None"
        using sp True by (intro rinv_close) simp_all
      then show ?thesis using True "1.prems"(2) by (simp add: ranges'_def)
    next
      case False
      then have "\<not> ?S x" if "bgn \<le> x" "x < fin + 1" for x using sp that by (auto simp: owned_def)
      then have "rinv ?S (fin + 1) (slot_runs_of wid ranges) None"
        using le by (intro rinv_skip [OF "1.prems"(4)]) auto
      moreover have "slot_runs_of wid ranges' = slot_runs_of wid ranges"
        using False by (auto simp: ranges'_def word_unat_eq_iff)
      ultimately show ?thesis by simp
    qed
    have "rinv ?S TOTAL_HASH_SLOTS (slot_runs_of wid (slot_runs c (fin + 1) ranges')) None"
    proof (cases "unat w < length (workers c)")
      case True
      then show ?thesis
        using "1.IH"(2) [OF run w_def fin_def, OF _ "1.prems"(1,2)] sp inv by (simp add: ranges'_def)
    next
      case False
      then show ?thesis
        using "1.IH"(3) [OF run w_def fin_def, OF _ "1.prems"(1,2)] sp inv by (simp add: ranges'_def)
    qed
    then show ?thesis by (simp only: eq ranges'_def)
  qed
qed

lemma rinv_runs:
  assumes "rinv S N R None" and "\<And>x. S x \<Longrightarrow> x < N"
  shows "p \<in> set R \<longleftrightarrow> run_ok S N p \<and> (fst p = 0 \<or> \<not> S (fst p - 1))"
proof
  assume p: "p \<in> set R"
  then have ok: "run_ok S N p" using assms(1) by (simp add: rinv_def)
  moreover have "\<not> S (fst p - 1)" if "fst p \<noteq> 0"
  proof
    assume "S (fst p - 1)"
    then obtain q where q: "q \<in> set R" "fst q \<le> fst p - 1" "fst p - 1 \<le> snd q"
      using assms unfolding rinv_def by (metis option.discI)
    then have okq: "run_ok S N q" using assms(1) by (simp add: rinv_def)
    have "snd q < fst p \<or> snd p < fst q \<or> p = q"
      using assms(1) p q(1) sorted_wrt_nth_less [of _ R] unfolding rinv_def
      by (metis in_set_conv_nth linorder_neqE_nat)
    then have "Suc (snd q) = fst p"
      using q(2,3) ok that by (auto simp: run_ok_def)
    then show False using okq ok by (auto simp: run_ok_def)
  qed
  ultimately show "run_ok S N p \<and> (fst p = 0 \<or> \<not> S (fst p - 1))" by blast
next
  assume p: "run_ok S N p \<and> (fst p = 0 \<or> \<not> S (fst p - 1))"
  then have "S (fst p)" "fst p < N" by (auto simp: run_ok_def)
  then obtain q where q: "q \<in> set R" "fst q \<le> fst p" "fst p \<le> snd q"
    using assms unfolding rinv_def by (metis option.discI)
  then have okq: "run_ok S N q" using assms(1) by (simp add: rinv_def)
  have "fst q = fst p"
  proof (rule ccontr)
    assume "fst q \<noteq> fst p"
    then have "fst q \<le> fst p - 1" "fst p \<noteq> 0" "fst p - 1 \<le> snd q" using q by auto
    then show False using okq p by (auto simp: run_ok_def)
  qed
  moreover have "snd q = snd p"
  proof (rule ccontr)
    assume "snd q \<noteq> snd p"
    then consider "Suc (snd q) \<le> snd p" | "Suc (snd p) \<le> snd q" by linarith
    then show False using okq p calculation by cases (auto simp: run_ok_def)
  qed
  ultimately show "p \<in> set R" using q(1) by (metis prod_eqI)
qed

lemma rinv_unique:
  assumes "rinv S N R None" and "rinv S N R' None" and "\<And>x. S x \<Longrightarrow> x < N"
  shows "R = R'"
proof -
  have srt: "sorted (map snd R) \<and> distinct (map snd R)" if "rinv S N R None" for R
  proof -
    have "sorted_wrt (\<lambda>p q. snd p < snd q) R"
    proof (rule sorted_wrt_mono_rel [of R "\<lambda>p q. snd p < fst q"])
      fix p q
      assume "q \<in> set R" and "snd p < fst q"
      moreover have "fst q \<le> snd q" using that \<open>q \<in> set R\<close> by (simp add: rinv_def run_ok_def)
      ultimately show "snd p < snd q" by linarith
    qed (use that in \<open>simp add: rinv_def\<close>)
    then have "sorted_wrt (<) (map snd R)" by (simp add: sorted_wrt_map)
    then show ?thesis by (simp add: strict_sorted_iff)
  qed
  have "set R = set R'" using rinv_runs [OF assms(1,3)] rinv_runs [OF assms(2,3)] by blast
  then show ?thesis
    using srt [OF assms(1)] srt [OF assms(2)]
    by (intro map_sorted_distinct_set_unique [of snd]) (simp_all add: distinct_map)
qed

lemma natp_inj: "natp rs = natp rs' \<Longrightarrow> rs = rs'"
  by (rule map_injective [rotated]) (auto simp: inj_on_def word_unat_eq_iff)

lemma rinv_maximal:
  assumes "rinv S N (natp rs) None" and "\<And>x. S x \<Longrightarrow> x < N"
  shows "(\<forall>s. S s \<longleftrightarrow> (\<exists>(a, b) \<in> set rs. unat a \<le> s \<and> s \<le> unat b)) \<and>
    sorted_wrt (\<lambda>p q. unat (snd p) + 1 < unat (fst q)) rs \<and> (\<forall>(a, b) \<in> set rs. a \<le> b)"
proof (intro conjI allI)
  show "S s \<longleftrightarrow> (\<exists>(a, b) \<in> set rs. unat a \<le> s \<and> s \<le> unat b)" for s
  proof -
    have "S s \<longleftrightarrow> (\<exists>p \<in> set (natp rs). fst p \<le> s \<and> s \<le> snd p)"
      using assms by (auto simp: rinv_def run_ok_def)
    then show ?thesis by fastforce
  qed
  have "sorted_wrt (\<lambda>p q. snd p + 1 < fst q) (natp rs)"
  proof (rule sorted_wrt_mono_rel [of _ "\<lambda>p q. snd p < fst q"])
    fix p q
    assume "p \<in> set (natp rs)" "q \<in> set (natp rs)" and l: "snd p < fst q"
    then have "run_ok S N p" "run_ok S N q" using assms(1) unfolding rinv_def by blast+
    then have "\<not> S (Suc (snd p))" "S (fst q)" by (auto simp: run_ok_def)
    then have "fst q \<noteq> Suc (snd p)" by metis
    with l show "snd p + 1 < fst q" by simp
  qed (use assms(1) in \<open>simp add: rinv_def\<close>)
  then show "sorted_wrt (\<lambda>p q. unat (snd p) + 1 < unat (fst q)) rs" by (simp add: sorted_wrt_map split_beta)
  show "\<forall>(a, b) \<in> set rs. a \<le> b"
    using assms(1) by (fastforce simp: rinv_def run_ok_def word_le_nat_alt)
qed



end
