(* ===== verification/Txn_Locks.thy ===== *)
theory Txn_Locks
  imports Wedb_Prelude "HOL-Library.List_Lexorder" "HOL-Library.Option_ord"
    "HOL-Library.Product_Lexorder" "HOL-Library.Multiset"
begin

text \<open>
  The lock set of a transaction, \<open>wedb_txn/src/key_entry.rs\<close>: lock types, entries, and the
  in-place sort and merge that puts a lock set into the global acquisition order.  The hash of
  a key (\<open>whasher::fast_hash\<close>) and the \<open>bitcode\<close> encoder are parameters.  \<open>sort_unstable_by\<close>
  leaves the order of equal elements open, so the sort is a parameter as well; what the
  standard library promises of it is \<open>sorts_entries\<close>.
\<close>

section \<open>Lock types\<close>

datatype LockType = NoLock | Shared | Exclusive

definition lock_level :: "LockType \<Rightarrow> nat" where
  "lock_level l = (case l of NoLock \<Rightarrow> 0 | Shared \<Rightarrow> 1 | Exclusive \<Rightarrow> 2)"

instantiation LockType :: linorder
begin

definition less_eq_LockType :: "LockType \<Rightarrow> LockType \<Rightarrow> bool" where
  "less_eq_LockType a b \<longleftrightarrow> lock_level a \<le> lock_level b"

definition less_LockType :: "LockType \<Rightarrow> LockType \<Rightarrow> bool" where
  "less_LockType a b \<longleftrightarrow> lock_level a < lock_level b"

instance
  by standard (auto simp: less_eq_LockType_def less_LockType_def lock_level_def split: LockType.splits)

end

definition is_exclusive :: "LockType \<Rightarrow> bool" where
  "is_exclusive l \<longleftrightarrow> l = Exclusive"

definition is_shared :: "LockType \<Rightarrow> bool" where
  "is_shared l \<longleftrightarrow> l = Shared"

definition upgrade_to :: "LockType \<Rightarrow> LockType \<Rightarrow> LockType" where
  "upgrade_to l other = (if other > l then other else l)"

section \<open>Entries\<close>

record TxnKeyEntry =
  key_hash :: u64
  lock_type :: LockType
  key :: "bytes option"

definition entry_new :: "u64 \<Rightarrow> LockType \<Rightarrow> bytes option \<Rightarrow> TxnKeyEntry" where
  "entry_new h l k = \<lparr>key_hash = h, lock_type = l, key = k\<rparr>"

definition entry_from_bytes :: "(bytes \<Rightarrow> u64) \<Rightarrow> bytes \<Rightarrow> LockType \<Rightarrow> TxnKeyEntry" where
  "entry_from_bytes fast_hash k l = \<lparr>key_hash = fast_hash k, lock_type = l, key = Some k\<rparr>"

definition entry_from_slice :: "(bytes \<Rightarrow> u64) \<Rightarrow> bytes \<Rightarrow> LockType \<Rightarrow> TxnKeyEntry" where
  "entry_from_slice fast_hash k l = \<lparr>key_hash = fast_hash k, lock_type = l, key = None\<rparr>"

definition show_entry :: "TxnKeyEntry \<Rightarrow> string" where
  "show_entry e = show_nat (unat (key_hash e)) @ '':'' @
     (case lock_type e of NoLock \<Rightarrow> ''-'' | Shared \<Rightarrow> ''s'' | Exclusive \<Rightarrow> ''x'')"

text \<open>\<open>TxnKeyComparison::compare\<close>: the hash, then the key bytes.\<close>

definition entry_ord :: "TxnKeyEntry \<Rightarrow> u64 \<times> bytes option" where
  "entry_ord e = (key_hash e, key e)"

section \<open>Lock sets\<close>

type_synonym TxnKeyEntries = "TxnKeyEntry list"

definition add_key_hash :: "TxnKeyEntries \<Rightarrow> u64 \<Rightarrow> LockType \<Rightarrow> TxnKeyEntries" where
  "add_key_hash es h l = es @ [entry_new h l None]"

definition add_key :: "TxnKeyEntries \<Rightarrow> u64 \<Rightarrow> LockType \<Rightarrow> bytes option \<Rightarrow> TxnKeyEntries" where
  "add_key es h l k = es @ [entry_new h l k]"

definition add_key_slice :: "(bytes \<Rightarrow> u64) \<Rightarrow> TxnKeyEntries \<Rightarrow> bytes \<Rightarrow> LockType \<Rightarrow> TxnKeyEntries" where
  "add_key_slice fast_hash es k l = es @ [entry_from_slice fast_hash k l]"

definition add_key_bytes :: "(bytes \<Rightarrow> u64) \<Rightarrow> TxnKeyEntries \<Rightarrow> bytes \<Rightarrow> LockType \<Rightarrow> TxnKeyEntries" where
  "add_key_bytes fast_hash es k l = es @ [entry_from_bytes fast_hash k l]"

definition is_read_only :: "TxnKeyEntries \<Rightarrow> bool" where
  "is_read_only es \<longleftrightarrow> \<not> list_ex (\<lambda>e. is_exclusive (lock_type e)) es"

definition unlock_all_keys :: "TxnKeyEntries \<Rightarrow> TxnKeyEntries" where
  "unlock_all_keys es = []"

definition get_lockset :: "TxnKeyEntries \<Rightarrow> nat \<Rightarrow> string" where
  "get_lockset es phase =
     (if es = [] then []
      else concat (map show_entry es) @ '' (phase: '' @
        (if phase = 1 then ''lock'' else if phase = 2 then ''unlock'' else ''none'') @ '')'')"

subsection \<open>Sorting and merging in place\<close>

definition is_same :: "TxnKeyEntry \<Rightarrow> TxnKeyEntry \<Rightarrow> bool" where
  "is_same w r \<longleftrightarrow> key_hash w = key_hash r \<and>
     (case (key w, key r) of (Some k1, Some k2) \<Rightarrow> k1 = k2 | _ \<Rightarrow> True)"

definition swap :: "'a list \<Rightarrow> nat \<Rightarrow> nat \<Rightarrow> 'a list" where
  "swap xs i j = xs[i := xs ! j, j := xs ! i]"

text \<open>One iteration of the loop, on the array and \<open>write_idx\<close>.\<close>

definition merge_step :: "TxnKeyEntries \<times> nat \<Rightarrow> nat \<Rightarrow> TxnKeyEntries \<times> nat" where
  "merge_step st read_idx =
     (case st of (es, write_idx) \<Rightarrow>
        if is_same (es ! write_idx) (es ! read_idx) then
          let es1 = es[write_idx := (es ! write_idx)\<lparr>lock_type :=
                upgrade_to (lock_type (es ! write_idx)) (lock_type (es ! read_idx))\<rparr>]
          in if key (es1 ! write_idx) = None \<and> key (es1 ! read_idx) \<noteq> None
             then (es1[write_idx := (es1 ! write_idx)\<lparr>key := key (es1 ! read_idx)\<rparr>,
                       read_idx := (es1 ! read_idx)\<lparr>key := None\<rparr>], write_idx)
             else (es1, write_idx)
        else
          let write_idx = write_idx + 1
          in (if write_idx \<noteq> read_idx then swap es write_idx read_idx else es, write_idx))"

definition sort_by_key_hash :: "(TxnKeyEntries \<Rightarrow> TxnKeyEntries) \<Rightarrow> TxnKeyEntries \<Rightarrow> TxnKeyEntries" where
  "sort_by_key_hash sort_unstable es =
     (if length es \<le> 1 then es
      else
        let es = sort_unstable es;
            (es, write_idx) = foldl merge_step (es, 0) [1..<length es]
        in take (write_idx + 1) es)"

text \<open>The contract of \<open>sort_unstable_by\<close>: a permutation, ascending.\<close>

definition sorts_entries :: "(TxnKeyEntries \<Rightarrow> TxnKeyEntries) \<Rightarrow> bool" where
  "sorts_entries srt \<longleftrightarrow>
     (\<forall>es. mset (srt es) = mset es \<and> sorted_wrt (\<lambda>a b. entry_ord a \<le> entry_ord b) (srt es))"

section \<open>The merge as a pass over a list\<close>

definition absorb :: "TxnKeyEntry \<Rightarrow> TxnKeyEntry \<Rightarrow> TxnKeyEntry" where
  "absorb w r = \<lparr>key_hash = key_hash w, lock_type = max (lock_type w) (lock_type r),
     key = (if key w = None then key r else key w)\<rparr>"

fun merge_sorted :: "TxnKeyEntry \<Rightarrow> TxnKeyEntries \<Rightarrow> TxnKeyEntries" where
  "merge_sorted w [] = [w]"
| "merge_sorted w (r # rs) = (if is_same w r then merge_sorted (absorb w r) rs else w # merge_sorted r rs)"

lemma upgrade_to_max: "upgrade_to a b = max a b"
  by (auto simp: upgrade_to_def max_def not_less dest: less_imp_le order.antisym)

lemma entry_update:
  "e\<lparr>lock_type := l, key := k\<rparr> = \<lparr>key_hash = key_hash e, lock_type = l, key = k\<rparr>"
  by (cases e) simp

lemma merge_step_parts:
  assumes "w < r" and "r < length es"
    and "merge_step (es, w) r = (es', w')"
  shows "length es' = length es \<and> drop (Suc r) es' = drop (Suc r) es \<and> w' < Suc r \<and>
    (if is_same (es ! w) (es ! r)
     then w' = w \<and> take w es' = take w es \<and> es' ! w = absorb (es ! w) (es ! r)
     else w' = w + 1 \<and> take (w + 1) es' = take (w + 1) es \<and> es' ! w' = es ! r)"
proof (cases "is_same (es ! w) (es ! r)")
  case True
  let ?w = "absorb (es ! w) (es ! r)"
  have "w' = w \<and> (\<exists>x. es' = es[w := ?w, r := x])"
  proof (cases "key (es ! w) = None \<and> key (es ! r) \<noteq> None")
    case k: True
    have "merge_step (es, w) r = (es[w := ?w, r := (es ! r)\<lparr>key := None\<rparr>], w)"
      using True k assms(1,2) by (simp add: merge_step_def Let_def absorb_def upgrade_to_max entry_update)
    with assms(3) show ?thesis by auto
  next
    case k: False
    then have "(es ! w)\<lparr>lock_type := max (lock_type (es ! w)) (lock_type (es ! r))\<rparr> = ?w"
      by (cases "es ! w") (auto simp: absorb_def)
    moreover have "key ?w \<noteq> None \<or> key (es ! r) = None" using k by (auto simp: absorb_def)
    ultimately have "merge_step (es, w) r = (es[w := ?w], w)"
      using True assms(1,2) by (auto simp: merge_step_def Let_def upgrade_to_max)
    moreover have "es[w := ?w, r := es ! r] = es[w := ?w]"
      using assms(1) by (metis list_update_id nth_list_update_neq nat_neq_iff)
    ultimately show ?thesis using assms(3) by (metis prod.inject)
  qed
  then show ?thesis using assms(1,2) True by auto
next
  case False
  then have "w' = w + 1 \<and> es' = (if w + 1 \<noteq> r then swap es (w + 1) r else es)"
    using assms(3) by (auto simp: merge_step_def Let_def)
  then show ?thesis using assms(1,2) False by (auto simp: swap_def)
qed

lemma merge_loop:
  assumes "w < r" and "r \<le> length es" and "foldl merge_step (es, w) [r..<length es] = (es', w')"
  shows "take (w' + 1) es' = take w es @ merge_sorted (es ! w) (drop r es)"
  using assms
proof (induction "length es - r" arbitrary: r es w)
  case 0
  then have "es' = es" "w' = w" by simp_all
  with 0 show ?case by (simp add: take_Suc_conv_app_nth)
next
  case (Suc d)
  then have r: "r < length es" by simp
  obtain es1 w1 where s: "merge_step (es, w) r = (es1, w1)" by force
  note p = merge_step_parts [OF Suc.prems(1) r s]
  have "foldl merge_step (es1, w1) [Suc r..<length es1] = (es', w')"
    using Suc.prems(3) r s p by (simp add: upt_conv_Cons)
  then have "take (w' + 1) es' = take w1 es1 @ merge_sorted (es1 ! w1) (drop (Suc r) es1)"
    using Suc.hyps(1) [of es1 "Suc r" w1] Suc.hyps(2) p r by simp
  moreover have "drop r es = es ! r # drop (Suc r) es" using r by (simp add: Cons_nth_drop_Suc)
  moreover have "take (w + 1) es = take w es @ [es ! w]"
    using Suc.prems(1) r by (simp add: take_Suc_conv_app_nth)
  ultimately show ?case using p by (auto split: if_splits)
qed

lemma sort_by_key_hash_eq:
  assumes "sorts_entries srt"
  shows "sort_by_key_hash srt es =
    (if length es \<le> 1 then es else case srt es of [] \<Rightarrow> [] | w # rs \<Rightarrow> merge_sorted w rs)"
proof (cases "length es \<le> 1")
  case True
  then show ?thesis by (simp add: sort_by_key_hash_def)
next
  case False
  have "mset (srt es) = mset es" using assms by (simp add: sorts_entries_def)
  then have len: "length (srt es) = length es" by (metis size_mset)
  then obtain w rs where c: "srt es = w # rs" using False by (cases "srt es") auto
  obtain es' w' where f: "foldl merge_step (srt es, 0) [1..<length (srt es)] = (es', w')" by force
  have "take (w' + 1) es' = merge_sorted w rs"
    using merge_loop [of 0 1 "srt es" es' w'] f False len c by simp
  then show ?thesis using False f c by (simp add: sort_by_key_hash_def Let_def)
qed

section \<open>What the merge keeps\<close>

definition entry_before :: "TxnKeyEntry \<Rightarrow> TxnKeyEntry \<Rightarrow> bool" where
  "entry_before a b \<longleftrightarrow> key_hash a < key_hash b \<or>
     key_hash a = key_hash b \<and> (\<exists>k k'. key a = Some k \<and> key b = Some k' \<and> k < k')"

definition covers :: "TxnKeyEntry \<Rightarrow> TxnKeyEntry \<Rightarrow> bool" where
  "covers o' e \<longleftrightarrow> key_hash o' = key_hash e \<and> (key e = None \<or> key o' = key e) \<and> lock_type e \<le> lock_type o'"

lemma covers_trans: "covers a b \<Longrightarrow> covers b c \<Longrightarrow> covers a c"
  by (auto simp: covers_def)

lemma covers_refl: "covers a a"
  by (simp add: covers_def)

lemma absorb_covers: "is_same w r \<Longrightarrow> covers (absorb w r) w \<and> covers (absorb w r) r"
  by (auto simp: covers_def absorb_def is_same_def split: option.splits)

lemma absorb_ord:
  assumes "is_same w r" and "entry_ord w \<le> entry_ord r"
  shows "entry_ord w \<le> entry_ord (absorb w r) \<and> entry_ord (absorb w r) \<le> entry_ord r"
  using assms by (auto simp: entry_ord_def absorb_def is_same_def less_eq_prod_def split: option.splits)

lemma not_same_before:
  assumes "\<not> is_same w r" and "entry_ord w \<le> entry_ord r" and "entry_ord r \<le> entry_ord x"
  shows "entry_before w x"
  using assms by (cases "key x") (auto simp: entry_before_def is_same_def entry_ord_def less_eq_prod_def
      order_le_less split: option.splits)

lemma merge_sorted_strict:
  assumes "sorted_wrt (\<lambda>a b. entry_ord a \<le> entry_ord b) (w # rs)"
  shows "sorted_wrt entry_before (merge_sorted w rs) \<and> (\<forall>x \<in> set (merge_sorted w rs). entry_ord w \<le> entry_ord x)"
  using assms
proof (induction w rs rule: merge_sorted.induct)
  case (1 w)
  then show ?case by simp
next
  case (2 w r rs)
  have wr: "entry_ord w \<le> entry_ord r" using "2.prems" by simp
  show ?case
  proof (cases "is_same w r")
    case True
    note ab = absorb_ord [OF True wr]
    have "sorted_wrt (\<lambda>a b. entry_ord a \<le> entry_ord b) (absorb w r # rs)"
      using "2.prems" ab by (auto intro: order_trans)
    then show ?thesis using "2.IH"(1) True ab by (auto intro: order_trans)
  next
    case False
    then have IH: "sorted_wrt entry_before (merge_sorted r rs)" "\<forall>x \<in> set (merge_sorted r rs). entry_ord r \<le> entry_ord x"
      using "2.IH"(2) "2.prems" by simp_all
    then show ?thesis using False wr not_same_before by (auto intro: order_trans)
  qed
qed

lemma merge_sorted_covers:
  "e \<in> set (w # rs) \<Longrightarrow> \<exists>x \<in> set (merge_sorted w rs). covers x e"
proof (induction w rs arbitrary: e rule: merge_sorted.induct)
  case (1 w)
  then show ?case by (simp add: covers_refl)
next
  case (2 w r rs)
  show ?case
  proof (cases "is_same w r")
    case True
    then have "\<exists>e' \<in> set (absorb w r # rs). covers e' e"
      using "2.prems" absorb_covers [OF True] covers_refl by auto
    then show ?thesis using "2.IH"(1) True covers_trans by (metis merge_sorted.simps(2))
  next
    case False
    then show ?thesis using "2.IH"(2) "2.prems" covers_refl by auto
  qed
qed

lemma merge_sorted_origin:
  "x \<in> set (merge_sorted w rs) \<Longrightarrow>
     (\<exists>e \<in> set (w # rs). key_hash e = key_hash x \<and> lock_type e = lock_type x) \<and>
     (\<exists>e \<in> set (w # rs). key_hash e = key_hash x \<and> key e = key x)"
proof (induction w rs arbitrary: x rule: merge_sorted.induct)
  case (1 w)
  then show ?case by simp
next
  case (2 w r rs)
  show ?case
  proof (cases "is_same w r")
    case True
    then have h: "key_hash w = key_hash r" by (simp add: is_same_def)
    have "\<exists>e \<in> {w, r}. key_hash e = key_hash (absorb w r) \<and> lock_type e = lock_type (absorb w r)"
      using h by (auto simp: absorb_def max_def)
    moreover have "\<exists>e \<in> {w, r}. key_hash e = key_hash (absorb w r) \<and> key e = key (absorb w r)"
      using h by (auto simp: absorb_def)
    ultimately show ?thesis using "2.IH"(1) [OF True] "2.prems" True by fastforce
  next
    case False
    then show ?thesis using "2.IH"(2) [OF False] "2.prems" by fastforce
  qed
qed

lemma sort_by_key_hash_cases:
  assumes "sorts_entries srt"
  obtains "length es \<le> 1" and "sort_by_key_hash srt es = es"
  | w rs where "mset (w # rs) = mset es" and "sorted_wrt (\<lambda>a b. entry_ord a \<le> entry_ord b) (w # rs)"
      and "sort_by_key_hash srt es = merge_sorted w rs"
proof (cases "length es \<le> 1")
  case True
  then show ?thesis using that(1) sort_by_key_hash_eq [OF assms, of es] by simp
next
  case False
  have m: "mset (srt es) = mset es" "sorted_wrt (\<lambda>a b. entry_ord a \<le> entry_ord b) (srt es)"
    using assms by (simp_all add: sorts_entries_def)
  then obtain w rs where "srt es = w # rs" using False by (cases "srt es") auto
  then show ?thesis using that(2) [of w rs] m sort_by_key_hash_eq [OF assms, of es] False by simp
qed

lemma sort_by_key_hash_sound:
  assumes "sorts_entries srt"
  shows "sorted_wrt entry_before (sort_by_key_hash srt es)"
    and "e \<in> set es \<Longrightarrow> \<exists>x \<in> set (sort_by_key_hash srt es). covers x e"
    and "x \<in> set (sort_by_key_hash srt es) \<Longrightarrow>
      (\<exists>e \<in> set es. key_hash e = key_hash x \<and> lock_type e = lock_type x) \<and>
      (\<exists>e \<in> set es. key_hash e = key_hash x \<and> key e = key x)"
proof -
  consider "length es \<le> 1" "sort_by_key_hash srt es = es"
    | w rs where "mset (w # rs) = mset es" "sorted_wrt (\<lambda>a b. entry_ord a \<le> entry_ord b) (w # rs)"
      "sort_by_key_hash srt es = merge_sorted w rs"
    by (rule sort_by_key_hash_cases [OF assms])
  then have "sorted_wrt entry_before (sort_by_key_hash srt es) \<and>
    (e \<in> set es \<longrightarrow> (\<exists>x \<in> set (sort_by_key_hash srt es). covers x e)) \<and>
    (x \<in> set (sort_by_key_hash srt es) \<longrightarrow>
      (\<exists>e \<in> set es. key_hash e = key_hash x \<and> lock_type e = lock_type x) \<and>
      (\<exists>e \<in> set es. key_hash e = key_hash x \<and> key e = key x))"
  proof cases
    case 1
    then have "sorted_wrt entry_before es" by (cases es) auto
    with 1 show ?thesis using covers_refl by auto
  next
    case (2 w rs)
    then have "set es = set (w # rs)" by (metis set_mset_mset)
    then show ?thesis
      using 2(3) merge_sorted_strict [OF 2(2)] merge_sorted_covers [of e w rs] merge_sorted_origin [of x w rs]
      by simp
  qed
  then show "sorted_wrt entry_before (sort_by_key_hash srt es)"
    and "e \<in> set es \<Longrightarrow> \<exists>x \<in> set (sort_by_key_hash srt es). covers x e"
    and "x \<in> set (sort_by_key_hash srt es) \<Longrightarrow>
      (\<exists>e \<in> set es. key_hash e = key_hash x \<and> lock_type e = lock_type x) \<and>
      (\<exists>e \<in> set es. key_hash e = key_hash x \<and> key e = key x)"
    by blast+
qed

lemma stable_sorts_entries: "sorts_entries (sort_key entry_ord)"
proof -
  have "sorted_wrt (\<lambda>a b. entry_ord a \<le> entry_ord b) (sort_key entry_ord es)" for es
    using sorted_sort_key [of entry_ord es] by (simp add: sorted_map)
  then show ?thesis by (simp add: sorts_entries_def)
qed

text \<open>
  C10: \<open>TxnKeyEntries::sort_by_key_hash\<close> puts the lock set into the acquisition order, for any
  unstable sort.  The result is strictly ascending by hash and, for equal hashes, by distinct
  keys; every registered key keeps an entry with its hash, its key and at least its lock level;
  every lock level and key in the result was registered for that hash; and the transaction is
  read-only before exactly when it is read-only after.
\<close>

theorem sort_by_key_hash_correct:
  assumes "sorts_entries sort_unstable"
  shows "let es' = sort_by_key_hash sort_unstable es in
    sorted_wrt entry_before es' \<and>
    (\<forall>e \<in> set es. \<exists>x \<in> set es'. covers x e) \<and>
    (\<forall>x \<in> set es'. (\<exists>e \<in> set es. key_hash e = key_hash x \<and> lock_type e = lock_type x) \<and>
       (\<exists>e \<in> set es. key_hash e = key_hash x \<and> key e = key x)) \<and>
    is_read_only es' = is_read_only es"
proof -
  let ?es = "sort_by_key_hash sort_unstable es"
  have "Exclusive \<le> l \<longleftrightarrow> l = Exclusive" for l
    by (cases l) (auto simp: less_eq_LockType_def lock_level_def)
  then have "(\<exists>x \<in> set ?es. lock_type x = Exclusive) \<longleftrightarrow> (\<exists>e \<in> set es. lock_type e = Exclusive)"
    using sort_by_key_hash_sound(2) [OF assms] sort_by_key_hash_sound(3) [OF assms] unfolding covers_def by metis
  then have "is_read_only ?es = is_read_only es"
    by (simp add: is_read_only_def list_ex_iff is_exclusive_def)
  then show ?thesis using sort_by_key_hash_sound [OF assms] by (simp add: Let_def)
qed

theorem sort_by_key_hash_correct_witness:
  "let es = [entry_new 7 Shared None, entry_new 3 Exclusive None, entry_new 7 Exclusive None];
       es' = sort_by_key_hash (sort_key entry_ord) es
   in sorted_wrt entry_before es' \<and> (\<forall>e \<in> set es. \<exists>x \<in> set es'. covers x e)"
  using sort_by_key_hash_correct [OF stable_sorts_entries,
      of "[entry_new 7 Shared None, entry_new 3 Exclusive None, entry_new 7 Exclusive None]"]
  unfolding Let_def by blast

section \<open>Freedom from deadlock\<close>

text \<open>
  Transactions \<open>t\<close> acquire the entries of \<open>ls t\<close> from left to right and have acquired
  \<open>held t\<close> of them.  One waits for another when its next lock conflicts with a lock the other
  holds.
\<close>

definition conflicts :: "TxnKeyEntry \<Rightarrow> TxnKeyEntry \<Rightarrow> bool" where
  "conflicts a b \<longleftrightarrow> key_hash a = key_hash b \<and> (is_exclusive (lock_type a) \<or> is_exclusive (lock_type b))"

definition waits_for :: "('t \<Rightarrow> TxnKeyEntries) \<Rightarrow> ('t \<Rightarrow> nat) \<Rightarrow> 't \<Rightarrow> 't \<Rightarrow> bool" where
  "waits_for ls held t u \<longleftrightarrow> t \<noteq> u \<and> held t < length (ls t) \<and>
     (\<exists>i < held u. i < length (ls u) \<and> conflicts (ls t ! held t) (ls u ! i))"

lemma waits_chain:
  assumes "\<And>t. sorted_wrt (\<lambda>a b. key_hash a < key_hash b) (ls t)" and "(waits_for ls held)\<^sup>+\<^sup>+ t u"
  shows "held u < length (ls u) \<Longrightarrow> key_hash (ls t ! held t) < key_hash (ls u ! held u)"
  using assms(2)
proof (induction rule: tranclp_induct)
  case (base u)
  then obtain i where "i < held u" "key_hash (ls t ! held t) = key_hash (ls u ! i)"
    by (auto simp: waits_for_def conflicts_def)
  then show ?case using sorted_wrt_nth_less [OF assms(1) [of u]] base.prems by simp
next
  case (step u v)
  then obtain i where "held u < length (ls u)" "i < held v" "key_hash (ls u ! held u) = key_hash (ls v ! i)"
    by (auto simp: waits_for_def conflicts_def)
  moreover have "key_hash (ls v ! i) < key_hash (ls v ! held v)"
    using sorted_wrt_nth_less [OF assms(1) [of v]] step.prems \<open>i < held v\<close> by simp
  ultimately show ?case using step.IH by simp
qed

lemma hash_only_strict:
  assumes "sorts_entries srt" and "list_all (\<lambda>e. key e = None) es"
  shows "sorted_wrt (\<lambda>a b. key_hash a < key_hash b) (sort_by_key_hash srt es)"
proof -
  have n: "key x = None" if "x \<in> set (sort_by_key_hash srt es)" for x
    using sort_by_key_hash_sound(3) [OF assms(1) that] assms(2) by (auto simp: list_all_iff)
  show ?thesis
    by (rule sorted_wrt_mono_rel [OF _ sort_by_key_hash_sound(1) [OF assms(1)]]) (use n in \<open>auto simp: entry_before_def\<close>)
qed



end
