(* ===== verification/Txn_Watch.thy ===== *)
theory Txn_Watch
  imports Txn_Locks
begin

unbundle bit_operations_syntax

text \<open>
  Optimistic locking: the shared version table of \<open>wedb_txn/src/version_map.rs\<close> and the
  watched-key container of a session, \<open>watched_keys.rs\<close>.  The atomics are sequentially
  consistent here: every operation is one step on the table.  Versions are 64-bit and wrap.
  The key hash and the \<open>bitcode\<close> encoder are parameters.
\<close>

section \<open>The version table\<close>

record WatchVersionMap =
  slots :: "u64 list"
  vm_mask :: nat
  global_epoch :: u64

definition DEFAULT_VERSION_MAP_CAPACITY :: nat where
  "DEFAULT_VERSION_MAP_CAPACITY = 2 ^ 16"

text \<open>\<open>usize::next_power_of_two\<close>, counting up from a power of two.\<close>

function next_pow2 :: "nat \<Rightarrow> nat \<Rightarrow> nat" where
  "next_pow2 p n = (if p = 0 \<or> n \<le> p then p else next_pow2 (2 * p) n)"
  by pat_completeness auto
termination
  by (relation "measure (\<lambda>(p, n). n - p)") auto

declare next_pow2.simps [simp del]

definition vm_new :: "nat \<Rightarrow> WatchVersionMap" where
  "vm_new capacity =
     (let cap = next_pow2 1 (max capacity 2)
      in \<lparr>slots = replicate cap 0, vm_mask = cap - 1, global_epoch = 0\<rparr>)"

definition vm_index :: "WatchVersionMap \<Rightarrow> u64 \<Rightarrow> nat" where
  "vm_index vm hash = unat hash AND vm_mask vm"

definition read_version :: "WatchVersionMap \<Rightarrow> u64 \<Rightarrow> u64" where
  "read_version vm hash =
     (let index = vm_index vm hash;
          slot_ver = slots vm ! index;
          epoch = global_epoch vm
      in slot_ver + epoch)"

definition bump_version :: "WatchVersionMap \<Rightarrow> u64 \<Rightarrow> WatchVersionMap \<times> u64" where
  "bump_version vm hash =
     (let index = vm_index vm hash;
          prev = slots vm ! index;
          vm' = vm\<lparr>slots := (slots vm)[index := prev + 1]\<rparr>
      in (vm', prev + 1 + global_epoch vm'))"

definition bump_all :: "WatchVersionMap \<Rightarrow> WatchVersionMap" where
  "bump_all vm = vm\<lparr>global_epoch := global_epoch vm + 1\<rparr>"

definition read_version_key :: "(bytes \<Rightarrow> u64) \<Rightarrow> WatchVersionMap \<Rightarrow> bytes \<Rightarrow> u64" where
  "read_version_key fast_hash vm k = read_version vm (fast_hash k)"

definition bump_version_key :: "(bytes \<Rightarrow> u64) \<Rightarrow> WatchVersionMap \<Rightarrow> bytes \<Rightarrow> WatchVersionMap \<times> u64" where
  "bump_version_key fast_hash vm k = bump_version vm (fast_hash k)"

definition vm_clear :: "WatchVersionMap \<Rightarrow> WatchVersionMap" where
  "vm_clear vm = vm\<lparr>global_epoch := 0, slots := map (\<lambda>_. 0) (slots vm)\<rparr>"

definition slot_count :: "WatchVersionMap \<Rightarrow> nat" where
  "slot_count vm = vm_mask vm + 1"

section \<open>Watched keys\<close>

record WatchedKeyEntry =
  wk_key :: bytes
  wk_hash :: u64
  wk_version :: u64
  is_watched :: bool

type_synonym WatchedKeysContainer = "WatchedKeyEntry list"

definition watch_key :: "(bytes \<Rightarrow> u64) \<Rightarrow> WatchedKeysContainer \<Rightarrow> bytes \<Rightarrow> WatchVersionMap \<Rightarrow> WatchedKeysContainer" where
  "watch_key fast_hash c k vm =
     (let hash = fast_hash k;
          version = read_version vm hash
      in case position (\<lambda>e. wk_hash e = hash \<and> wk_key e = k) c of
           Some i \<Rightarrow> c[i := (c ! i)\<lparr>wk_version := version, is_watched := True\<rparr>]
         | None \<Rightarrow> c @ [\<lparr>wk_key = k, wk_hash = hash, wk_version = version, is_watched = True\<rparr>])"

definition remove_watch :: "(bytes \<Rightarrow> u64) \<Rightarrow> WatchedKeysContainer \<Rightarrow> bytes \<Rightarrow> WatchedKeysContainer \<times> bool" where
  "remove_watch fast_hash c k =
     (let hash = fast_hash k
      in case position (\<lambda>e. is_watched e \<and> wk_hash e = hash \<and> wk_key e = k) c of
           Some i \<Rightarrow> (c[i := (c ! i)\<lparr>is_watched := False\<rparr>], True)
         | None \<Rightarrow> (c, False))"

definition watched_reset :: "WatchedKeysContainer \<Rightarrow> WatchedKeysContainer" where
  "watched_reset c = []"

definition validate_versions :: "WatchedKeysContainer \<Rightarrow> WatchVersionMap \<Rightarrow> bool" where
  "validate_versions c vm \<longleftrightarrow> list_all (\<lambda>e. read_version vm (wk_hash e) = wk_version e) (filter is_watched c)"

definition save_keys_to_lock :: "WatchedKeysContainer \<Rightarrow> TxnKeyEntries \<Rightarrow> TxnKeyEntries" where
  "save_keys_to_lock c es = foldl (\<lambda>es e. add_key es (wk_hash e) Shared None) es (filter is_watched c)"

definition watched_count :: "WatchedKeysContainer \<Rightarrow> nat" where
  "watched_count c = length (filter is_watched c)"

type_synonym watched_wire = "(bytes \<times> u64 \<times> u64 \<times> bool) list"

definition watched_encode_bitcode :: "(watched_wire \<Rightarrow> bytes) \<Rightarrow> WatchedKeysContainer \<Rightarrow> bytes" where
  "watched_encode_bitcode encode c = encode (map (\<lambda>e. (wk_key e, wk_hash e, wk_version e, is_watched e)) c)"

definition watched_decode_bitcode :: "(bytes \<Rightarrow> watched_wire option) \<Rightarrow> bytes \<Rightarrow> WatchedKeysContainer option" where
  "watched_decode_bitcode decode src =
     map_option (map (\<lambda>(k, h, v, w). \<lparr>wk_key = k, wk_hash = h, wk_version = v, is_watched = w\<rparr>)) (decode src)"

section \<open>The table invariant\<close>

definition vm_wf :: "WatchVersionMap \<Rightarrow> bool" where
  "vm_wf vm \<longleftrightarrow> (\<exists>k. length (slots vm) = 2 ^ k) \<and> vm_mask vm = length (slots vm) - 1"

lemma next_pow2_power: "\<exists>j. next_pow2 (2 ^ k) n = 2 ^ j"
proof (induction "2 ^ k :: nat" n arbitrary: k rule: next_pow2.induct)
  case (1 n)
  show ?case
  proof (cases "n \<le> 2 ^ k")
    case True
    then show ?thesis by (subst next_pow2.simps) auto
  next
    case False
    then show ?thesis using 1 [of "Suc k"] by (subst next_pow2.simps) simp
  qed
qed

lemma next_pow2_ge: "0 < p \<Longrightarrow> n \<le> next_pow2 p n"
  by (induction p n rule: next_pow2.induct) (subst next_pow2.simps, auto)

lemma vm_new_wf: "vm_wf (vm_new capacity) \<and> max capacity 2 \<le> slot_count (vm_new capacity)"
proof -
  obtain j where j: "next_pow2 1 (max capacity 2) = 2 ^ j" using next_pow2_power [of 0] by auto
  then show ?thesis using next_pow2_ge [of 1 "max capacity 2"]
    by (auto simp: vm_new_def vm_wf_def slot_count_def Let_def)
qed

lemma vm_wf_bump [simp]: "vm_wf vm \<Longrightarrow> vm_wf (fst (bump_version vm h))"
  by (simp add: bump_version_def vm_wf_def Let_def)

lemma vm_wf_bump_all [simp]: "vm_wf vm \<Longrightarrow> vm_wf (bump_all vm)"
  by (simp add: bump_all_def vm_wf_def)

lemma vm_wf_clear [simp]: "vm_wf vm \<Longrightarrow> vm_wf (vm_clear vm)"
  by (simp add: vm_clear_def vm_wf_def)

lemma vm_index_less:
  assumes "vm_wf vm"
  shows "vm_index vm h < length (slots vm)"
proof -
  obtain k where k: "length (slots vm) = 2 ^ k" "vm_mask vm = 2 ^ k - 1" using assms by (auto simp: vm_wf_def)
  then have "vm_index vm h = take_bit k (unat h)"
    by (simp add: vm_index_def take_bit_eq_mask mask_eq_exp_minus_1)
  with k(1) show ?thesis by simp
qed

lemma vm_index_bump [simp]: "vm_index (fst (bump_version vm h)) h' = vm_index vm h'"
  by (simp add: vm_index_def bump_version_def Let_def)

lemma vm_index_bump_all [simp]: "vm_index (bump_all vm) h' = vm_index vm h'"
  by (simp add: vm_index_def bump_all_def)

lemma read_bump:
  assumes "vm_wf vm"
  shows "read_version (fst (bump_version vm h)) h' =
    read_version vm h' + (if vm_index vm h' = vm_index vm h then 1 else 0)"
  using vm_index_less [OF assms, of h]
  by (auto simp: read_version_def bump_version_def vm_index_def Let_def)

lemma bump_returns_new: "vm_wf vm \<Longrightarrow> snd (bump_version vm h) = read_version (fst (bump_version vm h)) h"
  using vm_index_less [of vm h] by (simp add: read_version_def bump_version_def vm_index_def Let_def)

lemma read_bump_all: "read_version (bump_all vm) h = read_version vm h + 1"
  by (simp add: read_version_def bump_all_def vm_index_def Let_def)

section \<open>Histories of invalidations\<close>

datatype vm_event = Bump u64 | BumpAll

definition vm_apply :: "WatchVersionMap \<Rightarrow> vm_event \<Rightarrow> WatchVersionMap" where
  "vm_apply vm ev = (case ev of Bump h \<Rightarrow> fst (bump_version vm h) | BumpAll \<Rightarrow> bump_all vm)"

definition touches :: "WatchVersionMap \<Rightarrow> u64 \<Rightarrow> vm_event \<Rightarrow> bool" where
  "touches vm hash ev \<longleftrightarrow> (case ev of Bump h \<Rightarrow> vm_index vm h = vm_index vm hash | BumpAll \<Rightarrow> True)"

lemma vm_apply_wf [simp]: "vm_wf vm \<Longrightarrow> vm_wf (vm_apply vm ev)"
  by (simp add: vm_apply_def split: vm_event.splits)

lemma vm_index_apply [simp]: "vm_index (vm_apply vm ev) h = vm_index vm h"
  by (simp add: vm_apply_def split: vm_event.splits)

lemma touches_apply [simp]: "touches (vm_apply vm ev) h = touches vm h"
  by (simp add: touches_def fun_eq_iff split: vm_event.splits)

lemma read_apply: "vm_wf vm \<Longrightarrow> read_version (vm_apply vm ev) h = read_version vm h + (if touches vm h ev then 1 else 0)"
  by (auto simp: vm_apply_def touches_def read_bump read_bump_all split: vm_event.splits)

lemma read_after_history:
  assumes "vm_wf vm"
  shows "read_version (foldl vm_apply vm evs) h = read_version vm h + of_nat (length (filter (touches vm h) evs))"
  using assms by (induction evs arbitrary: vm) (simp_all add: read_apply)

lemma vm_wf_history [simp]: "vm_wf vm \<Longrightarrow> vm_wf (foldl vm_apply vm evs)"
  by (induction evs arbitrary: vm) simp_all

lemma version_unchanged_iff:
  assumes "vm_wf vm" and "length evs < 2 ^ 64"
  shows "read_version (foldl vm_apply vm evs) h = read_version vm h \<longleftrightarrow> (\<forall>ev \<in> set evs. \<not> touches vm h ev)"
proof -
  have l: "length (filter (touches vm h) evs) < 2 ^ 64" using assms(2) by (rule le_less_trans [OF length_filter_le])
  have "(of_nat (length (filter (touches vm h) evs)) :: u64) = 0 \<longleftrightarrow> length (filter (touches vm h) evs) = 0"
  proof
    assume z: "(of_nat (length (filter (touches vm h) evs)) :: u64) = 0"
    have "unat (of_nat (length (filter (touches vm h) evs)) :: u64) = length (filter (touches vm h) evs)"
      using l by (simp add: unsigned_of_nat take_bit_nat_eq_self)
    with z show "length (filter (touches vm h) evs) = 0" by simp
  qed simp
  then show ?thesis using read_after_history [OF assms(1)] by (simp add: filter_empty_conv)
qed

text \<open>Every watched entry carries the version the table had: what \<open>WATCH\<close> establishes.\<close>

definition watches_at :: "WatchedKeysContainer \<Rightarrow> WatchVersionMap \<Rightarrow> bool" where
  "watches_at c vm \<longleftrightarrow> (\<forall>e \<in> set c. is_watched e \<longrightarrow> wk_version e = read_version vm (wk_hash e))"

lemma watches_at_validate: "watches_at c vm \<longleftrightarrow> validate_versions c vm"
  by (auto simp: watches_at_def validate_versions_def list_all_iff)

lemma watch_keeps_watches:
  assumes "watches_at c vm"
  shows "watches_at (watch_key fast_hash c k vm) vm"
proof (cases "position (\<lambda>e. wk_hash e = fast_hash k \<and> wk_key e = k) c")
  case None
  then show ?thesis using assms by (auto simp: watch_key_def watches_at_def Let_def)
next
  case (Some i)
  then have i: "i < length c" "wk_hash (c ! i) = fast_hash k" by (auto dest: position_SomeD)
  have "set (c[i := (c ! i)\<lparr>wk_version := read_version vm (fast_hash k), is_watched := True\<rparr>]) \<subseteq>
      insert ((c ! i)\<lparr>wk_version := read_version vm (fast_hash k), is_watched := True\<rparr>) (set c)"
    by (rule set_update_subset_insert)
  then show ?thesis using assms i Some by (auto simp: watch_key_def watches_at_def Let_def)
qed

lemma watch_watches: "\<exists>e \<in> set (watch_key fast_hash c k vm). is_watched e \<and> wk_key e = k \<and> wk_hash e = fast_hash k"
proof (cases "position (\<lambda>e. wk_hash e = fast_hash k \<and> wk_key e = k) c")
  case None
  then show ?thesis by (simp add: watch_key_def Let_def)
next
  case (Some i)
  then have i: "i < length c" "wk_hash (c ! i) = fast_hash k" "wk_key (c ! i) = k" by (auto dest: position_SomeD)
  let ?e = "(c ! i)\<lparr>wk_version := read_version vm (fast_hash k), is_watched := True\<rparr>"
  have "?e \<in> set (c[i := ?e])" using i(1) by (rule set_update_memI)
  then show ?thesis using Some i by (auto simp: watch_key_def Let_def intro!: bexI [of _ ?e])
qed

lemma watch_key_step:
  assumes "\<forall>e \<in> set c. is_watched e \<and> wk_hash e = fast_hash (wk_key e)"
  shows "(\<forall>e \<in> set (watch_key fast_hash c k vm). is_watched e \<and> wk_hash e = fast_hash (wk_key e)) \<and>
    wk_key ` set (watch_key fast_hash c k vm) = insert k (wk_key ` set c)"
proof (cases "position (\<lambda>e. wk_hash e = fast_hash k \<and> wk_key e = k) c")
  case None
  then show ?thesis using assms by (auto simp: watch_key_def Let_def)
next
  case (Some i)
  then have i: "i < length c" "wk_key (c ! i) = k" "wk_hash (c ! i) = fast_hash k" by (auto dest: position_SomeD)
  let ?e = "(c ! i)\<lparr>wk_version := read_version vm (fast_hash k), is_watched := True\<rparr>"
  have eq: "watch_key fast_hash c k vm = c[i := ?e]" using Some by (simp add: watch_key_def Let_def)
  have m: "map wk_key (c[i := ?e]) = map wk_key c" by (simp add: map_update list_update_same_conv i(1))
  have "k \<in> wk_key ` set c" using i by (metis image_eqI nth_mem)
  then have "wk_key ` set (c[i := ?e]) = insert k (wk_key ` set c)" by (metis m set_map insert_absorb)
  moreover have "is_watched e \<and> wk_hash e = fast_hash (wk_key e)" if "e \<in> set (c[i := ?e])" for e
  proof -
    have "e = ?e \<or> e \<in> set c" using that set_update_subset_insert [of c i ?e] by blast
    then show ?thesis using assms i by (elim disjE) simp_all
  qed
  ultimately show ?thesis unfolding eq by blast
qed

lemma watch_keys_all:
  "(\<forall>e \<in> set (foldl (\<lambda>c k. watch_key fast_hash c k vm) [] ks). is_watched e \<and> wk_hash e = fast_hash (wk_key e)) \<and>
   wk_key ` set (foldl (\<lambda>c k. watch_key fast_hash c k vm) [] ks) = set ks \<and>
   watches_at (foldl (\<lambda>c k. watch_key fast_hash c k vm) [] ks) vm"
proof (induction ks rule: rev_induct)
  case Nil
  then show ?case by (simp add: watches_at_def)
next
  case (snoc k ks)
  define c where "c = foldl (\<lambda>c k. watch_key fast_hash c k vm) [] ks"
  note IH = snoc.IH [folded c_def]
  have "foldl (\<lambda>c k. watch_key fast_hash c k vm) [] (ks @ [k]) = watch_key fast_hash c k vm" by (simp add: c_def)
  moreover have "watches_at (watch_key fast_hash c k vm) vm" using IH watch_keeps_watches by blast
  moreover have "set (ks @ [k]) = insert k (wk_key ` set c)" using IH by simp
  ultimately show ?case using watch_key_step [of c fast_hash k vm] IH by metis
qed

text \<open>
  C12: WATCH detects conflicting writes and only those.  Watch any keys, then let any sessions
  apply any history of fewer than \<open>2^64\<close> version bumps: validation succeeds exactly when no
  bump addressed the table slot of a watched key and there was no global bump.  In particular
  a bump of a watched key is never missed, and remembering versions of several keys does not
  interfere.
\<close>

theorem watch_detects_conflicts:
  assumes "vm_wf vm" and "length evs < 2 ^ 64"
  shows "let c = foldl (\<lambda>c k. watch_key fast_hash c k vm) [] ks;
             vm' = foldl vm_apply vm evs
         in (validate_versions c vm' \<longleftrightarrow>
               (\<forall>k \<in> set ks. \<forall>ev \<in> set evs. \<not> touches vm (fast_hash k) ev)) \<and>
            (\<forall>k \<in> set ks. Bump (fast_hash k) \<in> set evs \<longrightarrow> \<not> validate_versions c vm')"
proof -
  define c where "c = foldl (\<lambda>c k. watch_key fast_hash c k vm) [] ks"
  have keys: "\<forall>e \<in> set c. is_watched e \<and> wk_hash e = fast_hash (wk_key e)" "wk_key ` set c = set ks"
    "watches_at c vm"
    unfolding c_def using watch_keys_all [of fast_hash vm ks] by blast+
  have "validate_versions c (foldl vm_apply vm evs) \<longleftrightarrow>
      (\<forall>e \<in> set c. read_version (foldl vm_apply vm evs) (wk_hash e) = read_version vm (wk_hash e))"
    using keys by (auto simp: validate_versions_def list_all_iff watches_at_def)
  also have "\<dots> \<longleftrightarrow> (\<forall>e \<in> set c. \<forall>ev \<in> set evs. \<not> touches vm (fast_hash (wk_key e)) ev)"
    using keys version_unchanged_iff [OF assms] by auto
  also have "\<dots> \<longleftrightarrow> (\<forall>k \<in> set ks. \<forall>ev \<in> set evs. \<not> touches vm (fast_hash k) ev)"
    unfolding keys(2) [symmetric] by simp
  finally have main: "validate_versions c (foldl vm_apply vm evs) \<longleftrightarrow>
      (\<forall>k \<in> set ks. \<forall>ev \<in> set evs. \<not> touches vm (fast_hash k) ev)" .
  moreover have "touches vm (fast_hash k) (Bump (fast_hash k))" for k by (simp add: touches_def)
  ultimately show ?thesis unfolding Let_def c_def by blast
qed

theorem watch_detects_conflicts_witness:
  "let c = foldl (\<lambda>c k. watch_key (\<lambda>k. of_nat (length k)) c k (vm_new 4)) [] [[1], [1, 2]];
       vm' = foldl vm_apply (vm_new 4) [Bump 3, Bump 2]
   in \<not> validate_versions c vm'"
  using watch_detects_conflicts [of "vm_new 4" "[Bump 3, Bump 2]" "\<lambda>k. of_nat (length k)" "[[1], [1, 2]]"]
    vm_new_wf [of 4]
  by (simp add: Let_def touches_def)

end
