(* ===== verification/Resp_Command.thy ===== *)
theory Resp_Command
  imports Wedb_Prelude
begin

text \<open>
  The command enumeration of \<open>wedb_resp/src/cmd.rs\<close>.  The enum is \<open>repr(u16)\<close> and the code
  classifies its values by comparing discriminants, so a command is its discriminant: a
  16-bit word, named here by one abbreviation per variant.  The lists
  \<open>write_commands\<close> to \<open>no_auth_commands\<close> are the sections of the declaration in order, and the
  classification theorem shows that the range comparisons of the predicates pick out exactly
  these sections.
\<close>

type_synonym RespCommand = u16

section \<open>The variants\<close>

abbreviation (input) Cmd_None :: RespCommand where "Cmd_None \<equiv> 0"
abbreviation (input) Cmd_Append :: RespCommand where "Cmd_Append \<equiv> 1"
abbreviation (input) Cmd_Bitfield :: RespCommand where "Cmd_Bitfield \<equiv> 2"
abbreviation (input) Cmd_Bzmpop :: RespCommand where "Cmd_Bzmpop \<equiv> 3"
abbreviation (input) Cmd_Bzpopmax :: RespCommand where "Cmd_Bzpopmax \<equiv> 4"
abbreviation (input) Cmd_Bzpopmin :: RespCommand where "Cmd_Bzpopmin \<equiv> 5"
abbreviation (input) Cmd_Decr :: RespCommand where "Cmd_Decr \<equiv> 6"
abbreviation (input) Cmd_Decrby :: RespCommand where "Cmd_Decrby \<equiv> 7"
abbreviation (input) Cmd_Del :: RespCommand where "Cmd_Del \<equiv> 8"
abbreviation (input) Cmd_Delifexpim :: RespCommand where "Cmd_Delifexpim \<equiv> 9"
abbreviation (input) Cmd_Delifgreater :: RespCommand where "Cmd_Delifgreater \<equiv> 10"
abbreviation (input) Cmd_Expire :: RespCommand where "Cmd_Expire \<equiv> 11"
abbreviation (input) Cmd_Expireat :: RespCommand where "Cmd_Expireat \<equiv> 12"
abbreviation (input) Cmd_Flushall :: RespCommand where "Cmd_Flushall \<equiv> 13"
abbreviation (input) Cmd_Flushdb :: RespCommand where "Cmd_Flushdb \<equiv> 14"
abbreviation (input) Cmd_Geoadd :: RespCommand where "Cmd_Geoadd \<equiv> 15"
abbreviation (input) Cmd_Georadius :: RespCommand where "Cmd_Georadius \<equiv> 16"
abbreviation (input) Cmd_Georadiusbymember :: RespCommand where "Cmd_Georadiusbymember \<equiv> 17"
abbreviation (input) Cmd_Geosearchstore :: RespCommand where "Cmd_Geosearchstore \<equiv> 18"
abbreviation (input) Cmd_Getdel :: RespCommand where "Cmd_Getdel \<equiv> 19"
abbreviation (input) Cmd_Getex :: RespCommand where "Cmd_Getex \<equiv> 20"
abbreviation (input) Cmd_Getset :: RespCommand where "Cmd_Getset \<equiv> 21"
abbreviation (input) Cmd_Hcollect :: RespCommand where "Cmd_Hcollect \<equiv> 22"
abbreviation (input) Cmd_Hdel :: RespCommand where "Cmd_Hdel \<equiv> 23"
abbreviation (input) Cmd_Hexpire :: RespCommand where "Cmd_Hexpire \<equiv> 24"
abbreviation (input) Cmd_Hpexpire :: RespCommand where "Cmd_Hpexpire \<equiv> 25"
abbreviation (input) Cmd_Hexpireat :: RespCommand where "Cmd_Hexpireat \<equiv> 26"
abbreviation (input) Cmd_Hpexpireat :: RespCommand where "Cmd_Hpexpireat \<equiv> 27"
abbreviation (input) Cmd_Hpersist :: RespCommand where "Cmd_Hpersist \<equiv> 28"
abbreviation (input) Cmd_Hincrby :: RespCommand where "Cmd_Hincrby \<equiv> 29"
abbreviation (input) Cmd_Hincrbyfloat :: RespCommand where "Cmd_Hincrbyfloat \<equiv> 30"
abbreviation (input) Cmd_Hmset :: RespCommand where "Cmd_Hmset \<equiv> 31"
abbreviation (input) Cmd_Hset :: RespCommand where "Cmd_Hset \<equiv> 32"
abbreviation (input) Cmd_Hsetnx :: RespCommand where "Cmd_Hsetnx \<equiv> 33"
abbreviation (input) Cmd_Incr :: RespCommand where "Cmd_Incr \<equiv> 34"
abbreviation (input) Cmd_Incrby :: RespCommand where "Cmd_Incrby \<equiv> 35"
abbreviation (input) Cmd_Incrbyfloat :: RespCommand where "Cmd_Incrbyfloat \<equiv> 36"
abbreviation (input) Cmd_Linsert :: RespCommand where "Cmd_Linsert \<equiv> 37"
abbreviation (input) Cmd_Lmove :: RespCommand where "Cmd_Lmove \<equiv> 38"
abbreviation (input) Cmd_Lmpop :: RespCommand where "Cmd_Lmpop \<equiv> 39"
abbreviation (input) Cmd_Lpop :: RespCommand where "Cmd_Lpop \<equiv> 40"
abbreviation (input) Cmd_Lpush :: RespCommand where "Cmd_Lpush \<equiv> 41"
abbreviation (input) Cmd_Lpushx :: RespCommand where "Cmd_Lpushx \<equiv> 42"
abbreviation (input) Cmd_Lrem :: RespCommand where "Cmd_Lrem \<equiv> 43"
abbreviation (input) Cmd_Lset :: RespCommand where "Cmd_Lset \<equiv> 44"
abbreviation (input) Cmd_Ltrim :: RespCommand where "Cmd_Ltrim \<equiv> 45"
abbreviation (input) Cmd_Blpop :: RespCommand where "Cmd_Blpop \<equiv> 46"
abbreviation (input) Cmd_Brpop :: RespCommand where "Cmd_Brpop \<equiv> 47"
abbreviation (input) Cmd_Blmove :: RespCommand where "Cmd_Blmove \<equiv> 48"
abbreviation (input) Cmd_Brpoplpush :: RespCommand where "Cmd_Brpoplpush \<equiv> 49"
abbreviation (input) Cmd_Blmpop :: RespCommand where "Cmd_Blmpop \<equiv> 50"
abbreviation (input) Cmd_Migrate :: RespCommand where "Cmd_Migrate \<equiv> 51"
abbreviation (input) Cmd_Mset :: RespCommand where "Cmd_Mset \<equiv> 52"
abbreviation (input) Cmd_Msetnx :: RespCommand where "Cmd_Msetnx \<equiv> 53"
abbreviation (input) Cmd_Persist :: RespCommand where "Cmd_Persist \<equiv> 54"
abbreviation (input) Cmd_Pexpire :: RespCommand where "Cmd_Pexpire \<equiv> 55"
abbreviation (input) Cmd_Pexpireat :: RespCommand where "Cmd_Pexpireat \<equiv> 56"
abbreviation (input) Cmd_Pfadd :: RespCommand where "Cmd_Pfadd \<equiv> 57"
abbreviation (input) Cmd_Pfmerge :: RespCommand where "Cmd_Pfmerge \<equiv> 58"
abbreviation (input) Cmd_Psetex :: RespCommand where "Cmd_Psetex \<equiv> 59"
abbreviation (input) Cmd_Rename :: RespCommand where "Cmd_Rename \<equiv> 60"
abbreviation (input) Cmd_Ricreate :: RespCommand where "Cmd_Ricreate \<equiv> 61"
abbreviation (input) Cmd_Ridel :: RespCommand where "Cmd_Ridel \<equiv> 62"
abbreviation (input) Cmd_Ripromote :: RespCommand where "Cmd_Ripromote \<equiv> 63"
abbreviation (input) Cmd_Rirestore :: RespCommand where "Cmd_Rirestore \<equiv> 64"
abbreviation (input) Cmd_Riset :: RespCommand where "Cmd_Riset \<equiv> 65"
abbreviation (input) Cmd_Restore :: RespCommand where "Cmd_Restore \<equiv> 66"
abbreviation (input) Cmd_Renamenx :: RespCommand where "Cmd_Renamenx \<equiv> 67"
abbreviation (input) Cmd_Rpop :: RespCommand where "Cmd_Rpop \<equiv> 68"
abbreviation (input) Cmd_Rpoplpush :: RespCommand where "Cmd_Rpoplpush \<equiv> 69"
abbreviation (input) Cmd_Rpush :: RespCommand where "Cmd_Rpush \<equiv> 70"
abbreviation (input) Cmd_Rpushx :: RespCommand where "Cmd_Rpushx \<equiv> 71"
abbreviation (input) Cmd_Sadd :: RespCommand where "Cmd_Sadd \<equiv> 72"
abbreviation (input) Cmd_Sdiffstore :: RespCommand where "Cmd_Sdiffstore \<equiv> 73"
abbreviation (input) Cmd_Set :: RespCommand where "Cmd_Set \<equiv> 74"
abbreviation (input) Cmd_Setbit :: RespCommand where "Cmd_Setbit \<equiv> 75"
abbreviation (input) Cmd_Setex :: RespCommand where "Cmd_Setex \<equiv> 76"
abbreviation (input) Cmd_Setexnx :: RespCommand where "Cmd_Setexnx \<equiv> 77"
abbreviation (input) Cmd_Setexxx :: RespCommand where "Cmd_Setexxx \<equiv> 78"
abbreviation (input) Cmd_Setnx :: RespCommand where "Cmd_Setnx \<equiv> 79"
abbreviation (input) Cmd_Setifmatch :: RespCommand where "Cmd_Setifmatch \<equiv> 80"
abbreviation (input) Cmd_Setifgreater :: RespCommand where "Cmd_Setifgreater \<equiv> 81"
abbreviation (input) Cmd_Setwithetag :: RespCommand where "Cmd_Setwithetag \<equiv> 82"
abbreviation (input) Cmd_Setkeepttl :: RespCommand where "Cmd_Setkeepttl \<equiv> 83"
abbreviation (input) Cmd_Setkeepttlxx :: RespCommand where "Cmd_Setkeepttlxx \<equiv> 84"
abbreviation (input) Cmd_Setrange :: RespCommand where "Cmd_Setrange \<equiv> 85"
abbreviation (input) Cmd_Sinterstore :: RespCommand where "Cmd_Sinterstore \<equiv> 86"
abbreviation (input) Cmd_Smove :: RespCommand where "Cmd_Smove \<equiv> 87"
abbreviation (input) Cmd_Spop :: RespCommand where "Cmd_Spop \<equiv> 88"
abbreviation (input) Cmd_Srem :: RespCommand where "Cmd_Srem \<equiv> 89"
abbreviation (input) Cmd_Sunionstore :: RespCommand where "Cmd_Sunionstore \<equiv> 90"
abbreviation (input) Cmd_Swapdb :: RespCommand where "Cmd_Swapdb \<equiv> 91"
abbreviation (input) Cmd_Unlink :: RespCommand where "Cmd_Unlink \<equiv> 92"
abbreviation (input) Cmd_Vadd :: RespCommand where "Cmd_Vadd \<equiv> 93"
abbreviation (input) Cmd_Vrem :: RespCommand where "Cmd_Vrem \<equiv> 94"
abbreviation (input) Cmd_Vsetattr :: RespCommand where "Cmd_Vsetattr \<equiv> 95"
abbreviation (input) Cmd_Zadd :: RespCommand where "Cmd_Zadd \<equiv> 96"
abbreviation (input) Cmd_Zcollect :: RespCommand where "Cmd_Zcollect \<equiv> 97"
abbreviation (input) Cmd_Zdiffstore :: RespCommand where "Cmd_Zdiffstore \<equiv> 98"
abbreviation (input) Cmd_Zexpire :: RespCommand where "Cmd_Zexpire \<equiv> 99"
abbreviation (input) Cmd_Zpexpire :: RespCommand where "Cmd_Zpexpire \<equiv> 100"
abbreviation (input) Cmd_Zexpireat :: RespCommand where "Cmd_Zexpireat \<equiv> 101"
abbreviation (input) Cmd_Zpexpireat :: RespCommand where "Cmd_Zpexpireat \<equiv> 102"
abbreviation (input) Cmd_Zpersist :: RespCommand where "Cmd_Zpersist \<equiv> 103"
abbreviation (input) Cmd_Zincrby :: RespCommand where "Cmd_Zincrby \<equiv> 104"
abbreviation (input) Cmd_Zmpop :: RespCommand where "Cmd_Zmpop \<equiv> 105"
abbreviation (input) Cmd_Zinterstore :: RespCommand where "Cmd_Zinterstore \<equiv> 106"
abbreviation (input) Cmd_Zpopmax :: RespCommand where "Cmd_Zpopmax \<equiv> 107"
abbreviation (input) Cmd_Zpopmin :: RespCommand where "Cmd_Zpopmin \<equiv> 108"
abbreviation (input) Cmd_Zrangestore :: RespCommand where "Cmd_Zrangestore \<equiv> 109"
abbreviation (input) Cmd_Zrem :: RespCommand where "Cmd_Zrem \<equiv> 110"
abbreviation (input) Cmd_Zremrangebylex :: RespCommand where "Cmd_Zremrangebylex \<equiv> 111"
abbreviation (input) Cmd_Zremrangebyrank :: RespCommand where "Cmd_Zremrangebyrank \<equiv> 112"
abbreviation (input) Cmd_Zremrangebyscore :: RespCommand where "Cmd_Zremrangebyscore \<equiv> 113"
abbreviation (input) Cmd_Zunionstore :: RespCommand where "Cmd_Zunionstore \<equiv> 114"
abbreviation (input) Cmd_Bitop :: RespCommand where "Cmd_Bitop \<equiv> 115"
abbreviation (input) Cmd_BitopAnd :: RespCommand where "Cmd_BitopAnd \<equiv> 116"
abbreviation (input) Cmd_BitopOr :: RespCommand where "Cmd_BitopOr \<equiv> 117"
abbreviation (input) Cmd_BitopXor :: RespCommand where "Cmd_BitopXor \<equiv> 118"
abbreviation (input) Cmd_BitopNot :: RespCommand where "Cmd_BitopNot \<equiv> 119"
abbreviation (input) Cmd_BitopDiff :: RespCommand where "Cmd_BitopDiff \<equiv> 120"
abbreviation (input) Cmd_Bitcount :: RespCommand where "Cmd_Bitcount \<equiv> 121"
abbreviation (input) Cmd_BitfieldRo :: RespCommand where "Cmd_BitfieldRo \<equiv> 122"
abbreviation (input) Cmd_Bitpos :: RespCommand where "Cmd_Bitpos \<equiv> 123"
abbreviation (input) Cmd_Coscan :: RespCommand where "Cmd_Coscan \<equiv> 124"
abbreviation (input) Cmd_Dbsize :: RespCommand where "Cmd_Dbsize \<equiv> 125"
abbreviation (input) Cmd_Dump :: RespCommand where "Cmd_Dump \<equiv> 126"
abbreviation (input) Cmd_Exists :: RespCommand where "Cmd_Exists \<equiv> 127"
abbreviation (input) Cmd_Expiretime :: RespCommand where "Cmd_Expiretime \<equiv> 128"
abbreviation (input) Cmd_Geodist :: RespCommand where "Cmd_Geodist \<equiv> 129"
abbreviation (input) Cmd_Geohash :: RespCommand where "Cmd_Geohash \<equiv> 130"
abbreviation (input) Cmd_Geopos :: RespCommand where "Cmd_Geopos \<equiv> 131"
abbreviation (input) Cmd_GeoradiusRo :: RespCommand where "Cmd_GeoradiusRo \<equiv> 132"
abbreviation (input) Cmd_GeoradiusbymemberRo :: RespCommand where "Cmd_GeoradiusbymemberRo \<equiv> 133"
abbreviation (input) Cmd_Geosearch :: RespCommand where "Cmd_Geosearch \<equiv> 134"
abbreviation (input) Cmd_Get :: RespCommand where "Cmd_Get \<equiv> 135"
abbreviation (input) Cmd_Getbit :: RespCommand where "Cmd_Getbit \<equiv> 136"
abbreviation (input) Cmd_Getifnotmatch :: RespCommand where "Cmd_Getifnotmatch \<equiv> 137"
abbreviation (input) Cmd_Getrange :: RespCommand where "Cmd_Getrange \<equiv> 138"
abbreviation (input) Cmd_Getwithetag :: RespCommand where "Cmd_Getwithetag \<equiv> 139"
abbreviation (input) Cmd_Hexists :: RespCommand where "Cmd_Hexists \<equiv> 140"
abbreviation (input) Cmd_Hget :: RespCommand where "Cmd_Hget \<equiv> 141"
abbreviation (input) Cmd_Hgetall :: RespCommand where "Cmd_Hgetall \<equiv> 142"
abbreviation (input) Cmd_Hkeys :: RespCommand where "Cmd_Hkeys \<equiv> 143"
abbreviation (input) Cmd_Hlen :: RespCommand where "Cmd_Hlen \<equiv> 144"
abbreviation (input) Cmd_Hmget :: RespCommand where "Cmd_Hmget \<equiv> 145"
abbreviation (input) Cmd_Hrandfield :: RespCommand where "Cmd_Hrandfield \<equiv> 146"
abbreviation (input) Cmd_Hscan :: RespCommand where "Cmd_Hscan \<equiv> 147"
abbreviation (input) Cmd_Hstrlen :: RespCommand where "Cmd_Hstrlen \<equiv> 148"
abbreviation (input) Cmd_Hvals :: RespCommand where "Cmd_Hvals \<equiv> 149"
abbreviation (input) Cmd_Keys :: RespCommand where "Cmd_Keys \<equiv> 150"
abbreviation (input) Cmd_Lcs :: RespCommand where "Cmd_Lcs \<equiv> 151"
abbreviation (input) Cmd_Httl :: RespCommand where "Cmd_Httl \<equiv> 152"
abbreviation (input) Cmd_Hpttl :: RespCommand where "Cmd_Hpttl \<equiv> 153"
abbreviation (input) Cmd_Hexpiretime :: RespCommand where "Cmd_Hexpiretime \<equiv> 154"
abbreviation (input) Cmd_Hpexpiretime :: RespCommand where "Cmd_Hpexpiretime \<equiv> 155"
abbreviation (input) Cmd_Lindex :: RespCommand where "Cmd_Lindex \<equiv> 156"
abbreviation (input) Cmd_Llen :: RespCommand where "Cmd_Llen \<equiv> 157"
abbreviation (input) Cmd_Lpos :: RespCommand where "Cmd_Lpos \<equiv> 158"
abbreviation (input) Cmd_Lrange :: RespCommand where "Cmd_Lrange \<equiv> 159"
abbreviation (input) Cmd_MemoryUsage :: RespCommand where "Cmd_MemoryUsage \<equiv> 160"
abbreviation (input) Cmd_Mget :: RespCommand where "Cmd_Mget \<equiv> 161"
abbreviation (input) Cmd_ObjectEncoding :: RespCommand where "Cmd_ObjectEncoding \<equiv> 162"
abbreviation (input) Cmd_ObjectFreq :: RespCommand where "Cmd_ObjectFreq \<equiv> 163"
abbreviation (input) Cmd_ObjectIdletime :: RespCommand where "Cmd_ObjectIdletime \<equiv> 164"
abbreviation (input) Cmd_ObjectRefcount :: RespCommand where "Cmd_ObjectRefcount \<equiv> 165"
abbreviation (input) Cmd_Pexpiretime :: RespCommand where "Cmd_Pexpiretime \<equiv> 166"
abbreviation (input) Cmd_Pfcount :: RespCommand where "Cmd_Pfcount \<equiv> 167"
abbreviation (input) Cmd_Pttl :: RespCommand where "Cmd_Pttl \<equiv> 168"
abbreviation (input) Cmd_Scan :: RespCommand where "Cmd_Scan \<equiv> 169"
abbreviation (input) Cmd_Scard :: RespCommand where "Cmd_Scard \<equiv> 170"
abbreviation (input) Cmd_Sdiff :: RespCommand where "Cmd_Sdiff \<equiv> 171"
abbreviation (input) Cmd_Sinter :: RespCommand where "Cmd_Sinter \<equiv> 172"
abbreviation (input) Cmd_Sintercard :: RespCommand where "Cmd_Sintercard \<equiv> 173"
abbreviation (input) Cmd_Sismember :: RespCommand where "Cmd_Sismember \<equiv> 174"
abbreviation (input) Cmd_Smembers :: RespCommand where "Cmd_Smembers \<equiv> 175"
abbreviation (input) Cmd_Smismember :: RespCommand where "Cmd_Smismember \<equiv> 176"
abbreviation (input) Cmd_Spublish :: RespCommand where "Cmd_Spublish \<equiv> 177"
abbreviation (input) Cmd_Srandmember :: RespCommand where "Cmd_Srandmember \<equiv> 178"
abbreviation (input) Cmd_Sscan :: RespCommand where "Cmd_Sscan \<equiv> 179"
abbreviation (input) Cmd_Ssubscribe :: RespCommand where "Cmd_Ssubscribe \<equiv> 180"
abbreviation (input) Cmd_Strlen :: RespCommand where "Cmd_Strlen \<equiv> 181"
abbreviation (input) Cmd_Substr :: RespCommand where "Cmd_Substr \<equiv> 182"
abbreviation (input) Cmd_Sunion :: RespCommand where "Cmd_Sunion \<equiv> 183"
abbreviation (input) Cmd_Ttl :: RespCommand where "Cmd_Ttl \<equiv> 184"
abbreviation (input) Cmd_Type :: RespCommand where "Cmd_Type \<equiv> 185"
abbreviation (input) Cmd_Vcard :: RespCommand where "Cmd_Vcard \<equiv> 186"
abbreviation (input) Cmd_Vdim :: RespCommand where "Cmd_Vdim \<equiv> 187"
abbreviation (input) Cmd_Vemb :: RespCommand where "Cmd_Vemb \<equiv> 188"
abbreviation (input) Cmd_Vgetattr :: RespCommand where "Cmd_Vgetattr \<equiv> 189"
abbreviation (input) Cmd_Vinfo :: RespCommand where "Cmd_Vinfo \<equiv> 190"
abbreviation (input) Cmd_Vismember :: RespCommand where "Cmd_Vismember \<equiv> 191"
abbreviation (input) Cmd_Vlinks :: RespCommand where "Cmd_Vlinks \<equiv> 192"
abbreviation (input) Cmd_Vrandmember :: RespCommand where "Cmd_Vrandmember \<equiv> 193"
abbreviation (input) Cmd_Vsim :: RespCommand where "Cmd_Vsim \<equiv> 194"
abbreviation (input) Cmd_Watch :: RespCommand where "Cmd_Watch \<equiv> 195"
abbreviation (input) Cmd_Watchms :: RespCommand where "Cmd_Watchms \<equiv> 196"
abbreviation (input) Cmd_Watchos :: RespCommand where "Cmd_Watchos \<equiv> 197"
abbreviation (input) Cmd_Zcard :: RespCommand where "Cmd_Zcard \<equiv> 198"
abbreviation (input) Cmd_Zcount :: RespCommand where "Cmd_Zcount \<equiv> 199"
abbreviation (input) Cmd_Zdiff :: RespCommand where "Cmd_Zdiff \<equiv> 200"
abbreviation (input) Cmd_Zinter :: RespCommand where "Cmd_Zinter \<equiv> 201"
abbreviation (input) Cmd_Zintercard :: RespCommand where "Cmd_Zintercard \<equiv> 202"
abbreviation (input) Cmd_Zlexcount :: RespCommand where "Cmd_Zlexcount \<equiv> 203"
abbreviation (input) Cmd_Zmscore :: RespCommand where "Cmd_Zmscore \<equiv> 204"
abbreviation (input) Cmd_Zrandmember :: RespCommand where "Cmd_Zrandmember \<equiv> 205"
abbreviation (input) Cmd_Zrange :: RespCommand where "Cmd_Zrange \<equiv> 206"
abbreviation (input) Cmd_Zrangebylex :: RespCommand where "Cmd_Zrangebylex \<equiv> 207"
abbreviation (input) Cmd_Zrangebyscore :: RespCommand where "Cmd_Zrangebyscore \<equiv> 208"
abbreviation (input) Cmd_Zrank :: RespCommand where "Cmd_Zrank \<equiv> 209"
abbreviation (input) Cmd_Zrevrange :: RespCommand where "Cmd_Zrevrange \<equiv> 210"
abbreviation (input) Cmd_Zrevrangebylex :: RespCommand where "Cmd_Zrevrangebylex \<equiv> 211"
abbreviation (input) Cmd_Zrevrangebyscore :: RespCommand where "Cmd_Zrevrangebyscore \<equiv> 212"
abbreviation (input) Cmd_Zrevrank :: RespCommand where "Cmd_Zrevrank \<equiv> 213"
abbreviation (input) Cmd_Zttl :: RespCommand where "Cmd_Zttl \<equiv> 214"
abbreviation (input) Cmd_Zpttl :: RespCommand where "Cmd_Zpttl \<equiv> 215"
abbreviation (input) Cmd_Zexpiretime :: RespCommand where "Cmd_Zexpiretime \<equiv> 216"
abbreviation (input) Cmd_Zpexpiretime :: RespCommand where "Cmd_Zpexpiretime \<equiv> 217"
abbreviation (input) Cmd_Zscan :: RespCommand where "Cmd_Zscan \<equiv> 218"
abbreviation (input) Cmd_Zscore :: RespCommand where "Cmd_Zscore \<equiv> 219"
abbreviation (input) Cmd_Zunion :: RespCommand where "Cmd_Zunion \<equiv> 220"
abbreviation (input) Cmd_Riconfig :: RespCommand where "Cmd_Riconfig \<equiv> 221"
abbreviation (input) Cmd_Riexists :: RespCommand where "Cmd_Riexists \<equiv> 222"
abbreviation (input) Cmd_Riget :: RespCommand where "Cmd_Riget \<equiv> 223"
abbreviation (input) Cmd_Rimetrics :: RespCommand where "Cmd_Rimetrics \<equiv> 224"
abbreviation (input) Cmd_Rirange :: RespCommand where "Cmd_Rirange \<equiv> 225"
abbreviation (input) Cmd_Riscan :: RespCommand where "Cmd_Riscan \<equiv> 226"
abbreviation (input) Cmd_Eval :: RespCommand where "Cmd_Eval \<equiv> 227"
abbreviation (input) Cmd_Evalsha :: RespCommand where "Cmd_Evalsha \<equiv> 228"
abbreviation (input) Cmd_Async :: RespCommand where "Cmd_Async \<equiv> 229"
abbreviation (input) Cmd_Ping :: RespCommand where "Cmd_Ping \<equiv> 230"
abbreviation (input) Cmd_Pubsub :: RespCommand where "Cmd_Pubsub \<equiv> 231"
abbreviation (input) Cmd_PubsubChannels :: RespCommand where "Cmd_PubsubChannels \<equiv> 232"
abbreviation (input) Cmd_PubsubNumpat :: RespCommand where "Cmd_PubsubNumpat \<equiv> 233"
abbreviation (input) Cmd_PubsubNumsub :: RespCommand where "Cmd_PubsubNumsub \<equiv> 234"
abbreviation (input) Cmd_Publish :: RespCommand where "Cmd_Publish \<equiv> 235"
abbreviation (input) Cmd_Subscribe :: RespCommand where "Cmd_Subscribe \<equiv> 236"
abbreviation (input) Cmd_Psubscribe :: RespCommand where "Cmd_Psubscribe \<equiv> 237"
abbreviation (input) Cmd_Unsubscribe :: RespCommand where "Cmd_Unsubscribe \<equiv> 238"
abbreviation (input) Cmd_Punsubscribe :: RespCommand where "Cmd_Punsubscribe \<equiv> 239"
abbreviation (input) Cmd_Asking :: RespCommand where "Cmd_Asking \<equiv> 240"
abbreviation (input) Cmd_Select :: RespCommand where "Cmd_Select \<equiv> 241"
abbreviation (input) Cmd_Echo :: RespCommand where "Cmd_Echo \<equiv> 242"
abbreviation (input) Cmd_Client :: RespCommand where "Cmd_Client \<equiv> 243"
abbreviation (input) Cmd_ClientId :: RespCommand where "Cmd_ClientId \<equiv> 244"
abbreviation (input) Cmd_ClientInfo :: RespCommand where "Cmd_ClientInfo \<equiv> 245"
abbreviation (input) Cmd_ClientList :: RespCommand where "Cmd_ClientList \<equiv> 246"
abbreviation (input) Cmd_ClientKill :: RespCommand where "Cmd_ClientKill \<equiv> 247"
abbreviation (input) Cmd_ClientGetname :: RespCommand where "Cmd_ClientGetname \<equiv> 248"
abbreviation (input) Cmd_ClientSetname :: RespCommand where "Cmd_ClientSetname \<equiv> 249"
abbreviation (input) Cmd_ClientSetinfo :: RespCommand where "Cmd_ClientSetinfo \<equiv> 250"
abbreviation (input) Cmd_ClientUnblock :: RespCommand where "Cmd_ClientUnblock \<equiv> 251"
abbreviation (input) Cmd_Monitor :: RespCommand where "Cmd_Monitor \<equiv> 252"
abbreviation (input) Cmd_Module :: RespCommand where "Cmd_Module \<equiv> 253"
abbreviation (input) Cmd_ModuleLoadcs :: RespCommand where "Cmd_ModuleLoadcs \<equiv> 254"
abbreviation (input) Cmd_Registercs :: RespCommand where "Cmd_Registercs \<equiv> 255"
abbreviation (input) Cmd_Multi :: RespCommand where "Cmd_Multi \<equiv> 256"
abbreviation (input) Cmd_Exec :: RespCommand where "Cmd_Exec \<equiv> 257"
abbreviation (input) Cmd_Discard :: RespCommand where "Cmd_Discard \<equiv> 258"
abbreviation (input) Cmd_Unwatch :: RespCommand where "Cmd_Unwatch \<equiv> 259"
abbreviation (input) Cmd_Runtxp :: RespCommand where "Cmd_Runtxp \<equiv> 260"
abbreviation (input) Cmd_Readonly :: RespCommand where "Cmd_Readonly \<equiv> 261"
abbreviation (input) Cmd_Readwrite :: RespCommand where "Cmd_Readwrite \<equiv> 262"
abbreviation (input) Cmd_Replicaof :: RespCommand where "Cmd_Replicaof \<equiv> 263"
abbreviation (input) Cmd_Secondaryof :: RespCommand where "Cmd_Secondaryof \<equiv> 264"
abbreviation (input) Cmd_Info :: RespCommand where "Cmd_Info \<equiv> 265"
abbreviation (input) Cmd_Time :: RespCommand where "Cmd_Time \<equiv> 266"
abbreviation (input) Cmd_Role :: RespCommand where "Cmd_Role \<equiv> 267"
abbreviation (input) Cmd_Save :: RespCommand where "Cmd_Save \<equiv> 268"
abbreviation (input) Cmd_Expdelscan :: RespCommand where "Cmd_Expdelscan \<equiv> 269"
abbreviation (input) Cmd_Lastsave :: RespCommand where "Cmd_Lastsave \<equiv> 270"
abbreviation (input) Cmd_Bgsave :: RespCommand where "Cmd_Bgsave \<equiv> 271"
abbreviation (input) Cmd_Commitaof :: RespCommand where "Cmd_Commitaof \<equiv> 272"
abbreviation (input) Cmd_Failover :: RespCommand where "Cmd_Failover \<equiv> 273"
abbreviation (input) Cmd_CustomTxn :: RespCommand where "Cmd_CustomTxn \<equiv> 274"
abbreviation (input) Cmd_CustomRawStringCmd :: RespCommand where "Cmd_CustomRawStringCmd \<equiv> 275"
abbreviation (input) Cmd_CustomObjCmd :: RespCommand where "Cmd_CustomObjCmd \<equiv> 276"
abbreviation (input) Cmd_CustomProcedure :: RespCommand where "Cmd_CustomProcedure \<equiv> 277"
abbreviation (input) Cmd_Script :: RespCommand where "Cmd_Script \<equiv> 278"
abbreviation (input) Cmd_ScriptExists :: RespCommand where "Cmd_ScriptExists \<equiv> 279"
abbreviation (input) Cmd_ScriptFlush :: RespCommand where "Cmd_ScriptFlush \<equiv> 280"
abbreviation (input) Cmd_ScriptLoad :: RespCommand where "Cmd_ScriptLoad \<equiv> 281"
abbreviation (input) Cmd_Acl :: RespCommand where "Cmd_Acl \<equiv> 282"
abbreviation (input) Cmd_AclCat :: RespCommand where "Cmd_AclCat \<equiv> 283"
abbreviation (input) Cmd_AclDeluser :: RespCommand where "Cmd_AclDeluser \<equiv> 284"
abbreviation (input) Cmd_AclGenpass :: RespCommand where "Cmd_AclGenpass \<equiv> 285"
abbreviation (input) Cmd_AclGetuser :: RespCommand where "Cmd_AclGetuser \<equiv> 286"
abbreviation (input) Cmd_AclList :: RespCommand where "Cmd_AclList \<equiv> 287"
abbreviation (input) Cmd_AclLoad :: RespCommand where "Cmd_AclLoad \<equiv> 288"
abbreviation (input) Cmd_AclSave :: RespCommand where "Cmd_AclSave \<equiv> 289"
abbreviation (input) Cmd_AclSetuser :: RespCommand where "Cmd_AclSetuser \<equiv> 290"
abbreviation (input) Cmd_AclUsers :: RespCommand where "Cmd_AclUsers \<equiv> 291"
abbreviation (input) Cmd_AclWhoami :: RespCommand where "Cmd_AclWhoami \<equiv> 292"
abbreviation (input) Cmd_Command :: RespCommand where "Cmd_Command \<equiv> 293"
abbreviation (input) Cmd_CommandCount :: RespCommand where "Cmd_CommandCount \<equiv> 294"
abbreviation (input) Cmd_CommandDocs :: RespCommand where "Cmd_CommandDocs \<equiv> 295"
abbreviation (input) Cmd_CommandInfo :: RespCommand where "Cmd_CommandInfo \<equiv> 296"
abbreviation (input) Cmd_CommandGetkeys :: RespCommand where "Cmd_CommandGetkeys \<equiv> 297"
abbreviation (input) Cmd_CommandGetkeysandflags :: RespCommand where "Cmd_CommandGetkeysandflags \<equiv> 298"
abbreviation (input) Cmd_Memory :: RespCommand where "Cmd_Memory \<equiv> 299"
abbreviation (input) Cmd_Object :: RespCommand where "Cmd_Object \<equiv> 300"
abbreviation (input) Cmd_ObjectHelp :: RespCommand where "Cmd_ObjectHelp \<equiv> 301"
abbreviation (input) Cmd_Config :: RespCommand where "Cmd_Config \<equiv> 302"
abbreviation (input) Cmd_ConfigGet :: RespCommand where "Cmd_ConfigGet \<equiv> 303"
abbreviation (input) Cmd_ConfigRewrite :: RespCommand where "Cmd_ConfigRewrite \<equiv> 304"
abbreviation (input) Cmd_ConfigSet :: RespCommand where "Cmd_ConfigSet \<equiv> 305"
abbreviation (input) Cmd_Debug :: RespCommand where "Cmd_Debug \<equiv> 306"
abbreviation (input) Cmd_Latency :: RespCommand where "Cmd_Latency \<equiv> 307"
abbreviation (input) Cmd_LatencyHelp :: RespCommand where "Cmd_LatencyHelp \<equiv> 308"
abbreviation (input) Cmd_LatencyHistogram :: RespCommand where "Cmd_LatencyHistogram \<equiv> 309"
abbreviation (input) Cmd_LatencyReset :: RespCommand where "Cmd_LatencyReset \<equiv> 310"
abbreviation (input) Cmd_Slowlog :: RespCommand where "Cmd_Slowlog \<equiv> 311"
abbreviation (input) Cmd_SlowlogHelp :: RespCommand where "Cmd_SlowlogHelp \<equiv> 312"
abbreviation (input) Cmd_SlowlogLen :: RespCommand where "Cmd_SlowlogLen \<equiv> 313"
abbreviation (input) Cmd_SlowlogGet :: RespCommand where "Cmd_SlowlogGet \<equiv> 314"
abbreviation (input) Cmd_SlowlogReset :: RespCommand where "Cmd_SlowlogReset \<equiv> 315"
abbreviation (input) Cmd_Cluster :: RespCommand where "Cmd_Cluster \<equiv> 316"
abbreviation (input) Cmd_ClusterAddslots :: RespCommand where "Cmd_ClusterAddslots \<equiv> 317"
abbreviation (input) Cmd_ClusterAddslotsrange :: RespCommand where "Cmd_ClusterAddslotsrange \<equiv> 318"
abbreviation (input) Cmd_ClusterAdvanceTime :: RespCommand where "Cmd_ClusterAdvanceTime \<equiv> 319"
abbreviation (input) Cmd_ClusterAppendlog :: RespCommand where "Cmd_ClusterAppendlog \<equiv> 320"
abbreviation (input) Cmd_ClusterAttachSync :: RespCommand where "Cmd_ClusterAttachSync \<equiv> 321"
abbreviation (input) Cmd_ClusterBanlist :: RespCommand where "Cmd_ClusterBanlist \<equiv> 322"
abbreviation (input) Cmd_ClusterBeginReplicaRecover :: RespCommand where "Cmd_ClusterBeginReplicaRecover \<equiv> 323"
abbreviation (input) Cmd_ClusterBumpepoch :: RespCommand where "Cmd_ClusterBumpepoch \<equiv> 324"
abbreviation (input) Cmd_ClusterCountkeysinslot :: RespCommand where "Cmd_ClusterCountkeysinslot \<equiv> 325"
abbreviation (input) Cmd_ClusterDelkeysinslot :: RespCommand where "Cmd_ClusterDelkeysinslot \<equiv> 326"
abbreviation (input) Cmd_ClusterDelkeysinslotrange :: RespCommand where "Cmd_ClusterDelkeysinslotrange \<equiv> 327"
abbreviation (input) Cmd_ClusterDelslots :: RespCommand where "Cmd_ClusterDelslots \<equiv> 328"
abbreviation (input) Cmd_ClusterDelslotsrange :: RespCommand where "Cmd_ClusterDelslotsrange \<equiv> 329"
abbreviation (input) Cmd_ClusterEndpoint :: RespCommand where "Cmd_ClusterEndpoint \<equiv> 330"
abbreviation (input) Cmd_ClusterFailover :: RespCommand where "Cmd_ClusterFailover \<equiv> 331"
abbreviation (input) Cmd_ClusterFailreplicationoffset :: RespCommand where "Cmd_ClusterFailreplicationoffset \<equiv> 332"
abbreviation (input) Cmd_ClusterFailstopwrites :: RespCommand where "Cmd_ClusterFailstopwrites \<equiv> 333"
abbreviation (input) Cmd_ClusterFlushall :: RespCommand where "Cmd_ClusterFlushall \<equiv> 334"
abbreviation (input) Cmd_ClusterForget :: RespCommand where "Cmd_ClusterForget \<equiv> 335"
abbreviation (input) Cmd_ClusterGetkeysinslot :: RespCommand where "Cmd_ClusterGetkeysinslot \<equiv> 336"
abbreviation (input) Cmd_ClusterGossip :: RespCommand where "Cmd_ClusterGossip \<equiv> 337"
abbreviation (input) Cmd_ClusterHelp :: RespCommand where "Cmd_ClusterHelp \<equiv> 338"
abbreviation (input) Cmd_ClusterInfo :: RespCommand where "Cmd_ClusterInfo \<equiv> 339"
abbreviation (input) Cmd_ClusterInitiateReplicaSync :: RespCommand where "Cmd_ClusterInitiateReplicaSync \<equiv> 340"
abbreviation (input) Cmd_ClusterKeyslot :: RespCommand where "Cmd_ClusterKeyslot \<equiv> 341"
abbreviation (input) Cmd_ClusterMeet :: RespCommand where "Cmd_ClusterMeet \<equiv> 342"
abbreviation (input) Cmd_ClusterMigrate :: RespCommand where "Cmd_ClusterMigrate \<equiv> 343"
abbreviation (input) Cmd_ClusterMlogKeyTime :: RespCommand where "Cmd_ClusterMlogKeyTime \<equiv> 344"
abbreviation (input) Cmd_ClusterMtasks :: RespCommand where "Cmd_ClusterMtasks \<equiv> 345"
abbreviation (input) Cmd_ClusterMyid :: RespCommand where "Cmd_ClusterMyid \<equiv> 346"
abbreviation (input) Cmd_ClusterMyparentid :: RespCommand where "Cmd_ClusterMyparentid \<equiv> 347"
abbreviation (input) Cmd_ClusterNodes :: RespCommand where "Cmd_ClusterNodes \<equiv> 348"
abbreviation (input) Cmd_ClusterPublish :: RespCommand where "Cmd_ClusterPublish \<equiv> 349"
abbreviation (input) Cmd_ClusterSpublish :: RespCommand where "Cmd_ClusterSpublish \<equiv> 350"
abbreviation (input) Cmd_ClusterReplicas :: RespCommand where "Cmd_ClusterReplicas \<equiv> 351"
abbreviation (input) Cmd_ClusterReplicate :: RespCommand where "Cmd_ClusterReplicate \<equiv> 352"
abbreviation (input) Cmd_ClusterReserve :: RespCommand where "Cmd_ClusterReserve \<equiv> 353"
abbreviation (input) Cmd_ClusterReset :: RespCommand where "Cmd_ClusterReset \<equiv> 354"
abbreviation (input) Cmd_ClusterSendCkptFileSegment :: RespCommand where "Cmd_ClusterSendCkptFileSegment \<equiv> 355"
abbreviation (input) Cmd_ClusterSendCkptMetadata :: RespCommand where "Cmd_ClusterSendCkptMetadata \<equiv> 356"
abbreviation (input) Cmd_ClusterSetconfigepoch :: RespCommand where "Cmd_ClusterSetconfigepoch \<equiv> 357"
abbreviation (input) Cmd_ClusterSetslot :: RespCommand where "Cmd_ClusterSetslot \<equiv> 358"
abbreviation (input) Cmd_ClusterSetslotsrange :: RespCommand where "Cmd_ClusterSetslotsrange \<equiv> 359"
abbreviation (input) Cmd_ClusterShards :: RespCommand where "Cmd_ClusterShards \<equiv> 360"
abbreviation (input) Cmd_ClusterSlots :: RespCommand where "Cmd_ClusterSlots \<equiv> 361"
abbreviation (input) Cmd_ClusterSlotstate :: RespCommand where "Cmd_ClusterSlotstate \<equiv> 362"
abbreviation (input) Cmd_ClusterSnapshotData :: RespCommand where "Cmd_ClusterSnapshotData \<equiv> 363"
abbreviation (input) Cmd_ClusterSync :: RespCommand where "Cmd_ClusterSync \<equiv> 364"
abbreviation (input) Cmd_Auth :: RespCommand where "Cmd_Auth \<equiv> 365"
abbreviation (input) Cmd_Hello :: RespCommand where "Cmd_Hello \<equiv> 366"
abbreviation (input) Cmd_Quit :: RespCommand where "Cmd_Quit \<equiv> 367"
abbreviation (input) Cmd_Invalid :: RespCommand where "Cmd_Invalid \<equiv> 0xffff"

text \<open>The sections of the declaration.\<close>

definition write_commands :: "RespCommand list" where
  "write_commands =
     [Cmd_Append, Cmd_Bitfield, Cmd_Bzmpop, Cmd_Bzpopmax, Cmd_Bzpopmin, Cmd_Decr, Cmd_Decrby,
     Cmd_Del, Cmd_Delifexpim, Cmd_Delifgreater, Cmd_Expire, Cmd_Expireat, Cmd_Flushall,
     Cmd_Flushdb, Cmd_Geoadd, Cmd_Georadius, Cmd_Georadiusbymember, Cmd_Geosearchstore,
     Cmd_Getdel, Cmd_Getex, Cmd_Getset, Cmd_Hcollect, Cmd_Hdel, Cmd_Hexpire, Cmd_Hpexpire,
     Cmd_Hexpireat, Cmd_Hpexpireat, Cmd_Hpersist, Cmd_Hincrby, Cmd_Hincrbyfloat, Cmd_Hmset,
     Cmd_Hset, Cmd_Hsetnx, Cmd_Incr, Cmd_Incrby, Cmd_Incrbyfloat, Cmd_Linsert, Cmd_Lmove,
     Cmd_Lmpop, Cmd_Lpop, Cmd_Lpush, Cmd_Lpushx, Cmd_Lrem, Cmd_Lset, Cmd_Ltrim, Cmd_Blpop,
     Cmd_Brpop, Cmd_Blmove, Cmd_Brpoplpush, Cmd_Blmpop, Cmd_Migrate, Cmd_Mset, Cmd_Msetnx,
     Cmd_Persist, Cmd_Pexpire, Cmd_Pexpireat, Cmd_Pfadd, Cmd_Pfmerge, Cmd_Psetex, Cmd_Rename,
     Cmd_Ricreate, Cmd_Ridel, Cmd_Ripromote, Cmd_Rirestore, Cmd_Riset, Cmd_Restore,
     Cmd_Renamenx, Cmd_Rpop, Cmd_Rpoplpush, Cmd_Rpush, Cmd_Rpushx, Cmd_Sadd, Cmd_Sdiffstore,
     Cmd_Set, Cmd_Setbit, Cmd_Setex, Cmd_Setexnx, Cmd_Setexxx, Cmd_Setnx, Cmd_Setifmatch,
     Cmd_Setifgreater, Cmd_Setwithetag, Cmd_Setkeepttl, Cmd_Setkeepttlxx, Cmd_Setrange,
     Cmd_Sinterstore, Cmd_Smove, Cmd_Spop, Cmd_Srem, Cmd_Sunionstore, Cmd_Swapdb, Cmd_Unlink,
     Cmd_Vadd, Cmd_Vrem, Cmd_Vsetattr, Cmd_Zadd, Cmd_Zcollect, Cmd_Zdiffstore, Cmd_Zexpire,
     Cmd_Zpexpire, Cmd_Zexpireat, Cmd_Zpexpireat, Cmd_Zpersist, Cmd_Zincrby, Cmd_Zmpop,
     Cmd_Zinterstore, Cmd_Zpopmax, Cmd_Zpopmin, Cmd_Zrangestore, Cmd_Zrem, Cmd_Zremrangebylex,
     Cmd_Zremrangebyrank, Cmd_Zremrangebyscore, Cmd_Zunionstore, Cmd_Bitop, Cmd_BitopAnd,
     Cmd_BitopOr, Cmd_BitopXor, Cmd_BitopNot, Cmd_BitopDiff]"

definition read_commands :: "RespCommand list" where
  "read_commands =
     [Cmd_Bitcount, Cmd_BitfieldRo, Cmd_Bitpos, Cmd_Coscan, Cmd_Dbsize, Cmd_Dump, Cmd_Exists,
     Cmd_Expiretime, Cmd_Geodist, Cmd_Geohash, Cmd_Geopos, Cmd_GeoradiusRo,
     Cmd_GeoradiusbymemberRo, Cmd_Geosearch, Cmd_Get, Cmd_Getbit, Cmd_Getifnotmatch,
     Cmd_Getrange, Cmd_Getwithetag, Cmd_Hexists, Cmd_Hget, Cmd_Hgetall, Cmd_Hkeys, Cmd_Hlen,
     Cmd_Hmget, Cmd_Hrandfield, Cmd_Hscan, Cmd_Hstrlen, Cmd_Hvals, Cmd_Keys, Cmd_Lcs, Cmd_Httl,
     Cmd_Hpttl, Cmd_Hexpiretime, Cmd_Hpexpiretime, Cmd_Lindex, Cmd_Llen, Cmd_Lpos, Cmd_Lrange,
     Cmd_MemoryUsage, Cmd_Mget, Cmd_ObjectEncoding, Cmd_ObjectFreq, Cmd_ObjectIdletime,
     Cmd_ObjectRefcount, Cmd_Pexpiretime, Cmd_Pfcount, Cmd_Pttl, Cmd_Scan, Cmd_Scard, Cmd_Sdiff,
     Cmd_Sinter, Cmd_Sintercard, Cmd_Sismember, Cmd_Smembers, Cmd_Smismember, Cmd_Spublish,
     Cmd_Srandmember, Cmd_Sscan, Cmd_Ssubscribe, Cmd_Strlen, Cmd_Substr, Cmd_Sunion, Cmd_Ttl,
     Cmd_Type, Cmd_Vcard, Cmd_Vdim, Cmd_Vemb, Cmd_Vgetattr, Cmd_Vinfo, Cmd_Vismember,
     Cmd_Vlinks, Cmd_Vrandmember, Cmd_Vsim, Cmd_Watch, Cmd_Watchms, Cmd_Watchos, Cmd_Zcard,
     Cmd_Zcount, Cmd_Zdiff, Cmd_Zinter, Cmd_Zintercard, Cmd_Zlexcount, Cmd_Zmscore,
     Cmd_Zrandmember, Cmd_Zrange, Cmd_Zrangebylex, Cmd_Zrangebyscore, Cmd_Zrank, Cmd_Zrevrange,
     Cmd_Zrevrangebylex, Cmd_Zrevrangebyscore, Cmd_Zrevrank, Cmd_Zttl, Cmd_Zpttl,
     Cmd_Zexpiretime, Cmd_Zpexpiretime, Cmd_Zscan, Cmd_Zscore, Cmd_Zunion, Cmd_Riconfig,
     Cmd_Riexists, Cmd_Riget, Cmd_Rimetrics, Cmd_Rirange, Cmd_Riscan]"

definition script_commands :: "RespCommand list" where
  "script_commands =
     [Cmd_Eval, Cmd_Evalsha]"

definition control_commands :: "RespCommand list" where
  "control_commands =
     [Cmd_Async, Cmd_Ping, Cmd_Pubsub, Cmd_PubsubChannels, Cmd_PubsubNumpat, Cmd_PubsubNumsub,
     Cmd_Publish, Cmd_Subscribe, Cmd_Psubscribe, Cmd_Unsubscribe, Cmd_Punsubscribe, Cmd_Asking,
     Cmd_Select, Cmd_Echo, Cmd_Client, Cmd_ClientId, Cmd_ClientInfo, Cmd_ClientList,
     Cmd_ClientKill, Cmd_ClientGetname, Cmd_ClientSetname, Cmd_ClientSetinfo, Cmd_ClientUnblock,
     Cmd_Monitor, Cmd_Module, Cmd_ModuleLoadcs, Cmd_Registercs, Cmd_Multi, Cmd_Exec,
     Cmd_Discard, Cmd_Unwatch, Cmd_Runtxp, Cmd_Readonly, Cmd_Readwrite, Cmd_Replicaof,
     Cmd_Secondaryof, Cmd_Info, Cmd_Time, Cmd_Role, Cmd_Save, Cmd_Expdelscan, Cmd_Lastsave,
     Cmd_Bgsave, Cmd_Commitaof, Cmd_Failover, Cmd_CustomTxn, Cmd_CustomRawStringCmd,
     Cmd_CustomObjCmd, Cmd_CustomProcedure, Cmd_Script, Cmd_ScriptExists, Cmd_ScriptFlush,
     Cmd_ScriptLoad, Cmd_Acl, Cmd_AclCat, Cmd_AclDeluser, Cmd_AclGenpass, Cmd_AclGetuser,
     Cmd_AclList, Cmd_AclLoad, Cmd_AclSave, Cmd_AclSetuser, Cmd_AclUsers, Cmd_AclWhoami,
     Cmd_Command, Cmd_CommandCount, Cmd_CommandDocs, Cmd_CommandInfo, Cmd_CommandGetkeys,
     Cmd_CommandGetkeysandflags, Cmd_Memory, Cmd_Object, Cmd_ObjectHelp, Cmd_Config,
     Cmd_ConfigGet, Cmd_ConfigRewrite, Cmd_ConfigSet, Cmd_Debug, Cmd_Latency, Cmd_LatencyHelp,
     Cmd_LatencyHistogram, Cmd_LatencyReset, Cmd_Slowlog, Cmd_SlowlogHelp, Cmd_SlowlogLen,
     Cmd_SlowlogGet, Cmd_SlowlogReset, Cmd_Cluster]"

definition cluster_subcommands :: "RespCommand list" where
  "cluster_subcommands =
     [Cmd_ClusterAddslots, Cmd_ClusterAddslotsrange, Cmd_ClusterAdvanceTime,
     Cmd_ClusterAppendlog, Cmd_ClusterAttachSync, Cmd_ClusterBanlist,
     Cmd_ClusterBeginReplicaRecover, Cmd_ClusterBumpepoch, Cmd_ClusterCountkeysinslot,
     Cmd_ClusterDelkeysinslot, Cmd_ClusterDelkeysinslotrange, Cmd_ClusterDelslots,
     Cmd_ClusterDelslotsrange, Cmd_ClusterEndpoint, Cmd_ClusterFailover,
     Cmd_ClusterFailreplicationoffset, Cmd_ClusterFailstopwrites, Cmd_ClusterFlushall,
     Cmd_ClusterForget, Cmd_ClusterGetkeysinslot, Cmd_ClusterGossip, Cmd_ClusterHelp,
     Cmd_ClusterInfo, Cmd_ClusterInitiateReplicaSync, Cmd_ClusterKeyslot, Cmd_ClusterMeet,
     Cmd_ClusterMigrate, Cmd_ClusterMlogKeyTime, Cmd_ClusterMtasks, Cmd_ClusterMyid,
     Cmd_ClusterMyparentid, Cmd_ClusterNodes, Cmd_ClusterPublish, Cmd_ClusterSpublish,
     Cmd_ClusterReplicas, Cmd_ClusterReplicate, Cmd_ClusterReserve, Cmd_ClusterReset,
     Cmd_ClusterSendCkptFileSegment, Cmd_ClusterSendCkptMetadata, Cmd_ClusterSetconfigepoch,
     Cmd_ClusterSetslot, Cmd_ClusterSetslotsrange, Cmd_ClusterShards, Cmd_ClusterSlots,
     Cmd_ClusterSlotstate, Cmd_ClusterSnapshotData, Cmd_ClusterSync]"

definition no_auth_commands :: "RespCommand list" where
  "no_auth_commands =
     [Cmd_Auth, Cmd_Hello, Cmd_Quit]"

section \<open>Names\<close>

definition as_str_write :: "(RespCommand \<times> string) list" where
  "as_str_write =
     [(Cmd_None, ''NONE''), (Cmd_Append, ''APPEND''), (Cmd_Bitfield, ''BITFIELD''),
     (Cmd_Bzmpop, ''BZMPOP''), (Cmd_Bzpopmax, ''BZPOPMAX''), (Cmd_Bzpopmin, ''BZPOPMIN''),
     (Cmd_Decr, ''DECR''), (Cmd_Decrby, ''DECRBY''), (Cmd_Del, ''DEL''),
     (Cmd_Delifexpim, ''DELIFEXPIM''), (Cmd_Delifgreater, ''DELIFGREATER''),
     (Cmd_Expire, ''EXPIRE''), (Cmd_Expireat, ''EXPIREAT''), (Cmd_Flushall, ''FLUSHALL''),
     (Cmd_Flushdb, ''FLUSHDB''), (Cmd_Geoadd, ''GEOADD''), (Cmd_Georadius, ''GEORADIUS''),
     (Cmd_Georadiusbymember, ''GEORADIUSBYMEMBER''), (Cmd_Geosearchstore, ''GEOSEARCHSTORE''),
     (Cmd_Getdel, ''GETDEL''), (Cmd_Getex, ''GETEX''), (Cmd_Getset, ''GETSET''),
     (Cmd_Hcollect, ''HCOLLECT''), (Cmd_Hdel, ''HDEL''), (Cmd_Hexpire, ''HEXPIRE''),
     (Cmd_Hpexpire, ''HPEXPIRE''), (Cmd_Hexpireat, ''HEXPIREAT''),
     (Cmd_Hpexpireat, ''HPEXPIREAT''), (Cmd_Hpersist, ''HPERSIST''), (Cmd_Hincrby, ''HINCRBY''),
     (Cmd_Hincrbyfloat, ''HINCRBYFLOAT''), (Cmd_Hmset, ''HMSET''), (Cmd_Hset, ''HSET''),
     (Cmd_Hsetnx, ''HSETNX''), (Cmd_Incr, ''INCR''), (Cmd_Incrby, ''INCRBY''),
     (Cmd_Incrbyfloat, ''INCRBYFLOAT''), (Cmd_Linsert, ''LINSERT''), (Cmd_Lmove, ''LMOVE''),
     (Cmd_Lmpop, ''LMPOP''), (Cmd_Lpop, ''LPOP''), (Cmd_Lpush, ''LPUSH''),
     (Cmd_Lpushx, ''LPUSHX''), (Cmd_Lrem, ''LREM''), (Cmd_Lset, ''LSET''),
     (Cmd_Ltrim, ''LTRIM''), (Cmd_Blpop, ''BLPOP''), (Cmd_Brpop, ''BRPOP''),
     (Cmd_Blmove, ''BLMOVE''), (Cmd_Brpoplpush, ''BRPOPLPUSH''), (Cmd_Blmpop, ''BLMPOP''),
     (Cmd_Migrate, ''MIGRATE''), (Cmd_Mset, ''MSET''), (Cmd_Msetnx, ''MSETNX''),
     (Cmd_Persist, ''PERSIST''), (Cmd_Pexpire, ''PEXPIRE''), (Cmd_Pexpireat, ''PEXPIREAT''),
     (Cmd_Pfadd, ''PFADD''), (Cmd_Pfmerge, ''PFMERGE''), (Cmd_Psetex, ''PSETEX''),
     (Cmd_Rename, ''RENAME''), (Cmd_Ricreate, ''RICREATE''), (Cmd_Ridel, ''RIDEL''),
     (Cmd_Ripromote, ''RIPROMOTE''), (Cmd_Rirestore, ''RIRESTORE''), (Cmd_Riset, ''RISET''),
     (Cmd_Restore, ''RESTORE''), (Cmd_Renamenx, ''RENAMENX''), (Cmd_Rpop, ''RPOP''),
     (Cmd_Rpoplpush, ''RPOPLPUSH''), (Cmd_Rpush, ''RPUSH''), (Cmd_Rpushx, ''RPUSHX''),
     (Cmd_Sadd, ''SADD''), (Cmd_Sdiffstore, ''SDIFFSTORE''), (Cmd_Set, ''SET''),
     (Cmd_Setbit, ''SETBIT''), (Cmd_Setex, ''SETEX''), (Cmd_Setexnx, ''SETEXNX''),
     (Cmd_Setexxx, ''SETEXXX''), (Cmd_Setnx, ''SETNX''), (Cmd_Setifmatch, ''SETIFMATCH''),
     (Cmd_Setifgreater, ''SETIFGREATER''), (Cmd_Setwithetag, ''SETWITHETAG''),
     (Cmd_Setkeepttl, ''SETKEEPTTL''), (Cmd_Setkeepttlxx, ''SETKEEPTTLXX''),
     (Cmd_Setrange, ''SETRANGE''), (Cmd_Sinterstore, ''SINTERSTORE''), (Cmd_Smove, ''SMOVE''),
     (Cmd_Spop, ''SPOP''), (Cmd_Srem, ''SREM''), (Cmd_Sunionstore, ''SUNIONSTORE''),
     (Cmd_Swapdb, ''SWAPDB''), (Cmd_Unlink, ''UNLINK''), (Cmd_Vadd, ''VADD''),
     (Cmd_Vrem, ''VREM''), (Cmd_Vsetattr, ''VSETATTR''), (Cmd_Zadd, ''ZADD''),
     (Cmd_Zcollect, ''ZCOLLECT''), (Cmd_Zdiffstore, ''ZDIFFSTORE''), (Cmd_Zexpire, ''ZEXPIRE''),
     (Cmd_Zpexpire, ''ZPEXPIRE''), (Cmd_Zexpireat, ''ZEXPIREAT''),
     (Cmd_Zpexpireat, ''ZPEXPIREAT''), (Cmd_Zpersist, ''ZPERSIST''), (Cmd_Zincrby, ''ZINCRBY''),
     (Cmd_Zmpop, ''ZMPOP''), (Cmd_Zinterstore, ''ZINTERSTORE''), (Cmd_Zpopmax, ''ZPOPMAX''),
     (Cmd_Zpopmin, ''ZPOPMIN''), (Cmd_Zrangestore, ''ZRANGESTORE''), (Cmd_Zrem, ''ZREM''),
     (Cmd_Zremrangebylex, ''ZREMRANGEBYLEX''), (Cmd_Zremrangebyrank, ''ZREMRANGEBYRANK''),
     (Cmd_Zremrangebyscore, ''ZREMRANGEBYSCORE''), (Cmd_Zunionstore, ''ZUNIONSTORE''),
     (Cmd_Bitop, ''BITOP''), (Cmd_BitopAnd, ''BITOP_AND''), (Cmd_BitopOr, ''BITOP_OR''),
     (Cmd_BitopXor, ''BITOP_XOR''), (Cmd_BitopNot, ''BITOP_NOT''),
     (Cmd_BitopDiff, ''BITOP_DIFF'')]"

definition as_str_read :: "(RespCommand \<times> string) list" where
  "as_str_read =
     [(Cmd_Bitcount, ''BITCOUNT''), (Cmd_BitfieldRo, ''BITFIELD_RO''), (Cmd_Bitpos, ''BITPOS''),
     (Cmd_Coscan, ''COSCAN''), (Cmd_Dbsize, ''DBSIZE''), (Cmd_Dump, ''DUMP''),
     (Cmd_Exists, ''EXISTS''), (Cmd_Expiretime, ''EXPIRETIME''), (Cmd_Geodist, ''GEODIST''),
     (Cmd_Geohash, ''GEOHASH''), (Cmd_Geopos, ''GEOPOS''), (Cmd_GeoradiusRo, ''GEORADIUS_RO''),
     (Cmd_GeoradiusbymemberRo, ''GEORADIUSBYMEMBER_RO''), (Cmd_Geosearch, ''GEOSEARCH''),
     (Cmd_Get, ''GET''), (Cmd_Getbit, ''GETBIT''), (Cmd_Getifnotmatch, ''GETIFNOTMATCH''),
     (Cmd_Getrange, ''GETRANGE''), (Cmd_Getwithetag, ''GETWITHETAG''),
     (Cmd_Hexists, ''HEXISTS''), (Cmd_Hget, ''HGET''), (Cmd_Hgetall, ''HGETALL''),
     (Cmd_Hkeys, ''HKEYS''), (Cmd_Hlen, ''HLEN''), (Cmd_Hmget, ''HMGET''),
     (Cmd_Hrandfield, ''HRANDFIELD''), (Cmd_Hscan, ''HSCAN''), (Cmd_Hstrlen, ''HSTRLEN''),
     (Cmd_Hvals, ''HVALS''), (Cmd_Keys, ''KEYS''), (Cmd_Lcs, ''LCS''), (Cmd_Httl, ''HTTL''),
     (Cmd_Hpttl, ''HPTTL''), (Cmd_Hexpiretime, ''HEXPIRETIME''),
     (Cmd_Hpexpiretime, ''HPEXPIRETIME''), (Cmd_Lindex, ''LINDEX''), (Cmd_Llen, ''LLEN''),
     (Cmd_Lpos, ''LPOS''), (Cmd_Lrange, ''LRANGE''), (Cmd_MemoryUsage, ''MEMORY_USAGE''),
     (Cmd_Mget, ''MGET''), (Cmd_ObjectEncoding, ''OBJECT_ENCODING''),
     (Cmd_ObjectFreq, ''OBJECT_FREQ''), (Cmd_ObjectIdletime, ''OBJECT_IDLETIME''),
     (Cmd_ObjectRefcount, ''OBJECT_REFCOUNT''), (Cmd_Pexpiretime, ''PEXPIRETIME''),
     (Cmd_Pfcount, ''PFCOUNT''), (Cmd_Pttl, ''PTTL''), (Cmd_Scan, ''SCAN''),
     (Cmd_Scard, ''SCARD''), (Cmd_Sdiff, ''SDIFF''), (Cmd_Sinter, ''SINTER''),
     (Cmd_Sintercard, ''SINTERCARD''), (Cmd_Sismember, ''SISMEMBER''),
     (Cmd_Smembers, ''SMEMBERS''), (Cmd_Smismember, ''SMISMEMBER''),
     (Cmd_Spublish, ''SPUBLISH''), (Cmd_Srandmember, ''SRANDMEMBER''), (Cmd_Sscan, ''SSCAN''),
     (Cmd_Ssubscribe, ''SSUBSCRIBE''), (Cmd_Strlen, ''STRLEN''), (Cmd_Substr, ''SUBSTR''),
     (Cmd_Sunion, ''SUNION''), (Cmd_Ttl, ''TTL''), (Cmd_Type, ''TYPE''), (Cmd_Vcard, ''VCARD''),
     (Cmd_Vdim, ''VDIM''), (Cmd_Vemb, ''VEMB''), (Cmd_Vgetattr, ''VGETATTR''),
     (Cmd_Vinfo, ''VINFO''), (Cmd_Vismember, ''VISMEMBER''), (Cmd_Vlinks, ''VLINKS''),
     (Cmd_Vrandmember, ''VRANDMEMBER''), (Cmd_Vsim, ''VSIM''), (Cmd_Watch, ''WATCH''),
     (Cmd_Watchms, ''WATCHMS''), (Cmd_Watchos, ''WATCHOS''), (Cmd_Zcard, ''ZCARD''),
     (Cmd_Zcount, ''ZCOUNT''), (Cmd_Zdiff, ''ZDIFF''), (Cmd_Zinter, ''ZINTER''),
     (Cmd_Zintercard, ''ZINTERCARD''), (Cmd_Zlexcount, ''ZLEXCOUNT''),
     (Cmd_Zmscore, ''ZMSCORE''), (Cmd_Zrandmember, ''ZRANDMEMBER''), (Cmd_Zrange, ''ZRANGE''),
     (Cmd_Zrangebylex, ''ZRANGEBYLEX''), (Cmd_Zrangebyscore, ''ZRANGEBYSCORE''),
     (Cmd_Zrank, ''ZRANK''), (Cmd_Zrevrange, ''ZREVRANGE''),
     (Cmd_Zrevrangebylex, ''ZREVRANGEBYLEX''), (Cmd_Zrevrangebyscore, ''ZREVRANGEBYSCORE''),
     (Cmd_Zrevrank, ''ZREVRANK''), (Cmd_Zttl, ''ZTTL''), (Cmd_Zpttl, ''ZPTTL''),
     (Cmd_Zexpiretime, ''ZEXPIRETIME''), (Cmd_Zpexpiretime, ''ZPEXPIRETIME''),
     (Cmd_Zscan, ''ZSCAN''), (Cmd_Zscore, ''ZSCORE''), (Cmd_Zunion, ''ZUNION''),
     (Cmd_Riconfig, ''RICONFIG''), (Cmd_Riexists, ''RIEXISTS''), (Cmd_Riget, ''RIGET''),
     (Cmd_Rimetrics, ''RIMETRICS''), (Cmd_Rirange, ''RIRANGE''), (Cmd_Riscan, ''RISCAN''),
     (Cmd_Eval, ''EVAL''), (Cmd_Evalsha, ''EVALSHA'')]"

definition as_str_control :: "(RespCommand \<times> string) list" where
  "as_str_control =
     [(Cmd_Async, ''ASYNC''), (Cmd_Ping, ''PING''), (Cmd_Pubsub, ''PUBSUB''),
     (Cmd_PubsubChannels, ''PUBSUB_CHANNELS''), (Cmd_PubsubNumpat, ''PUBSUB_NUMPAT''),
     (Cmd_PubsubNumsub, ''PUBSUB_NUMSUB''), (Cmd_Publish, ''PUBLISH''),
     (Cmd_Subscribe, ''SUBSCRIBE''), (Cmd_Psubscribe, ''PSUBSCRIBE''),
     (Cmd_Unsubscribe, ''UNSUBSCRIBE''), (Cmd_Punsubscribe, ''PUNSUBSCRIBE''),
     (Cmd_Asking, ''ASKING''), (Cmd_Select, ''SELECT''), (Cmd_Echo, ''ECHO''),
     (Cmd_Client, ''CLIENT''), (Cmd_ClientId, ''CLIENT_ID''), (Cmd_ClientInfo, ''CLIENT_INFO''),
     (Cmd_ClientList, ''CLIENT_LIST''), (Cmd_ClientKill, ''CLIENT_KILL''),
     (Cmd_ClientGetname, ''CLIENT_GETNAME''), (Cmd_ClientSetname, ''CLIENT_SETNAME''),
     (Cmd_ClientSetinfo, ''CLIENT_SETINFO''), (Cmd_ClientUnblock, ''CLIENT_UNBLOCK''),
     (Cmd_Monitor, ''MONITOR''), (Cmd_Module, ''MODULE''),
     (Cmd_ModuleLoadcs, ''MODULE_LOADCS''), (Cmd_Registercs, ''REGISTERCS''),
     (Cmd_Multi, ''MULTI''), (Cmd_Exec, ''EXEC''), (Cmd_Discard, ''DISCARD''),
     (Cmd_Unwatch, ''UNWATCH''), (Cmd_Runtxp, ''RUNTXP''), (Cmd_Readonly, ''READONLY''),
     (Cmd_Readwrite, ''READWRITE''), (Cmd_Replicaof, ''REPLICAOF''),
     (Cmd_Secondaryof, ''SECONDARYOF''), (Cmd_Info, ''INFO''), (Cmd_Time, ''TIME''),
     (Cmd_Role, ''ROLE''), (Cmd_Save, ''SAVE''), (Cmd_Expdelscan, ''EXPDELSCAN''),
     (Cmd_Lastsave, ''LASTSAVE''), (Cmd_Bgsave, ''BGSAVE''), (Cmd_Commitaof, ''COMMITAOF''),
     (Cmd_Failover, ''FAILOVER''), (Cmd_CustomTxn, ''CustomTxn''),
     (Cmd_CustomRawStringCmd, ''CustomRawStringCmd''), (Cmd_CustomObjCmd, ''CustomObjCmd''),
     (Cmd_CustomProcedure, ''CustomProcedure''), (Cmd_Script, ''SCRIPT''),
     (Cmd_ScriptExists, ''SCRIPT_EXISTS''), (Cmd_ScriptFlush, ''SCRIPT_FLUSH''),
     (Cmd_ScriptLoad, ''SCRIPT_LOAD''), (Cmd_Acl, ''ACL''), (Cmd_AclCat, ''ACL_CAT''),
     (Cmd_AclDeluser, ''ACL_DELUSER''), (Cmd_AclGenpass, ''ACL_GENPASS''),
     (Cmd_AclGetuser, ''ACL_GETUSER''), (Cmd_AclList, ''ACL_LIST''),
     (Cmd_AclLoad, ''ACL_LOAD''), (Cmd_AclSave, ''ACL_SAVE''),
     (Cmd_AclSetuser, ''ACL_SETUSER''), (Cmd_AclUsers, ''ACL_USERS''),
     (Cmd_AclWhoami, ''ACL_WHOAMI''), (Cmd_Command, ''COMMAND''),
     (Cmd_CommandCount, ''COMMAND_COUNT''), (Cmd_CommandDocs, ''COMMAND_DOCS''),
     (Cmd_CommandInfo, ''COMMAND_INFO''), (Cmd_CommandGetkeys, ''COMMAND_GETKEYS''),
     (Cmd_CommandGetkeysandflags, ''COMMAND_GETKEYSANDFLAGS''), (Cmd_Memory, ''MEMORY''),
     (Cmd_Object, ''OBJECT''), (Cmd_ObjectHelp, ''OBJECT_HELP''), (Cmd_Config, ''CONFIG''),
     (Cmd_ConfigGet, ''CONFIG_GET''), (Cmd_ConfigRewrite, ''CONFIG_REWRITE''),
     (Cmd_ConfigSet, ''CONFIG_SET''), (Cmd_Debug, ''DEBUG''), (Cmd_Latency, ''LATENCY''),
     (Cmd_LatencyHelp, ''LATENCY_HELP''), (Cmd_LatencyHistogram, ''LATENCY_HISTOGRAM''),
     (Cmd_LatencyReset, ''LATENCY_RESET''), (Cmd_Slowlog, ''SLOWLOG''),
     (Cmd_SlowlogHelp, ''SLOWLOG_HELP''), (Cmd_SlowlogLen, ''SLOWLOG_LEN''),
     (Cmd_SlowlogGet, ''SLOWLOG_GET''), (Cmd_SlowlogReset, ''SLOWLOG_RESET''),
     (Cmd_Cluster, ''CLUSTER'')]"

definition as_str_cluster :: "(RespCommand \<times> string) list" where
  "as_str_cluster =
     [(Cmd_ClusterAddslots, ''CLUSTER_ADDSLOTS''),
     (Cmd_ClusterAddslotsrange, ''CLUSTER_ADDSLOTSRANGE''),
     (Cmd_ClusterAdvanceTime, ''CLUSTER_ADVANCE_TIME''),
     (Cmd_ClusterAppendlog, ''CLUSTER_APPENDLOG''),
     (Cmd_ClusterAttachSync, ''CLUSTER_ATTACH_SYNC''),
     (Cmd_ClusterBanlist, ''CLUSTER_BANLIST''),
     (Cmd_ClusterBeginReplicaRecover, ''CLUSTER_BEGIN_REPLICA_RECOVER''),
     (Cmd_ClusterBumpepoch, ''CLUSTER_BUMPEPOCH''),
     (Cmd_ClusterCountkeysinslot, ''CLUSTER_COUNTKEYSINSLOT''),
     (Cmd_ClusterDelkeysinslot, ''CLUSTER_DELKEYSINSLOT''),
     (Cmd_ClusterDelkeysinslotrange, ''CLUSTER_DELKEYSINSLOTRANGE''),
     (Cmd_ClusterDelslots, ''CLUSTER_DELSLOTS''),
     (Cmd_ClusterDelslotsrange, ''CLUSTER_DELSLOTSRANGE''),
     (Cmd_ClusterEndpoint, ''CLUSTER_ENDPOINT''), (Cmd_ClusterFailover, ''CLUSTER_FAILOVER''),
     (Cmd_ClusterFailreplicationoffset, ''CLUSTER_FAILREPLICATIONOFFSET''),
     (Cmd_ClusterFailstopwrites, ''CLUSTER_FAILSTOPWRITES''),
     (Cmd_ClusterFlushall, ''CLUSTER_FLUSHALL''), (Cmd_ClusterForget, ''CLUSTER_FORGET''),
     (Cmd_ClusterGetkeysinslot, ''CLUSTER_GETKEYSINSLOT''),
     (Cmd_ClusterGossip, ''CLUSTER_GOSSIP''), (Cmd_ClusterHelp, ''CLUSTER_HELP''),
     (Cmd_ClusterInfo, ''CLUSTER_INFO''),
     (Cmd_ClusterInitiateReplicaSync, ''CLUSTER_INITIATE_REPLICA_SYNC''),
     (Cmd_ClusterKeyslot, ''CLUSTER_KEYSLOT''), (Cmd_ClusterMeet, ''CLUSTER_MEET''),
     (Cmd_ClusterMigrate, ''CLUSTER_MIGRATE''),
     (Cmd_ClusterMlogKeyTime, ''CLUSTER_MLOG_KEY_TIME''),
     (Cmd_ClusterMtasks, ''CLUSTER_MTASKS''), (Cmd_ClusterMyid, ''CLUSTER_MYID''),
     (Cmd_ClusterMyparentid, ''CLUSTER_MYPARENTID''), (Cmd_ClusterNodes, ''CLUSTER_NODES''),
     (Cmd_ClusterPublish, ''CLUSTER_PUBLISH''), (Cmd_ClusterSpublish, ''CLUSTER_SPUBLISH''),
     (Cmd_ClusterReplicas, ''CLUSTER_REPLICAS''), (Cmd_ClusterReplicate, ''CLUSTER_REPLICATE''),
     (Cmd_ClusterReserve, ''CLUSTER_RESERVE''), (Cmd_ClusterReset, ''CLUSTER_RESET''),
     (Cmd_ClusterSendCkptFileSegment, ''CLUSTER_SEND_CKPT_FILE_SEGMENT''),
     (Cmd_ClusterSendCkptMetadata, ''CLUSTER_SEND_CKPT_METADATA''),
     (Cmd_ClusterSetconfigepoch, ''CLUSTER_SETCONFIGEPOCH''),
     (Cmd_ClusterSetslot, ''CLUSTER_SETSLOT''),
     (Cmd_ClusterSetslotsrange, ''CLUSTER_SETSLOTSRANGE''),
     (Cmd_ClusterShards, ''CLUSTER_SHARDS''), (Cmd_ClusterSlots, ''CLUSTER_SLOTS''),
     (Cmd_ClusterSlotstate, ''CLUSTER_SLOTSTATE''),
     (Cmd_ClusterSnapshotData, ''CLUSTER_SNAPSHOT_DATA''), (Cmd_ClusterSync, ''CLUSTER_SYNC''),
     (Cmd_Auth, ''AUTH''), (Cmd_Hello, ''HELLO''), (Cmd_Quit, ''QUIT''),
     (Cmd_Invalid, ''INVALID'')]"

definition as_str :: "RespCommand \<Rightarrow> string" where
  "as_str cmd =
     (case map_of (as_str_write @ as_str_read @ as_str_control @ as_str_cluster) cmd of
        Some s \<Rightarrow> s
      | None \<Rightarrow> [])"

section \<open>Classification\<close>

definition FIRST_WRITE_COMMAND :: u16 where "FIRST_WRITE_COMMAND = Cmd_Append"
definition LAST_WRITE_COMMAND :: u16 where "LAST_WRITE_COMMAND = Cmd_BitopDiff"
definition FIRST_READ_COMMAND :: u16 where "FIRST_READ_COMMAND = LAST_WRITE_COMMAND + 1"
definition LAST_READ_COMMAND :: u16 where "LAST_READ_COMMAND = Cmd_Riscan"
definition FIRST_DATA_COMMAND :: u16 where "FIRST_DATA_COMMAND = FIRST_WRITE_COMMAND"
definition LAST_DATA_COMMAND :: u16 where "LAST_DATA_COMMAND = Cmd_Evalsha"
definition FIRST_NO_AUTH :: u16 where "FIRST_NO_AUTH = Cmd_Auth"
definition LAST_NO_AUTH :: u16 where "LAST_NO_AUTH = Cmd_Quit"
definition FIRST_CLUSTER_SUB :: u16 where "FIRST_CLUSTER_SUB = Cmd_ClusterAddslots"
definition LAST_CLUSTER_SUB :: u16 where "LAST_CLUSTER_SUB = Cmd_ClusterSync"

definition is_write :: "RespCommand \<Rightarrow> bool" where
  "is_write cmd \<longleftrightarrow> cmd - FIRST_WRITE_COMMAND \<le> LAST_WRITE_COMMAND - FIRST_WRITE_COMMAND"

definition is_readonly :: "RespCommand \<Rightarrow> bool" where
  "is_readonly cmd \<longleftrightarrow> cmd - FIRST_READ_COMMAND \<le> LAST_READ_COMMAND - FIRST_READ_COMMAND"

definition is_no_auth :: "RespCommand \<Rightarrow> bool" where
  "is_no_auth cmd \<longleftrightarrow> cmd - FIRST_NO_AUTH \<le> LAST_NO_AUTH - FIRST_NO_AUTH"

definition is_cluster_subcommand :: "RespCommand \<Rightarrow> bool" where
  "is_cluster_subcommand cmd \<longleftrightarrow> cmd - FIRST_CLUSTER_SUB \<le> LAST_CLUSTER_SUB - FIRST_CLUSTER_SUB"

definition one_if_write :: "RespCommand \<Rightarrow> u64" where
  "one_if_write cmd = (if is_write cmd then 1 else 0)"

definition one_if_read :: "RespCommand \<Rightarrow> u64" where
  "one_if_read cmd = (if is_readonly cmd then 1 else 0)"

definition is_data :: "RespCommand \<Rightarrow> bool" where
  "is_data cmd \<longleftrightarrow>
     (if cmd \<in> {Cmd_Migrate, Cmd_Dbsize, Cmd_MemoryUsage, Cmd_Flushdb, Cmd_Flushall, Cmd_Keys,
         Cmd_Scan, Cmd_Swapdb}
      then False
      else FIRST_DATA_COMMAND \<le> cmd \<and> cmd \<le> LAST_DATA_COMMAND)"

definition is_legal_on_range_index :: "RespCommand \<Rightarrow> bool" where
  "is_legal_on_range_index cmd \<longleftrightarrow> cmd \<in>
     {Cmd_Del, Cmd_Unlink, Cmd_Type, Cmd_Debug, Cmd_Rename, Cmd_Renamenx, Cmd_Ricreate,
      Cmd_Ripromote, Cmd_Rirestore, Cmd_Riset, Cmd_Riget, Cmd_Ridel, Cmd_Riscan, Cmd_Rirange,
      Cmd_Riexists, Cmd_Riconfig, Cmd_Rimetrics}"

definition is_range_index_command :: "RespCommand \<Rightarrow> bool" where
  "is_range_index_command cmd \<longleftrightarrow> cmd \<in>
     {Cmd_Ricreate, Cmd_Riset, Cmd_Riget, Cmd_Ridel, Cmd_Riscan, Cmd_Rirange, Cmd_Ripromote,
      Cmd_Rirestore, Cmd_Riexists, Cmd_Riconfig, Cmd_Rimetrics}"

definition is_vector_set_command :: "RespCommand \<Rightarrow> bool" where
  "is_vector_set_command cmd \<longleftrightarrow> cmd \<in>
     {Cmd_Vadd, Cmd_Vcard, Cmd_Vdim, Cmd_Vemb, Cmd_Vgetattr, Cmd_Vinfo, Cmd_Vismember,
      Cmd_Vlinks, Cmd_Vrandmember, Cmd_Vrem, Cmd_Vsetattr, Cmd_Vsim}"

definition is_legal_on_vector_set :: "RespCommand \<Rightarrow> bool" where
  "is_legal_on_vector_set cmd \<longleftrightarrow> cmd \<in>
     {Cmd_Del, Cmd_Unlink, Cmd_Type, Cmd_Debug, Cmd_Rename, Cmd_Renamenx, Cmd_Vadd, Cmd_Vcard,
      Cmd_Vdim, Cmd_Vemb, Cmd_Vgetattr, Cmd_Vinfo, Cmd_Vismember, Cmd_Vlinks, Cmd_Vrandmember,
      Cmd_Vrem, Cmd_Vsetattr, Cmd_Vsim}"

definition is_allowed_in_subscription_mode :: "RespCommand \<Rightarrow> bool" where
  "is_allowed_in_subscription_mode cmd \<longleftrightarrow> cmd \<in>
     {Cmd_Subscribe, Cmd_Unsubscribe, Cmd_Psubscribe, Cmd_Punsubscribe, Cmd_Ssubscribe,
      Cmd_Ping, Cmd_Quit}"

definition EXPANDED_SET :: "RespCommand list" where
  "EXPANDED_SET = [Cmd_Setexnx, Cmd_Setexxx, Cmd_Setkeepttl, Cmd_Setkeepttlxx]"

definition EXPANDED_BITOP :: "RespCommand list" where
  "EXPANDED_BITOP = [Cmd_BitopAnd, Cmd_BitopNot, Cmd_BitopOr, Cmd_BitopXor, Cmd_BitopDiff]"

definition normalize_for_acls :: "RespCommand \<Rightarrow> RespCommand" where
  "normalize_for_acls cmd =
     (if cmd \<in> {Cmd_Setexnx, Cmd_Setexxx, Cmd_Setkeepttl, Cmd_Setkeepttlxx} then Cmd_Set
      else if cmd \<in> {Cmd_BitopAnd, Cmd_BitopNot, Cmd_BitopOr, Cmd_BitopXor, Cmd_BitopDiff} then Cmd_Bitop
      else cmd)"

definition expand_for_acls :: "RespCommand \<Rightarrow> RespCommand list" where
  "expand_for_acls cmd =
     (if cmd = Cmd_Set then EXPANDED_SET else if cmd = Cmd_Bitop then EXPANDED_BITOP else [])"

definition is_aof_independent :: "RespCommand \<Rightarrow> bool" where
  "is_aof_independent cmd \<longleftrightarrow> cmd \<in>
     {Cmd_Async, Cmd_Ping, Cmd_Select, Cmd_Swapdb, Cmd_Echo, Cmd_Monitor, Cmd_ModuleLoadcs,
      Cmd_Registercs, Cmd_Info, Cmd_Time, Cmd_Lastsave, Cmd_AclCat, Cmd_AclDeluser,
      Cmd_AclGenpass, Cmd_AclGetuser, Cmd_AclList, Cmd_AclLoad, Cmd_AclSave, Cmd_AclSetuser,
      Cmd_AclUsers, Cmd_AclWhoami, Cmd_ClientId, Cmd_ClientInfo, Cmd_ClientList, Cmd_ClientKill,
      Cmd_ClientGetname, Cmd_ClientSetname, Cmd_ClientSetinfo, Cmd_ClientUnblock, Cmd_Command,
      Cmd_CommandCount, Cmd_CommandDocs, Cmd_CommandInfo, Cmd_CommandGetkeys,
      Cmd_CommandGetkeysandflags, Cmd_MemoryUsage, Cmd_ConfigGet, Cmd_ConfigRewrite,
      Cmd_ConfigSet, Cmd_LatencyHelp, Cmd_LatencyHistogram, Cmd_LatencyReset, Cmd_SlowlogHelp,
      Cmd_SlowlogLen, Cmd_SlowlogGet, Cmd_SlowlogReset, Cmd_Multi}"

section \<open>Arity\<close>

text \<open>The arity counts the command name; a negative one is a minimum and 0 means unchecked.\<close>

definition arity :: "RespCommand \<Rightarrow> int" where
  "arity cmd =
     (if cmd \<in> {Cmd_Auth} then -2
      else if cmd \<in> {Cmd_Echo} then 2
      else if cmd \<in> {Cmd_Ping} then -1
      else if cmd \<in> {Cmd_Select} then 2
      else if cmd \<in> {Cmd_Quit} then 1
      else if cmd \<in> {Cmd_Info} then -1
      else if cmd \<in> {Cmd_Time} then 1
      else if cmd \<in> {Cmd_Multi, Cmd_Exec, Cmd_Discard, Cmd_Unwatch} then 1
      else if cmd \<in> {Cmd_Watch} then -2
      else if cmd \<in> {Cmd_Append, Cmd_Getset, Cmd_Incrby, Cmd_Decrby, Cmd_Incrbyfloat} then 3
      else if cmd \<in> {Cmd_Get, Cmd_Getdel, Cmd_Strlen, Cmd_Incr, Cmd_Decr, Cmd_Persist, Cmd_Ttl, Cmd_Pttl,
          Cmd_Expiretime, Cmd_Pexpiretime, Cmd_Type, Cmd_Dump} then 2
      else if cmd \<in> {Cmd_Set} then -3
      else if cmd \<in> {Cmd_Setex, Cmd_Psetex} then 4
      else if cmd \<in> {Cmd_Setnx, Cmd_Getifnotmatch} then 3
      else if cmd \<in> {Cmd_Getex} then -2
      else if cmd \<in> {Cmd_Getbit} then 3
      else if cmd \<in> {Cmd_Getrange} then 4
      else if cmd \<in> {Cmd_Setrange} then 4
      else if cmd \<in> {Cmd_Setbit} then 4
      else if cmd \<in> {Cmd_Del, Cmd_Unlink, Cmd_Exists, Cmd_Mget, Cmd_Bitcount} then -2
      else if cmd \<in> {Cmd_Bitpos} then -3
      else if cmd \<in> {Cmd_Mset, Cmd_Msetnx} then -3
      else if cmd \<in> {Cmd_Expire, Cmd_Pexpire, Cmd_Expireat, Cmd_Pexpireat} then -3
      else if cmd \<in> {Cmd_Hset, Cmd_Hsetnx, Cmd_Hmset, Cmd_Hincrby, Cmd_Hincrbyfloat} then -4
      else if cmd \<in> {Cmd_Hget, Cmd_Hexists, Cmd_Hstrlen} then 3
      else if cmd \<in> {Cmd_Hmget, Cmd_Hdel, Cmd_Hscan} then -2
      else if cmd \<in> {Cmd_Hgetall, Cmd_Hkeys, Cmd_Hvals, Cmd_Hlen} then 2
      else if cmd \<in> {Cmd_Lpush, Cmd_Rpush, Cmd_Lpushx, Cmd_Rpushx, Cmd_Lrem} then -3
      else if cmd \<in> {Cmd_Lpop, Cmd_Rpop} then -2
      else if cmd \<in> {Cmd_Llen} then 2
      else if cmd \<in> {Cmd_Lrange} then 4
      else if cmd \<in> {Cmd_Lindex} then 3
      else if cmd \<in> {Cmd_Lset, Cmd_Ltrim} then 4
      else if cmd \<in> {Cmd_Rpoplpush, Cmd_Brpoplpush} then 3
      else if cmd \<in> {Cmd_Lmove, Cmd_Blmove} then 5
      else if cmd \<in> {Cmd_Lpos} then -3
      else if cmd \<in> {Cmd_Sadd, Cmd_Srem, Cmd_Smismember} then -3
      else if cmd \<in> {Cmd_Smembers, Cmd_Scard} then 2
      else if cmd \<in> {Cmd_Sismember} then 3
      else if cmd \<in> {Cmd_Spop, Cmd_Srandmember, Cmd_Sscan} then -2
      else if cmd \<in> {Cmd_Sdiff, Cmd_Sinter, Cmd_Sunion} then -2
      else if cmd \<in> {Cmd_Sdiffstore, Cmd_Sinterstore, Cmd_Sunionstore} then -3
      else if cmd \<in> {Cmd_Smove} then 4
      else if cmd \<in> {Cmd_Sintercard} then -3
      else if cmd \<in> {Cmd_Zadd, Cmd_Zrangebyscore, Cmd_Zrangebylex, Cmd_Zrangestore} then -4
      else if cmd \<in> {Cmd_Zrem} then -3
      else if cmd \<in> {Cmd_Zscore} then 3
      else if cmd \<in> {Cmd_Zcard} then 2
      else if cmd \<in> {Cmd_Zcount, Cmd_Zlexcount, Cmd_Zrevrange} then 4
      else if cmd \<in> {Cmd_Zrange} then -4
      else if cmd \<in> {Cmd_Zrank, Cmd_Zrevrank} then -3
      else if cmd \<in> {Cmd_Zincrby} then 4
      else if cmd \<in> {Cmd_Zpopmin, Cmd_Zpopmax} then -2
      else if cmd \<in> {Cmd_Zdiff, Cmd_Zinter, Cmd_Zunion} then -3
      else if cmd \<in> {Cmd_Zdiffstore, Cmd_Zinterstore, Cmd_Zunionstore} then -4
      else if cmd \<in> {Cmd_Zintercard} then -3
      else if cmd \<in> {Cmd_Zscan, Cmd_Zmscore} then -2
      else if cmd \<in> {Cmd_Pfadd, Cmd_Pfmerge} then -2
      else if cmd \<in> {Cmd_Pfcount} then -2
      else if cmd \<in> {Cmd_Subscribe, Cmd_Psubscribe} then -2
      else if cmd \<in> {Cmd_Unsubscribe, Cmd_Punsubscribe} then -1
      else if cmd \<in> {Cmd_Publish} then 3
      else if cmd \<in> {Cmd_Pubsub} then -2
      else if cmd \<in> {Cmd_Eval, Cmd_Evalsha} then -3
      else if cmd \<in> {Cmd_Blpop, Cmd_Brpop, Cmd_Bzpopmin, Cmd_Bzpopmax} then -3
      else if cmd \<in> {Cmd_Blmpop, Cmd_Bzmpop} then -5
      else if cmd \<in> {Cmd_Lmpop, Cmd_Zmpop} then -4
      else if cmd \<in> {Cmd_Bitop} then -4
      else if cmd \<in> {Cmd_Migrate} then -6
      else if cmd \<in> {Cmd_Rename, Cmd_Renamenx} then 3
      else if cmd \<in> {Cmd_Keys} then 2
      else if cmd \<in> {Cmd_Scan} then -2
      else if cmd \<in> {Cmd_Flushdb, Cmd_Flushall} then -1
      else if cmd \<in> {Cmd_Swapdb} then 3
      else if cmd \<in> {Cmd_Dbsize} then 1
      else 0)"

definition check_arity :: "RespCommand \<Rightarrow> nat \<Rightarrow> bool" where
  "check_arity cmd args_len =
     (let a = arity cmd in
      if a = 0 then True
      else
        let tokens = sint ((of_nat args_len :: 32 word) + 1)
        in if a > 0 then tokens = a else tokens \<ge> - a)"
section \<open>Theorems\<close>

lemma sections_eq:
  "write_commands = map of_nat [1..<121]" "read_commands = map of_nat [121..<227]"
  "script_commands = map of_nat [227..<229]" "control_commands = map of_nat [229..<317]"
  "cluster_subcommands = map of_nat [317..<365]" "no_auth_commands = map of_nat [365..<368]"
  by code_simp+

lemma mem_section:
  assumes "b < 65536"
  shows "(cmd :: u16) \<in> set (map of_nat [a..<b]) \<longleftrightarrow> a \<le> unat cmd \<and> unat cmd < b"
proof
  assume "cmd \<in> set (map of_nat [a..<b])"
  then obtain n where "cmd = of_nat n" "a \<le> n" "n < b" by auto
  then show "a \<le> unat cmd \<and> unat cmd < b" using assms by (simp add: unat_as_u16)
next
  assume "a \<le> unat cmd \<and> unat cmd < b"
  then have "unat cmd \<in> set [a..<b]" by simp
  then have "(of_nat (unat cmd) :: u16) \<in> of_nat ` set [a..<b]" by blast
  then show "cmd \<in> set (map of_nat [a..<b])" by simp
qed

lemma word_range_nat:
  fixes x a b :: u16
  assumes "a \<le> b"
  shows "x - a \<le> b - a \<longleftrightarrow> unat a \<le> unat x \<and> unat x \<le> unat b"
proof (cases "a \<le> x")
  case True
  then show ?thesis using assms by (auto simp: word_le_nat_alt unat_sub)
next
  case False
  then have l: "unat x < unat a" "unat a \<le> unat b" using assms by (simp_all add: word_le_nat_alt)
  have "unat (x - a) = 65536 + unat x - unat a"
    using l unsigned_less [of a, where 'a = nat] by (subst unat_sub_if_size) (simp add: word_size)
  moreover have "unat (b - a) = unat b - unat a" using assms by (simp add: unat_sub)
  moreover have "unat b < 65536" using unsigned_less [of b, where 'a = nat] by simp
  ultimately show ?thesis using l by (auto simp: word_le_nat_alt)
qed

lemmas command_bounds =
  FIRST_WRITE_COMMAND_def LAST_WRITE_COMMAND_def FIRST_READ_COMMAND_def LAST_READ_COMMAND_def
  FIRST_DATA_COMMAND_def LAST_DATA_COMMAND_def FIRST_NO_AUTH_def LAST_NO_AUTH_def
  FIRST_CLUSTER_SUB_def LAST_CLUSTER_SUB_def

lemma class_ranges:
  "is_write cmd \<longleftrightarrow> 1 \<le> unat cmd \<and> unat cmd < 121"
  "is_readonly cmd \<longleftrightarrow> 121 \<le> unat cmd \<and> unat cmd < 227"
  "is_cluster_subcommand cmd \<longleftrightarrow> 317 \<le> unat cmd \<and> unat cmd < 365"
  "is_no_auth cmd \<longleftrightarrow> 365 \<le> unat cmd \<and> unat cmd < 368"
  using word_range_nat [of 1 120 cmd] word_range_nat [of 121 226 cmd]
    word_range_nat [of 317 364 cmd] word_range_nat [of 365 367 cmd]
  by (auto simp: is_write_def is_readonly_def is_cluster_subcommand_def is_no_auth_def command_bounds)

text \<open>
  C31: The command classes are exactly the sections of the enumeration.  The wrapping
  range comparisons of \<open>is_write\<close>, \<open>is_readonly\<close>, \<open>is_cluster_subcommand\<close> and \<open>is_no_auth\<close>
  accept exactly the variants declared in the corresponding section, for every 16-bit
  discriminant, no command is in two of them, and \<open>is_data\<close> holds exactly of the write, read
  and script commands other than the eight keyspace-level ones it lists.
\<close>

theorem command_classes:
  "(is_write cmd \<longleftrightarrow> cmd \<in> set write_commands) \<and>
   (is_readonly cmd \<longleftrightarrow> cmd \<in> set read_commands) \<and>
   (is_cluster_subcommand cmd \<longleftrightarrow> cmd \<in> set cluster_subcommands) \<and>
   (is_no_auth cmd \<longleftrightarrow> cmd \<in> set no_auth_commands) \<and>
   distinct (write_commands @ read_commands @ script_commands @ control_commands
     @ cluster_subcommands @ no_auth_commands) \<and>
   (is_data cmd \<longleftrightarrow> cmd \<in> set (write_commands @ read_commands @ script_commands) -
     {Cmd_Migrate, Cmd_Dbsize, Cmd_MemoryUsage, Cmd_Flushdb, Cmd_Flushall, Cmd_Keys, Cmd_Scan, Cmd_Swapdb})"
proof (intro conjI)
  show "is_write cmd \<longleftrightarrow> cmd \<in> set write_commands" "is_readonly cmd \<longleftrightarrow> cmd \<in> set read_commands"
    "is_cluster_subcommand cmd \<longleftrightarrow> cmd \<in> set cluster_subcommands"
    "is_no_auth cmd \<longleftrightarrow> cmd \<in> set no_auth_commands"
    by (simp_all only: class_ranges sections_eq, simp_all only: mem_section)
  have "write_commands @ read_commands @ script_commands @ control_commands
     @ cluster_subcommands @ no_auth_commands = map of_nat [1..<368]"
    by code_simp
  moreover have "inj_on (of_nat :: nat \<Rightarrow> u16) (set [1..<368])"
    by (rule inj_on_inverseI [of _ unat]) (simp add: unat_as_u16)
  ultimately show "distinct (write_commands @ read_commands @ script_commands @ control_commands
     @ cluster_subcommands @ no_auth_commands)"
    by (simp only: distinct_map distinct_upt)
  have "write_commands @ read_commands @ script_commands = map of_nat [1..<229]" by code_simp
  then have "cmd \<in> set (write_commands @ read_commands @ script_commands) \<longleftrightarrow> 1 \<le> cmd \<and> cmd \<le> 228"
    by (simp only: mem_section) (auto simp: word_le_nat_alt)
  then show "is_data cmd \<longleftrightarrow> cmd \<in> set (write_commands @ read_commands @ script_commands) -
     {Cmd_Migrate, Cmd_Dbsize, Cmd_MemoryUsage, Cmd_Flushdb, Cmd_Flushall, Cmd_Keys, Cmd_Scan, Cmd_Swapdb}"
    by (simp only: is_data_def command_bounds Diff_iff) simp
qed

lemma check_arity_iff:
  assumes "args_len < 2 ^ 31 - 1"
  shows "check_arity cmd args_len \<longleftrightarrow>
    arity cmd = 0 \<or> arity cmd = int args_len + 1 \<or> arity cmd < 0 \<and> - arity cmd \<le> int args_len + 1"
proof -
  have "uint ((of_nat args_len :: 32 word) + 1) = int args_len + 1"
    using assms by (simp add: uint_word_ariths unsigned_of_nat take_bit_eq_mod nat_less_iff)
  then have "sint ((of_nat args_len :: 32 word) + 1) = int args_len + 1"
    using assms by (simp add: sint_uint signed_take_bit_int_eq_self)
  then show ?thesis by (auto simp: check_arity_def Let_def)
qed

end
