(* ===== verification/Resp_Lookup.thy ===== *)
theory Resp_Lookup
  imports Wedb_Bytes Resp_Command
begin

unbundle bit_operations_syntax

text \<open>
  The command lookup of \<open>wedb_resp/src/cmd_hash.rs\<close> and the entry points of \<open>cmd.rs\<close> that use it:
  open-addressing tables with linear probing, keyed by up to three 64-bit words of the
  upper-case name.  Pointer reads are reads of a byte list.  The CRC32 instruction of the CPU
  is the parameter \<open>hw\<close>, \<open>None\<close> where the platform has none and the software hash is used; the
  theorems hold for every such function.  A panic of the table construction is \<open>None\<close>.
\<close>

section \<open>Reading words\<close>

text \<open>The little-endian value of some bytes.\<close>

fun le_word :: "bytes \<Rightarrow> u64" where
  "le_word [] = 0"
| "le_word (b # bs) = ucast b OR push_bit 8 (le_word bs)"

definition read_partial_word :: "bytes \<Rightarrow> nat \<Rightarrow> u64" where
  "read_partial_word p len =
     (if len = 1 then ucast (p ! 0)
      else if len = 2 then le_word (take 2 p)
      else if len = 3 then le_word (take 2 p) OR push_bit 16 (ucast (p ! 2))
      else if len = 4 then le_word (take 4 p)
      else if len = 5 then le_word (take 4 p) OR push_bit 32 (ucast (p ! 4))
      else if len = 6 then le_word (take 4 p) OR push_bit 32 (le_word (take 2 (drop 4 p)))
      else if len = 7 then le_word (take 4 p) OR push_bit 32 (le_word (take 2 (drop 4 p)))
        OR push_bit 48 (ucast (p ! 6))
      else 0)"

definition read_word0 :: "bytes \<Rightarrow> nat \<Rightarrow> u64" where
  "read_word0 p len = (if len \<ge> 8 then le_word (take 8 p) else read_partial_word p len)"

section \<open>Hashing\<close>

definition FIB_HASH_MUL :: u64 where "FIB_HASH_MUL = 0x9E3779B97F4A7C15"
definition FIB_HASH_MUL_32 :: u32 where "FIB_HASH_MUL_32 = 2654435761"

type_synonym hw_hash = "u64 \<Rightarrow> u32 \<Rightarrow> u32 option"

definition compute_hash_word :: "hw_hash \<Rightarrow> u64 \<Rightarrow> u32 \<Rightarrow> u32" where
  "compute_hash_word hw word0 len =
     (case hw word0 len of
        Some crc \<Rightarrow> crc
      | None \<Rightarrow> ucast (drop_bit 32 (word0 * FIB_HASH_MUL)) XOR (len * FIB_HASH_MUL_32))"

definition compute_cmd_hash :: "hw_hash \<Rightarrow> bytes \<Rightarrow> u32" where
  "compute_cmd_hash hw name =
     (let len = length name in
      if len = 0 then 0 else compute_hash_word hw (read_word0 name len) (of_nat len))"

section \<open>Looking up\<close>

record CommandEntry =
  command :: RespCommand
  name_length :: u8
  flags :: u8
  name_word0 :: u64
  name_word1 :: u64
  name_word2 :: u64

definition default_entry :: CommandEntry where
  "default_entry = \<lparr>command = Cmd_None, name_length = 0, flags = 0, name_word0 = 0, name_word1 = 0, name_word2 = 0\<rparr>"

definition FLAG_HAS_SUBCOMMANDS :: u8 where "FLAG_HAS_SUBCOMMANDS = 1"
definition PRIMARY_TABLE_SIZE :: nat where "PRIMARY_TABLE_SIZE = 512"
definition PRIMARY_TABLE_MASK :: nat where "PRIMARY_TABLE_MASK = PRIMARY_TABLE_SIZE - 1"
definition MAX_PROBES :: nat where "MAX_PROBES = 16"

text \<open>The probing loop, with the comparison of the branch it stands in.\<close>

fun probe :: "nat \<Rightarrow> CommandEntry list \<Rightarrow> nat \<Rightarrow> (CommandEntry \<Rightarrow> bool) \<Rightarrow> nat \<Rightarrow> RespCommand \<times> bool" where
  "probe 0 table msk matches idx = (Cmd_None, False)"
| "probe (Suc n) table msk matches idx =
     (let entry = table ! idx in
      if name_length entry = 0 then (Cmd_None, False)
      else if matches entry then (command entry, flags entry AND FLAG_HAS_SUBCOMMANDS \<noteq> 0)
      else probe n table msk matches ((idx + 1) AND msk))"

definition lookup_core :: "hw_hash \<Rightarrow> CommandEntry list \<Rightarrow> nat \<Rightarrow> bytes \<Rightarrow> RespCommand \<times> bool" where
  "lookup_core hw table msk name =
     (let len = length name in
      if len = 0 \<or> len > 24 then (Cmd_None, False)
      else
        let target_len = (of_nat len :: u8) in
        if len \<le> 8 then
          let w0 = read_word0 name len;
              hash = compute_hash_word hw w0 (of_nat len)
          in probe MAX_PROBES table msk
               (\<lambda>entry. name_length entry = target_len \<and> name_word0 entry = w0) (unat hash AND msk)
        else if len \<le> 16 then
          let w0 = le_word (take 8 name);
              w1 = le_word (take 8 (drop (len - 8) name));
              hash = compute_hash_word hw w0 (of_nat len)
          in probe MAX_PROBES table msk
               (\<lambda>entry. name_length entry = target_len \<and> name_word0 entry = w0 \<and> name_word1 entry = w1)
               (unat hash AND msk)
        else
          let w0 = le_word (take 8 name);
              w1 = le_word (take 8 (drop 8 name));
              w2 = le_word (take 8 (drop (len - 8) name));
              hash = compute_hash_word hw w0 (of_nat len)
          in probe MAX_PROBES table msk
               (\<lambda>entry. name_length entry = target_len \<and> name_word0 entry = w0 \<and> name_word1 entry = w1
                  \<and> name_word2 entry = w2)
               (unat hash AND msk))"

section \<open>Building the tables\<close>

definition get_word_from_slice :: "bytes \<Rightarrow> nat \<Rightarrow> u64" where
  "get_word_from_slice sl offset =
     (if offset \<ge> length sl then 0
      else
        let remaining = length sl - offset;
            p = drop offset sl
        in if remaining \<ge> 8 then le_word (take 8 p) else read_partial_word p remaining)"

definition new_entry :: "bytes \<Rightarrow> RespCommand \<Rightarrow> u8 \<Rightarrow> CommandEntry" where
  "new_entry name cmd fl =
     \<lparr>command = cmd, name_length = of_nat (length name), flags = fl,
      name_word0 = get_word_from_slice name 0,
      name_word1 = (if length name > 16 then get_word_from_slice name 8
                    else if length name > 8 then get_word_from_slice name (length name - 8) else 0),
      name_word2 = (if length name > 16 then get_word_from_slice name (length name - 8) else 0)\<rparr>"

fun insert_probe :: "nat \<Rightarrow> CommandEntry list \<Rightarrow> nat \<Rightarrow> CommandEntry \<Rightarrow> nat \<Rightarrow> CommandEntry list option" where
  "insert_probe 0 table msk entry idx = None"
| "insert_probe (Suc n) table msk entry idx =
     (if name_length (table ! idx) = 0 then Some (table[idx := entry])
      else insert_probe n table msk entry ((idx + 1) AND msk))"

definition insert_into_table ::
  "hw_hash \<Rightarrow> CommandEntry list \<Rightarrow> nat \<Rightarrow> bytes \<Rightarrow> RespCommand \<Rightarrow> u8 \<Rightarrow> CommandEntry list option" where
  "insert_into_table hw table msk name cmd fl =
     (if name \<noteq> [] \<and> length name \<le> 24
      then insert_probe MAX_PROBES table msk (new_entry name cmd fl) (unat (compute_cmd_hash hw name) AND msk)
      else None)"

fun insert_all ::
  "hw_hash \<Rightarrow> nat \<Rightarrow> (bytes \<times> RespCommand \<times> u8) list \<Rightarrow> CommandEntry list \<Rightarrow> CommandEntry list option" where
  "insert_all hw msk [] table = Some table"
| "insert_all hw msk ((name, cmd, fl) # defs) table =
     (case insert_into_table hw table msk name cmd fl of
        None \<Rightarrow> None
      | Some table' \<Rightarrow> insert_all hw msk defs table')"

definition build_sub_table :: "hw_hash \<Rightarrow> nat \<Rightarrow> (bytes \<times> RespCommand) list \<Rightarrow> CommandEntry list option" where
  "build_sub_table hw n subcommands =
     insert_all hw (n - 1) (map (\<lambda>(name, cmd). (name, cmd, 0)) subcommands) (replicate n default_entry)"

section \<open>The command definitions\<close>

definition PRIMARY_DEFINITIONS_1 :: "(bytes \<times> RespCommand \<times> bool) list" where
  "PRIMARY_DEFINITIONS_1 =
     [(bstr ''GET'', Cmd_Get, False), (bstr ''SET'', Cmd_Set, False),
      (bstr ''DEL'', Cmd_Del, False), (bstr ''INCR'', Cmd_Incr, False),
      (bstr ''DECR'', Cmd_Decr, False), (bstr ''INCRBY'', Cmd_Incrby, False),
      (bstr ''DECRBY'', Cmd_Decrby, False), (bstr ''INCRBYFLOAT'', Cmd_Incrbyfloat, False),
      (bstr ''APPEND'', Cmd_Append, False), (bstr ''GETSET'', Cmd_Getset, False),
      (bstr ''GETDEL'', Cmd_Getdel, False), (bstr ''GETEX'', Cmd_Getex, False),
      (bstr ''GETRANGE'', Cmd_Getrange, False), (bstr ''SETRANGE'', Cmd_Setrange, False),
      (bstr ''STRLEN'', Cmd_Strlen, False), (bstr ''SUBSTR'', Cmd_Substr, False),
      (bstr ''SETNX'', Cmd_Setnx, False), (bstr ''SETEX'', Cmd_Setex, False),
      (bstr ''PSETEX'', Cmd_Psetex, False), (bstr ''MGET'', Cmd_Mget, False),
      (bstr ''MSET'', Cmd_Mset, False), (bstr ''MSETNX'', Cmd_Msetnx, False),
      (bstr ''DUMP'', Cmd_Dump, False), (bstr ''RESTORE'', Cmd_Restore, False),
      (bstr ''GETBIT'', Cmd_Getbit, False), (bstr ''SETBIT'', Cmd_Setbit, False),
      (bstr ''GETWITHETAG'', Cmd_Getwithetag, False),
      (bstr ''GETIFNOTMATCH'', Cmd_Getifnotmatch, False),
      (bstr ''SETIFMATCH'', Cmd_Setifmatch, False),
      (bstr ''SETIFGREATER'', Cmd_Setifgreater, False),
      (bstr ''SETWITHETAG'', Cmd_Setwithetag, False),
      (bstr ''DELIFGREATER'', Cmd_Delifgreater, False), (bstr ''LCS'', Cmd_Lcs, False),
      (bstr ''EXISTS'', Cmd_Exists, False), (bstr ''TTL'', Cmd_Ttl, False),
      (bstr ''PTTL'', Cmd_Pttl, False), (bstr ''EXPIRE'', Cmd_Expire, False),
      (bstr ''PEXPIRE'', Cmd_Pexpire, False), (bstr ''EXPIREAT'', Cmd_Expireat, False),
      (bstr ''PEXPIREAT'', Cmd_Pexpireat, False), (bstr ''EXPIRETIME'', Cmd_Expiretime, False),
      (bstr ''PEXPIRETIME'', Cmd_Pexpiretime, False), (bstr ''PERSIST'', Cmd_Persist, False),
      (bstr ''TYPE'', Cmd_Type, False), (bstr ''RENAME'', Cmd_Rename, False),
      (bstr ''RENAMENX'', Cmd_Renamenx, False), (bstr ''UNLINK'', Cmd_Unlink, False),
      (bstr ''KEYS'', Cmd_Keys, False), (bstr ''SCAN'', Cmd_Scan, False),
      (bstr ''DBSIZE'', Cmd_Dbsize, False), (bstr ''SELECT'', Cmd_Select, False),
      (bstr ''SWAPDB'', Cmd_Swapdb, False), (bstr ''MIGRATE'', Cmd_Migrate, False),
      (bstr ''BITCOUNT'', Cmd_Bitcount, False), (bstr ''BITPOS'', Cmd_Bitpos, False),
      (bstr ''BITFIELD'', Cmd_Bitfield, False), (bstr ''BITFIELD_RO'', Cmd_BitfieldRo, False),
      (bstr ''BITOP'', Cmd_Bitop, True), (bstr ''PFADD'', Cmd_Pfadd, False),
      (bstr ''PFCOUNT'', Cmd_Pfcount, False), (bstr ''PFMERGE'', Cmd_Pfmerge, False),
      (bstr ''HSET'', Cmd_Hset, False), (bstr ''HGET'', Cmd_Hget, False),
      (bstr ''HDEL'', Cmd_Hdel, False), (bstr ''HLEN'', Cmd_Hlen, False),
      (bstr ''HEXISTS'', Cmd_Hexists, False), (bstr ''HGETALL'', Cmd_Hgetall, False),
      (bstr ''HKEYS'', Cmd_Hkeys, False), (bstr ''HVALS'', Cmd_Hvals, False),
      (bstr ''HMSET'', Cmd_Hmset, False), (bstr ''HMGET'', Cmd_Hmget, False),
      (bstr ''HSETNX'', Cmd_Hsetnx, False), (bstr ''HINCRBY'', Cmd_Hincrby, False),
      (bstr ''HINCRBYFLOAT'', Cmd_Hincrbyfloat, False),
      (bstr ''HRANDFIELD'', Cmd_Hrandfield, False), (bstr ''HSCAN'', Cmd_Hscan, False),
      (bstr ''HSTRLEN'', Cmd_Hstrlen, False), (bstr ''HTTL'', Cmd_Httl, False),
      (bstr ''HPTTL'', Cmd_Hpttl, False), (bstr ''HEXPIRE'', Cmd_Hexpire, False),
      (bstr ''HPEXPIRE'', Cmd_Hpexpire, False), (bstr ''HEXPIREAT'', Cmd_Hexpireat, False),
      (bstr ''HPEXPIREAT'', Cmd_Hpexpireat, False),
      (bstr ''HEXPIRETIME'', Cmd_Hexpiretime, False),
      (bstr ''HPEXPIRETIME'', Cmd_Hpexpiretime, False),
      (bstr ''HPERSIST'', Cmd_Hpersist, False), (bstr ''HCOLLECT'', Cmd_Hcollect, False),
      (bstr ''LPUSH'', Cmd_Lpush, False), (bstr ''RPUSH'', Cmd_Rpush, False),
      (bstr ''LPUSHX'', Cmd_Lpushx, False), (bstr ''RPUSHX'', Cmd_Rpushx, False),
      (bstr ''LPOP'', Cmd_Lpop, False), (bstr ''RPOP'', Cmd_Rpop, False),
      (bstr ''LLEN'', Cmd_Llen, False), (bstr ''LINDEX'', Cmd_Lindex, False),
      (bstr ''LINSERT'', Cmd_Linsert, False), (bstr ''LRANGE'', Cmd_Lrange, False),
      (bstr ''LREM'', Cmd_Lrem, False), (bstr ''LSET'', Cmd_Lset, False),
      (bstr ''LTRIM'', Cmd_Ltrim, False), (bstr ''LPOS'', Cmd_Lpos, False),
      (bstr ''LMOVE'', Cmd_Lmove, False), (bstr ''LMPOP'', Cmd_Lmpop, False),
      (bstr ''RPOPLPUSH'', Cmd_Rpoplpush, False), (bstr ''BLPOP'', Cmd_Blpop, False),
      (bstr ''BRPOP'', Cmd_Brpop, False), (bstr ''BLMOVE'', Cmd_Blmove, False),
      (bstr ''BRPOPLPUSH'', Cmd_Brpoplpush, False), (bstr ''BLMPOP'', Cmd_Blmpop, False),
      (bstr ''SADD'', Cmd_Sadd, False), (bstr ''SREM'', Cmd_Srem, False),
      (bstr ''SPOP'', Cmd_Spop, False), (bstr ''SCARD'', Cmd_Scard, False),
      (bstr ''SMEMBERS'', Cmd_Smembers, False), (bstr ''SISMEMBER'', Cmd_Sismember, False),
      (bstr ''SMISMEMBER'', Cmd_Smismember, False),
      (bstr ''SRANDMEMBER'', Cmd_Srandmember, False), (bstr ''SMOVE'', Cmd_Smove, False),
      (bstr ''SSCAN'', Cmd_Sscan, False), (bstr ''SDIFF'', Cmd_Sdiff, False),
      (bstr ''SDIFFSTORE'', Cmd_Sdiffstore, False), (bstr ''SINTER'', Cmd_Sinter, False),
      (bstr ''SINTERCARD'', Cmd_Sintercard, False),
      (bstr ''SINTERSTORE'', Cmd_Sinterstore, False), (bstr ''SUNION'', Cmd_Sunion, False),
      (bstr ''SUNIONSTORE'', Cmd_Sunionstore, False)]"

definition PRIMARY_DEFINITIONS_2 :: "(bytes \<times> RespCommand \<times> bool) list" where
  "PRIMARY_DEFINITIONS_2 =
     [(bstr ''ZADD'', Cmd_Zadd, False), (bstr ''ZREM'', Cmd_Zrem, False),
      (bstr ''ZCARD'', Cmd_Zcard, False), (bstr ''ZSCORE'', Cmd_Zscore, False),
      (bstr ''ZMSCORE'', Cmd_Zmscore, False), (bstr ''ZRANK'', Cmd_Zrank, False),
      (bstr ''ZREVRANK'', Cmd_Zrevrank, False), (bstr ''ZCOUNT'', Cmd_Zcount, False),
      (bstr ''ZLEXCOUNT'', Cmd_Zlexcount, False), (bstr ''ZRANGE'', Cmd_Zrange, False),
      (bstr ''ZRANGEBYLEX'', Cmd_Zrangebylex, False),
      (bstr ''ZRANGEBYSCORE'', Cmd_Zrangebyscore, False),
      (bstr ''ZRANGESTORE'', Cmd_Zrangestore, False),
      (bstr ''ZREVRANGE'', Cmd_Zrevrange, False),
      (bstr ''ZREVRANGEBYLEX'', Cmd_Zrevrangebylex, False),
      (bstr ''ZREVRANGEBYSCORE'', Cmd_Zrevrangebyscore, False),
      (bstr ''ZPOPMIN'', Cmd_Zpopmin, False), (bstr ''ZPOPMAX'', Cmd_Zpopmax, False),
      (bstr ''ZRANDMEMBER'', Cmd_Zrandmember, False), (bstr ''ZSCAN'', Cmd_Zscan, False),
      (bstr ''ZINCRBY'', Cmd_Zincrby, False), (bstr ''ZDIFF'', Cmd_Zdiff, False),
      (bstr ''ZDIFFSTORE'', Cmd_Zdiffstore, False), (bstr ''ZINTER'', Cmd_Zinter, False),
      (bstr ''ZINTERCARD'', Cmd_Zintercard, False),
      (bstr ''ZINTERSTORE'', Cmd_Zinterstore, False), (bstr ''ZUNION'', Cmd_Zunion, False),
      (bstr ''ZUNIONSTORE'', Cmd_Zunionstore, False), (bstr ''ZMPOP'', Cmd_Zmpop, False),
      (bstr ''BZMPOP'', Cmd_Bzmpop, False), (bstr ''BZPOPMAX'', Cmd_Bzpopmax, False),
      (bstr ''BZPOPMIN'', Cmd_Bzpopmin, False),
      (bstr ''ZREMRANGEBYLEX'', Cmd_Zremrangebylex, False),
      (bstr ''ZREMRANGEBYRANK'', Cmd_Zremrangebyrank, False),
      (bstr ''ZREMRANGEBYSCORE'', Cmd_Zremrangebyscore, False),
      (bstr ''ZTTL'', Cmd_Zttl, False), (bstr ''ZPTTL'', Cmd_Zpttl, False),
      (bstr ''ZEXPIRE'', Cmd_Zexpire, False), (bstr ''ZPEXPIRE'', Cmd_Zpexpire, False),
      (bstr ''ZEXPIREAT'', Cmd_Zexpireat, False), (bstr ''ZPEXPIREAT'', Cmd_Zpexpireat, False),
      (bstr ''ZEXPIRETIME'', Cmd_Zexpiretime, False),
      (bstr ''ZPEXPIRETIME'', Cmd_Zpexpiretime, False),
      (bstr ''ZPERSIST'', Cmd_Zpersist, False), (bstr ''ZCOLLECT'', Cmd_Zcollect, False),
      (bstr ''VADD'', Cmd_Vadd, False), (bstr ''VCARD'', Cmd_Vcard, False),
      (bstr ''VDIM'', Cmd_Vdim, False), (bstr ''VEMB'', Cmd_Vemb, False),
      (bstr ''VGETATTR'', Cmd_Vgetattr, False), (bstr ''VINFO'', Cmd_Vinfo, False),
      (bstr ''VISMEMBER'', Cmd_Vismember, False), (bstr ''VLINKS'', Cmd_Vlinks, False),
      (bstr ''VRANDMEMBER'', Cmd_Vrandmember, False), (bstr ''VREM'', Cmd_Vrem, False),
      (bstr ''VSETATTR'', Cmd_Vsetattr, False), (bstr ''VSIM'', Cmd_Vsim, False),
      (bstr ''RI.CREATE'', Cmd_Ricreate, False), (bstr ''RI.SET'', Cmd_Riset, False),
      (bstr ''RI.GET'', Cmd_Riget, False), (bstr ''RI.DEL'', Cmd_Ridel, False),
      (bstr ''RI.RANGE'', Cmd_Rirange, False), (bstr ''RI.SCAN'', Cmd_Riscan, False),
      (bstr ''RI.EXISTS'', Cmd_Riexists, False), (bstr ''RI.CONFIG'', Cmd_Riconfig, False),
      (bstr ''RI.METRICS'', Cmd_Rimetrics, False), (bstr ''GEOADD'', Cmd_Geoadd, False),
      (bstr ''GEOPOS'', Cmd_Geopos, False), (bstr ''GEOHASH'', Cmd_Geohash, False),
      (bstr ''GEODIST'', Cmd_Geodist, False), (bstr ''GEOSEARCH'', Cmd_Geosearch, False),
      (bstr ''GEOSEARCHSTORE'', Cmd_Geosearchstore, False),
      (bstr ''GEORADIUS'', Cmd_Georadius, False),
      (bstr ''GEORADIUS_RO'', Cmd_GeoradiusRo, False),
      (bstr ''GEORADIUSBYMEMBER'', Cmd_Georadiusbymember, False),
      (bstr ''GEORADIUSBYMEMBER_RO'', Cmd_GeoradiusbymemberRo, False),
      (bstr ''EVAL'', Cmd_Eval, False), (bstr ''EVALSHA'', Cmd_Evalsha, False),
      (bstr ''PUBLISH'', Cmd_Publish, False), (bstr ''SUBSCRIBE'', Cmd_Subscribe, False),
      (bstr ''PSUBSCRIBE'', Cmd_Psubscribe, False),
      (bstr ''UNSUBSCRIBE'', Cmd_Unsubscribe, False),
      (bstr ''PUNSUBSCRIBE'', Cmd_Punsubscribe, False),
      (bstr ''SPUBLISH'', Cmd_Spublish, False), (bstr ''SSUBSCRIBE'', Cmd_Ssubscribe, False),
      (bstr ''CUSTOMOBJECTSCAN'', Cmd_Coscan, False), (bstr ''PING'', Cmd_Ping, False),
      (bstr ''ECHO'', Cmd_Echo, False), (bstr ''QUIT'', Cmd_Quit, False),
      (bstr ''AUTH'', Cmd_Auth, False), (bstr ''HELLO'', Cmd_Hello, False),
      (bstr ''INFO'', Cmd_Info, False), (bstr ''TIME'', Cmd_Time, False),
      (bstr ''ROLE'', Cmd_Role, False), (bstr ''SAVE'', Cmd_Save, False),
      (bstr ''LASTSAVE'', Cmd_Lastsave, False), (bstr ''BGSAVE'', Cmd_Bgsave, False),
      (bstr ''COMMITAOF'', Cmd_Commitaof, False), (bstr ''FLUSHALL'', Cmd_Flushall, False),
      (bstr ''FLUSHDB'', Cmd_Flushdb, False), (bstr ''FAILOVER'', Cmd_Failover, False),
      (bstr ''MONITOR'', Cmd_Monitor, False), (bstr ''REGISTERCS'', Cmd_Registercs, False),
      (bstr ''ASYNC'', Cmd_Async, False), (bstr ''DEBUG'', Cmd_Debug, False),
      (bstr ''EXPDELSCAN'', Cmd_Expdelscan, False), (bstr ''WATCH'', Cmd_Watch, False),
      (bstr ''WATCHMS'', Cmd_Watchms, False), (bstr ''WATCHOS'', Cmd_Watchos, False),
      (bstr ''MULTI'', Cmd_Multi, False), (bstr ''EXEC'', Cmd_Exec, False),
      (bstr ''DISCARD'', Cmd_Discard, False), (bstr ''UNWATCH'', Cmd_Unwatch, False),
      (bstr ''RUNTXP'', Cmd_Runtxp, False), (bstr ''ASKING'', Cmd_Asking, False),
      (bstr ''READONLY'', Cmd_Readonly, False), (bstr ''READWRITE'', Cmd_Readwrite, False),
      (bstr ''REPLICAOF'', Cmd_Replicaof, False),
      (bstr ''SECONDARYOF'', Cmd_Secondaryof, False),
      (bstr ''SLAVEOF'', Cmd_Secondaryof, False), (bstr ''SCRIPT'', Cmd_Script, True),
      (bstr ''CONFIG'', Cmd_Config, True), (bstr ''CLIENT'', Cmd_Client, True),
      (bstr ''CLUSTER'', Cmd_Cluster, True), (bstr ''ACL'', Cmd_Acl, True),
      (bstr ''COMMAND'', Cmd_Command, True), (bstr ''LATENCY'', Cmd_Latency, True),
      (bstr ''SLOWLOG'', Cmd_Slowlog, True), (bstr ''MODULE'', Cmd_Module, True),
      (bstr ''PUBSUB'', Cmd_Pubsub, True), (bstr ''MEMORY'', Cmd_Memory, True),
      (bstr ''OBJECT'', Cmd_Object, True)]"

definition PRIMARY_DEFINITIONS :: "(bytes \<times> RespCommand \<times> bool) list" where
  "PRIMARY_DEFINITIONS = PRIMARY_DEFINITIONS_1 @ PRIMARY_DEFINITIONS_2"

definition CLUSTER_SUBCOMMANDS :: "(bytes \<times> RespCommand) list" where
  "CLUSTER_SUBCOMMANDS =
     [(bstr ''ADDSLOTS'', Cmd_ClusterAddslots),
      (bstr ''ADDSLOTSRANGE'', Cmd_ClusterAddslotsrange),
      (bstr ''ADVANCE_TIME'', Cmd_ClusterAdvanceTime),
      (bstr ''APPENDLOG'', Cmd_ClusterAppendlog), (bstr ''ATTACH_SYNC'', Cmd_ClusterAttachSync),
      (bstr ''BANLIST'', Cmd_ClusterBanlist),
      (bstr ''BEGIN_REPLICA_RECOVER'', Cmd_ClusterBeginReplicaRecover),
      (bstr ''BUMPEPOCH'', Cmd_ClusterBumpepoch),
      (bstr ''COUNTKEYSINSLOT'', Cmd_ClusterCountkeysinslot),
      (bstr ''DELKEYSINSLOT'', Cmd_ClusterDelkeysinslot),
      (bstr ''DELKEYSINSLOTRANGE'', Cmd_ClusterDelkeysinslotrange),
      (bstr ''DELSLOTS'', Cmd_ClusterDelslots),
      (bstr ''DELSLOTSRANGE'', Cmd_ClusterDelslotsrange),
      (bstr ''ENDPOINT'', Cmd_ClusterEndpoint), (bstr ''FAILOVER'', Cmd_ClusterFailover),
      (bstr ''FAILREPLICATIONOFFSET'', Cmd_ClusterFailreplicationoffset),
      (bstr ''FAILSTOPWRITES'', Cmd_ClusterFailstopwrites),
      (bstr ''FLUSHALL'', Cmd_ClusterFlushall), (bstr ''FORGET'', Cmd_ClusterForget),
      (bstr ''GETKEYSINSLOT'', Cmd_ClusterGetkeysinslot), (bstr ''GOSSIP'', Cmd_ClusterGossip),
      (bstr ''HELP'', Cmd_ClusterHelp), (bstr ''INFO'', Cmd_ClusterInfo),
      (bstr ''INITIATE_REPLICA_SYNC'', Cmd_ClusterInitiateReplicaSync),
      (bstr ''KEYSLOT'', Cmd_ClusterKeyslot), (bstr ''MEET'', Cmd_ClusterMeet),
      (bstr ''MIGRATE'', Cmd_ClusterMigrate), (bstr ''MLOG_KEY_TIME'', Cmd_ClusterMlogKeyTime),
      (bstr ''MTASKS'', Cmd_ClusterMtasks), (bstr ''MYID'', Cmd_ClusterMyid),
      (bstr ''MYPARENTID'', Cmd_ClusterMyparentid), (bstr ''NODES'', Cmd_ClusterNodes),
      (bstr ''PUBLISH'', Cmd_ClusterPublish), (bstr ''SPUBLISH'', Cmd_ClusterSpublish),
      (bstr ''REPLICAS'', Cmd_ClusterReplicas), (bstr ''REPLICATE'', Cmd_ClusterReplicate),
      (bstr ''RESERVE'', Cmd_ClusterReserve), (bstr ''RESET'', Cmd_ClusterReset),
      (bstr ''SEND_CKPT_FILE_SEGMENT'', Cmd_ClusterSendCkptFileSegment),
      (bstr ''SEND_CKPT_METADATA'', Cmd_ClusterSendCkptMetadata),
      (bstr ''SET-CONFIG-EPOCH'', Cmd_ClusterSetconfigepoch),
      (bstr ''SETCONFIGEPOCH'', Cmd_ClusterSetconfigepoch),
      (bstr ''SETSLOT'', Cmd_ClusterSetslot),
      (bstr ''SETSLOTSRANGE'', Cmd_ClusterSetslotsrange), (bstr ''SHARDS'', Cmd_ClusterShards),
      (bstr ''SLOTS'', Cmd_ClusterSlots), (bstr ''SLOTSTATE'', Cmd_ClusterSlotstate),
      (bstr ''SNAPSHOT_DATA'', Cmd_ClusterSnapshotData), (bstr ''SYNC'', Cmd_ClusterSync)]"

definition CLIENT_SUBCOMMANDS :: "(bytes \<times> RespCommand) list" where
  "CLIENT_SUBCOMMANDS =
     [(bstr ''ID'', Cmd_ClientId), (bstr ''INFO'', Cmd_ClientInfo),
      (bstr ''LIST'', Cmd_ClientList), (bstr ''KILL'', Cmd_ClientKill),
      (bstr ''GETNAME'', Cmd_ClientGetname), (bstr ''SETNAME'', Cmd_ClientSetname),
      (bstr ''SETINFO'', Cmd_ClientSetinfo), (bstr ''UNBLOCK'', Cmd_ClientUnblock)]"

definition ACL_SUBCOMMANDS :: "(bytes \<times> RespCommand) list" where
  "ACL_SUBCOMMANDS =
     [(bstr ''CAT'', Cmd_AclCat), (bstr ''DELUSER'', Cmd_AclDeluser),
      (bstr ''GENPASS'', Cmd_AclGenpass), (bstr ''GETUSER'', Cmd_AclGetuser),
      (bstr ''LIST'', Cmd_AclList), (bstr ''LOAD'', Cmd_AclLoad), (bstr ''SAVE'', Cmd_AclSave),
      (bstr ''SETUSER'', Cmd_AclSetuser), (bstr ''USERS'', Cmd_AclUsers),
      (bstr ''WHOAMI'', Cmd_AclWhoami)]"

definition COMMAND_SUBCOMMANDS :: "(bytes \<times> RespCommand) list" where
  "COMMAND_SUBCOMMANDS =
     [(bstr ''COUNT'', Cmd_CommandCount), (bstr ''DOCS'', Cmd_CommandDocs),
      (bstr ''INFO'', Cmd_CommandInfo), (bstr ''GETKEYS'', Cmd_CommandGetkeys),
      (bstr ''GETKEYSANDFLAGS'', Cmd_CommandGetkeysandflags)]"

definition CONFIG_SUBCOMMANDS :: "(bytes \<times> RespCommand) list" where
  "CONFIG_SUBCOMMANDS =
     [(bstr ''GET'', Cmd_ConfigGet), (bstr ''REWRITE'', Cmd_ConfigRewrite),
      (bstr ''SET'', Cmd_ConfigSet)]"

definition SCRIPT_SUBCOMMANDS :: "(bytes \<times> RespCommand) list" where
  "SCRIPT_SUBCOMMANDS =
     [(bstr ''LOAD'', Cmd_ScriptLoad), (bstr ''FLUSH'', Cmd_ScriptFlush),
      (bstr ''EXISTS'', Cmd_ScriptExists)]"

definition LATENCY_SUBCOMMANDS :: "(bytes \<times> RespCommand) list" where
  "LATENCY_SUBCOMMANDS =
     [(bstr ''HELP'', Cmd_LatencyHelp), (bstr ''HISTOGRAM'', Cmd_LatencyHistogram),
      (bstr ''RESET'', Cmd_LatencyReset)]"

definition SLOWLOG_SUBCOMMANDS :: "(bytes \<times> RespCommand) list" where
  "SLOWLOG_SUBCOMMANDS =
     [(bstr ''HELP'', Cmd_SlowlogHelp), (bstr ''GET'', Cmd_SlowlogGet),
      (bstr ''LEN'', Cmd_SlowlogLen), (bstr ''RESET'', Cmd_SlowlogReset)]"

definition MODULE_SUBCOMMANDS :: "(bytes \<times> RespCommand) list" where
  "MODULE_SUBCOMMANDS =
     [(bstr ''LOADCS'', Cmd_ModuleLoadcs)]"

definition PUBSUB_SUBCOMMANDS :: "(bytes \<times> RespCommand) list" where
  "PUBSUB_SUBCOMMANDS =
     [(bstr ''CHANNELS'', Cmd_PubsubChannels), (bstr ''NUMSUB'', Cmd_PubsubNumsub),
      (bstr ''NUMPAT'', Cmd_PubsubNumpat)]"

definition MEMORY_SUBCOMMANDS :: "(bytes \<times> RespCommand) list" where
  "MEMORY_SUBCOMMANDS =
     [(bstr ''USAGE'', Cmd_MemoryUsage)]"

definition OBJECT_SUBCOMMANDS :: "(bytes \<times> RespCommand) list" where
  "OBJECT_SUBCOMMANDS =
     [(bstr ''ENCODING'', Cmd_ObjectEncoding), (bstr ''FREQ'', Cmd_ObjectFreq),
      (bstr ''HELP'', Cmd_ObjectHelp), (bstr ''IDLETIME'', Cmd_ObjectIdletime),
      (bstr ''REFCOUNT'', Cmd_ObjectRefcount)]"

definition BITOP_SUBCOMMANDS :: "(bytes \<times> RespCommand) list" where
  "BITOP_SUBCOMMANDS =
     [(bstr ''AND'', Cmd_BitopAnd), (bstr ''OR'', Cmd_BitopOr), (bstr ''XOR'', Cmd_BitopXor),
      (bstr ''NOT'', Cmd_BitopNot), (bstr ''DIFF'', Cmd_BitopDiff)]"

definition PRIMARY_TABLE :: "hw_hash \<Rightarrow> CommandEntry list option" where
  "PRIMARY_TABLE hw =
     insert_all hw PRIMARY_TABLE_MASK
       (map (\<lambda>(name, cmd, has_sub). (name, cmd, if has_sub then FLAG_HAS_SUBCOMMANDS else 0)) PRIMARY_DEFINITIONS)
       (replicate PRIMARY_TABLE_SIZE default_entry)"

text \<open>The table, its definitions and its mask, per parent command.\<close>

definition sub_definitions :: "RespCommand \<Rightarrow> ((bytes \<times> RespCommand) list \<times> nat) option" where
  "sub_definitions parent =
     (if parent = Cmd_Cluster then Some (CLUSTER_SUBCOMMANDS, 128)
      else if parent = Cmd_Client then Some (CLIENT_SUBCOMMANDS, 16)
      else if parent = Cmd_Acl then Some (ACL_SUBCOMMANDS, 16)
      else if parent = Cmd_Command then Some (COMMAND_SUBCOMMANDS, 16)
      else if parent = Cmd_Config then Some (CONFIG_SUBCOMMANDS, 16)
      else if parent = Cmd_Script then Some (SCRIPT_SUBCOMMANDS, 16)
      else if parent = Cmd_Latency then Some (LATENCY_SUBCOMMANDS, 16)
      else if parent = Cmd_Slowlog then Some (SLOWLOG_SUBCOMMANDS, 16)
      else if parent = Cmd_Module then Some (MODULE_SUBCOMMANDS, 16)
      else if parent = Cmd_Pubsub then Some (PUBSUB_SUBCOMMANDS, 16)
      else if parent = Cmd_Memory then Some (MEMORY_SUBCOMMANDS, 16)
      else if parent = Cmd_Object then Some (OBJECT_SUBCOMMANDS, 16)
      else if parent = Cmd_Bitop then Some (BITOP_SUBCOMMANDS, 16)
      else None)"

type_synonym sub_tables = "RespCommand \<Rightarrow> CommandEntry list"

text \<open>\<open>SUB_TABLES\<close>: every table is built at once, and a failure in one of them is a panic.\<close>

definition sub_parents :: "RespCommand list" where
  "sub_parents = [Cmd_Cluster, Cmd_Client, Cmd_Acl, Cmd_Command, Cmd_Config, Cmd_Script, Cmd_Latency,
     Cmd_Slowlog, Cmd_Module, Cmd_Pubsub, Cmd_Memory, Cmd_Object, Cmd_Bitop]"

definition SUB_TABLES :: "hw_hash \<Rightarrow> sub_tables option" where
  "SUB_TABLES hw =
     (if list_all (\<lambda>p. case sub_definitions p of
           Some (defs, n) \<Rightarrow> build_sub_table hw n defs \<noteq> None | None \<Rightarrow> True) sub_parents
      then Some (\<lambda>p. case sub_definitions p of
           Some (defs, n) \<Rightarrow> the (build_sub_table hw n defs) | None \<Rightarrow> [])
      else None)"

section \<open>Entry points\<close>

definition lookup_primary :: "hw_hash \<Rightarrow> CommandEntry list \<Rightarrow> bytes \<Rightarrow> RespCommand \<times> bool" where
  "lookup_primary hw primary name = lookup_core hw primary PRIMARY_TABLE_MASK name"

definition lookup_subcommand_table :: "hw_hash \<Rightarrow> sub_tables \<Rightarrow> RespCommand \<Rightarrow> bytes \<Rightarrow> RespCommand" where
  "lookup_subcommand_table hw tables parent sub_name =
     (case sub_definitions parent of
        None \<Rightarrow> Cmd_None
      | Some (defs, n) \<Rightarrow> fst (lookup_core hw (tables parent) (n - 1) sub_name))"

text \<open>\<open>cmd.rs\<close>: the scan that upper-cases the name and notices whether it had to.\<close>

definition is_ascii_lowercase :: "u8 \<Rightarrow> bool" where
  "is_ascii_lowercase b \<longleftrightarrow> 0x61 \<le> b \<and> b \<le> 0x7A"

definition upper_byte :: "u8 \<Rightarrow> u8" where
  "upper_byte b = (if is_ascii_lowercase b then b - 0x20 else b)"

definition lookup :: "hw_hash \<Rightarrow> CommandEntry list \<Rightarrow> bytes \<Rightarrow> (RespCommand \<times> bool) option" where
  "lookup hw primary name =
     (if name = [] \<or> length name > 24 then None
      else
        let (cmd, has_sub) = lookup_primary hw primary name in
        if cmd \<noteq> Cmd_None then Some (cmd, has_sub)
        else if list_ex is_ascii_lowercase name then
          let (cmd, has_sub) = lookup_primary hw primary (map upper_byte name)
          in if cmd \<noteq> Cmd_None then Some (cmd, has_sub) else None
        else None)"

definition lookup_subcommand :: "hw_hash \<Rightarrow> sub_tables \<Rightarrow> RespCommand \<Rightarrow> bytes \<Rightarrow> RespCommand option" where
  "lookup_subcommand hw tables parent sub_name =
     (if sub_name = [] \<or> length sub_name > 24 then None
      else
        let cmd = lookup_subcommand_table hw tables parent sub_name in
        if cmd \<noteq> Cmd_None then Some cmd
        else if list_ex is_ascii_lowercase sub_name then
          let cmd = lookup_subcommand_table hw tables parent (map upper_byte sub_name)
          in if cmd \<noteq> Cmd_None then Some cmd else None
        else None)"

definition from_slice :: "hw_hash \<Rightarrow> CommandEntry list \<Rightarrow> bytes \<Rightarrow> RespCommand option" where
  "from_slice hw primary name = map_option fst (lookup hw primary name)"


section \<open>The words identify the name\<close>

lemma bit_le_word: "bit (le_word bs) i \<longleftrightarrow> i < 64 \<and> i div 8 < length bs \<and> bit (bs ! (i div 8)) (i mod 8)"
proof (induction bs arbitrary: i)
  case Nil
  then show ?case by simp
next
  case (Cons b bs)
  show ?case
  proof (cases "i < 8")
    case True
    then show ?thesis by (simp add: bit_or_iff bit_ucast_iff bit_push_bit_iff)
  next
    case False
    then have "\<not> bit (ucast b :: u64) i" using bit_imp_le_length [of b i] by (auto simp: bit_ucast_iff)
    moreover have "i div 8 = Suc ((i - 8) div 8)" "i mod 8 = (i - 8) mod 8"
      using False by (simp_all add: le_div_geq le_mod_geq)
    ultimately show ?thesis using False Cons.IH [of "i - 8"] by (auto simp: bit_or_iff bit_push_bit_iff)
  qed
qed

lemma le_word_inj:
  assumes "le_word xs = le_word ys" and "length xs = length ys" and "length xs \<le> 8"
  shows "xs = ys"
proof (rule nth_equalityI [OF assms(2)])
  fix k
  assume k: "k < length xs"
  show "xs ! k = ys ! k"
  proof (rule bit_word_eqI)
    fix n
    assume n: "n < LENGTH(8)"
    have "bit (le_word xs) (8 * k + n) = bit (le_word ys) (8 * k + n)" using assms(1) by simp
    moreover have "8 * k + n < 64" using k n assms(3) by simp
    moreover have "(8 * k + n) div 8 = k" "(8 * k + n) mod 8 = n" using n by simp_all
    ultimately show "bit (xs ! k) n = bit (ys ! k) n" using k assms(2) by (simp only: bit_le_word) simp
  qed
qed

lemma le_word_append: "le_word (xs @ ys) = le_word xs OR push_bit (8 * length xs) (le_word ys)"
  by (induction xs) (simp_all add: push_bit_or or.assoc add.commute)

lemma read_partial_word_le:
  assumes "0 < len" and "len < 8" and "len \<le> length p"
  shows "read_partial_word p len = le_word (take len p)"
proof -
  have s: "take (Suc n) p = take n p @ [p ! n]" if "n < length p" for n
    using that by (rule take_Suc_conv_app_nth)
  have s2: "take (4 + n) p = take 4 p @ take n (drop 4 p)" for n by (rule take_add)
  have one: "take (Suc 0) p = [p ! 0]" using assms by (cases p) auto
  have "len = 1 \<or> len = 2 \<or> len = 3 \<or> len = 4 \<or> len = 5 \<or> len = 6 \<or> len = 7" using assms by linarith
  then show ?thesis
    using assms(3) one s [of 2] s [of 4] s2 [of 2] s [of 6]
    by (elim disjE) (simp_all add: read_partial_word_def le_word_append numeral_eq_Suc)
qed

lemma read_word0_le:
  assumes "name \<noteq> []"
  shows "read_word0 name (length name) = le_word (take 8 name)"
  using assms by (auto simp: read_word0_def read_partial_word_le)

lemma get_word_le: "off < length name \<Longrightarrow> get_word_from_slice name off = le_word (take 8 (drop off name))"
  by (auto simp: get_word_from_slice_def Let_def read_partial_word_le)

definition valid_name :: "bytes \<Rightarrow> bool" where
  "valid_name name \<longleftrightarrow> name \<noteq> [] \<and> length name \<le> 24"

lemma of_nat_len_inj:
  assumes "(of_nat a :: u8) = of_nat b" and "a \<le> 24" and "b \<le> 24"
  shows "a = b"
proof -
  have "unat (of_nat a :: u8) = a" "unat (of_nat b :: u8) = b"
    using assms(2,3) by (simp_all add: unsigned_of_nat take_bit_nat_eq_self)
  with assms(1) show ?thesis by metis
qed

definition same_words :: "bytes \<Rightarrow> CommandEntry \<Rightarrow> bool" where
  "same_words name e \<longleftrightarrow> name_length e = of_nat (length name) \<and> name_word0 e = le_word (take 8 name) \<and>
     (8 < length name \<and> length name \<le> 16 \<longrightarrow> name_word1 e = le_word (take 8 (drop (length name - 8) name))) \<and>
     (16 < length name \<longrightarrow> name_word1 e = le_word (take 8 (drop 8 name)) \<and>
        name_word2 e = le_word (take 8 (drop (length name - 8) name)))"

lemma take_drop_cover:
  assumes "length xs = length ys" and "take a xs = take a ys" and "drop b xs = drop b ys" and "b \<le> a"
  shows "xs = ys"
proof (rule nth_equalityI [OF assms(1)])
  fix i
  assume i: "i < length xs"
  show "xs ! i = ys ! i"
  proof (cases "i < a")
    case True
    then have "take a xs ! i = xs ! i" "take a ys ! i = ys ! i" by simp_all
    with assms(2) show ?thesis by metis
  next
    case False
    then have "b \<le> i" using assms(4) by simp
    then have "drop b xs ! (i - b) = xs ! i" "drop b ys ! (i - b) = ys ! i" using i assms(1) by simp_all
    with assms(3) show ?thesis by metis
  qed
qed

lemma same_words_iff:
  assumes "valid_name name" and "valid_name other"
  shows "same_words name (new_entry other c f) \<longleftrightarrow> other = name"
proof
  assume sw: "same_words name (new_entry other c f)"
  then have len: "length other = length name"
    using assms of_nat_len_inj by (auto simp: same_words_def new_entry_def valid_name_def)
  have ne: "other \<noteq> []" "name \<noteq> []" using assms by (simp_all add: valid_name_def)
  have w0: "take 8 other = take 8 name"
    using sw len ne by (intro le_word_inj) (simp_all add: same_words_def new_entry_def get_word_le)
  consider "length name \<le> 8" | "8 < length name" "length name \<le> 16" | "16 < length name" by linarith
  then show "other = name"
  proof cases
    case 1
    with w0 len show ?thesis by simp
  next
    case 2
    then have "take 8 (drop (length name - 8) other) = take 8 (drop (length name - 8) name)"
      using sw len by (intro le_word_inj) (simp_all add: same_words_def new_entry_def get_word_le)
    then have "drop (length name - 8) other = drop (length name - 8) name" using 2 len by simp
    with w0 len show ?thesis by (rule_tac take_drop_cover [of _ _ 8 "length name - 8"]) (use 2 in auto)
  next
    case 3
    then have m: "take 8 (drop 8 other) = take 8 (drop 8 name)"
      using sw len by (intro le_word_inj) (simp_all add: same_words_def new_entry_def get_word_le)
    have "take 8 (drop (length name - 8) other) = take 8 (drop (length name - 8) name)"
      using sw len 3 by (intro le_word_inj) (simp_all add: same_words_def new_entry_def get_word_le)
    then have d: "drop (length name - 8) other = drop (length name - 8) name" using 3 len by simp
    have "take (8 + 8) other = take (8 + 8) name" by (simp only: take_add w0 m)
    then show ?thesis
      using len d assms(1) by (intro take_drop_cover [of other name 16 "length name - 8"]) (auto simp: valid_name_def)
  qed
next
  assume "other = name"
  then show "same_words name (new_entry other c f)"
    using assms(1) by (auto simp: same_words_def new_entry_def get_word_le valid_name_def)
qed

section \<open>Probing\<close>

definition start_slot :: "hw_hash \<Rightarrow> nat \<Rightarrow> bytes \<Rightarrow> nat" where
  "start_slot hw msk name = unat (compute_cmd_hash hw name) AND msk"

primrec slot_at :: "nat \<Rightarrow> nat \<Rightarrow> nat \<Rightarrow> nat" where
  "slot_at msk i 0 = i"
| "slot_at msk i (Suc j) = slot_at msk ((i + 1) AND msk) j"

lemma and_nat_le: "(a :: nat) AND msk \<le> msk"
proof -
  have "int a AND int msk \<le> int msk" by (rule AND_upper2) simp
  then show ?thesis by (simp add: nat_le_iff and_nat_def)
qed

lemma slot_at_le: "i \<le> msk \<Longrightarrow> slot_at msk i j \<le> msk"
  by (induction j arbitrary: i) (simp_all add: and_nat_le)

lemma start_slot_le: "start_slot hw msk name \<le> msk"
  by (simp add: start_slot_def and_nat_le)

lemma lookup_core_probe:
  assumes "valid_name name"
  shows "lookup_core hw table msk name = probe MAX_PROBES table msk (same_words name) (start_slot hw msk name)"
proof -
  have h: "compute_cmd_hash hw name = compute_hash_word hw (le_word (take 8 name)) (of_nat (length name))"
    using assms by (simp add: compute_cmd_hash_def read_word0_le valid_name_def Let_def)
  have w: "read_word0 name (length name) = le_word (take 8 name)"
    using assms by (simp add: read_word0_le valid_name_def)
  have n: "length name \<noteq> 0" "length name \<le> 24" using assms by (simp_all add: valid_name_def)
  consider "length name \<le> 8" | "8 < length name" "length name \<le> 16" | "16 < length name" by linarith
  then show ?thesis
  proof cases
    case 1
    then have "same_words name = (\<lambda>e. name_length e = of_nat (length name) \<and> name_word0 e = le_word (take 8 name))"
      by (simp add: fun_eq_iff same_words_def)
    with 1 n show ?thesis by (simp add: lookup_core_def Let_def start_slot_def h w)
  next
    case 2
    then have "same_words name = (\<lambda>e. name_length e = of_nat (length name) \<and> name_word0 e = le_word (take 8 name)
        \<and> name_word1 e = le_word (take 8 (drop (length name - 8) name)))"
      by (simp add: fun_eq_iff same_words_def)
    with 2 n show ?thesis by (simp add: lookup_core_def Let_def start_slot_def h)
  next
    case 3
    then have "same_words name = (\<lambda>e. name_length e = of_nat (length name) \<and> name_word0 e = le_word (take 8 name)
        \<and> name_word1 e = le_word (take 8 (drop 8 name)) \<and> name_word2 e = le_word (take 8 (drop (length name - 8) name)))"
      by (simp add: fun_eq_iff same_words_def)
    with 3 n show ?thesis by (simp add: lookup_core_def Let_def start_slot_def h)
  qed
qed

lemma probe_hit:
  assumes "k < n" and "name_length (table ! slot_at msk i k) \<noteq> 0" and "m (table ! slot_at msk i k)"
    and "\<forall>j < k. name_length (table ! slot_at msk i j) \<noteq> 0 \<and> \<not> m (table ! slot_at msk i j)"
  shows "probe n table msk m i =
    (command (table ! slot_at msk i k), flags (table ! slot_at msk i k) AND FLAG_HAS_SUBCOMMANDS \<noteq> 0)"
  using assms
proof (induction n arbitrary: i k)
  case 0
  then show ?case by simp
next
  case (Suc n)
  show ?case
  proof (cases k)
    case 0
    with Suc.prems show ?thesis by (simp add: Let_def)
  next
    case (Suc k')
    have "name_length (table ! i) \<noteq> 0" "\<not> m (table ! i)" using Suc.prems(4) Suc by (metis slot_at.simps(1) zero_less_Suc)+
    moreover have "\<forall>j < k'. name_length (table ! slot_at msk ((i + 1) AND msk) j) \<noteq> 0 \<and>
        \<not> m (table ! slot_at msk ((i + 1) AND msk) j)"
      using Suc.prems(4) Suc by (metis Suc_less_eq slot_at.simps(2))
    ultimately show ?thesis using Suc.IH [of k' "(i + 1) AND msk"] Suc.prems(1-3) Suc by (simp add: Let_def)
  qed
qed

lemma probe_miss:
  assumes "\<And>j. name_length (table ! slot_at msk i j) \<noteq> 0 \<Longrightarrow> \<not> m (table ! slot_at msk i j)"
  shows "probe n table msk m i = (Cmd_None, False)"
  using assms
proof (induction n arbitrary: i)
  case 0
  then show ?case by simp
next
  case (Suc n)
  have "\<not> m (table ! i)" if "name_length (table ! i) \<noteq> 0" using Suc.prems [of 0] that by simp
  moreover have "probe n table msk m ((i + 1) AND msk) = (Cmd_None, False)"
    using Suc.IH Suc.prems by (metis slot_at.simps(2))
  ultimately show ?case by (simp add: Let_def)
qed

lemma insert_probe_Some:
  assumes "insert_probe n table msk e i = Some table'"
  shows "\<exists>k < n. table' = table[slot_at msk i k := e] \<and> name_length (table ! slot_at msk i k) = 0 \<and>
    (\<forall>j < k. name_length (table ! slot_at msk i j) \<noteq> 0)"
  using assms
proof (induction n arbitrary: i)
  case 0
  then show ?case by simp
next
  case (Suc n)
  show ?case
  proof (cases "name_length (table ! i) = 0")
    case True
    with Suc.prems show ?thesis by (intro exI [of _ 0]) simp
  next
    case False
    then obtain k where k: "k < n" "table' = table[slot_at msk ((i + 1) AND msk) k := e]"
      "name_length (table ! slot_at msk ((i + 1) AND msk) k) = 0"
      "\<forall>j < k. name_length (table ! slot_at msk ((i + 1) AND msk) j) \<noteq> 0"
      using Suc.IH [of "(i + 1) AND msk"] Suc.prems by auto
    have "name_length (table ! slot_at msk i j) \<noteq> 0" if "j < Suc k" for j
      using that k(4) False by (cases j) simp_all
    with k show ?thesis by (intro exI [of _ "Suc k"]) simp
  qed
qed

section \<open>The table invariant\<close>

type_synonym command_def = "bytes \<times> RespCommand \<times> u8"

definition found_at :: "hw_hash \<Rightarrow> nat \<Rightarrow> CommandEntry list \<Rightarrow> bytes \<Rightarrow> CommandEntry \<Rightarrow> bool" where
  "found_at hw msk table name e \<longleftrightarrow> (\<exists>k < MAX_PROBES. table ! slot_at msk (start_slot hw msk name) k = e \<and>
     (\<forall>j < k. name_length (table ! slot_at msk (start_slot hw msk name) j) \<noteq> 0 \<and>
        \<not> same_words name (table ! slot_at msk (start_slot hw msk name) j)))"

definition table_inv :: "hw_hash \<Rightarrow> nat \<Rightarrow> command_def list \<Rightarrow> CommandEntry list \<Rightarrow> bool" where
  "table_inv hw msk ds table \<longleftrightarrow> length table = msk + 1 \<and>
     (\<forall>i \<le> msk. name_length (table ! i) \<noteq> 0 \<longrightarrow>
        (\<exists>(n, c, f) \<in> set ds. valid_name n \<and> table ! i = new_entry n c f)) \<and>
     (\<forall>n c f. map_of ds n = Some (c, f) \<longrightarrow> valid_name n \<and> found_at hw msk table n (new_entry n c f))"

lemma new_entry_occupied: "valid_name n \<Longrightarrow> name_length (new_entry n c f) \<noteq> 0"
  using of_nat_len_inj [of "length n" 0] by (auto simp: new_entry_def valid_name_def)

lemma found_at_update:
  assumes "found_at hw msk table n e" and "name_length e \<noteq> 0" and "name_length (table ! p) = 0"
  shows "found_at hw msk (table[p := e']) n e"
proof -
  obtain k where k: "k < MAX_PROBES" "table ! slot_at msk (start_slot hw msk n) k = e"
    "\<forall>j < k. name_length (table ! slot_at msk (start_slot hw msk n) j) \<noteq> 0 \<and>
        \<not> same_words n (table ! slot_at msk (start_slot hw msk n) j)"
    using assms(1) by (auto simp: found_at_def)
  have same: "table[p := e'] ! i = table ! i" if "name_length (table ! i) \<noteq> 0" for i
    using that assms(3) by (metis nth_list_update_neq)
  show ?thesis unfolding found_at_def
    using k same assms(2) by (intro exI [of _ k]) auto
qed

lemma table_inv_slot:
  assumes "table_inv hw msk ds table" and "name_length (table ! slot_at msk (start_slot hw msk name) j) \<noteq> 0"
  obtains n c f where "(n, c, f) \<in> set ds" "valid_name n" "table ! slot_at msk (start_slot hw msk name) j = new_entry n c f"
proof -
  have "slot_at msk (start_slot hw msk name) j \<le> msk" by (rule slot_at_le [OF start_slot_le])
  then have "\<exists>(n, c, f) \<in> set ds. valid_name n \<and> table ! slot_at msk (start_slot hw msk name) j = new_entry n c f"
    using assms unfolding table_inv_def by blast
  with that show thesis by auto
qed

lemma table_inv_insert:
  assumes inv: "table_inv hw msk ds table" and ins: "insert_into_table hw table msk name cmd fl = Some table'"
  shows "table_inv hw msk (ds @ [(name, cmd, fl)]) table'"
proof -
  have v: "valid_name name"
    and ip: "insert_probe MAX_PROBES table msk (new_entry name cmd fl) (start_slot hw msk name) = Some table'"
    using ins by (auto simp: insert_into_table_def valid_name_def start_slot_def split: if_splits)
  obtain k where k: "k < MAX_PROBES" "table' = table[slot_at msk (start_slot hw msk name) k := new_entry name cmd fl]"
    "name_length (table ! slot_at msk (start_slot hw msk name) k) = 0"
    "\<forall>j < k. name_length (table ! slot_at msk (start_slot hw msk name) j) \<noteq> 0"
    using insert_probe_Some [OF ip] by blast
  let ?p = "slot_at msk (start_slot hw msk name) k"
  have len: "length table = msk + 1" using inv by (simp add: table_inv_def)
  have p: "?p < length table" using slot_at_le [OF start_slot_le] len by (simp add: le_imp_less_Suc)
  have occ: "\<exists>(n, c, f) \<in> set ds. valid_name n \<and> table ! i = new_entry n c f"
    if "i \<le> msk" "name_length (table ! i) \<noteq> 0" for i using inv that by (simp add: table_inv_def)
  have old: "valid_name n \<and> found_at hw msk table' n (new_entry n c f)" if "map_of ds n = Some (c, f)" for n c f
    using that inv k(2,3) found_at_update new_entry_occupied by (simp add: table_inv_def)
  have new: "found_at hw msk table' name (new_entry name cmd fl)" if none: "map_of ds name = None"
  proof -
    have "\<not> same_words name (table ! slot_at msk (start_slot hw msk name) j)" if "j < k" for j
    proof -
      have o: "name_length (table ! slot_at msk (start_slot hw msk name) j) \<noteq> 0" using k(4) that by blast
      obtain n c f where n: "(n, c, f) \<in> set ds" "valid_name n" "table ! slot_at msk (start_slot hw msk name) j = new_entry n c f"
        by (rule table_inv_slot [OF inv o])
      have "n \<noteq> name" using n(1) none by (auto simp: map_of_eq_None_iff image_iff)
      then show ?thesis using same_words_iff [OF v n(2)] n(3) by simp
    qed
    moreover have "table' ! slot_at msk (start_slot hw msk name) j = table ! slot_at msk (start_slot hw msk name) j"
      if "j < k" for j using that k(2-4) by (metis nth_list_update_neq)
    ultimately show ?thesis unfolding found_at_def
      using k(1,2,4) p by (intro exI [of _ k]) auto
  qed
  have "valid_name n \<and> found_at hw msk table' n (new_entry n c f)"
    if "map_of (ds @ [(name, cmd, fl)]) n = Some (c, f)" for n c f
    using that old new v by (auto simp: map_add_def split: option.splits if_splits)
  moreover have "\<exists>(n, c, f) \<in> set (ds @ [(name, cmd, fl)]). valid_name n \<and> table' ! i = new_entry n c f"
    if "i \<le> msk" "name_length (table' ! i) \<noteq> 0" for i
  proof (cases "i = ?p")
    case True
    then show ?thesis using k(2) p v by auto
  next
    case False
    then have "table' ! i = table ! i" using k(2) by simp
    then show ?thesis using occ that by fastforce
  qed
  ultimately show ?thesis using len k(2) by (simp add: table_inv_def)
qed

lemma table_inv_all:
  assumes "table_inv hw msk ds table" and "insert_all hw msk defs table = Some table'"
  shows "table_inv hw msk (ds @ defs) table'"
  using assms
proof (induction hw msk defs table arbitrary: ds rule: insert_all.induct)
  case (1 hw msk table)
  then show ?case by simp
next
  case (2 hw msk name cmd fl defs table)
  then obtain t where "insert_into_table hw table msk name cmd fl = Some t" "insert_all hw msk defs t = Some table'"
    by (auto split: option.splits)
  then show ?case using 2 table_inv_insert [of hw msk ds table name cmd fl t] by fastforce
qed

lemma table_inv_empty: "table_inv hw msk [] (replicate (msk + 1) default_entry)"
  by (auto simp: table_inv_def default_entry_def simp del: replicate_Suc)

lemma lookup_core_inv:
  assumes "table_inv hw msk ds table"
  shows "lookup_core hw table msk name =
    (case map_of ds name of Some (c, f) \<Rightarrow> (c, f AND FLAG_HAS_SUBCOMMANDS \<noteq> 0) | None \<Rightarrow> (Cmd_None, False))"
proof (cases "valid_name name")
  case False
  then have "map_of ds name = None" using assms by (metis not_Some_eq table_inv_def surj_pair)
  moreover have "lookup_core hw table msk name = (Cmd_None, False)"
    using False by (auto simp: lookup_core_def valid_name_def Let_def)
  ultimately show ?thesis by simp
next
  case True
  show ?thesis
  proof (cases "map_of ds name")
    case None
    have "\<not> same_words name (table ! slot_at msk (start_slot hw msk name) j)"
      if o: "name_length (table ! slot_at msk (start_slot hw msk name) j) \<noteq> 0" for j
    proof -
      obtain n c f where n: "(n, c, f) \<in> set ds" "valid_name n"
        "table ! slot_at msk (start_slot hw msk name) j = new_entry n c f"
        by (rule table_inv_slot [OF assms o])
      have "n \<noteq> name" using n(1) None by (auto simp: map_of_eq_None_iff image_iff)
      then show ?thesis using same_words_iff [OF True n(2)] n(3) by simp
    qed
    then show ?thesis using None probe_miss lookup_core_probe [OF True] by simp
  next
    case (Some cf)
    obtain c f where cf: "cf = (c, f)" by (cases cf)
    have "found_at hw msk table name (new_entry name c f)" using assms Some cf by (simp add: table_inv_def)
    then obtain k where k: "k < MAX_PROBES" "table ! slot_at msk (start_slot hw msk name) k = new_entry name c f"
      "\<forall>j < k. name_length (table ! slot_at msk (start_slot hw msk name) j) \<noteq> 0 \<and>
        \<not> same_words name (table ! slot_at msk (start_slot hw msk name) j)"
      unfolding found_at_def by blast
    have "command (new_entry name c f) = c" "flags (new_entry name c f) = f" by (simp_all add: new_entry_def)
    then show ?thesis
      using probe_hit [OF k(1), of table msk "start_slot hw msk name" "same_words name"] k(2,3)
        new_entry_occupied [OF True] same_words_iff [OF True True] Some cf lookup_core_probe [OF True]
      by simp
  qed
qed

section \<open>The software hash builds the primary table\<close>

text \<open>
  The construction only depends on which slots are taken.  The following definitions replay it
  on the slot numbers alone, as rows of 32, from the starting slot of every name.
\<close>

definition taken :: "nat list list \<Rightarrow> nat \<Rightarrow> bool" where
  "taken occ i \<longleftrightarrow> i mod 32 \<in> set (occ ! (i div 32))"

fun first_free :: "nat \<Rightarrow> nat list list \<Rightarrow> nat \<Rightarrow> nat \<Rightarrow> nat option" where
  "first_free 0 occ msk idx = None"
| "first_free (Suc n) occ msk idx =
     (if taken occ idx then first_free n occ msk ((idx + 1) AND msk) else Some idx)"

fun place_all :: "nat list \<Rightarrow> nat \<Rightarrow> nat list list \<Rightarrow> nat list list option" where
  "place_all [] msk occ = Some occ"
| "place_all (h # hs) msk occ =
     (case first_free MAX_PROBES occ msk h of
        None \<Rightarrow> None
      | Some p \<Rightarrow> place_all hs msk (occ[p div 32 := (p mod 32) # occ ! (p div 32)]))"

definition occ_rel :: "nat \<Rightarrow> nat list list \<Rightarrow> CommandEntry list \<Rightarrow> bool" where
  "occ_rel msk occ table \<longleftrightarrow> length table = msk + 1 \<and> msk div 32 < length occ \<and>
     (\<forall>i \<le> msk. name_length (table ! i) = 0 \<longleftrightarrow> \<not> taken occ i)"

lemma first_free_insert:
  assumes "occ_rel msk occ table" and "i \<le> msk"
  shows "insert_probe n table msk e i = map_option (\<lambda>p. table[p := e]) (first_free n occ msk i) \<and>
    (\<forall>p. first_free n occ msk i = Some p \<longrightarrow> p \<le> msk)"
  using assms(2)
proof (induction n arbitrary: i)
  case 0
  then show ?case by simp
next
  case (Suc n)
  then show ?case using Suc.IH [of "(i + 1) AND msk"] assms(1) and_nat_le by (auto simp: occ_rel_def)
qed

lemma occ_rel_update:
  assumes "occ_rel msk occ table" and "p \<le> msk" and "name_length e \<noteq> 0"
  shows "occ_rel msk (occ[p div 32 := (p mod 32) # occ ! (p div 32)]) (table[p := e])"
proof -
  have row: "p div 32 < length occ" using assms(1,2) by (auto simp: occ_rel_def intro: le_less_trans [OF div_le_mono])
  have "taken (occ[p div 32 := (p mod 32) # occ ! (p div 32)]) i \<longleftrightarrow> i = p \<or> taken occ i" for i
  proof (cases "i div 32 = p div 32")
    case True
    then have "i = p \<longleftrightarrow> i mod 32 = p mod 32" by (metis div_mult_mod_eq)
    with True row show ?thesis by (auto simp: taken_def)
  next
    case False
    then show ?thesis by (auto simp: taken_def)
  qed
  then show ?thesis using assms by (auto simp: occ_rel_def nth_list_update)
qed

lemma place_all_insert:
  assumes "occ_rel msk occ table" and "place_all (map (\<lambda>d. start_slot hw msk (fst d)) defs) msk occ = Some occ'"
    and "list_all (\<lambda>d. valid_name (fst d)) defs"
  shows "\<exists>table'. insert_all hw msk defs table = Some table' \<and> occ_rel msk occ' table'"
  using assms
proof (induction hw msk defs table arbitrary: occ rule: insert_all.induct)
  case (1 hw msk table)
  then show ?case by simp
next
  case (2 hw msk name cmd fl defs table)
  have v: "valid_name name" using "2.prems"(3) by simp
  obtain p where p: "first_free MAX_PROBES occ msk (start_slot hw msk name) = Some p"
    and rest: "place_all (map (\<lambda>d. start_slot hw msk (fst d)) defs) msk (occ[p div 32 := (p mod 32) # occ ! (p div 32)]) = Some occ'"
    using "2.prems"(2) by (auto split: option.splits)
  let ?t = "table[p := new_entry name cmd fl]"
  have "p \<le> msk" and ins: "insert_into_table hw table msk name cmd fl = Some ?t"
    using first_free_insert [OF "2.prems"(1) start_slot_le, of MAX_PROBES _ hw name] p v
    by (simp_all add: insert_into_table_def start_slot_def valid_name_def)
  then have "occ_rel msk (occ[p div 32 := (p mod 32) # occ ! (p div 32)]) ?t"
    using occ_rel_update [OF "2.prems"(1)] new_entry_occupied [OF v] by blast
  then show ?case using "2.IH" [OF ins _ rest] "2.prems"(3) ins by simp
qed

lemma insert_all_append:
  "insert_all hw msk (xs @ ys) table = Option.bind (insert_all hw msk xs table) (insert_all hw msk ys)"
  by (induction hw msk xs table rule: insert_all.induct) (simp_all split: option.splits)

definition primary_slots_1 :: "nat list" where
  "primary_slots_1 =
    [289, 503, 418, 47, 22, 371, 282, 462, 217, 51, 246, 174, 205, 127, 357, 156, 415, 504, 406,
    39, 30, 358, 115, 198, 10, 248, 193, 175, 494, 328, 407, 157, 411, 315, 428, 455, 261, 114,
    171, 156, 457, 318, 397, 19, 27, 437, 98, 259, 488, 295, 422, 396, 260, 12, 503, 498, 225, 31,
    332, 351, 142, 255, 135, 289, 19, 145, 79, 265, 8, 132, 262, 135, 138, 273, 215, 163, 11, 499,
    291, 14, 181, 224, 471, 322, 369, 284, 258, 194, 357, 145, 310, 351, 304, 377, 392, 292, 68,
    249, 485, 17, 468, 474, 9, 265, 459, 204, 378, 83, 99, 496, 139, 362, 197, 181, 171, 220, 173,
    439, 442, 168, 311, 420, 360, 281, 208, 109]"

definition primary_slots_2 :: "nat list" where
  "primary_slots_2 =
    [387, 166, 182, 472, 333, 430, 497, 314, 3, 161, 28, 378, 28, 320, 471, 361, 198, 198, 211,
    404, 447, 154, 261, 434, 382, 271, 303, 402, 212, 285, 60, 60, 434, 323, 268, 134, 20, 307,
    448, 477, 162, 127, 4, 23, 29, 165, 424, 372, 448, 53, 194, 391, 363, 505, 440, 61, 225, 373,
    475, 10, 145, 165, 260, 251, 52, 510, 245, 473, 303, 103, 408, 271, 488, 157, 16, 261, 70,
    134, 405, 108, 302, 184, 365, 104, 27, 312, 155, 73, 301, 119, 157, 402, 454, 389, 41, 391,
    240, 435, 232, 439, 17, 220, 121, 228, 187, 76, 91, 249, 249, 170, 137, 81, 194, 361, 478,
    411, 386, 234, 313, 248, 356, 342, 333, 231, 405, 53, 123, 390, 365, 389, 416, 430]"

definition half_occupied :: "nat list list" where
  "half_occupied =
    [[9, 17, 14, 11, 8, 20, 31, 12, 27, 19, 10, 30, 22], [7, 19, 15], [19, 4, 15], [13, 3, 2, 18,
    19, 31], [11, 18, 10, 8, 4, 17, 7, 14, 30, 29, 28], [8, 13, 12, 22, 21, 3, 11, 15, 14], [16,
    28, 5, 12, 2, 23, 1, 6, 13, 25], [25, 0, 31, 1, 24, 22], [25, 10, 2, 28, 17, 6, 9, 4, 3, 5,
    26], [23, 4, 16, 22, 3, 2, 7, 30, 27, 1], [2, 31, 12, 8], [8, 10, 26, 25, 0, 7, 17, 6, 5, 19],
    [8, 12, 13, 27, 23, 22, 31], [4, 26, 23, 6, 21, 12, 2], [11, 26, 20, 23, 9, 7, 14], [16, 5,
    19, 18, 25, 8, 14, 24, 23]]"

abbreviation software :: hw_hash where
  "software \<equiv> \<lambda>_ _. None"

lemmas slot_eval = start_slot_def compute_cmd_hash_def compute_hash_word_def FIB_HASH_MUL_def
  FIB_HASH_MUL_32_def bstr_def read_word0_def read_partial_word_def Let_def

lemma primary_slots_1: "map (\<lambda>d. start_slot software 511 (fst d)) PRIMARY_DEFINITIONS_1 = primary_slots_1"
  by (simp add: PRIMARY_DEFINITIONS_1_def primary_slots_1_def slot_eval)

lemma primary_slots_2: "map (\<lambda>d. start_slot software 511 (fst d)) PRIMARY_DEFINITIONS_2 = primary_slots_2"
  by (simp add: PRIMARY_DEFINITIONS_2_def primary_slots_2_def slot_eval)

lemma first_free_step:
  "0 < n \<Longrightarrow> first_free n occ msk idx =
     (if taken occ idx then first_free (n - 1) occ msk ((idx + 1) AND msk) else Some idx)"
  by (cases n) simp_all

lemma place_half: "place_all primary_slots_1 511 [[], [], [], [], [], [], [], [], [], [], [], [], [], [], [], []] = Some half_occupied"
  by (simp add: primary_slots_1_def half_occupied_def MAX_PROBES_def first_free_step taken_def
      del: first_free.simps(2))

lemma place_rest: "\<exists>occ. place_all primary_slots_2 511 half_occupied = Some occ"
  by (simp add: primary_slots_2_def half_occupied_def MAX_PROBES_def first_free_step taken_def
      del: first_free.simps(2))

text \<open>Facts about the definitions: upper-case names of at most 24 bytes, and real commands.\<close>

definition good_def :: "bytes \<times> RespCommand \<Rightarrow> bool" where
  "good_def d \<longleftrightarrow> valid_name (fst d) \<and> \<not> list_ex is_ascii_lowercase (fst d) \<and> snd d \<noteq> Cmd_None"

lemma primary_good: "list_all (\<lambda>(n, c, b). good_def (n, c)) PRIMARY_DEFINITIONS"
  by (simp add: PRIMARY_DEFINITIONS_def PRIMARY_DEFINITIONS_1_def PRIMARY_DEFINITIONS_2_def good_def_def
      valid_name_def bstr_def is_ascii_lowercase_def)


lemma software_table_builds: "\<exists>primary. PRIMARY_TABLE software = Some primary"
proof -
  define fl :: "bytes \<times> RespCommand \<times> bool \<Rightarrow> command_def"
    where "fl = (\<lambda>(name, cmd, has_sub). (name, cmd, if has_sub then FLAG_HAS_SUBCOMMANDS else 0))"
  have fst_fl: "fst (fl d) = fst d" for d by (simp add: fl_def split_beta)
  have r0: "occ_rel 511 [[], [], [], [], [], [], [], [], [], [], [], [], [], [], [], []] (replicate 512 default_entry)"
    by (auto simp: occ_rel_def taken_def default_entry_def nth_Cons')
  have v: "list_all (\<lambda>d. valid_name (fst d)) (map fl PRIMARY_DEFINITIONS_1)"
    "list_all (\<lambda>d. valid_name (fst d)) (map fl PRIMARY_DEFINITIONS_2)"
    using primary_good by (auto simp: PRIMARY_DEFINITIONS_def list_all_iff good_def_def fst_fl)
  obtain t1 where t1: "insert_all software 511 (map fl PRIMARY_DEFINITIONS_1) (replicate 512 default_entry) = Some t1"
    "occ_rel 511 half_occupied t1"
    using place_all_insert [OF r0 _ v(1), of software half_occupied] place_half primary_slots_1
    by (auto simp: o_def fst_fl)
  obtain t2 where "insert_all software 511 (map fl PRIMARY_DEFINITIONS_2) t1 = Some t2"
    using place_all_insert [OF t1(2) _ v(2), of software] place_rest primary_slots_2
    by (fastforce simp: o_def fst_fl)
  with t1(1) show ?thesis
    by (simp add: PRIMARY_TABLE_def PRIMARY_DEFINITIONS_def insert_all_append PRIMARY_TABLE_MASK_def
        PRIMARY_TABLE_SIZE_def flip: fl_def)
qed

section \<open>Correctness of the entry points\<close>

lemma upper_byte_id: "\<not> is_ascii_lowercase b \<Longrightarrow> upper_byte b = b"
  by (simp add: upper_byte_def)

lemma map_upper_id: "\<not> list_ex is_ascii_lowercase name \<Longrightarrow> map upper_byte name = name"
  by (induction name) (simp_all add: upper_byte_id)

lemma upper_not_lower: "\<not> is_ascii_lowercase (upper_byte b)"
proof (cases "is_ascii_lowercase b")
  case True
  then have "unat (b - 0x20) = unat b - 32" "97 \<le> unat b" "unat b \<le> 122"
    by (simp_all add: is_ascii_lowercase_def word_le_nat_alt unat_sub)
  then show ?thesis using True by (simp add: upper_byte_def is_ascii_lowercase_def word_le_nat_alt)
qed (simp add: upper_byte_id)

lemma two_step_lookup:
  assumes "\<And>n. lk n = (case map_of ds n of Some v \<Rightarrow> v | None \<Rightarrow> d)"
    and "\<And>n v. map_of ds n = Some v \<Longrightarrow> valid_name n \<and> \<not> list_ex is_ascii_lowercase n \<and> P v" and "\<not> P d"
  shows "(if name = [] \<or> length name > 24 then None
      else if P (lk name) then Some (lk name)
      else if list_ex is_ascii_lowercase name
        then if P (lk (map upper_byte name)) then Some (lk (map upper_byte name)) else None
      else None) = map_of ds (map upper_byte name)"
proof (cases "valid_name name")
  case False
  then have "\<not> valid_name (map upper_byte name)" by (simp add: valid_name_def)
  then have "map_of ds (map upper_byte name) = None" using assms(2) by (metis not_Some_eq)
  with False show ?thesis by (auto simp: valid_name_def)
next
  case True
  then have v: "\<not> (name = [] \<or> length name > 24)" by (auto simp: valid_name_def)
  show ?thesis
  proof (cases "list_ex is_ascii_lowercase name")
    case True
    then have "map_of ds name = None" using assms(2) by (metis not_Some_eq)
    then have "\<not> P (lk name)" using assms(1,3) by simp
    moreover have "P (lk (map upper_byte name)) \<longleftrightarrow> map_of ds (map upper_byte name) \<noteq> None"
      using assms by (auto split: option.splits)
    ultimately show ?thesis using v True assms(1) [of "map upper_byte name"] by (auto split: option.splits)
  next
    case False
    then have "map upper_byte name = name" by (rule map_upper_id)
    moreover have "P (lk name) \<longleftrightarrow> map_of ds name \<noteq> None"
      using assms by (auto split: option.splits)
    ultimately show ?thesis using v False assms(1) [of name] by (auto split: option.splits)
  qed
qed

lemma lookup_primary_eq:
  assumes "PRIMARY_TABLE hw = Some primary"
  shows "lookup_primary hw primary name =
    (case map_of PRIMARY_DEFINITIONS name of Some v \<Rightarrow> v | None \<Rightarrow> (Cmd_None, False))"
proof -
  define g :: "RespCommand \<times> bool \<Rightarrow> RespCommand \<times> u8" where "g = (\<lambda>(c, b). (c, if b then FLAG_HAS_SUBCOMMANDS else 0))"
  have "map (\<lambda>(name, cmd, has_sub). (name, cmd, if has_sub then FLAG_HAS_SUBCOMMANDS else 0)) PRIMARY_DEFINITIONS
      = map (\<lambda>(n, v). (n, g v)) PRIMARY_DEFINITIONS"
    by (auto simp: g_def split_beta)
  moreover have "PRIMARY_TABLE_SIZE = PRIMARY_TABLE_MASK + 1"
    by (simp add: PRIMARY_TABLE_MASK_def PRIMARY_TABLE_SIZE_def)
  ultimately have "insert_all hw PRIMARY_TABLE_MASK (map (\<lambda>(n, v). (n, g v)) PRIMARY_DEFINITIONS)
      (replicate (PRIMARY_TABLE_MASK + 1) default_entry) = Some primary"
    using assms unfolding PRIMARY_TABLE_def by argo
  from table_inv_all [OF table_inv_empty this]
  have "table_inv hw PRIMARY_TABLE_MASK (map (\<lambda>(n, v). (n, g v)) PRIMARY_DEFINITIONS) primary" by simp
  from lookup_core_inv [OF this, of name] show ?thesis
    by (auto simp: lookup_primary_def map_of_map g_def FLAG_HAS_SUBCOMMANDS_def split: option.splits)
qed

lemma lookup_dictionary:
  assumes "PRIMARY_TABLE hw = Some primary"
  shows "lookup hw primary name = map_of PRIMARY_DEFINITIONS (map upper_byte name)"
proof -
  have "valid_name n \<and> \<not> list_ex is_ascii_lowercase n \<and> fst v \<noteq> Cmd_None"
    if "map_of PRIMARY_DEFINITIONS n = Some v" for n v
    using primary_good map_of_SomeD [OF that] by (auto simp: list_all_iff good_def_def split_beta)
  moreover have "\<not> fst (Cmd_None, False) \<noteq> Cmd_None" by simp
  ultimately show ?thesis
    unfolding lookup_def Let_def split_beta prod.collapse
    by (rule two_step_lookup [where P = "\<lambda>v. fst v \<noteq> Cmd_None", OF lookup_primary_eq [OF assms]])
qed

text \<open>
  C23: \<open>RespCommand::lookup\<close> is a case-insensitive dictionary.  Whatever the hash function of
  the platform, once the primary table is built the hashed, linearly probed lookup on up to
  three 64-bit words returns for every byte string exactly what a search of
  \<open>PRIMARY_DEFINITIONS\<close> for its upper-case form gives: no command name is missed or confused
  with another, and no other string is accepted.
\<close>

theorem lookup_correct:
  assumes "PRIMARY_TABLE hw = Some primary"
  shows "lookup hw primary name = map_of PRIMARY_DEFINITIONS (map upper_byte name)"
  by (rule lookup_dictionary [OF assms])

theorem lookup_correct_witness:
  "\<exists>primary. PRIMARY_TABLE software = Some primary \<and>
     lookup software primary (bstr ''gEt'') = Some (Cmd_Get, False)"
proof -
  obtain primary where p: "PRIMARY_TABLE software = Some primary" using software_table_builds by blast
  have "map upper_byte (bstr ''gEt'') = bstr ''GET''"
    by (simp add: bstr_def upper_byte_def is_ascii_lowercase_def)
  moreover have "map_of PRIMARY_DEFINITIONS (bstr ''GET'') = Some (Cmd_Get, False)"
    by (simp add: PRIMARY_DEFINITIONS_def PRIMARY_DEFINITIONS_1_def)
  ultimately show ?thesis using p lookup_correct [OF p, of "bstr ''gEt''"] by auto
qed

lemma sub_good: "sub_definitions parent = Some (defs, n) \<Longrightarrow> list_all good_def defs \<and> (\<exists>k. n = 2 ^ k)"
  by (auto simp: sub_definitions_def CLUSTER_SUBCOMMANDS_def CLIENT_SUBCOMMANDS_def ACL_SUBCOMMANDS_def
      COMMAND_SUBCOMMANDS_def CONFIG_SUBCOMMANDS_def SCRIPT_SUBCOMMANDS_def LATENCY_SUBCOMMANDS_def
      SLOWLOG_SUBCOMMANDS_def MODULE_SUBCOMMANDS_def PUBSUB_SUBCOMMANDS_def MEMORY_SUBCOMMANDS_def
      OBJECT_SUBCOMMANDS_def BITOP_SUBCOMMANDS_def good_def_def valid_name_def bstr_def is_ascii_lowercase_def
      intro: exI [of _ 4] exI [of _ 7] split: if_splits)

lemma sub_parent_mem: "sub_definitions parent \<noteq> None \<Longrightarrow> parent \<in> set sub_parents"
  by (auto simp: sub_definitions_def sub_parents_def split: if_splits)

lemma lookup_subcommand_table_eq:
  assumes "SUB_TABLES hw = Some tables" and "sub_definitions parent = Some (defs, n)"
  shows "lookup_subcommand_table hw tables parent name = (case map_of defs name of Some c \<Rightarrow> c | None \<Rightarrow> Cmd_None)"
proof -
  have "parent \<in> set sub_parents" using assms(2) by (intro sub_parent_mem) simp
  then have "build_sub_table hw n defs \<noteq> None" "tables parent = the (build_sub_table hw n defs)"
    using assms by (auto simp: SUB_TABLES_def list_all_iff split: if_splits)
  moreover obtain k where "n = 2 ^ k" using sub_good [OF assms(2)] by blast
  moreover from this have "n = (n - 1) + 1" by simp
  ultimately have "insert_all hw (n - 1) (map (\<lambda>(n, v). (n, v, 0)) defs) (replicate ((n - 1) + 1) default_entry)
      = Some (tables parent)"
    by (auto simp: build_sub_table_def)
  from table_inv_all [OF table_inv_empty this]
  have "table_inv hw (n - 1) (map (\<lambda>(n, v). (n, v, 0)) defs) (tables parent)" by simp
  from lookup_core_inv [OF this, of name] assms(2) show ?thesis
    by (auto simp: lookup_subcommand_table_def map_of_map split: option.splits)
qed

lemma lookup_subcommand_correct:
  assumes "SUB_TABLES hw = Some tables" and "sub_definitions parent = Some (defs, n)"
  shows "lookup_subcommand hw tables parent name = map_of defs (map upper_byte name)"
proof -
  have "valid_name m \<and> \<not> list_ex is_ascii_lowercase m \<and> c \<noteq> Cmd_None"
    if "map_of defs m = Some c" for m c
    using sub_good [OF assms(2)] map_of_SomeD [OF that] by (auto simp: list_all_iff good_def_def)
  moreover have "\<not> Cmd_None \<noteq> Cmd_None" by simp
  ultimately show ?thesis
    unfolding lookup_subcommand_def Let_def
    by (rule two_step_lookup [where P = "\<lambda>v. v \<noteq> Cmd_None", OF lookup_subcommand_table_eq [OF assms]])
qed

end
