(* ===== verification/Txn_Command.thy ===== *)
theory Txn_Command
  imports Txn_Locks Resp_Lookup
begin

text \<open>
  Queued commands, \<open>wedb_txn/src/queued_cmd.rs\<close>: which commands may be queued, and which keys a
  command locks in which mode.  \<open>for_each_key\<close> is the list of the calls its closure receives, in
  order.  The \<open>bitcode\<close> encoder is a parameter.
\<close>

record QueuedCommand =
  qc_cmd :: RespCommand
  qc_args :: "bytes list"
  qc_is_write :: bool

definition queued_new :: "RespCommand \<Rightarrow> bytes list \<Rightarrow> QueuedCommand" where
  "queued_new cmd args = \<lparr>qc_cmd = cmd, qc_args = args, qc_is_write = is_write cmd\<rparr>"

type_synonym queued_wire = "string \<times> bytes list \<times> bool"

definition queued_encode_bitcode :: "(queued_wire \<Rightarrow> bytes) \<Rightarrow> QueuedCommand \<Rightarrow> bytes" where
  "queued_encode_bitcode encode q = encode (as_str (qc_cmd q), qc_args q, qc_is_write q)"

definition queued_decode_bitcode ::
  "hw_hash \<Rightarrow> CommandEntry list \<Rightarrow> (bytes \<Rightarrow> queued_wire option) \<Rightarrow> bytes \<Rightarrow> QueuedCommand option" where
  "queued_decode_bitcode hw primary decode src =
     (case decode src of
        None \<Rightarrow> None
      | Some (cmd_name, args, w) \<Rightarrow>
          let cmd = (case from_slice hw primary (bstr cmd_name) of Some c \<Rightarrow> c | None \<Rightarrow> Cmd_None)
          in Some \<lparr>qc_cmd = cmd, qc_args = args, qc_is_write = w\<rparr>)"

definition is_allowed_in_txn :: "RespCommand \<Rightarrow> bool" where
  "is_allowed_in_txn cmd \<longleftrightarrow>
     cmd \<notin> {Cmd_None, Cmd_Multi, Cmd_Exec, Cmd_Discard, Cmd_Watch, Cmd_Watchms, Cmd_Watchos, Cmd_Unwatch,
       Cmd_Swapdb, Cmd_Async, Cmd_Runtxp, Cmd_Commitaof, Cmd_Save, Cmd_Expdelscan, Cmd_Registercs} \<and>
     \<not> is_cluster_subcommand cmd"

section \<open>Keys\<close>

definition USIZE_MAX :: nat where "USIZE_MAX = 2 ^ 64 - 1"

definition is_ascii_digit :: "u8 \<Rightarrow> bool" where
  "is_ascii_digit d \<longleftrightarrow> 0x30 \<le> d \<and> d \<le> 0x39"

text \<open>The digit loop, with the saturating \<open>usize\<close> arithmetic; \<open>None\<close> is the early return.\<close>

fun parse_numkeys :: "nat \<Rightarrow> bytes \<Rightarrow> nat option" where
  "parse_numkeys n [] = Some n"
| "parse_numkeys n (d # ds) =
     (if is_ascii_digit d
      then parse_numkeys (min USIZE_MAX (min USIZE_MAX (n * 10) + unat (d - 0x30))) ds
      else None)"

definition keys_after_numkeys :: "bytes list \<Rightarrow> nat \<Rightarrow> bytes list" where
  "keys_after_numkeys args start =
     (case get args start of
        None \<Rightarrow> []
      | Some num \<Rightarrow>
          if num = [] then []
          else (case parse_numkeys 0 num of
             None \<Rightarrow> []
           | Some n \<Rightarrow>
               let from = start + 1;
                   to = min (min USIZE_MAX (from + n)) (length args)
               in if from \<le> to \<and> to \<le> length args then take (to - from) (drop from args) else []))"

definition lock_all :: "LockType \<Rightarrow> bytes list \<Rightarrow> (bytes \<times> LockType) list" where
  "lock_all l ks = map (\<lambda>k. (k, l)) ks"

text \<open>\<open>iter().step_by(2)\<close>, \<open>windows(2)\<close> and \<open>rposition\<close>.\<close>

fun every_other :: "'a list \<Rightarrow> 'a list" where
  "every_other [] = []"
| "every_other [x] = [x]"
| "every_other (x # y # xs) = x # every_other xs"

fun windows2 :: "'a list \<Rightarrow> ('a \<times> 'a) list" where
  "windows2 (x # y # xs) = (x, y) # windows2 (y # xs)"
| "windows2 _ = []"

fun rposition :: "('a \<Rightarrow> bool) \<Rightarrow> 'a list \<Rightarrow> nat option" where
  "rposition P [] = None"
| "rposition P (x # xs) =
     (case rposition P xs of Some i \<Rightarrow> Some (Suc i) | None \<Rightarrow> if P x then Some 0 else None)"

definition bytes_eq_ignore_case :: "bytes \<Rightarrow> bytes \<Rightarrow> bool" where
  "bytes_eq_ignore_case a b \<longleftrightarrow> map upper_byte a = map upper_byte b"

definition default_lock :: "QueuedCommand \<Rightarrow> LockType" where
  "default_lock q = (if qc_is_write q then Exclusive else Shared)"

definition for_each_key :: "QueuedCommand \<Rightarrow> (bytes \<times> LockType) list" where
  "for_each_key q =
     (let args = qc_args q; count = length args; cmd = qc_cmd q in
      if count = 0 then []
      else if cmd \<in> {Cmd_Mget, Cmd_Sdiff, Cmd_Sinter, Cmd_Sunion, Cmd_Ssubscribe} then lock_all Shared args
      else if cmd = Cmd_Pfcount then lock_all Exclusive args
      else if cmd \<in> {Cmd_Del, Cmd_Unlink, Cmd_Exists} then lock_all (default_lock q) args
      else if cmd \<in> {Cmd_Mset, Cmd_Msetnx} then lock_all Exclusive (every_other args)
      else if cmd \<in> {Cmd_Rename, Cmd_Renamenx, Cmd_Rpoplpush, Cmd_Lmove, Cmd_Blmove, Cmd_Brpoplpush, Cmd_Smove}
        then (args ! 0, Exclusive) # (if count > 1 then [(args ! 1, Exclusive)] else [])
      else if cmd \<in> {Cmd_Sdiffstore, Cmd_Sinterstore, Cmd_Sunionstore, Cmd_Pfmerge}
        then (args ! 0, Exclusive) # lock_all Shared (drop 1 args)
      else if cmd \<in> {Cmd_Zdiffstore, Cmd_Zinterstore, Cmd_Zunionstore}
        then (args ! 0, Exclusive) # lock_all Shared (keys_after_numkeys args 1)
      else if cmd \<in> {Cmd_Zrangestore, Cmd_Geosearchstore}
        then (if count > 1 then [(args ! 0, Exclusive), (args ! 1, Shared)] else [])
      else if cmd \<in> {Cmd_Bitop, Cmd_BitopAnd, Cmd_BitopOr, Cmd_BitopXor, Cmd_BitopNot, Cmd_BitopDiff}
        then (if count > 1 then (args ! 1, Exclusive) # lock_all Shared (drop 2 args) else [])
      else if cmd \<in> {Cmd_Georadius, Cmd_Georadiusbymember}
        then (args ! 0, Shared) #
          map (\<lambda>w. (snd w, Exclusive))
            (filter (\<lambda>w. bytes_eq_ignore_case (fst w) (bstr ''STORE'')
                \<or> bytes_eq_ignore_case (fst w) (bstr ''STOREDIST''))
              (windows2 (drop 1 args)))
      else if cmd \<in> {Cmd_Blpop, Cmd_Brpop, Cmd_Bzpopmin, Cmd_Bzpopmax}
        then lock_all Exclusive (take (count - 1) args)
      else if cmd = Cmd_Migrate
        then (if count > 2 then [(args ! 2, Exclusive)] else []) @
          (if 3 \<le> count then
             (case rposition (\<lambda>a. bytes_eq_ignore_case a (bstr ''KEYS'')) (drop 3 args) of
                Some keys_pos \<Rightarrow> lock_all Exclusive (drop (keys_pos + 1) (drop 3 args))
              | None \<Rightarrow> [])
           else [])
      else if cmd \<in> {Cmd_Lmpop, Cmd_Zmpop} then lock_all Exclusive (keys_after_numkeys args 0)
      else if cmd \<in> {Cmd_Blmpop, Cmd_Bzmpop, Cmd_Eval, Cmd_Evalsha}
        then lock_all Exclusive (keys_after_numkeys args 1)
      else if cmd \<in> {Cmd_Zdiff, Cmd_Zinter, Cmd_Zunion, Cmd_Zintercard, Cmd_Sintercard}
        then lock_all Shared (keys_after_numkeys args 0)
      else if cmd = Cmd_Lcs
        then (args ! 0, Shared) # (if count > 1 then [(args ! 1, Shared)] else [])
      else if cmd \<in> {Cmd_ObjectEncoding, Cmd_ObjectFreq, Cmd_ObjectIdletime, Cmd_ObjectRefcount}
        then (if count > 1 then [(args ! 1, Shared)] else [])
      else if cmd = Cmd_Coscan then []
      else if is_data cmd then [(args ! 0, default_lock q)]
      else [])"

definition extract_keys :: "QueuedCommand \<Rightarrow> (bytes \<times> LockType) list" where
  "extract_keys q = foldl (\<lambda>keys kl. keys @ [kl]) [] (for_each_key q)"

section \<open>Theorems\<close>

lemma extract_keys_eq: "extract_keys q = for_each_key q"
proof -
  have "foldl (\<lambda>keys kl. keys @ [kl]) acc xs = acc @ xs" for acc xs :: "(bytes \<times> LockType) list"
    by (induction xs arbitrary: acc) simp_all
  then show ?thesis by (simp add: extract_keys_def)
qed

lemma every_other_subset: "set (every_other xs) \<subseteq> set xs"
  by (induction xs rule: every_other.induct) auto

lemma windows2_subset: "w \<in> set (windows2 xs) \<Longrightarrow> fst w \<in> set xs \<and> snd w \<in> set xs"
  by (induction xs rule: windows2.induct) auto

lemma keys_after_numkeys_subset: "set (keys_after_numkeys args s) \<subseteq> set args"
  by (auto simp: keys_after_numkeys_def Let_def split: option.splits dest: in_set_takeD in_set_dropD)

lemma lock_all_fst: "fst ` set (lock_all l ks) = set ks"
  by (force simp: lock_all_def)

definition keys_within :: "bytes list \<Rightarrow> (bytes \<times> LockType) list \<Rightarrow> bool" where
  "keys_within args kls \<longleftrightarrow> fst ` set kls \<subseteq> set args"

lemma keys_within_if:
  "(b \<Longrightarrow> keys_within args x) \<Longrightarrow> (\<not> b \<Longrightarrow> keys_within args y) \<Longrightarrow> keys_within args (if b then x else y)"
  by simp

lemma keys_within_intros:
  "keys_within args []"
  "k \<in> set args \<Longrightarrow> keys_within args kls \<Longrightarrow> keys_within args ((k, l) # kls)"
  "keys_within args xs \<Longrightarrow> keys_within args ys \<Longrightarrow> keys_within args (xs @ ys)"
  "set ks \<subseteq> set args \<Longrightarrow> keys_within args (lock_all l ks)"
  by (auto simp: keys_within_def lock_all_fst)

lemma keys_within_windows:
  "keys_within args (map (\<lambda>w. (snd w, l)) (filter P (windows2 (drop 1 args))))"
  using windows2_subset by (fastforce simp: keys_within_def dest: in_set_dropD)

lemma keys_within_option:
  "(\<And>i. keys_within args (f i)) \<Longrightarrow> keys_within args (case x of Some i \<Rightarrow> f i | None \<Rightarrow> [])"
  by (simp add: keys_within_intros split: option.splits)

lemma set_take_drop_subset: "set (drop i xs) \<subseteq> set xs" "set (take i xs) \<subseteq> set xs" "set (drop i (drop j xs)) \<subseteq> set xs"
  by (auto dest: in_set_takeD in_set_dropD)

lemma for_each_key_within: "keys_within (qc_args q) (for_each_key q)"
  unfolding for_each_key_def Let_def
  by (intro keys_within_if keys_within_intros keys_within_windows keys_within_option
      every_other_subset keys_after_numkeys_subset set_take_drop_subset order_refl nth_mem) simp_all

definition all_shared :: "(bytes \<times> LockType) list \<Rightarrow> bool" where
  "all_shared kls \<longleftrightarrow> (\<forall>kl \<in> set kls. snd kl = Shared)"

lemma all_shared_if:
  "(b \<Longrightarrow> all_shared x) \<Longrightarrow> (\<not> b \<Longrightarrow> all_shared y) \<Longrightarrow> all_shared (if b then x else y)"
  by simp

lemma all_shared_simps [simp]:
  "all_shared []" "all_shared ((k, l) # kls) \<longleftrightarrow> l = Shared \<and> all_shared kls" "all_shared (lock_all Shared ks)"
  by (auto simp: all_shared_def lock_all_def)

lemma for_each_key_shared:
  assumes "is_readonly (qc_cmd q)" and "qc_cmd q \<noteq> Cmd_Pfcount" and "\<not> qc_is_write q"
  shows "all_shared (for_each_key q)"
proof -
  have r: "121 \<le> unat (qc_cmd q)" "unat (qc_cmd q) < 227" using assms(1) by (simp_all add: class_ranges)
  have d: "default_lock q = Shared" using assms(3) by (simp add: default_lock_def)
  show ?thesis
    unfolding for_each_key_def Let_def
    by (intro all_shared_if) (use r d assms(2) in \<open>auto\<close>)
qed

definition some_exclusive :: "(bytes \<times> LockType) list \<Rightarrow> bool" where
  "some_exclusive kls \<longleftrightarrow> (\<exists>kl \<in> set kls. snd kl = Exclusive)"

lemma some_exclusive_if:
  "(b \<Longrightarrow> some_exclusive x) \<Longrightarrow> (\<not> b \<Longrightarrow> some_exclusive y) \<Longrightarrow> some_exclusive (if b then x else y)"
  by simp

lemma some_exclusive_simps [simp]:
  "some_exclusive ((k, l) # kls) \<longleftrightarrow> l = Exclusive \<or> some_exclusive kls"
  "some_exclusive (lock_all l ks) \<longleftrightarrow> l = Exclusive \<and> ks \<noteq> []"
  by (simp add: some_exclusive_def) (cases ks; auto simp: some_exclusive_def lock_all_def)

lemma every_other_Nil [simp]: "every_other xs = [] \<longleftrightarrow> xs = []"
  by (cases xs rule: every_other.cases) simp_all

lemma for_each_key_exclusive:
  assumes "is_write (qc_cmd q)" and "is_data (qc_cmd q)" and "qc_is_write q" and "2 \<le> length (qc_args q)"
    and "qc_cmd q \<notin> {Cmd_Georadius, Cmd_Georadiusbymember, Cmd_Lmpop, Cmd_Zmpop, Cmd_Blmpop, Cmd_Bzmpop}"
  shows "some_exclusive (for_each_key q)"
proof -
  have r: "1 \<le> unat (qc_cmd q)" "unat (qc_cmd q) < 121" using assms(1) by (simp_all add: class_ranges)
  have d: "default_lock q = Exclusive" using assms(3) by (simp add: default_lock_def)
  have m: "qc_cmd q \<noteq> Cmd_Migrate" using assms(2) by (auto simp: is_data_def)
  have l: "length (qc_args q) \<noteq> 0" "qc_args q \<noteq> []" "take (length (qc_args q) - 1) (qc_args q) \<noteq> []" using assms(4) by auto
  show ?thesis
    unfolding for_each_key_def Let_def
    by (intro some_exclusive_if) (use r d l m assms in \<open>auto\<close>)
qed



section \<open>The wire form of a queued command\<close>

text \<open>
  C33: The wire form of a queued command carries the command's name.  Decoding gives back the
  arguments and the write flag, and the command exactly when looking up its canonical name
  does; \<open>RI.SET\<close>, a data-changing command that may be queued, has the canonical name
  \<open>RISET\<close>, which the table does not contain, and comes back as \<open>NONE\<close>.
\<close>

theorem queued_wire_by_name:
  assumes "PRIMARY_TABLE hw = Some primary"
    and "decode (encode (as_str (qc_cmd q), qc_args q, qc_is_write q)) = Some (as_str (qc_cmd q), qc_args q, qc_is_write q)"
  shows "queued_decode_bitcode hw primary decode (queued_encode_bitcode encode q) =
      Some (q\<lparr>qc_cmd := (case map_of PRIMARY_DEFINITIONS (map upper_byte (bstr (as_str (qc_cmd q)))) of
         Some (c, _) \<Rightarrow> c | None \<Rightarrow> Cmd_None)\<rparr>) \<and>
    is_allowed_in_txn Cmd_Riset \<and> is_write Cmd_Riset \<and>
    (qc_cmd q = Cmd_Riset \<longrightarrow>
      queued_decode_bitcode hw primary decode (queued_encode_bitcode encode q) = Some (q\<lparr>qc_cmd := Cmd_None\<rparr>))"
proof -
  have main: "queued_decode_bitcode hw primary decode (queued_encode_bitcode encode q) =
      Some (q\<lparr>qc_cmd := (case map_of PRIMARY_DEFINITIONS (map upper_byte (bstr (as_str (qc_cmd q)))) of
         Some (c, _) \<Rightarrow> c | None \<Rightarrow> Cmd_None)\<rparr>)"
    using assms(2) by (cases q) (auto simp: queued_decode_bitcode_def queued_encode_bitcode_def from_slice_def
        lookup_dictionary [OF assms(1)] split: option.splits)
  have "as_str Cmd_Riset = ''RISET''" by (simp add: as_str_def as_str_write_def)
  moreover have "map upper_byte (bstr ''RISET'') = bstr ''RISET''"
    by (simp add: bstr_def upper_byte_def is_ascii_lowercase_def)
  moreover have "map_of PRIMARY_DEFINITIONS (bstr ''RISET'') = None"
    by (simp add: bstr_eq PRIMARY_DEFINITIONS_def PRIMARY_DEFINITIONS_1_def PRIMARY_DEFINITIONS_2_def)
  ultimately have "map_of PRIMARY_DEFINITIONS (map upper_byte (bstr (as_str Cmd_Riset))) = None" by simp
  then show ?thesis using main by (simp add: class_ranges is_allowed_in_txn_def)
qed

theorem queued_wire_by_name_witness:
  "\<exists>primary. queued_decode_bitcode software primary (\<lambda>_. Some (as_str Cmd_Riset, [], True))
     (queued_encode_bitcode (\<lambda>_. [1]) (queued_new Cmd_Riset [])) =
     Some \<lparr>qc_cmd = Cmd_None, qc_args = [], qc_is_write = True\<rparr>"
proof -
  obtain primary where p: "PRIMARY_TABLE software = Some primary" using software_table_builds by blast
  have q: "queued_new Cmd_Riset [] = \<lparr>qc_cmd = Cmd_Riset, qc_args = [], qc_is_write = True\<rparr>"
    by (simp add: queued_new_def class_ranges)
  have "queued_decode_bitcode software primary (\<lambda>_. Some (as_str Cmd_Riset, [], True))
      (queued_encode_bitcode (\<lambda>_. [1]) (queued_new Cmd_Riset [])) =
      Some ((queued_new Cmd_Riset [])\<lparr>qc_cmd := Cmd_None\<rparr>)"
    by (rule queued_wire_by_name [OF p, THEN conjunct2, THEN conjunct2, THEN conjunct2, THEN mp])
      (simp_all only: q QueuedCommand.select_convs)
  then show ?thesis unfolding q by (intro exI [of _ primary]) (simp only: QueuedCommand.update_convs)
qed

end
