(* ===== verification/Txn_Manager.thy ===== *)
theory Txn_Manager
  imports Txn_Watch Txn_Command
begin

text \<open>
  The transaction manager of a session, \<open>wedb_txn/src/state.rs\<close> and \<open>manager.rs\<close>: the
  MULTI/EXEC/DISCARD/WATCH state machine, queueing with lock registration, the one-step and the
  split execution paths, commit, and the guard of an internal transaction.  The key hash and
  the unstable sort are parameters, as in the theories of the lock sets and versions.
\<close>

section \<open>State\<close>

datatype TxnState = TxnNone | Started | Running | Aborted

definition is_in_txn :: "TxnState \<Rightarrow> bool" where
  "is_in_txn s \<longleftrightarrow> s \<noteq> TxnNone"

definition is_skipping_operations :: "TxnState \<Rightarrow> bool" where
  "is_skipping_operations s \<longleftrightarrow> s = Started \<or> s = Aborted"

datatype TxnError =
    NestedMulti
  | ExecWithoutMulti
  | QueueWithoutMulti
  | DiscardWithoutMulti
  | WatchInsideMulti
  | CommandNotAllowedInTxn string

datatype ExecPreparation =
    PrepSuccess "QueuedCommand list" TxnKeyEntries
  | PrepConflict
  | PrepAborted

datatype 'r ExecResult =
    ExecSuccess 'r
  | ExecConflict
  | ExecAborted

datatype Prepared =
    PAborted
  | PConflict
  | PRunning "QueuedCommand list"

record TransactionManager =
  txn_state :: TxnState
  queue :: "QueuedCommand list"
  watched_keys :: WatchedKeysContainer
  key_entries :: TxnKeyEntries
  perform_writes :: bool
  invalidate_all :: bool
  is_replaying :: bool

definition txn_new :: TransactionManager where
  "txn_new = \<lparr>txn_state = TxnNone, queue = [], watched_keys = [], key_entries = [],
     perform_writes = False, invalidate_all = False, is_replaying = False\<rparr>"

definition set_is_replaying :: "TransactionManager \<Rightarrow> bool \<Rightarrow> TransactionManager" where
  "set_is_replaying m b = m\<lparr>is_replaying := b\<rparr>"

section \<open>Operations\<close>

definition multi :: "TransactionManager \<Rightarrow> TransactionManager \<times> (TxnError + unit)" where
  "multi m =
     (if txn_state m \<noteq> TxnNone then (m\<lparr>txn_state := Aborted\<rparr>, Inl NestedMulti)
      else (m\<lparr>txn_state := Started, queue := [], key_entries := [], perform_writes := False,
              invalidate_all := False\<rparr>, Inr ()))"

definition txn_watch ::
  "(bytes \<Rightarrow> u64) \<Rightarrow> TransactionManager \<Rightarrow> bytes \<Rightarrow> WatchVersionMap \<Rightarrow> TransactionManager \<times> (TxnError + unit)" where
  "txn_watch fast_hash m k vm =
     (if is_in_txn (txn_state m) then (m, Inl WatchInsideMulti)
      else (m\<lparr>watched_keys := watch_key fast_hash (watched_keys m) k vm\<rparr>, Inr ()))"

definition unwatch :: "TransactionManager \<Rightarrow> TransactionManager" where
  "unwatch m = (if txn_state m = TxnNone then m\<lparr>watched_keys := watched_reset (watched_keys m)\<rparr> else m)"

definition abort :: "TransactionManager \<Rightarrow> TransactionManager" where
  "abort m = m\<lparr>txn_state := Aborted\<rparr>"

definition reset_session :: "TransactionManager \<Rightarrow> bool \<Rightarrow> TransactionManager" where
  "reset_session m continue_watch =
     m\<lparr>txn_state := TxnNone, queue := [],
       watched_keys := (if continue_watch then watched_keys m else watched_reset (watched_keys m)),
       perform_writes := False, invalidate_all := False\<rparr>"

definition reset_all :: "TransactionManager \<Rightarrow> bool \<Rightarrow> TransactionManager" where
  "reset_all m continue_watch = (reset_session m continue_watch)\<lparr>key_entries := []\<rparr>"

definition txn_reset :: "TransactionManager \<Rightarrow> TransactionManager" where
  "txn_reset m = reset_all m False"

definition discard :: "TransactionManager \<Rightarrow> TransactionManager \<times> (TxnError + unit)" where
  "discard m =
     (if txn_state m = TxnNone then (m, Inl DiscardWithoutMulti) else (txn_reset m, Inr ()))"

definition queue_command_with_key_prefix ::
  "(bytes \<Rightarrow> u64) \<Rightarrow> TransactionManager \<Rightarrow> QueuedCommand \<Rightarrow> bytes \<Rightarrow> TransactionManager \<times> (TxnError + unit)" where
  "queue_command_with_key_prefix fast_hash m cmd key_prefix =
     (if txn_state m = TxnNone \<or> txn_state m = Running then (m, Inl QueueWithoutMulti)
      else if \<not> is_allowed_in_txn (qc_cmd cmd)
        then (abort m, Inl (CommandNotAllowedInTxn (as_str (qc_cmd cmd))))
      else
        let m1 = (if qc_cmd cmd = Cmd_Flushall \<or> qc_cmd cmd = Cmd_Flushdb
                  then m\<lparr>invalidate_all := True\<rparr> else m);
            m2 = (if key_prefix = []
                  then m1\<lparr>key_entries :=
                    foldl (\<lambda>es (k, l). add_key_hash es (fast_hash k) l) (key_entries m1) (for_each_key cmd)\<rparr>
                  else m1\<lparr>key_entries :=
                    foldl (\<lambda>es (k, l). add_key_hash es (fast_hash (key_prefix @ k)) l) (key_entries m1)
                      (for_each_key cmd)\<rparr>);
            m3 = (if qc_is_write cmd then m2\<lparr>perform_writes := True\<rparr> else m2)
        in (m3\<lparr>queue := queue m3 @ [cmd]\<rparr>, Inr ()))"

definition queue_command ::
  "(bytes \<Rightarrow> u64) \<Rightarrow> TransactionManager \<Rightarrow> QueuedCommand \<Rightarrow> TransactionManager \<times> (TxnError + unit)" where
  "queue_command fast_hash m cmd = queue_command_with_key_prefix fast_hash m cmd []"

definition save_key_entry_to_lock :: "(bytes \<Rightarrow> u64) \<Rightarrow> TransactionManager \<Rightarrow> bytes \<Rightarrow> LockType \<Rightarrow> TransactionManager" where
  "save_key_entry_to_lock fast_hash m k lock =
     (let m1 = (if is_exclusive lock then m\<lparr>perform_writes := True\<rparr> else m)
      in m1\<lparr>key_entries := add_key_slice fast_hash (key_entries m1) k lock\<rparr>)"

definition txn_get_lockset :: "TransactionManager \<Rightarrow> string" where
  "txn_get_lockset m = get_lockset (key_entries m) (if txn_state m = Running then 1 else 0)"

subsection \<open>Execution in stages\<close>

definition prepare_lockset ::
  "(TxnKeyEntries \<Rightarrow> TxnKeyEntries) \<Rightarrow> TransactionManager \<Rightarrow> TransactionManager \<times> (TxnError + bool)" where
  "prepare_lockset sort_unstable m =
     (if txn_state m = Aborted then (txn_reset m, Inr False)
      else if txn_state m \<noteq> Started then (m, Inl ExecWithoutMulti)
      else (m\<lparr>key_entries := sort_by_key_hash sort_unstable (save_keys_to_lock (watched_keys m) (key_entries m))\<rparr>,
            Inr True))"

definition validate_watches :: "TransactionManager \<Rightarrow> WatchVersionMap \<Rightarrow> TransactionManager \<times> bool" where
  "validate_watches m vm =
     (if validate_versions (watched_keys m) vm then (m, True) else (reset_session m False, False))"

definition begin_run :: "TransactionManager \<Rightarrow> TransactionManager" where
  "begin_run m = (if txn_state m = Started then m\<lparr>txn_state := Running\<rparr> else m)"

definition take_queue :: "TransactionManager \<Rightarrow> TransactionManager \<times> QueuedCommand list" where
  "take_queue m = (m\<lparr>queue := []\<rparr>, queue m)"

definition prepare_inner ::
  "(TxnKeyEntries \<Rightarrow> TxnKeyEntries) \<Rightarrow> TransactionManager \<Rightarrow> WatchVersionMap \<Rightarrow>
   TransactionManager \<times> (TxnError + Prepared)" where
  "prepare_inner sort_unstable m vm =
     (case prepare_lockset sort_unstable m of
        (m1, Inl e) \<Rightarrow> (m1, Inl e)
      | (m1, Inr ready) \<Rightarrow>
          if \<not> ready then (m1, Inr PAborted)
          else (case validate_watches m1 vm of
             (m2, valid) \<Rightarrow>
               if \<not> valid then (m2\<lparr>key_entries := unlock_all_keys (key_entries m2)\<rparr>, Inr PConflict)
               else (case take_queue (begin_run m2) of (m3, commands) \<Rightarrow> (m3, Inr (PRunning commands)))))"

definition exec_prepare ::
  "(TxnKeyEntries \<Rightarrow> TxnKeyEntries) \<Rightarrow> TransactionManager \<Rightarrow> WatchVersionMap \<Rightarrow>
   TransactionManager \<times> (TxnError + ExecPreparation)" where
  "exec_prepare sort_unstable m vm =
     (case prepare_inner sort_unstable m vm of
        (m1, Inl e) \<Rightarrow> (m1, Inl e)
      | (m1, Inr PAborted) \<Rightarrow> (m1, Inr PrepAborted)
      | (m1, Inr PConflict) \<Rightarrow> (m1, Inr PrepConflict)
      | (m1, Inr (PRunning commands)) \<Rightarrow> (m1, Inr (PrepSuccess commands (key_entries m1))))"

definition commit_with_options ::
  "TransactionManager \<Rightarrow> WatchVersionMap \<Rightarrow> bool \<Rightarrow> TransactionManager \<times> WatchVersionMap" where
  "commit_with_options m vm continue_watch =
     (let vm' = (if invalidate_all m then bump_all vm
                 else if perform_writes m
                 then foldl (\<lambda>vm e. fst (bump_version vm (key_hash e))) vm
                        (filter (\<lambda>e. is_exclusive (lock_type e)) (key_entries m))
                 else vm)
      in (reset_all m continue_watch, vm'))"

definition commit :: "TransactionManager \<Rightarrow> WatchVersionMap \<Rightarrow> TransactionManager \<times> WatchVersionMap" where
  "commit m vm = commit_with_options m vm False"

text \<open>The executor is a stateful closure: it threads its own state through the commands.\<close>

fun run_commands :: "('s \<Rightarrow> QueuedCommand \<Rightarrow> 's \<times> 'r) \<Rightarrow> 's \<Rightarrow> QueuedCommand list \<Rightarrow> 's \<times> 'r list" where
  "run_commands executor s [] = (s, [])"
| "run_commands executor s (c # cs) =
     (case executor s c of (s1, r) \<Rightarrow> case run_commands executor s1 cs of (s2, rs) \<Rightarrow> (s2, r # rs))"

definition exec ::
  "(TxnKeyEntries \<Rightarrow> TxnKeyEntries) \<Rightarrow> TransactionManager \<Rightarrow> WatchVersionMap \<Rightarrow>
   ('s \<Rightarrow> QueuedCommand \<Rightarrow> 's \<times> 'r) \<Rightarrow> 's \<Rightarrow>
   TransactionManager \<times> WatchVersionMap \<times> 's \<times> (TxnError + 'r list ExecResult)" where
  "exec sort_unstable m vm executor s =
     (case prepare_inner sort_unstable m vm of
        (m1, Inl e) \<Rightarrow> (m1, vm, s, Inl e)
      | (m1, Inr PAborted) \<Rightarrow> (m1, vm, s, Inr ExecAborted)
      | (m1, Inr PConflict) \<Rightarrow> (m1, vm, s, Inr ExecConflict)
      | (m1, Inr (PRunning commands)) \<Rightarrow>
          (case run_commands executor s commands of (s1, results) \<Rightarrow>
             case commit m1 vm of (m2, vm2) \<Rightarrow> (m2, vm2, s1, Inr (ExecSuccess results))))"

subsection \<open>Internal transactions\<close>

text \<open>The guard is attached or not; dropping or committing it commits the transaction once.\<close>

definition promote_to_transaction ::
  "(bytes \<Rightarrow> u64) \<Rightarrow> TransactionManager \<Rightarrow> bytes \<Rightarrow> LockType \<Rightarrow> TransactionManager \<times> bool" where
  "promote_to_transaction fast_hash m k lock =
     (if txn_state m = Running then (m, False)
      else ((save_key_entry_to_lock fast_hash m k lock)\<lparr>txn_state := Running\<rparr>, True))"

definition guard_commit ::
  "bool \<Rightarrow> TransactionManager \<Rightarrow> WatchVersionMap \<Rightarrow> bool \<times> TransactionManager \<times> WatchVersionMap" where
  "guard_commit attached m vm =
     (if attached then (case commit_with_options m vm True of (m', vm') \<Rightarrow> (False, m', vm'))
      else (False, m, vm))"

section \<open>The state machine\<close>

text \<open>
  Everything a session does with its manager, for a fixed key prefix.  The lock set is only
  cleared from outside after a conflict, when the manager is idle again.
\<close>

inductive txn_step ::
  "(bytes \<Rightarrow> u64) \<Rightarrow> (TxnKeyEntries \<Rightarrow> TxnKeyEntries) \<Rightarrow> bytes \<Rightarrow> TransactionManager \<Rightarrow> TransactionManager \<Rightarrow> bool"
  for fast_hash sort_unstable prefix where
  step_multi: "txn_step fast_hash sort_unstable prefix m (fst (multi m))"
| step_watch: "txn_step fast_hash sort_unstable prefix m (fst (txn_watch fast_hash m k vm))"
| step_unwatch: "txn_step fast_hash sort_unstable prefix m (unwatch m)"
| step_discard: "txn_step fast_hash sort_unstable prefix m (fst (discard m))"
| step_queue: "txn_step fast_hash sort_unstable prefix m (fst (queue_command_with_key_prefix fast_hash m cmd prefix))"
| step_abort: "txn_step fast_hash sort_unstable prefix m (abort m)"
| step_reset: "txn_step fast_hash sort_unstable prefix m (reset_all m continue_watch)"
| step_prepare: "txn_step fast_hash sort_unstable prefix m (fst (prepare_lockset sort_unstable m))"
| step_validate: "txn_step fast_hash sort_unstable prefix m (fst (validate_watches m vm))"
| step_begin: "txn_step fast_hash sort_unstable prefix m (begin_run m)"
| step_take: "txn_step fast_hash sort_unstable prefix m (fst (take_queue m))"
| step_commit: "txn_step fast_hash sort_unstable prefix m (fst (commit_with_options m vm continue_watch))"
| step_exec_prepare: "txn_step fast_hash sort_unstable prefix m (fst (exec_prepare sort_unstable m vm))"
| step_promote: "txn_step fast_hash sort_unstable prefix m (fst (promote_to_transaction fast_hash m k lock))"
| step_unlock: "txn_state m = TxnNone \<Longrightarrow>
    txn_step fast_hash sort_unstable prefix m (m\<lparr>key_entries := unlock_all_keys (key_entries m)\<rparr>)"

definition queued_ok :: "(bytes \<Rightarrow> u64) \<Rightarrow> bytes \<Rightarrow> TransactionManager \<Rightarrow> QueuedCommand \<Rightarrow> bool" where
  "queued_ok fast_hash prefix m q \<longleftrightarrow> is_allowed_in_txn (qc_cmd q) \<and>
     (qc_is_write q \<longrightarrow> perform_writes m) \<and>
     (qc_cmd q = Cmd_Flushall \<or> qc_cmd q = Cmd_Flushdb \<longrightarrow> invalidate_all m) \<and>
     (\<forall>k l. (k, l) \<in> set (for_each_key q) \<longrightarrow>
        (\<exists>e \<in> set (key_entries m). key_hash e = fast_hash (prefix @ k) \<and> l \<le> lock_type e))"

definition txn_inv :: "(bytes \<Rightarrow> u64) \<Rightarrow> bytes \<Rightarrow> TransactionManager \<Rightarrow> bool" where
  "txn_inv fast_hash prefix m \<longleftrightarrow>
     (txn_state m = TxnNone \<longrightarrow> queue m = [] \<and> \<not> perform_writes m \<and> \<not> invalidate_all m) \<and>
     (\<forall>q \<in> set (queue m). queued_ok fast_hash prefix m q) \<and>
     (\<forall>e \<in> set (key_entries m). key e = None)"

named_theorems txn_defs \<open>the operations of the manager\<close>

declare multi_def [txn_defs] txn_watch_def [txn_defs] unwatch_def [txn_defs] discard_def [txn_defs]
  abort_def [txn_defs] reset_all_def [txn_defs] reset_session_def [txn_defs] txn_reset_def [txn_defs]
  validate_watches_def [txn_defs] begin_run_def [txn_defs] take_queue_def [txn_defs]
  unlock_all_keys_def [txn_defs] watched_reset_def [txn_defs]

lemma foldl_add_key_hash:
  "foldl (\<lambda>es (k, l). add_key_hash es (h k) l) es kls = es @ map (\<lambda>(k, l). entry_new (h k) l None) kls"
  by (induction kls arbitrary: es) (auto simp: add_key_hash_def)

lemma save_keys_to_lock_eq:
  "save_keys_to_lock c es = es @ map (\<lambda>e. entry_new (wk_hash e) Shared None) (filter is_watched c)"
proof -
  have "foldl (\<lambda>es e. add_key es (wk_hash e) Shared None) es ws = es @ map (\<lambda>e. entry_new (wk_hash e) Shared None) ws" for ws
    by (induction ws arbitrary: es) (auto simp: add_key_def)
  then show ?thesis by (simp add: save_keys_to_lock_def)
qed

lemma txn_inv_idle:
  "txn_state m = TxnNone \<Longrightarrow> queue m = [] \<Longrightarrow> \<not> perform_writes m \<Longrightarrow> \<not> invalidate_all m \<Longrightarrow>
   (\<forall>e \<in> set (key_entries m). key e = None) \<Longrightarrow> txn_inv fast_hash prefix m"
  by (simp add: txn_inv_def)

lemma txn_inv_reset_all [simp]: "txn_inv fast_hash prefix (reset_all m b)"
  by (simp add: txn_inv_def txn_defs)

lemma queue_command_eq:
  assumes "txn_state m = Started \<or> txn_state m = Aborted" and "is_allowed_in_txn (qc_cmd cmd)"
  shows "queue_command_with_key_prefix fast_hash m cmd prefix =
    (m\<lparr>queue := queue m @ [cmd],
       key_entries := key_entries m @ map (\<lambda>(k, l). entry_new (fast_hash (prefix @ k)) l None) (for_each_key cmd),
       perform_writes := (perform_writes m \<or> qc_is_write cmd),
       invalidate_all := (invalidate_all m \<or> qc_cmd cmd = Cmd_Flushall \<or> qc_cmd cmd = Cmd_Flushdb)\<rparr>, Inr ())"
proof -
  have s: "\<not> (txn_state m = TxnNone \<or> txn_state m = Running)" using assms(1) by auto
  have "foldl (\<lambda>es (k, l). add_key_hash es (fast_hash (prefix @ k)) l) es kls =
      es @ map (\<lambda>(k, l). entry_new (fast_hash (prefix @ k)) l None) kls" for es kls
    by (rule foldl_add_key_hash [of "\<lambda>k. fast_hash (prefix @ k)"])
  moreover have "foldl (\<lambda>es (k, l). add_key_hash es (fast_hash k) l) es kls =
      es @ map (\<lambda>(k, l). entry_new (fast_hash k) l None) kls" for es kls
    by (rule foldl_add_key_hash [of fast_hash])
  ultimately show ?thesis
    using s assms(2) by (cases m) (auto simp: queue_command_with_key_prefix_def Let_def)
qed

lemma queued_ok_mono:
  assumes "queued_ok fast_hash prefix m q" and "perform_writes m \<longrightarrow> perform_writes m'"
    and "invalidate_all m \<longrightarrow> invalidate_all m'"
    and "\<And>e. e \<in> set (key_entries m) \<Longrightarrow> \<exists>e' \<in> set (key_entries m'). key_hash e' = key_hash e \<and> lock_type e \<le> lock_type e'"
  shows "queued_ok fast_hash prefix m' q"
proof -
  have "\<exists>e' \<in> set (key_entries m'). key_hash e' = fast_hash (prefix @ k) \<and> l \<le> lock_type e'"
    if kl: "(k, l) \<in> set (for_each_key q)" for k l
  proof -
    obtain e where "e \<in> set (key_entries m)" "key_hash e = fast_hash (prefix @ k)" "l \<le> lock_type e"
      using assms(1) kl unfolding queued_ok_def by blast
    then show ?thesis using assms(4) by (metis order_trans)
  qed
  then show ?thesis using assms(1-3) unfolding queued_ok_def by blast
qed

lemma txn_inv_queue:
  assumes "txn_inv fast_hash prefix m"
  shows "txn_inv fast_hash prefix (fst (queue_command_with_key_prefix fast_hash m cmd prefix))"
proof (cases "(txn_state m = Started \<or> txn_state m = Aborted) \<and> is_allowed_in_txn (qc_cmd cmd)")
  case False
  then have "fst (queue_command_with_key_prefix fast_hash m cmd prefix) = m \<or>
      fst (queue_command_with_key_prefix fast_hash m cmd prefix) = abort m \<and> txn_state m \<noteq> TxnNone"
    by (cases "txn_state m") (auto simp: queue_command_with_key_prefix_def)
  then show ?thesis using assms by (auto simp: txn_inv_def abort_def queued_ok_def)
next
  case True
  define m' where "m' = fst (queue_command_with_key_prefix fast_hash m cmd prefix)"
  have m': "m' = m\<lparr>queue := queue m @ [cmd],
       key_entries := key_entries m @ map (\<lambda>(k, l). entry_new (fast_hash (prefix @ k)) l None) (for_each_key cmd),
       perform_writes := (perform_writes m \<or> qc_is_write cmd),
       invalidate_all := (invalidate_all m \<or> qc_cmd cmd = Cmd_Flushall \<or> qc_cmd cmd = Cmd_Flushdb)\<rparr>"
    using queue_command_eq [of m cmd fast_hash prefix] True by (simp add: m'_def)
  have "queued_ok fast_hash prefix m' q" if "q \<in> set (queue m)" for q
    using assms that by (intro queued_ok_mono [of fast_hash prefix m q m']) (auto simp: txn_inv_def m')
  moreover have "\<exists>e \<in> set (key_entries m'). key_hash e = fast_hash (prefix @ k) \<and> l \<le> lock_type e"
    if "(k, l) \<in> set (for_each_key cmd)" for k l
  proof (rule bexI)
    show "entry_new (fast_hash (prefix @ k)) l None \<in> set (key_entries m')"
      using that by (force simp: m' image_iff)
  qed (simp add: entry_new_def)
  then have "queued_ok fast_hash prefix m' cmd" using True by (simp add: queued_ok_def m')
  moreover have "\<forall>e \<in> set (key_entries m'). key e = None"
    using assms by (auto simp: txn_inv_def m' entry_new_def)
  ultimately show ?thesis using True unfolding txn_inv_def m'_def [symmetric] by (auto simp: m')
qed

lemma txn_inv_prepare:
  assumes "txn_inv fast_hash prefix m" and "sorts_entries sort_unstable"
  shows "txn_inv fast_hash prefix (fst (prepare_lockset sort_unstable m))"
proof (cases "txn_state m = Started")
  case False
  then show ?thesis using assms(1) by (auto simp: prepare_lockset_def txn_reset_def)
next
  case True
  define es where "es = save_keys_to_lock (watched_keys m) (key_entries m)"
  define m' where "m' = m\<lparr>key_entries := sort_by_key_hash sort_unstable es\<rparr>"
  have p: "fst (prepare_lockset sort_unstable m) = m'"
    using True by (simp add: prepare_lockset_def m'_def es_def)
  have kn: "\<forall>e \<in> set es. key e = None"
    using assms(1) by (auto simp: es_def save_keys_to_lock_eq entry_new_def txn_inv_def)
  have "queued_ok fast_hash prefix m' q" if "q \<in> set (queue m)" for q
  proof (rule queued_ok_mono [of fast_hash prefix m])
    fix e
    assume "e \<in> set (key_entries m)"
    then have "e \<in> set es" by (simp add: es_def save_keys_to_lock_eq)
    then show "\<exists>e' \<in> set (key_entries m'). key_hash e' = key_hash e \<and> lock_type e \<le> lock_type e'"
      using sort_by_key_hash_sound(2) [OF assms(2)] by (fastforce simp: m'_def covers_def)
  qed (use assms(1) that in \<open>auto simp: txn_inv_def m'_def\<close>)
  moreover have "\<forall>e \<in> set (key_entries m'). key e = None"
    using sort_by_key_hash_sound(3) [OF assms(2)] kn by (fastforce simp: m'_def)
  ultimately show ?thesis using True p by (auto simp: txn_inv_def m'_def)
qed

lemma txn_inv_validate: "txn_inv fast_hash prefix m \<Longrightarrow> txn_inv fast_hash prefix (fst (validate_watches m vm))"
  by (auto simp: txn_inv_def txn_defs)

lemma txn_inv_begin: "txn_inv fast_hash prefix m \<Longrightarrow> txn_inv fast_hash prefix (begin_run m)"
  by (auto simp: txn_inv_def txn_defs queued_ok_def)

lemma txn_inv_take: "txn_inv fast_hash prefix m \<Longrightarrow> txn_inv fast_hash prefix (fst (take_queue m))"
  by (auto simp: txn_inv_def txn_defs)

lemma txn_inv_exec_prepare:
  assumes "txn_inv fast_hash prefix m" and "sorts_entries sort_unstable"
  shows "txn_inv fast_hash prefix (fst (exec_prepare sort_unstable m vm))"
proof -
  obtain m1 r where p: "prepare_lockset sort_unstable m = (m1, r)" by force
  have i1: "txn_inv fast_hash prefix m1" using txn_inv_prepare [OF assms] p by simp
  obtain m2 v where v: "validate_watches m1 vm = (m2, v)" by force
  have i2: "txn_inv fast_hash prefix m2" using txn_inv_validate [OF i1, of vm] v by simp
  have u: "txn_inv fast_hash prefix (m2\<lparr>key_entries := []\<rparr>)" if "\<not> v"
    using v that by (auto simp: txn_defs txn_inv_def split: if_splits)
  have t: "txn_inv fast_hash prefix (fst (take_queue (begin_run m2)))"
    by (intro txn_inv_take txn_inv_begin i2)
  show ?thesis
    using i1 i2 u t
    by (auto simp: exec_prepare_def prepare_inner_def p v unlock_all_keys_def split: sum.splits prod.splits)
qed

lemma txn_inv_promote: "txn_inv fast_hash prefix m \<Longrightarrow> txn_inv fast_hash prefix (fst (promote_to_transaction fast_hash m k lock))"
  by (auto simp: txn_inv_def promote_to_transaction_def save_key_entry_to_lock_def Let_def queued_ok_def
      add_key_slice_def entry_from_slice_def)

lemma txn_inv_step:
  assumes "txn_step fast_hash sort_unstable prefix m m'" and "txn_inv fast_hash prefix m"
    and "sorts_entries sort_unstable"
  shows "txn_inv fast_hash prefix m'"
  using assms(1)
proof cases
  case step_multi
  then show ?thesis using assms(2) by (auto simp: txn_inv_def txn_defs queued_ok_def)
next
  case (step_watch k vm)
  then show ?thesis using assms(2) by (auto simp: txn_inv_def txn_defs is_in_txn_def)
next
  case step_unwatch
  then show ?thesis using assms(2) by (auto simp: txn_inv_def txn_defs)
next
  case step_discard
  then show ?thesis using assms(2) by (auto simp: discard_def txn_reset_def)
next
  case step_abort
  then show ?thesis using assms(2) by (auto simp: txn_inv_def txn_defs queued_ok_def)
next
  case (step_commit vm cw)
  then show ?thesis by (simp add: commit_with_options_def)
next
  case step_unlock
  then show ?thesis using assms(2) by (auto simp: txn_inv_def txn_defs)
qed (use assms(2,3) in \<open>auto intro: txn_inv_queue txn_inv_prepare txn_inv_validate txn_inv_begin
    txn_inv_take txn_inv_exec_prepare txn_inv_promote\<close>)

text \<open>A step with whatever the unstable sort does with equal entries.\<close>

definition txn_trans :: "(bytes \<Rightarrow> u64) \<Rightarrow> bytes \<Rightarrow> TransactionManager \<Rightarrow> TransactionManager \<Rightarrow> bool" where
  "txn_trans fast_hash prefix m m' \<longleftrightarrow> (\<exists>srt. sorts_entries srt \<and> txn_step fast_hash srt prefix m m')"

interpretation txn: invariant_system "\<lambda>m. m = txn_new" "txn_trans fast_hash prefix" "txn_inv fast_hash prefix"
  for fast_hash prefix
proof unfold_locales
  show "txn_inv fast_hash prefix m" if "m = txn_new" for m using that by (simp add: txn_inv_def txn_new_def)
  show "txn_inv fast_hash prefix m'" if "txn_inv fast_hash prefix m" "txn_trans fast_hash prefix m m'" for m m'
    using that txn_inv_step unfolding txn_trans_def by blast
qed

section \<open>EXEC\<close>

lemma run_commands_length: "run_commands executor s cs = (s', rs) \<Longrightarrow> length rs = length cs"
  by (induction executor s cs arbitrary: s' rs rule: run_commands.induct) (auto split: prod.splits)

lemma prepare_inner_started:
  assumes "txn_state m = Started"
  shows "prepare_inner sort_unstable m vm =
    (if validate_versions (watched_keys m) vm
     then (m\<lparr>txn_state := Running, queue := [],
             key_entries := sort_by_key_hash sort_unstable (save_keys_to_lock (watched_keys m) (key_entries m))\<rparr>,
           Inr (PRunning (queue m)))
     else (txn_reset m, Inr PConflict))"
  using assms by (auto simp: prepare_inner_def prepare_lockset_def txn_defs split: prod.splits)

lemma exec_started_valid:
  assumes "txn_state m = Started" and "validate_versions (watched_keys m) vm"
    and "run_commands executor s (queue m) = (s', rs)"
  shows "exec sort_unstable m vm executor s =
    (txn_reset m,
     snd (commit (m\<lparr>txn_state := Running, queue := [],
       key_entries := sort_by_key_hash sort_unstable (save_keys_to_lock (watched_keys m) (key_entries m))\<rparr>) vm),
     s', Inr (ExecSuccess rs))"
  using assms by (simp add: exec_def prepare_inner_started commit_def commit_with_options_def txn_defs Let_def)

text \<open>
  C5: EXEC is all or nothing.  An aborted transaction and one whose watched keys changed run
  no command and change no version; outside of a started transaction EXEC is an error that
  changes nothing; otherwise every queued command runs, once and in order, with one result
  each.  In every case but the error the session is idle afterwards, with nothing queued,
  watched or registered.
\<close>

theorem exec_all_or_nothing:
  fixes executor :: "'s \<Rightarrow> QueuedCommand \<Rightarrow> 's \<times> 'r"
  shows "(txn_state m = Aborted \<longrightarrow> exec sort_unstable m vm executor s = (txn_reset m, vm, s, Inr ExecAborted)) \<and>
    (txn_state m = TxnNone \<or> txn_state m = Running \<longrightarrow> exec sort_unstable m vm executor s = (m, vm, s, Inl ExecWithoutMulti)) \<and>
    (txn_state m = Started \<and> \<not> validate_versions (watched_keys m) vm \<longrightarrow>
       exec sort_unstable m vm executor s = (txn_reset m, vm, s, Inr ExecConflict)) \<and>
    (txn_state m = Started \<and> validate_versions (watched_keys m) vm \<longrightarrow>
       (\<exists>vm' s' rs. run_commands executor s (queue m) = (s', rs) \<and> length rs = length (queue m) \<and>
          exec sort_unstable m vm executor s = (txn_reset m, vm', s', Inr (ExecSuccess rs)))) \<and>
    txn_reset m = txn_new\<lparr>is_replaying := is_replaying m\<rparr>"
proof (intro conjI impI)
  show "exec sort_unstable m vm executor s = (txn_reset m, vm, s, Inr ExecAborted)" if "txn_state m = Aborted"
    using that by (simp add: exec_def prepare_inner_def prepare_lockset_def)
  show "exec sort_unstable m vm executor s = (m, vm, s, Inl ExecWithoutMulti)" if "txn_state m = TxnNone \<or> txn_state m = Running"
    using that by (auto simp: exec_def prepare_inner_def prepare_lockset_def)
  show "exec sort_unstable m vm executor s = (txn_reset m, vm, s, Inr ExecConflict)"
    if "txn_state m = Started \<and> \<not> validate_versions (watched_keys m) vm"
    using that by (simp add: exec_def prepare_inner_started)
  show "\<exists>vm' s' rs. run_commands executor s (queue m) = (s', rs) \<and> length rs = length (queue m) \<and>
      exec sort_unstable m vm executor s = (txn_reset m, vm', s', Inr (ExecSuccess rs))"
    if v: "txn_state m = Started \<and> validate_versions (watched_keys m) vm"
  proof -
    obtain s' rs where r: "run_commands executor s (queue m) = (s', rs)" by force
    then show ?thesis using exec_started_valid [of m vm executor s s' rs sort_unstable] v
      by (auto simp: run_commands_length)
  qed
  show "txn_reset m = txn_new\<lparr>is_replaying := is_replaying m\<rparr>"
    by (simp add: txn_defs txn_new_def)
qed

theorem exec_all_or_nothing_witness:
  "exec (sort_key entry_ord) (txn_new\<lparr>txn_state := Started, queue := [queued_new Cmd_Set [[1], [2]]]\<rparr>)
     (vm_new 2) (\<lambda>n q. (n + 1, length (qc_args q))) (0 :: nat) =
   (txn_new, vm_new 2, 1, Inr (ExecSuccess [2]))"
proof -
  let ?m = "txn_new\<lparr>txn_state := Started, queue := [queued_new Cmd_Set [[1], [2]]]\<rparr>"
  have r: "txn_reset ?m = txn_new" by (simp add: txn_defs txn_new_def)
  have "\<exists>vm'. exec (sort_key entry_ord) ?m (vm_new 2) (\<lambda>n q. (n + 1, length (qc_args q))) (0 :: nat) =
      (txn_new, vm', 1, Inr (ExecSuccess [2]))"
    using exec_all_or_nothing [of ?m "sort_key entry_ord" "vm_new 2" "\<lambda>n q. (n + 1, length (qc_args q))" "0 :: nat"] r
    by (auto simp: txn_new_def validate_versions_def queued_new_def)
  then show ?thesis
    by (auto simp: exec_def prepare_inner_started commit_def commit_with_options_def txn_new_def
        validate_versions_def Let_def split: prod.splits)
qed

section \<open>Commit and the other sessions\<close>

definition exclusive_hashes :: "TxnKeyEntries \<Rightarrow> u64 set" where
  "exclusive_hashes es = {key_hash e | e. e \<in> set es \<and> lock_type e = Exclusive}"

lemma exclusive_hashes_sort:
  assumes "sorts_entries srt"
  shows "exclusive_hashes (sort_by_key_hash srt es) = exclusive_hashes es"
proof -
  have x: "Exclusive \<le> l \<longleftrightarrow> l = Exclusive" for l
    by (cases l) (auto simp: less_eq_LockType_def lock_level_def)
  have "h \<in> exclusive_hashes (sort_by_key_hash srt es)" if m: "h \<in> exclusive_hashes es" for h
  proof -
    obtain e where "e \<in> set es" "lock_type e = Exclusive" "key_hash e = h" using m by (auto simp: exclusive_hashes_def)
    moreover from this obtain y where "y \<in> set (sort_by_key_hash srt es)" "covers y e"
      using sort_by_key_hash_sound(2) [OF assms] by blast
    ultimately show ?thesis using x unfolding exclusive_hashes_def covers_def
      by (intro CollectI exI [of _ y]) simp
  qed
  moreover have "h \<in> exclusive_hashes es" if m: "h \<in> exclusive_hashes (sort_by_key_hash srt es)" for h
  proof -
    obtain y where "y \<in> set (sort_by_key_hash srt es)" "lock_type y = Exclusive" "key_hash y = h"
      using m by (auto simp: exclusive_hashes_def)
    moreover from this obtain e where "e \<in> set es" "key_hash e = key_hash y" "lock_type e = lock_type y"
      using sort_by_key_hash_sound(3) [OF assms] by blast
    ultimately show ?thesis unfolding exclusive_hashes_def by (intro CollectI exI [of _ e]) simp
  qed
  ultimately show ?thesis by blast
qed

lemma exclusive_hashes_watched: "exclusive_hashes (save_keys_to_lock c es) = exclusive_hashes es"
  by (auto simp: exclusive_hashes_def save_keys_to_lock_eq entry_new_def)

definition commit_events :: "TransactionManager \<Rightarrow> vm_event list" where
  "commit_events m =
     (if invalidate_all m then [BumpAll]
      else if perform_writes m
      then map (\<lambda>e. Bump (key_hash e)) (filter (\<lambda>e. is_exclusive (lock_type e)) (key_entries m))
      else [])"

lemma commit_events_apply: "snd (commit_with_options m vm b) = foldl vm_apply vm (commit_events m)"
proof -
  have "foldl (\<lambda>vm e. fst (bump_version vm (key_hash e))) vm es = foldl vm_apply vm (map (\<lambda>e. Bump (key_hash e)) es)"
    for es :: TxnKeyEntries
    by (induction es arbitrary: vm) (simp_all add: vm_apply_def)
  then show ?thesis by (simp add: commit_with_options_def commit_events_def vm_apply_def Let_def)
qed

lemma validate_after_history:
  assumes "vm_wf vm" and "length evs < 2 ^ 64" and "validate_versions c vm"
  shows "validate_versions c (foldl vm_apply vm evs) \<longleftrightarrow>
    (\<forall>e \<in> set c. is_watched e \<longrightarrow> (\<forall>ev \<in> set evs. \<not> touches vm (wk_hash e) ev))"
proof -
  have v: "validate_versions c vm'' \<longleftrightarrow> (\<forall>e \<in> set c. is_watched e \<longrightarrow> read_version vm'' (wk_hash e) = wk_version e)" for vm''
    by (auto simp: validate_versions_def list_all_iff)
  show ?thesis using assms(3) version_unchanged_iff [OF assms(1,2)] unfolding v by metis
qed

lemma commit_validates_iff:
  assumes "vm_wf vm" and "length (key_entries m) < 2 ^ 64" and "validate_versions c vm"
  shows "validate_versions c (snd (commit_with_options m vm b)) \<longleftrightarrow>
    (\<forall>e \<in> set c. is_watched e \<longrightarrow> \<not> invalidate_all m \<and>
       (perform_writes m \<longrightarrow> (\<forall>h \<in> exclusive_hashes (key_entries m). vm_index vm h \<noteq> vm_index vm (wk_hash e))))"
proof -
  have "length (commit_events m) \<le> Suc (length (key_entries m))"
    by (simp add: commit_events_def le_SucI)
  moreover have "length (commit_events m) \<le> length (key_entries m) \<or> length (commit_events m) = 1"
    by (simp add: commit_events_def)
  ultimately have l: "length (commit_events m) < 2 ^ 64" using assms(2) by auto
  have "(\<forall>ev \<in> set (commit_events m). \<not> touches vm h ev) \<longleftrightarrow> \<not> invalidate_all m \<and>
      (perform_writes m \<longrightarrow> (\<forall>h' \<in> exclusive_hashes (key_entries m). vm_index vm h' \<noteq> vm_index vm h))" for h
    by (auto simp: commit_events_def touches_def exclusive_hashes_def is_exclusive_def)
  then show ?thesis unfolding commit_events_apply validate_after_history [OF assms(1) l assms(3)] by simp
qed

text \<open>
  C6: A committed transaction invalidates exactly the watches it must.  When EXEC succeeds,
  a session whose watches were valid before stays valid exactly when it watches nothing, or
  the transaction queued no flush and, if it writes, no exclusively locked key shares a
  version slot with a watched key.
\<close>

theorem exec_invalidates_watchers:
  assumes "vm_wf vm" and "sorts_entries sort_unstable" and "txn_state m = Started"
    and "validate_versions (watched_keys m) vm"
    and "length (sort_by_key_hash sort_unstable (save_keys_to_lock (watched_keys m) (key_entries m))) < 2 ^ 64"
    and "validate_versions c vm" and "exec sort_unstable m vm executor s = (m', vm', s', r)"
  shows "validate_versions c vm' \<longleftrightarrow>
    (\<forall>e \<in> set c. is_watched e \<longrightarrow> \<not> invalidate_all m \<and>
       (perform_writes m \<longrightarrow> (\<forall>h \<in> exclusive_hashes (key_entries m). vm_index vm h \<noteq> vm_index vm (wk_hash e))))"
proof -
  obtain s1 rs where "run_commands executor s (queue m) = (s1, rs)" by force
  note e = exec_started_valid [OF assms(3,4) this, of sort_unstable]
  let ?m = "m\<lparr>txn_state := Running, queue := [],
     key_entries := sort_by_key_hash sort_unstable (save_keys_to_lock (watched_keys m) (key_entries m))\<rparr>"
  have vm': "vm' = snd (commit_with_options ?m vm False)" using e assms(7) by (simp add: commit_def)
  have len: "length (key_entries ?m) < 2 ^ 64" using assms(5) by simp
  show ?thesis
    using commit_validates_iff [OF assms(1) len assms(6), of False]
    unfolding vm' by (simp add: exclusive_hashes_sort [OF assms(2)] exclusive_hashes_watched)
qed

theorem exec_invalidates_watchers_witness:
  "\<not> validate_versions (watch_key (\<lambda>k. of_nat (length k)) [] [9] (vm_new 2))
     (fst (snd (exec (sort_key entry_ord)
        (fst (queue_command (\<lambda>k. of_nat (length k)) (fst (multi txn_new)) (queued_new Cmd_Set [[1], [2, 3]])))
        (vm_new 2) (\<lambda>n q. (n + 1, ())) (0 :: nat))))"
proof -
  let ?fh = "\<lambda>k :: bytes. of_nat (length k) :: u64"
  let ?c = "watch_key ?fh [] [9] (vm_new 2)"
  define m where "m = fst (queue_command ?fh (fst (multi txn_new)) (queued_new Cmd_Set [[1], [2, 3]]))"
  have w: "is_write Cmd_Set" "is_data Cmd_Set" "is_allowed_in_txn Cmd_Set"
    by (simp_all add: class_ranges is_data_def command_bounds is_allowed_in_txn_def)
  have k: "for_each_key (queued_new Cmd_Set [[1], [2, 3]]) = [([1], Exclusive)]"
    by (simp add: for_each_key_def queued_new_def w default_lock_def)
  have "m = (fst (multi txn_new))\<lparr>queue := queue (fst (multi txn_new)) @ [queued_new Cmd_Set [[1], [2, 3]]],
       key_entries := key_entries (fst (multi txn_new)) @
         map (\<lambda>(k, l). entry_new (?fh ([] @ k)) l None) (for_each_key (queued_new Cmd_Set [[1], [2, 3]])),
       perform_writes := (perform_writes (fst (multi txn_new)) \<or> qc_is_write (queued_new Cmd_Set [[1], [2, 3]])),
       invalidate_all := (invalidate_all (fst (multi txn_new)) \<or> qc_cmd (queued_new Cmd_Set [[1], [2, 3]]) = Cmd_Flushall
         \<or> qc_cmd (queued_new Cmd_Set [[1], [2, 3]]) = Cmd_Flushdb)\<rparr>"
    unfolding m_def queue_command_def
    by (subst queue_command_eq) (simp_all add: multi_def txn_new_def queued_new_def w)
  then have m: "txn_state m = Started" "watched_keys m = []" "key_entries m = [entry_new 1 Exclusive None]" "perform_writes m"
    by (simp_all add: k multi_def txn_new_def) (simp_all add: queued_new_def w)
  obtain m' vm' s' r where e: "exec (sort_key entry_ord) m (vm_new 2) (\<lambda>n q. (n + 1, ())) (0 :: nat) = (m', vm', s', r)"
    by (metis prod_cases4)
  have wf: "vm_wf (vm_new 2)" using vm_new_wf by blast
  have c: "?c = [\<lparr>wk_key = [9], wk_hash = 1, wk_version = read_version (vm_new 2) 1, is_watched = True\<rparr>]"
    by (simp add: watch_key_def)
  have "validate_versions ?c (vm_new 2)" by (simp add: c validate_versions_def)
  then have "\<not> validate_versions ?c vm'"
    using exec_invalidates_watchers [OF wf stable_sorts_entries m(1) _ _ _ e, of ?c] m
    by (simp add: validate_versions_def save_keys_to_lock_eq sort_by_key_hash_def exclusive_hashes_def entry_new_def c)
  then show ?thesis using e by (simp add: m_def)
qed

text \<open>
  C4: The invariant of the transaction manager, in every state a session can reach: an idle
  manager has nothing queued and no pending invalidation; every queued command was admissible,
  its keys are registered in the lock set at the mode it needs, also after the lock set has
  been sorted and merged; and a queued write or flush has set the flag that makes the commit
  invalidate watchers.
\<close>

theorem txn_reachable_inv:
  assumes "(txn_trans fast_hash prefix)\<^sup>*\<^sup>* txn_new m"
  shows "(txn_state m = TxnNone \<longrightarrow> queue m = [] \<and> \<not> perform_writes m \<and> \<not> invalidate_all m) \<and>
    (\<forall>q \<in> set (queue m). is_allowed_in_txn (qc_cmd q) \<and>
       (qc_is_write q \<longrightarrow> perform_writes m) \<and>
       (qc_cmd q = Cmd_Flushall \<or> qc_cmd q = Cmd_Flushdb \<longrightarrow> invalidate_all m) \<and>
       (\<forall>k l. (k, l) \<in> set (for_each_key q) \<longrightarrow>
          (\<exists>e \<in> set (key_entries m). key_hash e = fast_hash (prefix @ k) \<and> l \<le> lock_type e)))"
  using txn.inv_reachable [OF refl assms] unfolding txn_inv_def queued_ok_def by blast

theorem txn_reachable_inv_witness:
  "perform_writes (fst (queue_command (\<lambda>k. of_nat (length k)) (fst (multi txn_new)) (queued_new Cmd_Set [[1], [2, 3]]))) \<and>
   (\<exists>e \<in> set (key_entries (fst (queue_command (\<lambda>k. of_nat (length k)) (fst (multi txn_new))
        (queued_new Cmd_Set [[1], [2, 3]])))). key_hash e = 1 \<and> Exclusive \<le> lock_type e)"
proof -
  let ?fh = "\<lambda>k :: bytes. of_nat (length k) :: u64" and ?q = "queued_new Cmd_Set [[1], [2, 3]]"
  define m where "m = fst (queue_command ?fh (fst (multi txn_new)) ?q)"
  have w: "is_write Cmd_Set" "is_data Cmd_Set" "is_allowed_in_txn Cmd_Set"
    by (simp_all add: class_ranges is_data_def command_bounds is_allowed_in_txn_def)
  have k: "([1], Exclusive) \<in> set (for_each_key ?q)"
    by (simp add: for_each_key_def queued_new_def w default_lock_def)
  have "txn_trans ?fh [] txn_new (fst (multi txn_new))" "txn_trans ?fh [] (fst (multi txn_new)) m"
    unfolding txn_trans_def m_def queue_command_def
    using stable_sorts_entries txn_step.step_multi txn_step.step_queue by blast+
  then have "(txn_trans ?fh [])\<^sup>*\<^sup>* txn_new m" by simp
  note inv = txn_reachable_inv [OF this]
  have q: "?q \<in> set (queue m)" "qc_is_write ?q"
    unfolding m_def queue_command_def
    by (subst queue_command_eq) (simp_all add: multi_def txn_new_def queued_new_def w)
  show ?thesis unfolding m_def [symmetric] using inv q k by fastforce
qed

end
