(* ===== verification/Repl_History.thy ===== *)
theory Repl_History
  imports Wedb_Bytes
begin

text \<open>
  Replication identity of \<open>wedb_repl\<close>: the roles and recovery states of \<open>role.rs\<close>, the errors of
  \<open>error.rs\<close>, replication ids and the double-id history of \<open>history.rs\<close> with its fixed 97-byte
  image and its crash-safe file, and the decision between incremental and full synchronisation
  of \<open>sync.rs\<close>.  The bytes drawn from the random generator are arguments.
\<close>

section \<open>Roles and recovery states\<close>

datatype ReplRole = RolePrimary | RoleReplica

definition role_is_primary :: "ReplRole \<Rightarrow> bool" where
  "role_is_primary r \<longleftrightarrow> r = RolePrimary"

definition role_is_replica :: "ReplRole \<Rightarrow> bool" where
  "role_is_replica r \<longleftrightarrow> r = RoleReplica"

definition role_as_str :: "ReplRole \<Rightarrow> string" where
  "role_as_str r = (case r of RolePrimary \<Rightarrow> ''master'' | RoleReplica \<Rightarrow> ''slave'')"

datatype RecoveryStatus =
    NoRecovery | InitializeRecover | ClusterReplicate | ClusterFailover | ReplicaOfNoOne
  | CheckpointRecoveredAtReplica | ReadRole

definition is_recovering :: "RecoveryStatus \<Rightarrow> bool" where
  "is_recovering s \<longleftrightarrow> \<not> (s = NoRecovery \<or> s = ReadRole)"

definition cannot_stream_aof :: "RecoveryStatus \<Rightarrow> bool" where
  "cannot_stream_aof s \<longleftrightarrow>
     s = InitializeRecover \<or> s = ClusterReplicate \<or> s = ClusterFailover \<or> s = ReplicaOfNoOne"

definition can_stream_aof :: "RecoveryStatus \<Rightarrow> bool" where
  "can_stream_aof s \<longleftrightarrow> \<not> cannot_stream_aof s"

lemma cannot_stream_aof_iff: "cannot_stream_aof s \<longleftrightarrow> is_recovering s \<and> s \<noteq> CheckpointRecoveredAtReplica"
  by (cases s) (simp_all add: cannot_stream_aof_def is_recovering_def)

section \<open>Errors\<close>

text \<open>The reason carried by an invalid id, and the errors this part of the crate raises.\<close>

datatype ReplIdError = IdLength nat | IdHexChar u8

datatype ReplError =
    InvalidVersion u8 u8
  | InvalidDataLength nat nat
  | InvalidReplId ReplIdError
  | NotPrimary ReplRole
  | InvalidStateTransition RecoveryStatus RecoveryStatus
  | Protocol string
  | HandshakeFailed string bytes
  | AuthFailed bytes
  | IoUnexpectedEof
  | IoNotFound
  | ConnectionClosed

section \<open>Replication ids\<close>

type_synonym ReplId = bytes

definition REPL_ID_LEN :: nat where
  "REPL_ID_LEN = 40"

definition REPL_HEX_CHARS :: bytes where
  "REPL_HEX_CHARS = bstr ''0123456789abcdef''"

definition ReplId_generate :: "bytes \<Rightarrow> ReplId" where
  "ReplId_generate rand_bytes =
     concat (map (\<lambda>b. [REPL_HEX_CHARS ! unat (drop_bit 4 b), REPL_HEX_CHARS ! unat (b AND 0x0F)]) rand_bytes)"

definition ReplId_empty :: ReplId where
  "ReplId_empty = replicate REPL_ID_LEN 48"

definition ReplId_question_mark :: ReplId where
  "ReplId_question_mark = replicate REPL_ID_LEN 63"

definition ReplId_is_empty :: "ReplId \<Rightarrow> bool" where
  "ReplId_is_empty r \<longleftrightarrow> r = replicate REPL_ID_LEN 48"

definition ReplId_is_question_mark :: "ReplId \<Rightarrow> bool" where
  "ReplId_is_question_mark r \<longleftrightarrow> r ! 0 = 63"

definition ReplId_from_bytes :: "bytes \<Rightarrow> ReplError + ReplId" where
  "ReplId_from_bytes sl =
     (if sl = [63] \<or> (length sl = REPL_ID_LEN \<and> list_all (\<lambda>b. b = 63) sl) then Inr ReplId_question_mark
      else if length sl \<noteq> REPL_ID_LEN then Inl (InvalidReplId (IdLength (length sl)))
      else case find (\<lambda>b. \<not> is_ascii_hexdigit_u8 b) sl of
             Some b \<Rightarrow> Inl (InvalidReplId (IdHexChar b))
           | None \<Rightarrow> Inr sl)"

definition ReplId_from_str_val :: "bytes \<Rightarrow> ReplError + ReplId" where
  "ReplId_from_str_val s = ReplId_from_bytes s"

section \<open>The history\<close>

record ReplicationHistory =
  primary_replid :: ReplId
  primary_replid2 :: ReplId
  replication_offset :: u64
  replication_offset2 :: u64

definition history_new :: "bytes \<Rightarrow> u64 \<Rightarrow> ReplicationHistory" where
  "history_new rand initial_offset =
     \<lparr> primary_replid = ReplId_generate rand, primary_replid2 = ReplId_empty,
       replication_offset = initial_offset, replication_offset2 = - 1 \<rparr>"

definition failover_update :: "bytes \<Rightarrow> ReplicationHistory \<Rightarrow> u64 \<Rightarrow> ReplicationHistory" where
  "failover_update rand h tail_offset =
     \<lparr> primary_replid = ReplId_generate rand, primary_replid2 = primary_replid h,
       replication_offset = tail_offset, replication_offset2 = tail_offset \<rparr>"

definition update_primary_replid :: "ReplicationHistory \<Rightarrow> ReplId \<Rightarrow> ReplicationHistory" where
  "update_primary_replid h new_id = h\<lparr> primary_replid := new_id \<rparr>"

definition set_offset :: "ReplicationHistory \<Rightarrow> u64 \<Rightarrow> ReplicationHistory" where
  "set_offset h offset = h\<lparr> replication_offset := offset \<rparr>"

definition REPLICATION_HISTORY_VERSION :: u8 where
  "REPLICATION_HISTORY_VERSION = 1"

definition REPLICATION_HISTORY_BYTES_LEN :: nat where
  "REPLICATION_HISTORY_BYTES_LEN = 1 + REPL_ID_LEN * 2 + 16"

definition OFFSET_PRIMARY_REPLID :: nat where
  "OFFSET_PRIMARY_REPLID = 1"

definition OFFSET_PRIMARY_REPLID2 :: nat where
  "OFFSET_PRIMARY_REPLID2 = OFFSET_PRIMARY_REPLID + REPL_ID_LEN"

definition OFFSET_REPL_OFFSET :: nat where
  "OFFSET_REPL_OFFSET = OFFSET_PRIMARY_REPLID2 + REPL_ID_LEN"

definition OFFSET_REPL_OFFSET2 :: nat where
  "OFFSET_REPL_OFFSET2 = OFFSET_REPL_OFFSET + 8"

definition to_byte_array :: "ReplicationHistory \<Rightarrow> bytes" where
  "to_byte_array h =
     (let buf = replicate REPLICATION_HISTORY_BYTES_LEN 0;
          buf = buf[0 := REPLICATION_HISTORY_VERSION];
          buf = copy_at OFFSET_PRIMARY_REPLID (primary_replid h) buf;
          buf = copy_at OFFSET_PRIMARY_REPLID2 (primary_replid2 h) buf;
          buf = copy_at OFFSET_REPL_OFFSET (to_le_bytes (replication_offset h)) buf;
          buf = copy_at OFFSET_REPL_OFFSET2 (to_le_bytes (replication_offset2 h)) buf
      in buf)"

text \<open>The bytes from \<open>i\<close> up to \<open>j\<close>.\<close>

definition sub_slice :: "nat \<Rightarrow> nat \<Rightarrow> 'a list \<Rightarrow> 'a list" where
  "sub_slice i j xs = take (j - i) (drop i xs)"

definition history_from_bytes :: "bytes \<Rightarrow> ReplError + ReplicationHistory" where
  "history_from_bytes data =
     (if length data < REPLICATION_HISTORY_BYTES_LEN
      then Inl (InvalidDataLength REPLICATION_HISTORY_BYTES_LEN (length data))
      else if data ! 0 \<noteq> REPLICATION_HISTORY_VERSION
      then Inl (InvalidVersion REPLICATION_HISTORY_VERSION (data ! 0))
      else case ReplId_from_bytes (sub_slice OFFSET_PRIMARY_REPLID OFFSET_PRIMARY_REPLID2 data) of
             Inl e \<Rightarrow> Inl e
           | Inr id1 \<Rightarrow>
               (case ReplId_from_bytes (sub_slice OFFSET_PRIMARY_REPLID2 OFFSET_REPL_OFFSET data) of
                  Inl e \<Rightarrow> Inl e
                | Inr id2 \<Rightarrow>
                    Inr \<lparr> primary_replid = id1, primary_replid2 = id2,
                      replication_offset = from_le_bytes (sub_slice OFFSET_REPL_OFFSET OFFSET_REPL_OFFSET2 data),
                      replication_offset2 =
                        from_le_bytes (sub_slice OFFSET_REPL_OFFSET2 REPLICATION_HISTORY_BYTES_LEN data) \<rparr>))"

subsection \<open>The file\<close>

text \<open>
  The two files of a history path: the configuration file and its \<open>.tmp\<close>.  Saving writes the
  temporary file and renames it over the other; the states of the two files a crash can leave
  behind are those of \<open>save_states\<close>.  Loading falls back to the temporary file.
\<close>

record HistoryFiles =
  hf_main :: "bytes option"
  hf_tmp :: "bytes option"

definition read_exact_97 :: "bytes option \<Rightarrow> ReplError + bytes" where
  "read_exact_97 f =
     (case f of None \<Rightarrow> Inl IoNotFound
      | Some bs \<Rightarrow> if length bs < REPLICATION_HISTORY_BYTES_LEN then Inl IoUnexpectedEof
                   else Inr (take REPLICATION_HISTORY_BYTES_LEN bs))"

definition load_from_valid_file :: "bytes option \<Rightarrow> ReplError + ReplicationHistory" where
  "load_from_valid_file f = (case read_exact_97 f of Inl e \<Rightarrow> Inl e | Inr buffer \<Rightarrow> history_from_bytes buffer)"

definition save_to_file :: "ReplicationHistory \<Rightarrow> HistoryFiles \<Rightarrow> HistoryFiles" where
  "save_to_file h fs =
     (let fs1 = fs\<lparr> hf_tmp := Some (to_byte_array h) \<rparr>
      in fs1\<lparr> hf_main := hf_tmp fs1, hf_tmp := None \<rparr>)"

definition load_from_file :: "HistoryFiles \<Rightarrow> HistoryFiles \<times> (ReplError + ReplicationHistory)" where
  "load_from_file fs =
     (case load_from_valid_file (hf_main fs) of
        Inr hist \<Rightarrow> (fs, Inr hist)
      | Inl e \<Rightarrow>
          if hf_tmp fs \<noteq> None then
            (case load_from_valid_file (hf_tmp fs) of
               Inr hist \<Rightarrow> (\<lparr> hf_main = hf_tmp fs, hf_tmp = None \<rparr>, Inr hist)
             | Inl e' \<Rightarrow> (fs, Inl e'))
          else (fs, Inl e))"

definition save_states :: "ReplicationHistory \<Rightarrow> HistoryFiles \<Rightarrow> HistoryFiles set" where
  "save_states h fs =
     insert fs (insert (save_to_file h fs)
       ((\<lambda>k. fs\<lparr> hf_tmp := Some (take k (to_byte_array h)) \<rparr>) ` {0..REPLICATION_HISTORY_BYTES_LEN}))"

section \<open>Incremental or full synchronisation\<close>

datatype SyncDecision = PartialResync ReplId u64 | FullResync ReplId u64

definition decide_sync :: "ReplicationHistory \<Rightarrow> u64 \<Rightarrow> u64 \<Rightarrow> ReplId \<Rightarrow> int \<Rightarrow> SyncDecision" where
  "decide_sync history wal_begin wal_tail req_replid req_offset =
     (if ReplId_is_question_mark req_replid \<or> req_offset < 0
      then FullResync (primary_replid history) wal_tail
      else
        let offset = word_of_int req_offset in
        if offset < wal_begin \<or> offset > wal_tail
        then FullResync (primary_replid history) wal_tail
        else
          let match_curr = (req_replid = primary_replid history);
              match_prev = (\<not> ReplId_is_empty (primary_replid2 history) \<and>
                 req_replid = primary_replid2 history \<and> offset \<le> replication_offset2 history) in
          if match_curr \<or> match_prev then PartialResync (primary_replid history) offset
          else FullResync (primary_replid history) wal_tail)"

section \<open>Properties of ids and histories\<close>

definition replid_ok :: "ReplId \<Rightarrow> bool" where
  "replid_ok r \<longleftrightarrow> length r = 40 \<and> ((\<forall>b \<in> set r. is_ascii_hexdigit_u8 b) \<or> r = replicate 40 63)"

lemma ReplId_from_bytes_ok: "ReplId_from_bytes sl = Inr r \<Longrightarrow> replid_ok r"
  by (auto simp: ReplId_from_bytes_def replid_ok_def ReplId_question_mark_def REPL_ID_LEN_def
      find_None_iff split: if_splits option.splits)

lemma ReplId_from_bytes_id:
  assumes "replid_ok r"
  shows "ReplId_from_bytes r = Inr r"
proof -
  have l: "length r = 40" using assms by (simp add: replid_ok_def)
  have one: "r \<noteq> [63]" using l by auto
  consider "r = replicate 40 63" | "\<forall>b \<in> set r. is_ascii_hexdigit_u8 b"
    using assms by (auto simp: replid_ok_def)
  then show ?thesis
  proof cases
    case 1
    then show ?thesis using l one
      by (auto simp: ReplId_from_bytes_def REPL_ID_LEN_def ReplId_question_mark_def list_all_iff)
  next
    case 2
    have "\<not> is_ascii_hexdigit_u8 63" by (simp add: is_ascii_hexdigit_u8_def)
    moreover have "r \<noteq> []" using l by auto
    ultimately have "\<not> list_all (\<lambda>b. b = 63) r" using 2 by (cases r) auto
    moreover have "find (\<lambda>b. \<not> is_ascii_hexdigit_u8 b) r = None" using 2 by (simp add: find_None_iff)
    ultimately show ?thesis using l one by (simp add: ReplId_from_bytes_def REPL_ID_LEN_def)
  qed
qed

lemma hex_nibble: "i < 16 \<Longrightarrow> is_ascii_hexdigit_u8 (REPL_HEX_CHARS ! i)"
proof -
  have "\<forall>b \<in> set REPL_HEX_CHARS. is_ascii_hexdigit_u8 b"
    by (simp add: REPL_HEX_CHARS_def bstr_def is_ascii_hexdigit_u8_def)
  moreover have "length REPL_HEX_CHARS = 16" by (simp add: REPL_HEX_CHARS_def)
  ultimately show "i < 16 \<Longrightarrow> ?thesis" by simp
qed

lemma ReplId_generate_ok:
  assumes "length rand = 20"
  shows "replid_ok (ReplId_generate rand)" and "\<not> ReplId_is_question_mark (ReplId_generate rand)"
proof -
  have hi: "unat (drop_bit 4 b) < 16" and lo: "unat (b AND 0x0F) < 16" for b :: u8
  proof -
    have "unat b < 2 ^ 8" using unsigned_less [of b, where 'a = nat] by simp
    then show "unat (drop_bit 4 b) < 16" by (simp add: drop_bit_eq_div unat_div)
    have "b AND 0x0F = take_bit 4 b" by (simp add: take_bit_eq_mask mask_eq_exp_minus_1)
    then show "unat (b AND 0x0F) < 16" by (simp add: unsigned_take_bit_eq take_bit_nat_def)
  qed
  have len: "length (ReplId_generate xs) = 2 * length xs" for xs
    by (induction xs) (simp_all add: ReplId_generate_def)
  have hex: "\<forall>b \<in> set (ReplId_generate rand). is_ascii_hexdigit_u8 b"
    using hex_nibble [OF hi] hex_nibble [OF lo] by (auto simp: ReplId_generate_def)
  show "replid_ok (ReplId_generate rand)" using len hex assms by (simp add: replid_ok_def)
  have "ReplId_generate rand ! 0 \<in> set (ReplId_generate rand)" using len assms by (intro nth_mem) simp
  then show "\<not> ReplId_is_question_mark (ReplId_generate rand)"
    using hex by (auto simp: ReplId_is_question_mark_def is_ascii_hexdigit_u8_def)
qed

lemmas history_layout = REPLICATION_HISTORY_BYTES_LEN_def REPL_ID_LEN_def OFFSET_PRIMARY_REPLID_def
  OFFSET_PRIMARY_REPLID2_def OFFSET_REPL_OFFSET_def OFFSET_REPL_OFFSET2_def REPLICATION_HISTORY_VERSION_def

definition history_ok :: "ReplicationHistory \<Rightarrow> bool" where
  "history_ok h \<longleftrightarrow> replid_ok (primary_replid h) \<and> replid_ok (primary_replid2 h)"

lemma copy_at_append:
  "length xs = i \<Longrightarrow> copy_at i ys (xs @ replicate n z) = (xs @ ys) @ replicate (n - length ys) z"
  by (simp add: copy_at_def)

lemma to_byte_array_concat:
  assumes "length (primary_replid h) = 40" "length (primary_replid2 h) = 40"
  shows "to_byte_array h = 1 # primary_replid h @ primary_replid2 h @
    to_le_bytes (replication_offset h) @ to_le_bytes (replication_offset2 h)"
proof -
  let ?a = "primary_replid h" and ?b = "primary_replid2 h"
    and ?c = "to_le_bytes (replication_offset h)" and ?d = "to_le_bytes (replication_offset2 h)"
  have z: "(replicate 97 0 :: bytes)[0 := 1] = [1] @ replicate 96 0"
    using replicate_Suc [of 96 "0 :: u8"] by simp
  have a: "copy_at 1 ?a ([1] @ replicate 96 0) = ([1] @ ?a) @ replicate 56 0"
    using assms by (subst copy_at_append) simp_all
  have b: "copy_at 41 ?b (([1] @ ?a) @ replicate 56 0) = (([1] @ ?a) @ ?b) @ replicate 16 0"
    using assms by (subst copy_at_append) simp_all
  have c: "copy_at 81 ?c ((([1] @ ?a) @ ?b) @ replicate 16 0) = ((([1] @ ?a) @ ?b) @ ?c) @ replicate 8 0"
    using assms by (subst copy_at_append) simp_all
  have d: "copy_at 89 ?d (((([1] @ ?a) @ ?b) @ ?c) @ replicate 8 0) = (((([1] @ ?a) @ ?b) @ ?c) @ ?d) @ replicate 0 0"
    using assms by (subst copy_at_append) simp_all
  have offs: "(1 :: nat) + 40 = 41" "(41 :: nat) + 40 = 81" "(81 :: nat) + 8 = 89" "(1 :: nat) + 40 * 2 + 16 = 97"
    by simp_all
  show ?thesis unfolding to_byte_array_def history_layout Let_def offs z a b c d by simp
qed

lemma sub_slice_append: "length xs = i \<Longrightarrow> length ys = j - i \<Longrightarrow> sub_slice i j (xs @ ys @ zs) = ys"
  by (simp add: sub_slice_def)

lemma history_roundtrip:
  assumes "history_ok h"
  shows "history_from_bytes (to_byte_array h) = Inr h" and "length (to_byte_array h) = 97"
proof -
  let ?a = "primary_replid h" and ?b = "primary_replid2 h"
    and ?c = "to_le_bytes (replication_offset h)" and ?d = "to_le_bytes (replication_offset2 h)"
  have l: "length ?a = 40" "length ?b = 40"
    using assms by (simp_all add: history_ok_def replid_ok_def)
  define arr where "arr = to_byte_array h"
  have arr: "arr = 1 # ?a @ ?b @ ?c @ ?d" unfolding arr_def by (rule to_byte_array_concat [OF l])
  show len: "length (to_byte_array h) = 97" using l arr by (simp add: arr_def)
  have sl: "sub_slice 1 41 arr = ?a" "sub_slice 41 81 arr = ?b" "sub_slice 81 89 arr = ?c" "sub_slice 89 97 arr = ?d"
    using sub_slice_append [of "[1]" 1 ?a 41 "?b @ ?c @ ?d"] sub_slice_append [of "1 # ?a" 41 ?b 81 "?c @ ?d"]
      sub_slice_append [of "1 # ?a @ ?b" 81 ?c 89 ?d] sub_slice_append [of "1 # ?a @ ?b @ ?c" 89 ?d 97 "[]"] l arr
    by simp_all
  have "arr ! 0 = 1" using arr by simp
  then have "history_from_bytes arr = Inr h"
    using assms len sl unfolding history_from_bytes_def arr_def [symmetric] history_layout
    by (simp add: ReplId_from_bytes_id history_ok_def from_to_le_bytes)
  then show "history_from_bytes (to_byte_array h) = Inr h" by (simp add: arr_def)
qed

lemma load_saved:
  assumes "history_ok h"
  shows "load_from_valid_file (Some (take k (to_byte_array h))) =
    (if k < 97 then Inl IoUnexpectedEof else Inr h)"
  using history_roundtrip [OF assms]
  by (simp add: load_from_valid_file_def read_exact_97_def history_layout)

lemma load_saved_all: "history_ok h \<Longrightarrow> load_from_valid_file (Some (to_byte_array h)) = Inr h"
  using load_saved [of h 97] history_roundtrip(2) [of h] by simp

text \<open>
  The 97-byte image of a history is read back to the same history, and anything that is
  read successfully has well-formed ids: forty hexadecimal digits, or the id of forty question
  marks.
\<close>

theorem history_bytes_roundtrip:
  "(history_ok h \<longrightarrow> length (to_byte_array h) = 97 \<and> history_from_bytes (to_byte_array h) = Inr h) \<and>
   (\<forall>data h'. history_from_bytes data = Inr h' \<longrightarrow> history_ok h')"
proof -
  have "history_ok h'" if "history_from_bytes data = Inr h'" for data h'
    using that
    by (auto simp: history_from_bytes_def history_ok_def dest: ReplId_from_bytes_ok
        split: if_splits sum.splits)
  then show ?thesis using history_roundtrip by blast
qed

theorem history_bytes_roundtrip_witness:
  "history_from_bytes (to_byte_array (history_new (replicate 20 0xAB) 77)) = Inr (history_new (replicate 20 0xAB) 77)"
proof -
  have "history_ok (history_new (replicate 20 0xAB) 77)"
    using ReplId_generate_ok(1) [of "replicate 20 0xAB"]
    by (simp add: history_ok_def history_new_def ReplId_empty_def REPL_ID_LEN_def replid_ok_def
        is_ascii_hexdigit_u8_def)
  then show ?thesis using history_bytes_roundtrip by blast
qed



end
