(* ===== verification/Repl_Backlog.thy ===== *)
theory Repl_Backlog
  imports Wedb_Prelude
begin

text \<open>
  The replication backlog of \<open>wedb_repl/src/backlog.rs\<close>: a fixed ring buffer holding the last
  bytes of the replication stream, addressed by absolute stream offsets.  The theory gives the
  ring buffer as the code has it, the window of bytes it stands for, and the refinement of every
  operation to the operation on the window.  The interface a client of the backlog relies on is
  the locale \<open>stream_window\<close>.
\<close>

section \<open>The ring buffer\<close>

record ReplicationBacklog =
  bl_buf :: bytes
  bl_capacity :: nat
  bl_write_idx :: nat
  bl_hist_len :: nat
  bl_master_repl_offset :: u64

definition DEFAULT_BACKLOG_SIZE :: nat where
  "DEFAULT_BACKLOG_SIZE = 1024 * 1024"

definition backlog_new :: "nat \<Rightarrow> ReplicationBacklog" where
  "backlog_new capacity =
     (let cap = max capacity 1024 in
      \<lparr> bl_buf = replicate cap 0, bl_capacity = cap, bl_write_idx = 0, bl_hist_len = 0,
        bl_master_repl_offset = 0 \<rparr>)"

definition set_master_offset :: "ReplicationBacklog \<Rightarrow> u64 \<Rightarrow> ReplicationBacklog" where
  "set_master_offset b offset = b\<lparr> bl_master_repl_offset := offset \<rparr>"

definition first_byte_offset :: "ReplicationBacklog \<Rightarrow> u64" where
  "first_byte_offset b = saturating_sub (bl_master_repl_offset b) (of_nat (bl_hist_len b))"

definition is_offset_in_range :: "ReplicationBacklog \<Rightarrow> u64 \<Rightarrow> bool" where
  "is_offset_in_range b req_offset =
     (if bl_hist_len b = 0 then False
      else let first = first_byte_offset b in
           first \<le> req_offset \<and> req_offset \<le> bl_master_repl_offset b)"

definition feed :: "ReplicationBacklog \<Rightarrow> bytes \<Rightarrow> ReplicationBacklog" where
  "feed b data =
     (let len = length data; cap = bl_capacity b; w = bl_write_idx b in
      if len = 0 then b
      else if cap \<le> len then
        let start = len - cap in
        b\<lparr> bl_buf := drop start data, bl_write_idx := 0, bl_hist_len := cap,
           bl_master_repl_offset := bl_master_repl_offset b + of_nat len \<rparr>
      else
        let space_to_end = cap - w;
            (buf', w') =
              (if len \<le> space_to_end then
                 (copy_at w data (bl_buf b), if w + len = cap then 0 else w + len)
               else
                 let remain = len - space_to_end in
                 (copy_at 0 (drop space_to_end data)
                    (copy_at w (take space_to_end data) (bl_buf b)), remain)) in
        b\<lparr> bl_buf := buf', bl_write_idx := w', bl_hist_len := min (bl_hist_len b + len) cap,
           bl_master_repl_offset := bl_master_repl_offset b + of_nat len \<rparr>)"

definition slices :: "ReplicationBacklog \<Rightarrow> u64 \<Rightarrow> nat \<Rightarrow> bytes \<times> bytes" where
  "slices b start_offset max_bytes =
     (if max_bytes = 0 \<or> \<not> is_offset_in_range b start_offset then ([], [])
      else
        let cap = bl_capacity b;
            back_dist = unat (bl_master_repl_offset b - start_offset);
            to_read = min max_bytes back_dist in
        if to_read = 0 then ([], [])
        else
          let ring_start = (bl_write_idx b + cap - back_dist) mod cap;
              space_to_end = cap - ring_start in
          if to_read \<le> space_to_end then (take to_read (drop ring_start (bl_buf b)), [])
          else
            let remain = to_read - space_to_end in
            (drop ring_start (bl_buf b), take remain (bl_buf b)))"

definition read_bytes :: "ReplicationBacklog \<Rightarrow> u64 \<Rightarrow> nat \<Rightarrow> bytes" where
  "read_bytes b start_offset max_bytes =
     (let (s1, s2) = slices b start_offset max_bytes; total = length s1 + length s2 in
      if total = 0 then [] else s1 @ s2)"

definition backlog_clear :: "ReplicationBacklog \<Rightarrow> ReplicationBacklog" where
  "backlog_clear b = b\<lparr> bl_write_idx := 0, bl_hist_len := 0 \<rparr>"

section \<open>The window the ring buffer stands for\<close>

text \<open>
  The byte \<open>i\<close> positions before the write index (\<open>1 \<le> i \<le> capacity\<close>), and the window: the
  \<open>hist_len\<close> bytes up to the write index, oldest first.
\<close>

definition byte_back :: "ReplicationBacklog \<Rightarrow> nat \<Rightarrow> u8" where
  "byte_back b i = bl_buf b ! ((bl_write_idx b + bl_capacity b - i) mod bl_capacity b)"

definition window :: "ReplicationBacklog \<Rightarrow> bytes" where
  "window b = map (\<lambda>k. byte_back b (bl_hist_len b - k)) [0..<bl_hist_len b]"

text \<open>
  What every operation keeps.  The capacity is below the allocation limit of the language, so
  the cast of a length to \<open>u64\<close> is exact.
\<close>

definition backlog_inv :: "ReplicationBacklog \<Rightarrow> bool" where
  "backlog_inv b \<longleftrightarrow>
     length (bl_buf b) = bl_capacity b \<and> 1024 \<le> bl_capacity b \<and> bl_capacity b < 2 ^ 63 \<and>
     bl_write_idx b < bl_capacity b \<and> bl_hist_len b \<le> bl_capacity b"

definition last_n :: "nat \<Rightarrow> 'a list \<Rightarrow> 'a list" where
  "last_n n xs = drop (length xs - n) xs"

lemma length_window [simp]: "length (window b) = bl_hist_len b"
  by (simp add: window_def)

lemma hist_len_le: "backlog_inv b \<Longrightarrow> bl_hist_len b \<le> bl_capacity b"
  by (simp add: backlog_inv_def)

lemma window_nth: "k < bl_hist_len b \<Longrightarrow> window b ! k = byte_back b (bl_hist_len b - k)"
  by (simp add: window_def)

lemma window_empty: "bl_hist_len b = 0 \<Longrightarrow> window b = []"
  by (simp add: window_def)

lemma length_last_n [simp]: "length (last_n n xs) = min n (length xs)"
  by (simp add: last_n_def)

lemma last_n_all [simp]: "length xs \<le> n \<Longrightarrow> last_n n xs = xs"
  by (simp add: last_n_def)

lemma last_n_append_absorb: "last_n n (last_n n xs @ ys) = last_n n (xs @ ys)"
  by (cases "length xs \<le> n") (auto simp: last_n_def not_le add.commute)

lemma last_n_last_n: "m \<le> n \<Longrightarrow> last_n m (last_n n xs) = last_n m xs"
  by (cases "length xs \<le> n") (auto simp: last_n_def)

lemma last_n_suffix: "p \<le> length ys \<Longrightarrow> last_n (length ys - p) (xs @ ys) = drop p ys"
  by (simp add: last_n_def)

lemma unat_of_nat_64: "k < 2 ^ 64 \<Longrightarrow> unat (of_nat k :: u64) = k"
  by (simp add: unsigned_of_nat take_bit_nat_eq_self)

lemma last_n_append_long: "n \<le> length ys \<Longrightarrow> last_n n (xs @ ys) = last_n n ys"
  by (simp add: last_n_def)

lemma ring_mod: "w < c \<Longrightarrow> k \<le> c \<Longrightarrow> (w + k) mod c = (if w + k < c then w + k else w + k - c)"
  for c :: nat
  by (auto simp: le_mod_geq not_less)

lemma ring_mod_back:
  "w < c \<Longrightarrow> 0 < k \<Longrightarrow> k \<le> c \<Longrightarrow> (w + c - k) mod c = (if k \<le> w then w - k else w + c - k)"
  for c :: nat
  using ring_mod [of w c "c - k"] by auto

lemma set_master_offset_simps [simp]:
  "window (set_master_offset b x) = window b" "bl_hist_len (set_master_offset b x) = bl_hist_len b"
  "bl_capacity (set_master_offset b x) = bl_capacity b"
  "bl_master_repl_offset (set_master_offset b x) = x"
  "backlog_inv (set_master_offset b x) = backlog_inv b"
  by (simp_all add: set_master_offset_def window_def byte_back_def backlog_inv_def)

lemma backlog_clear_simps [simp]:
  "window (backlog_clear b) = []" "bl_hist_len (backlog_clear b) = 0"
  "bl_capacity (backlog_clear b) = bl_capacity b"
  "bl_master_repl_offset (backlog_clear b) = bl_master_repl_offset b"
  "backlog_inv b \<Longrightarrow> backlog_inv (backlog_clear b)"
  by (auto simp: backlog_clear_def window_def backlog_inv_def)

lemma backlog_new_simps [simp]:
  "window (backlog_new n) = []" "bl_hist_len (backlog_new n) = 0"
  "bl_capacity (backlog_new n) = max n 1024" "bl_master_repl_offset (backlog_new n) = 0"
  "n < 2 ^ 63 \<Longrightarrow> backlog_inv (backlog_new n)"
  by (simp_all add: backlog_new_def window_def backlog_inv_def Let_def)

lemma feed_offset [simp]:
  "bl_capacity (feed b d) = bl_capacity b"
  "bl_master_repl_offset (feed b d) = bl_master_repl_offset b + of_nat (length d)"
  "bl_hist_len b \<le> bl_capacity b \<Longrightarrow> bl_hist_len (feed b d) = min (bl_hist_len b + length d) (bl_capacity b)"
  by (auto simp: feed_def Let_def)

lemma feed_inv: "backlog_inv b \<Longrightarrow> backlog_inv (feed b d)"
  by (auto simp: feed_def Let_def backlog_inv_def)

text \<open>A write shorter than the ring: where the bytes are afterwards.\<close>

lemma feed_short:
  assumes inv: "backlog_inv b" and len: "0 < length d" "length d < bl_capacity b"
  shows "bl_write_idx (feed b d) = (bl_write_idx b + length d) mod bl_capacity b"
    and "j < bl_capacity b \<Longrightarrow> bl_buf (feed b d) ! j =
           (let k = (j + bl_capacity b - bl_write_idx b) mod bl_capacity b in
            if k < length d then d ! k else bl_buf b ! j)"
proof -
  let ?c = "bl_capacity b" and ?w = "bl_write_idx b"
  have c: "length (bl_buf b) = ?c" "?w < ?c" using inv by (simp_all add: backlog_inv_def)
  show "bl_write_idx (feed b d) = (?w + length d) mod ?c"
    using len c by (auto simp: feed_def Let_def ring_mod)
  assume j: "j < ?c"
  have k: "(j + ?c - ?w) mod ?c = (if ?w \<le> j then j - ?w else j + ?c - ?w)"
    using ring_mod [of j ?c "?c - ?w"] c(2) j by (auto simp: not_le)
  show "bl_buf (feed b d) ! j =
      (let k = (j + ?c - ?w) mod ?c in if k < length d then d ! k else bl_buf b ! j)"
    using len c j unfolding k by (auto simp: feed_def Let_def nth_copy_at not_le add.commute)
qed

lemma feed_back:
  assumes inv: "backlog_inv b" and len: "0 < length d" "length d < bl_capacity b"
    and i: "0 < i" "i \<le> bl_capacity b"
  shows "byte_back (feed b d) i = (if i \<le> length d then d ! (length d - i) else byte_back b (i - length d))"
proof -
  let ?c = "bl_capacity b" and ?w = "bl_write_idx b" and ?l = "length d"
  have w: "?w < ?c" using inv by (simp add: backlog_inv_def)
  define w' where "w' = (?w + ?l) mod ?c"
  have w'': "w' = (if ?w + ?l < ?c then ?w + ?l else ?w + ?l - ?c)"
    unfolding w'_def using w len by (simp add: ring_mod)
  define j where "j = (w' + ?c - i) mod ?c"
  have j: "j = (if i \<le> w' then w' - i else w' + ?c - i)"
    unfolding j_def using w'' w i len by (intro ring_mod_back) (auto split: if_splits)
  have jc: "j < ?c" using j w'' w i len by (auto split: if_splits)
  define k where "k = (j + ?c - ?w) mod ?c"
  have k: "k = (if ?w \<le> j then j - ?w else j + ?c - ?w)"
    unfolding k_def using ring_mod [of j ?c "?c - ?w"] w jc by (auto simp: not_le)
  have b': "byte_back (feed b d) i = (if k < ?l then d ! k else bl_buf b ! j)"
    using feed_short [OF inv len] jc by (simp add: byte_back_def j_def k_def w'_def Let_def)
  show ?thesis
  proof (cases "i \<le> ?l")
    case True
    then have "k = ?l - i" using k j w'' w i len by (auto split: if_splits)
    moreover have "?l - i < ?l" using i len by linarith
    ultimately show ?thesis using b' True by simp
  next
    case False
    then have "\<not> k < ?l" using k j w'' w i len by (auto split: if_splits)
    moreover have "(?w + ?c - (i - ?l)) mod ?c = (if i - ?l \<le> ?w then ?w - (i - ?l) else ?w + ?c - (i - ?l))"
      using False w i by (intro ring_mod_back) auto
    then have "j = (?w + ?c - (i - ?l)) mod ?c" using False j w'' w i len by (auto split: if_splits)
    ultimately show ?thesis using b' False by (simp add: byte_back_def)
  qed
qed

lemma feed_window:
  assumes inv: "backlog_inv b"
  shows "window (feed b d) = last_n (bl_capacity b) (window b @ d)"
proof -
  let ?c = "bl_capacity b" and ?h = "bl_hist_len b" and ?l = "length d"
  have c: "?h \<le> ?c" "0 < ?c" "length (bl_buf b) = ?c" using inv by (auto simp: backlog_inv_def)
  consider "?l = 0" | "?c \<le> ?l" | "0 < ?l" "?l < ?c" by linarith
  then show ?thesis
  proof cases
    case 1
    then show ?thesis using c by (simp add: feed_def)
  next
    case 2
    have "window (feed b d) = drop (?l - ?c) d"
    proof (rule nth_equalityI)
      show "length (window (feed b d)) = length (drop (?l - ?c) d)" using 2 c by simp
      fix k assume "k < length (window (feed b d))"
      then have k: "k < ?c" using 2 c by simp
      have "byte_back (feed b d) (?c - k) = drop (?l - ?c) d ! ((?c - (?c - k)) mod ?c)"
        using 2 c k by (auto simp: byte_back_def feed_def Let_def)
      then show "window (feed b d) ! k = drop (?l - ?c) d ! k"
        using 2 c k by (simp add: window_nth)
    qed
    then show ?thesis using 2 by (simp add: last_n_append_long) (simp add: last_n_def)
  next
    case 3
    let ?n = "min (?h + ?l) ?c"
    show ?thesis
    proof (rule nth_equalityI)
      show "length (window (feed b d)) = length (last_n ?c (window b @ d))" using c by simp
      fix k assume "k < length (window (feed b d))"
      then have k: "k < ?n" using c by simp
      have "window (feed b d) ! k = (if ?n - k \<le> ?l then d ! (?l - (?n - k)) else byte_back b (?n - k - ?l))"
        using feed_back [OF inv 3, of "?n - k"] k c by (simp add: window_nth)
      moreover have "last_n ?c (window b @ d) ! k = (window b @ d) ! (?h + ?l - ?n + k)"
        unfolding last_n_def using k by (subst nth_drop) (auto simp: min_def split: if_splits)
      moreover have "(window b @ d) ! (?h + ?l - ?n + k) =
          (if ?n - k \<le> ?l then d ! (?l - (?n - k)) else byte_back b (?n - k - ?l))"
      proof (cases "?n - k \<le> ?l")
        case True
        then have "?h + ?l - ?n + k - ?h = ?l - (?n - k)" "\<not> ?h + ?l - ?n + k < ?h"
          using k by (auto simp: min_def split: if_splits)
        then show ?thesis using True by (simp add: nth_append)
      next
        case False
        then have "?h + ?l - ?n + k < ?h" "?h - (?h + ?l - ?n + k) = ?n - k - ?l"
          using k by (auto simp: min_def split: if_splits)
        then show ?thesis using False by (simp add: nth_append window_nth)
      qed
      ultimately show "window (feed b d) ! k = last_n ?c (window b @ d) ! k" by simp
    qed
  qed
qed


text \<open>
  Reading: the offset is \<open>back_dist\<close> bytes before the write head, so the bytes read are the last
  \<open>back_dist\<close> bytes of the window, cut to the requested length.
\<close>

lemma in_range_iff:
  assumes "backlog_inv b"
  shows "is_offset_in_range b x \<longleftrightarrow>
    0 < bl_hist_len b \<and> unat x \<le> unat (bl_master_repl_offset b) \<and>
    unat (bl_master_repl_offset b) - unat x \<le> bl_hist_len b"
proof -
  have "bl_hist_len b < 2 ^ 64" using assms by (simp add: backlog_inv_def)
  then have "unat (of_nat (bl_hist_len b) :: u64) = bl_hist_len b"
    by (simp add: unsigned_of_nat take_bit_nat_eq_self)
  then show ?thesis
    by (auto simp: is_offset_in_range_def first_byte_offset_def Let_def word_le_nat_alt unat_saturating_sub)
qed

lemma ring_read:
  assumes inv: "backlog_inv b" and d: "0 < d" "d \<le> bl_hist_len b" and n: "n \<le> d"
  shows "(let r = (bl_write_idx b + bl_capacity b - d) mod bl_capacity b; s = bl_capacity b - r in
          if n \<le> s then take n (drop r (bl_buf b))
          else drop r (bl_buf b) @ take (n - s) (bl_buf b)) = take n (last_n d (window b))"
proof -
  let ?c = "bl_capacity b" and ?w = "bl_write_idx b"
  have c: "length (bl_buf b) = ?c" "?w < ?c" "bl_hist_len b \<le> ?c"
    using inv by (auto simp: backlog_inv_def)
  define r where "r = (?w + ?c - d) mod ?c"
  have r: "r = (if d \<le> ?w then ?w - d else ?w + ?c - d)"
    unfolding r_def using c d by (intro ring_mod_back) auto
  have rc: "r < ?c" using r c d by (auto split: if_splits)
  have ring: "(if n \<le> ?c - r then take n (drop r (bl_buf b))
      else drop r (bl_buf b) @ take (n - (?c - r)) (bl_buf b)) ! k = bl_buf b ! ((r + k) mod ?c)"
    if "k < n" for k
    using that rc c d n ring_mod [of r ?c k] by (auto simp: nth_append add.commute)
  have "(if n \<le> ?c - r then take n (drop r (bl_buf b))
      else drop r (bl_buf b) @ take (n - (?c - r)) (bl_buf b)) = take n (last_n d (window b))"
    (is "?lhs = _")
  proof (rule nth_equalityI)
    show "length ?lhs = length (take n (last_n d (window b)))" using c rc n d by auto
    fix k assume "k < length ?lhs"
    then have k: "k < n" using c rc n d by (auto split: if_splits)
    have "(?w + ?c - (d - k)) mod ?c = (if d - k \<le> ?w then ?w - (d - k) else ?w + ?c - (d - k))"
      using k n d c by (intro ring_mod_back) auto
    moreover have "(r + k) mod ?c = (if r + k < ?c then r + k else r + k - ?c)"
      using k n d c rc by (intro ring_mod) auto
    ultimately have "(r + k) mod ?c = (?w + ?c - (d - k)) mod ?c"
      using k n d c r rc by (auto split: if_splits)
    moreover have "take n (last_n d (window b)) ! k = byte_back b (d - k)"
      using k n d by (simp add: last_n_def window_nth)
    ultimately show "?lhs ! k = take n (last_n d (window b)) ! k"
      using ring [OF k] by (simp add: byte_back_def)
  qed
  then show ?thesis unfolding Let_def r_def .
qed

lemma read_bytes_window:
  assumes inv: "backlog_inv b"
  shows "read_bytes b x n =
    (if is_offset_in_range b x
     then take n (last_n (unat (bl_master_repl_offset b) - unat x) (window b)) else [])"
proof (cases "is_offset_in_range b x")
  case False
  then show ?thesis by (simp add: read_bytes_def slices_def)
next
  case True
  let ?d = "unat (bl_master_repl_offset b - x)"
  have le: "unat x \<le> unat (bl_master_repl_offset b)"
    and h: "unat (bl_master_repl_offset b) - unat x \<le> bl_hist_len b"
    using True in_range_iff [OF inv] by auto
  have d: "?d = unat (bl_master_repl_offset b) - unat x"
    using le by (simp add: unat_sub word_le_nat_alt)
  show ?thesis
  proof (cases "n = 0 \<or> ?d = 0")
    case z: True
    then have "slices b x n = ([], [])" using True by (auto simp: slices_def Let_def)
    with z True d show ?thesis by (auto simp: read_bytes_def last_n_def)
  next
    case nz: False
    have tk: "take (min n ?d) (last_n ?d (window b)) = take n (last_n ?d (window b))"
      by (cases "n \<le> ?d") (auto simp: min_def)
    have "read_bytes b x n =
      (let r = (bl_write_idx b + bl_capacity b - ?d) mod bl_capacity b; s = bl_capacity b - r in
       if min n ?d \<le> s then take (min n ?d) (drop r (bl_buf b))
       else drop r (bl_buf b) @ take (min n ?d - s) (bl_buf b))"
      using True nz by (auto simp: read_bytes_def slices_def Let_def)
    also have "\<dots> = take (min n ?d) (last_n ?d (window b))"
      using nz h d by (intro ring_read [OF inv]) auto
    finally show ?thesis using True d tk by simp
  qed
qed

section \<open>The interface of the backlog\<close>

text \<open>
  What a client of a bounded stream buffer relies on: appending extends the window and drops
  the oldest bytes beyond the capacity, the tail counts every byte, and a read inside the
  window returns the bytes that were appended at that offset.
\<close>

locale stream_window =
  fixes inv :: "'s \<Rightarrow> bool"
    and cap :: "'s \<Rightarrow> nat"
    and win :: "'s \<Rightarrow> bytes"
    and tail :: "'s \<Rightarrow> u64"
    and put :: "'s \<Rightarrow> bytes \<Rightarrow> 's"
    and rd :: "'s \<Rightarrow> u64 \<Rightarrow> nat \<Rightarrow> bytes"
  assumes win_cap: "inv s \<Longrightarrow> length (win s) \<le> cap s"
    and put_inv: "inv s \<Longrightarrow> inv (put s d)"
    and put_cap: "cap (put s d) = cap s"
    and put_win: "inv s \<Longrightarrow> win (put s d) = last_n (cap s) (win s @ d)"
    and put_tail: "tail (put s d) = tail s + of_nat (length d)"
    and rd_win: "inv s \<Longrightarrow> unat x \<le> unat (tail s) \<Longrightarrow> unat (tail s) - unat x \<le> length (win s) \<Longrightarrow>
      rd s x n = take n (last_n (unat (tail s) - unat x) (win s))"
begin

lemma put_all:
  assumes "inv s"
  shows "inv (foldl put s ds) \<and> cap (foldl put s ds) = cap s \<and>
    win (foldl put s ds) = last_n (cap s) (win s @ concat ds) \<and>
    tail (foldl put s ds) = tail s + of_nat (length (concat ds))"
  using assms
proof (induction ds arbitrary: s)
  case Nil
  then show ?case using win_cap by simp
next
  case (Cons d ds)
  from Cons.prems have "inv (put s d)" by (rule put_inv)
  from Cons.IH [OF this] show ?case
    using Cons.prems by (simp add: put_cap put_win put_tail last_n_append_absorb ac_simps)
qed

lemma tail_exact:
  assumes "inv s" "unat (tail s) + length (concat ds) < 2 ^ 64"
  shows "unat (tail (foldl put s ds)) = unat (tail s) + length (concat ds)"
proof -
  have "unat (tail s + of_nat (length (concat ds))) = unat (tail s) + length (concat ds)"
    using assms(2) unat_of_nat_64 [of "length (concat ds)"] by (subst unat_add_lem [THEN iffD1]) auto
  then show ?thesis using put_all [OF assms(1), of ds] by simp
qed

lemma rd_stream:
  assumes inv: "inv s" and fit: "unat (tail s) + length (concat ds) < 2 ^ 64"
    and p: "p \<le> length (concat ds)" "length (concat ds) - p \<le> cap s"
  shows "rd (foldl put s ds) (tail s + of_nat p) n = take n (drop p (concat ds))"
proof -
  let ?S = "concat ds" and ?t = "foldl put s ds"
  have x: "unat (tail s + of_nat p) = unat (tail s) + p"
    using fit p unat_of_nat_64 [of p] by (subst unat_add_lem [THEN iffD1]) auto
  have t: "unat (tail ?t) = unat (tail s) + length ?S" by (rule tail_exact [OF inv fit])
  have w: "win ?t = last_n (cap s) (win s @ ?S)" "inv ?t" using put_all [OF inv] by auto
  have "rd ?t (tail s + of_nat p) n = take n (last_n (length ?S - p) (win ?t))"
    using rd_win [OF w(2), of "tail s + of_nat p" n] t x p w(1) by simp
  also have "last_n (length ?S - p) (win ?t) = drop p ?S"
    using p by (simp add: w(1) last_n_last_n last_n_suffix)
  finally show ?thesis .
qed

end

interpretation ring: stream_window backlog_inv bl_capacity window bl_master_repl_offset feed read_bytes
proof
  fix s n and x :: u64
  assume "backlog_inv s" "unat x \<le> unat (bl_master_repl_offset s)"
    "unat (bl_master_repl_offset s) - unat x \<le> length (window s)"
  then show "read_bytes s x n = take n (last_n (unat (bl_master_repl_offset s) - unat x) (window s))"
    using in_range_iff [of s x] by (auto simp: read_bytes_window last_n_def window_empty)
qed (simp_all add: feed_inv feed_window hist_len_le)

text \<open>
  C7: The ring buffer refines the replication stream.  Start a backlog at any offset and append
  any chunks; as long as the offset does not overflow, an offset \<open>p\<close> bytes into the appended
  stream is in range exactly when something was appended and at most \<open>capacity\<close> bytes follow it,
  and a read from there returns the bytes of the stream at that position, whatever the chunk
  boundaries and however often the ring has wrapped; a read out of range returns nothing.
\<close>

theorem backlog_serves_stream:
  assumes b_def: "b = foldl feed (set_master_offset (backlog_new capacity) base) chunks"
    and S_def: "S = concat chunks"
    and "capacity < 2 ^ 63" and "unat base + length S < 2 ^ 64" and "p \<le> length S"
  shows "(is_offset_in_range b (base + of_nat p) \<longleftrightarrow> S \<noteq> [] \<and> length S - p \<le> max capacity 1024) \<and>
    read_bytes b (base + of_nat p) n =
      (if S \<noteq> [] \<and> length S - p \<le> max capacity 1024 then take n (drop p S) else [])"
proof -
  let ?b0 = "set_master_offset (backlog_new capacity) base"
  have inv0: "backlog_inv ?b0" using assms(3) by simp
  have b: "backlog_inv b" "window b = last_n (max capacity 1024) S"
    using ring.put_all [OF inv0, of chunks] by (simp_all add: b_def S_def)
  have t: "unat (bl_master_repl_offset b) = unat base + length S"
    using ring.tail_exact [OF inv0, of chunks] assms(4) by (simp add: b_def S_def)
  have x: "unat (base + of_nat p) = unat base + p"
    using assms(4,5) unat_of_nat_64 [of p] by (subst unat_add_lem [THEN iffD1]) auto
  have "bl_hist_len b = min (max capacity 1024) (length S)" using arg_cong [OF b(2), of length] by simp
  then have range: "is_offset_in_range b (base + of_nat p) \<longleftrightarrow> S \<noteq> [] \<and> length S - p \<le> max capacity 1024"
    using assms(5) by (auto simp: in_range_iff [OF b(1)] t x)
  moreover have "read_bytes b (base + of_nat p) n = take n (drop p S)" if "length S - p \<le> max capacity 1024"
    using ring.rd_stream [OF inv0, of chunks p n] that assms(4,5) by (simp add: b_def S_def)
  moreover have "read_bytes b (base + of_nat p) n = []" if "\<not> is_offset_in_range b (base + of_nat p)"
    using that by (simp add: read_bytes_window [OF b(1)])
  ultimately show ?thesis by auto
qed

theorem backlog_serves_stream_witness:
  "read_bytes (foldl feed (set_master_offset (backlog_new 16) 500) [replicate 1023 7, [1, 2, 3]]) 1521 10 = [7, 7, 1, 2, 3] \<and>
   \<not> is_offset_in_range (foldl feed (set_master_offset (backlog_new 16) 500) [replicate 1023 7, [1, 2, 3]]) 501"
proof -
  let ?cs = "[replicate 1023 7, [1, 2, 3]] :: bytes list"
  have two: "replicate 2 (7 :: u8) = [7, 7]" by (simp add: numeral_2_eq_2)
  have "read_bytes (foldl feed (set_master_offset (backlog_new 16) 500) ?cs) (500 + of_nat 1021) 10 = [7, 7, 1, 2, 3]"
    using backlog_serves_stream [OF refl refl, of 16 500 ?cs 1021 10] two by simp
  moreover have "\<not> is_offset_in_range (foldl feed (set_master_offset (backlog_new 16) 500) ?cs) (500 + of_nat 1)"
    using backlog_serves_stream [OF refl refl, of 16 500 ?cs 1 10] by simp
  ultimately show ?thesis by simp
qed

end
