(* ===== verification/Repl_Manager.thy ===== *)
theory Repl_Manager
  imports Repl_History Repl_Backlog "HOL-Library.AList" "HOL-Library.Sublist"
begin

text \<open>
  The replication manager of \<open>wedb_repl/src/manager.rs\<close> with the session table of \<open>sync.rs\<close>: role
  and recovery state machine, double-id history, backlog, acknowledged offsets.  The locks of
  the manager make every operation atomic, so an operation is a function on the state.  The
  concurrent session map is an association list whose order stands for the unspecified
  iteration order; clock readings and random bytes are arguments.

  The second half runs several managers against each other and shows that incremental
  synchronisation never lets a replica diverge.
\<close>

section \<open>Replica sessions\<close>

record ReplicaSessionInfo =
  rs_node_id :: string
  rs_listening_port :: u16
  rs_ip_address :: string
  rs_ack_offset :: u64
  rs_last_ack_timestamp_ms :: u64
  rs_is_diskless_syncing :: bool

definition session_info_new :: "u64 \<Rightarrow> string \<Rightarrow> u16 \<Rightarrow> string \<Rightarrow> ReplicaSessionInfo" where
  "session_info_new now node_id listening_port ip_address =
     \<lparr> rs_node_id = node_id, rs_listening_port = listening_port, rs_ip_address = ip_address,
       rs_ack_offset = 0, rs_last_ack_timestamp_ms = now, rs_is_diskless_syncing = False \<rparr>"

definition update_ack :: "u64 \<Rightarrow> ReplicaSessionInfo \<Rightarrow> u64 \<Rightarrow> ReplicaSessionInfo" where
  "update_ack now r offset =
     r\<lparr> rs_ack_offset := max (rs_ack_offset r) offset, rs_last_ack_timestamp_ms := now \<rparr>"

definition lag :: "ReplicaSessionInfo \<Rightarrow> u64 \<Rightarrow> u64" where
  "lag r current_tail = saturating_sub current_tail (rs_ack_offset r)"

definition is_timed_out :: "u64 \<Rightarrow> ReplicaSessionInfo \<Rightarrow> u64 \<Rightarrow> bool" where
  "is_timed_out now r timeout_ms \<longleftrightarrow> saturating_sub now (rs_last_ack_timestamp_ms r) > timeout_ms"

type_synonym Sessions = "(string \<times> ReplicaSessionInfo) list"

definition add_session :: "Sessions \<Rightarrow> ReplicaSessionInfo \<Rightarrow> Sessions" where
  "add_session ss session = AList.update (rs_node_id session) session ss"

definition sync_register_replica ::
  "u64 \<Rightarrow> Sessions \<Rightarrow> string \<Rightarrow> u16 \<Rightarrow> string \<Rightarrow> Sessions \<times> ReplicaSessionInfo" where
  "sync_register_replica now ss node_id port ip =
     (let session = session_info_new now node_id port ip in (AList.update node_id session ss, session))"

definition remove_replica :: "Sessions \<Rightarrow> string \<Rightarrow> Sessions \<times> ReplicaSessionInfo option" where
  "remove_replica ss node_id = (AList.delete node_id ss, map_of ss node_id)"

definition find_timed_out_replicas :: "u64 \<Rightarrow> Sessions \<Rightarrow> u64 \<Rightarrow> string list" where
  "find_timed_out_replicas now ss timeout_ms =
     map fst (filter (\<lambda>(_, r). is_timed_out now r timeout_ms) ss)"

definition sync_evict_timed_out :: "u64 \<Rightarrow> Sessions \<Rightarrow> u64 \<Rightarrow> Sessions \<times> string list" where
  "sync_evict_timed_out now ss timeout_ms =
     (filter (\<lambda>(_, r). \<not> is_timed_out now r timeout_ms) ss,
      map fst (filter (\<lambda>(_, r). is_timed_out now r timeout_ms) ss))"

definition clear_sessions :: "Sessions \<Rightarrow> Sessions \<times> nat" where
  "clear_sessions ss = ([], length ss)"

definition min_ack_offset :: "Sessions \<Rightarrow> u64 \<Rightarrow> u64" where
  "min_ack_offset ss default_val =
     (case map (\<lambda>(_, r). rs_ack_offset r) ss of [] \<Rightarrow> default_val | a # as \<Rightarrow> foldl min a as)"

section \<open>The manager\<close>

record ReplicationManager =
  rm_role :: ReplRole
  rm_history :: ReplicationHistory
  rm_recovery_status :: RecoveryStatus
  rm_sessions :: Sessions
  rm_backlog :: ReplicationBacklog
  rm_min_served_offset :: u64
  rm_last_primary_sync_time_secs :: u64

definition rm_with_history :: "ReplRole \<Rightarrow> ReplicationHistory \<Rightarrow> ReplicationManager" where
  "rm_with_history initial_role hist =
     (let backlog = set_master_offset (backlog_new DEFAULT_BACKLOG_SIZE) (replication_offset hist) in
      \<lparr> rm_role = initial_role, rm_history = hist, rm_recovery_status = NoRecovery, rm_sessions = [],
        rm_backlog = backlog, rm_min_served_offset = - 1, rm_last_primary_sync_time_secs = 0 \<rparr>)"

definition rm_new :: "bytes \<Rightarrow> ReplRole \<Rightarrow> u64 \<Rightarrow> ReplicationManager" where
  "rm_new rand initial_role initial_offset = rm_with_history initial_role (history_new rand initial_offset)"

subsection \<open>Recovery state machine\<close>

definition begin_recovery :: "ReplicationManager \<Rightarrow> RecoveryStatus \<Rightarrow> ReplicationManager \<times> (ReplError + unit)" where
  "begin_recovery m status =
     (let current = rm_recovery_status m in
      if is_recovering current \<and> current \<noteq> status then (m, Inl (InvalidStateTransition current status))
      else (m\<lparr> rm_recovery_status := status \<rparr>, Inr ()))"

definition end_recovery :: "ReplicationManager \<Rightarrow> RecoveryStatus \<Rightarrow> ReplicationManager \<times> (ReplError + unit)" where
  "end_recovery m status =
     (let current = rm_recovery_status m in
      if current \<noteq> status then (m, Inl (InvalidStateTransition current NoRecovery))
      else (m\<lparr> rm_recovery_status := NoRecovery \<rparr>, Inr ()))"

definition reset_recovery :: "ReplicationManager \<Rightarrow> ReplicationManager" where
  "reset_recovery m = m\<lparr> rm_recovery_status := NoRecovery \<rparr>"

definition checkpoint_version_shift_start :: "ReplicationManager \<Rightarrow> ReplicationManager" where
  "checkpoint_version_shift_start m =
     (if \<not> role_is_primary (rm_role m) then m else m\<lparr> rm_recovery_status := ReadRole \<rparr>)"

definition checkpoint_version_shift_end :: "ReplicationManager \<Rightarrow> ReplicationManager" where
  "checkpoint_version_shift_end m =
     (if \<not> role_is_primary (rm_role m) then m else m\<lparr> rm_recovery_status := NoRecovery \<rparr>)"

subsection \<open>Roles\<close>

definition rotate_and_promote :: "bytes \<Rightarrow> ReplicationManager \<Rightarrow> u64 \<Rightarrow> ReplicationManager \<times> ReplId" where
  "rotate_and_promote rand m current_tail =
     (let hist = failover_update rand (rm_history m) current_tail;
          new_id = primary_replid hist
      in (m\<lparr> rm_history := hist, rm_backlog := set_master_offset (rm_backlog m) current_tail,
             rm_recovery_status := NoRecovery, rm_role := RolePrimary \<rparr>, new_id))"

definition failover_to_primary :: "bytes \<Rightarrow> ReplicationManager \<Rightarrow> u64 \<Rightarrow> ReplicationManager \<times> ReplId" where
  "failover_to_primary rand m current_tail = rotate_and_promote rand m current_tail"

definition replica_of_no_one :: "bytes \<Rightarrow> ReplicationManager \<Rightarrow> u64 \<Rightarrow> ReplicationManager \<times> ReplId" where
  "replica_of_no_one rand m current_tail = rotate_and_promote rand m current_tail"

definition demote_to_replica :: "ReplicationManager \<Rightarrow> ReplicationManager" where
  "demote_to_replica m =
     m\<lparr> rm_sessions := fst (clear_sessions (rm_sessions m)), rm_recovery_status := NoRecovery,
        rm_role := RoleReplica \<rparr>"

definition try_update_my_primary_repl_id :: "ReplicationManager \<Rightarrow> ReplId \<Rightarrow> ReplicationManager" where
  "try_update_my_primary_repl_id m new_id = m\<lparr> rm_history := update_primary_replid (rm_history m) new_id \<rparr>"

definition adopt_primary_identity :: "ReplicationManager \<Rightarrow> ReplId \<Rightarrow> u64 \<Rightarrow> ReplicationManager" where
  "adopt_primary_identity m replid offset =
     (let hist = set_offset (update_primary_replid (rm_history m) replid) offset;
          backlog = backlog_clear (set_master_offset (rm_backlog m) offset)
      in m\<lparr> rm_history := hist, rm_backlog := backlog \<rparr>)"

subsection \<open>Synchronisation requests\<close>

definition evaluate_psync ::
  "ReplicationManager \<Rightarrow> u64 \<Rightarrow> u64 \<Rightarrow> ReplId \<Rightarrow> int \<Rightarrow> ReplError + SyncDecision" where
  "evaluate_psync m wal_begin wal_tail req_replid req_offset =
     (if \<not> role_is_primary (rm_role m) then Inl (NotPrimary (rm_role m))
      else Inr (decide_sync (rm_history m) wal_begin wal_tail req_replid req_offset))"

definition handle_psync ::
  "ReplicationManager \<Rightarrow> bytes \<Rightarrow> int \<Rightarrow> u64 \<Rightarrow> u64 \<Rightarrow> ReplError + SyncDecision" where
  "handle_psync m req_replid req_offset wal_begin wal_tail =
     (case ReplId_from_str_val req_replid of
        Inl e \<Rightarrow> Inl e
      | Inr replid \<Rightarrow> evaluate_psync m wal_begin wal_tail replid req_offset)"

text \<open>The request a replica sends (\<open>connect_and_handshake\<close> of \<open>client.rs\<close>).\<close>

definition psync_request :: "ReplicationManager \<Rightarrow> ReplId \<times> int" where
  "psync_request m =
     (if ReplId_is_empty (primary_replid (rm_history m)) then (ReplId_question_mark, - 1)
      else (primary_replid (rm_history m), sint (replication_offset (rm_history m))))"

subsection \<open>Stream and offsets\<close>

definition append_stream :: "ReplicationManager \<Rightarrow> bytes \<Rightarrow> ReplicationManager \<times> u64" where
  "append_stream m data =
     (let backlog = feed (rm_backlog m) data;
          new_tail = bl_master_repl_offset backlog
      in (m\<lparr> rm_backlog := backlog, rm_history := set_offset (rm_history m) new_tail \<rparr>, new_tail))"

definition set_replication_offset :: "ReplicationManager \<Rightarrow> u64 \<Rightarrow> ReplicationManager" where
  "set_replication_offset m offset =
     m\<lparr> rm_backlog := set_master_offset (rm_backlog m) offset,
        rm_history := set_offset (rm_history m) offset \<rparr>"

definition read_backlog :: "ReplicationManager \<Rightarrow> u64 \<Rightarrow> nat \<Rightarrow> bytes" where
  "read_backlog m offset max_bytes = read_bytes (rm_backlog m) offset max_bytes"

definition backlog_offsets :: "ReplicationManager \<Rightarrow> u64 \<times> u64" where
  "backlog_offsets m = (first_byte_offset (rm_backlog m), bl_master_repl_offset (rm_backlog m))"

definition pin_min_served_offset :: "ReplicationManager \<Rightarrow> u64 \<Rightarrow> ReplicationManager" where
  "pin_min_served_offset m offset = m\<lparr> rm_min_served_offset := min (rm_min_served_offset m) offset \<rparr>"

definition unpin_min_served_offset :: "ReplicationManager \<Rightarrow> ReplicationManager" where
  "unpin_min_served_offset m = m\<lparr> rm_min_served_offset := - 1 \<rparr>"

definition get_current_safe_aof_address :: "ReplicationManager \<Rightarrow> u64" where
  "get_current_safe_aof_address m =
     (let pinned = rm_min_served_offset m; min_ack = min_ack_offset (rm_sessions m) (- 1)
      in min pinned min_ack)"

definition set_safe_aof_address :: "ReplicationManager \<Rightarrow> u64 \<Rightarrow> ReplicationManager" where
  "set_safe_aof_address m addr = pin_min_served_offset m addr"

definition update_last_primary_sync_time :: "u64 \<Rightarrow> ReplicationManager \<Rightarrow> ReplicationManager" where
  "update_last_primary_sync_time now m = m\<lparr> rm_last_primary_sync_time_secs := now \<rparr>"

definition get_last_primary_sync_seconds :: "u64 \<Rightarrow> ReplicationManager \<Rightarrow> u64" where
  "get_last_primary_sync_seconds now m =
     (let last = rm_last_primary_sync_time_secs m in
      if last = 0 then 0 else saturating_sub now last)"

subsection \<open>Sessions of the manager\<close>

definition register_replica ::
  "u64 \<Rightarrow> ReplicationManager \<Rightarrow> string \<Rightarrow> u16 \<Rightarrow> string \<Rightarrow> ReplicationManager \<times> ReplicaSessionInfo" where
  "register_replica now m node_id port ip =
     (let (ss, s) = sync_register_replica now (rm_sessions m) node_id port ip
      in (m\<lparr> rm_sessions := ss \<rparr>, s))"

definition get_replica :: "ReplicationManager \<Rightarrow> string \<Rightarrow> ReplicaSessionInfo option" where
  "get_replica m node_id = map_of (rm_sessions m) node_id"

definition update_replica_ack :: "u64 \<Rightarrow> ReplicationManager \<Rightarrow> string \<Rightarrow> u64 \<Rightarrow> ReplicationManager" where
  "update_replica_ack now m node_id ack_offset =
     (case get_replica m node_id of
        Some replica \<Rightarrow> m\<lparr> rm_sessions := AList.update node_id (update_ack now replica ack_offset) (rm_sessions m) \<rparr>
      | None \<Rightarrow> m)"

definition get_replica_lag :: "ReplicationManager \<Rightarrow> string \<Rightarrow> u64 \<Rightarrow> u64 option" where
  "get_replica_lag m node_id current_tail = map_option (\<lambda>rep. lag rep current_tail) (get_replica m node_id)"

definition evict_timed_out_replicas :: "u64 \<Rightarrow> ReplicationManager \<Rightarrow> u64 \<Rightarrow> ReplicationManager \<times> string list" where
  "evict_timed_out_replicas now m timeout_ms =
     (let (ss, evicted) = sync_evict_timed_out now (rm_sessions m) timeout_ms
      in (m\<lparr> rm_sessions := ss \<rparr>, evicted))"

definition load_history :: "ReplicationManager \<Rightarrow> HistoryFiles \<Rightarrow> ReplicationManager \<times> HistoryFiles \<times> (ReplError + unit)" where
  "load_history m fs =
     (case load_from_file fs of
        (fs', Inr hist) \<Rightarrow> (m\<lparr> rm_history := hist \<rparr>, fs', Inr ())
      | (fs', Inl e) \<Rightarrow> (m, fs', Inl e))"

definition save_history :: "ReplicationManager \<Rightarrow> HistoryFiles \<Rightarrow> HistoryFiles" where
  "save_history m fs = save_to_file (rm_history m) fs"

section \<open>Nodes replicating from each other\<close>

text \<open>
  Several nodes, each with its manager and its log, and what has been published under each
  replication id.  A primary writes and publishes; a node is promoted under a fresh id or
  demoted; a replica asks a node for synchronisation and follows the answer; a replica replays
  the next bytes of the log of the primary it follows and moves its offset along.  The log of a
  node holds the stream from offset \<open>0\<close>, and the bounds of the log a primary checks a request
  against are its own (the begin address is arbitrary).
\<close>

record 'n ReplCluster =
  rc_mgr :: "'n \<Rightarrow> ReplicationManager"
  rc_log :: "'n \<Rightarrow> bytes"
  rc_pub :: "ReplId \<Rightarrow> bytes option"

abbreviation replid_of :: "'n ReplCluster \<Rightarrow> 'n \<Rightarrow> ReplId" where
  "replid_of c n \<equiv> primary_replid (rm_history (rc_mgr c n))"

abbreviation tail_of :: "'n ReplCluster \<Rightarrow> 'n \<Rightarrow> u64" where
  "tail_of c n \<equiv> of_nat (length (rc_log c n))"

definition repl_init :: "'n ReplCluster \<Rightarrow> bool" where
  "repl_init c \<longleftrightarrow> (\<exists>rand role.
     inj (\<lambda>n. ReplId_generate (rand n)) \<and>
     rc_mgr c = (\<lambda>n. rm_new (rand n) (role n) 0) \<and> rc_log c = (\<lambda>n. []) \<and>
     rc_pub c = (\<lambda>i. if i \<in> range (\<lambda>n. ReplId_generate (rand n)) then Some [] else None))"

inductive repl_step :: "'n ReplCluster \<Rightarrow> 'n ReplCluster \<Rightarrow> bool" where
  primary_write: "rm_role (rc_mgr c n) = RolePrimary \<Longrightarrow> length (rc_log c n) + length d < 2 ^ 63 \<Longrightarrow>
    repl_step c (c\<lparr> rc_mgr := (rc_mgr c)(n := fst (append_stream (rc_mgr c n) d)),
      rc_log := (rc_log c)(n := rc_log c n @ d), rc_pub := (rc_pub c)(replid_of c n \<mapsto> rc_log c n @ d) \<rparr>)"
| node_promote: "rc_pub c (ReplId_generate rand) = None \<Longrightarrow>
    repl_step c (c\<lparr> rc_mgr := (rc_mgr c)(n := fst (rotate_and_promote rand (rc_mgr c n) (tail_of c n))),
      rc_pub := (rc_pub c)(ReplId_generate rand \<mapsto> rc_log c n) \<rparr>)"
| node_demote: "repl_step c (c\<lparr> rc_mgr := (rc_mgr c)(n := demote_to_replica (rc_mgr c n)) \<rparr>)"
| replica_continue: "rm_role (rc_mgr c r) = RoleReplica \<Longrightarrow> psync_request (rc_mgr c r) = (rid, off) \<Longrightarrow>
    evaluate_psync (rc_mgr c p) wal_begin (tail_of c p) rid off = Inr (PartialResync new s) \<Longrightarrow>
    repl_step c (c\<lparr> rc_mgr := (rc_mgr c)(r := if ReplId_is_empty new then rc_mgr c r
      else try_update_my_primary_repl_id (rc_mgr c r) new) \<rparr>)"
| replica_fullresync: "rm_role (rc_mgr c r) = RoleReplica \<Longrightarrow> psync_request (rc_mgr c r) = (rid, off) \<Longrightarrow>
    evaluate_psync (rc_mgr c p) wal_begin (tail_of c p) rid off = Inr (FullResync new s) \<Longrightarrow>
    repl_step c (c\<lparr> rc_mgr := (rc_mgr c)(r := adopt_primary_identity (rc_mgr c r) new s),
      rc_log := (rc_log c)(r := take (unat s) (rc_log c p)) \<rparr>)"
| replica_replay: "rm_role (rc_mgr c r) = RoleReplica \<Longrightarrow> rm_role (rc_mgr c p) = RolePrimary \<Longrightarrow>
    replid_of c r = replid_of c p \<Longrightarrow> l = rc_log c r @ take k (drop (length (rc_log c r)) (rc_log c p)) \<Longrightarrow>
    repl_step c (c\<lparr> rc_mgr := (rc_mgr c)(r := set_replication_offset (rc_mgr c r) (of_nat (length l))),
      rc_log := (rc_log c)(r := l) \<rparr>)"

text \<open>
  The invariant, node by node: offsets are aligned with the log; the log is a prefix of what was
  published under the node's id, all of it on a primary; and a primary agrees with the stream of
  its previous id up to the recorded cut.
\<close>

definition aligned :: "ReplicationManager \<Rightarrow> bytes \<Rightarrow> bool" where
  "aligned m l \<longleftrightarrow> length l < 2 ^ 63 \<and> replication_offset (rm_history m) = of_nat (length l) \<and>
     bl_master_repl_offset (rm_backlog m) = of_nat (length l)"

definition follows :: "(ReplId \<Rightarrow> bytes option) \<Rightarrow> ReplicationManager \<Rightarrow> bytes \<Rightarrow> bool" where
  "follows pub m l \<longleftrightarrow> (\<exists>s. pub (primary_replid (rm_history m)) = Some s \<and> prefix l s \<and>
     (rm_role m = RolePrimary \<longrightarrow> s = l))"

definition agrees_before :: "(ReplId \<Rightarrow> bytes option) \<Rightarrow> ReplicationManager \<Rightarrow> bytes \<Rightarrow> bool" where
  "agrees_before pub m l \<longleftrightarrow>
     (rm_role m = RolePrimary \<and> \<not> ReplId_is_empty (primary_replid2 (rm_history m)) \<longrightarrow>
      (\<exists>s. pub (primary_replid2 (rm_history m)) = Some s \<and>
         unat (replication_offset2 (rm_history m)) \<le> length s \<and>
         prefix (take (unat (replication_offset2 (rm_history m))) s) l))"

definition repl_inv :: "'n ReplCluster \<Rightarrow> bool" where
  "repl_inv c \<longleftrightarrow>
     (\<forall>n. aligned (rc_mgr c n) (rc_log c n) \<and> follows (rc_pub c) (rc_mgr c n) (rc_log c n) \<and>
          agrees_before (rc_pub c) (rc_mgr c n) (rc_log c n)) \<and>
     (\<forall>n m. rm_role (rc_mgr c n) = RolePrimary \<longrightarrow> rm_role (rc_mgr c m) = RolePrimary \<longrightarrow>
        replid_of c n = replid_of c m \<longrightarrow> n = m)"

lemma repl_invD:
  assumes "repl_inv c"
  shows "aligned (rc_mgr c n) (rc_log c n)" "follows (rc_pub c) (rc_mgr c n) (rc_log c n)"
    "agrees_before (rc_pub c) (rc_mgr c n) (rc_log c n)"
    "rm_role (rc_mgr c n) = RolePrimary \<Longrightarrow> rm_role (rc_mgr c m) = RolePrimary \<Longrightarrow>
       replid_of c n = replid_of c m \<Longrightarrow> n = m"
  using assms by (auto simp: repl_inv_def)

text \<open>
  One node changes and the published streams only grow: what has to be shown.
\<close>

lemma repl_inv_update:
  assumes inv: "repl_inv c"
    and node: "aligned m' l'" "follows pub' m' l'" "agrees_before pub' m' l'"
    and others: "\<And>m. m \<noteq> n \<Longrightarrow> follows pub' (rc_mgr c m) (rc_log c m)"
    and grow: "\<And>i s. rc_pub c i = Some s \<Longrightarrow> \<exists>t. pub' i = Some (s @ t)"
    and role: "rm_role m' = RolePrimary \<Longrightarrow>
       (rm_role (rc_mgr c n) = RolePrimary \<and> primary_replid (rm_history m') = replid_of c n) \<or>
       (\<forall>m. primary_replid (rm_history m') \<noteq> replid_of c m)"
  shows "repl_inv (c\<lparr> rc_mgr := (rc_mgr c)(n := m'), rc_log := (rc_log c)(n := l'), rc_pub := pub' \<rparr>)"
proof -
  have agr: "agrees_before pub' (rc_mgr c m) (rc_log c m)" for m
    unfolding agrees_before_def
  proof
    assume "rm_role (rc_mgr c m) = RolePrimary \<and> \<not> ReplId_is_empty (primary_replid2 (rm_history (rc_mgr c m)))"
    then obtain s where s: "rc_pub c (primary_replid2 (rm_history (rc_mgr c m))) = Some s"
      "unat (replication_offset2 (rm_history (rc_mgr c m))) \<le> length s"
      "prefix (take (unat (replication_offset2 (rm_history (rc_mgr c m)))) s) (rc_log c m)"
      using repl_invD(3) [OF inv, of m] by (auto simp: agrees_before_def)
    from grow [OF s(1)] obtain t where "pub' (primary_replid2 (rm_history (rc_mgr c m))) = Some (s @ t)" by blast
    with s(2,3) show "\<exists>s. pub' (primary_replid2 (rm_history (rc_mgr c m))) = Some s \<and>
        unat (replication_offset2 (rm_history (rc_mgr c m))) \<le> length s \<and>
        prefix (take (unat (replication_offset2 (rm_history (rc_mgr c m)))) s) (rc_log c m)"
      by simp
  qed
  have one: "m = n" if "rm_role m' = RolePrimary" "rm_role (rc_mgr c m) = RolePrimary"
    "primary_replid (rm_history m') = replid_of c m" for m
    using role [OF that(1)] repl_invD(4) [OF inv, of m n] that by auto
  have uniq: "a = b" if "rm_role (((rc_mgr c)(n := m')) a) = RolePrimary"
      "rm_role (((rc_mgr c)(n := m')) b) = RolePrimary"
      "primary_replid (rm_history (((rc_mgr c)(n := m')) a)) = primary_replid (rm_history (((rc_mgr c)(n := m')) b))" for a b
  proof (cases "a = n"; cases "b = n")
    assume "a \<noteq> n" "b \<noteq> n"
    then show ?thesis using that repl_invD(4) [OF inv, of a b] by simp
  next
    assume "a = n" "b \<noteq> n"
    then show ?thesis using that one [of b] by simp
  next
    assume "a \<noteq> n" "b = n"
    then show ?thesis using that one [of a] by simp
  qed simp
  show ?thesis
    unfolding repl_inv_def
  proof (intro conjI allI impI)
    fix a
    show "aligned (rc_mgr (c\<lparr> rc_mgr := (rc_mgr c)(n := m'), rc_log := (rc_log c)(n := l'), rc_pub := pub' \<rparr>) a)
      (rc_log (c\<lparr> rc_mgr := (rc_mgr c)(n := m'), rc_log := (rc_log c)(n := l'), rc_pub := pub' \<rparr>) a)"
      using node(1) repl_invD(1) [OF inv, of a] by simp
  qed (use node others agr in \<open>simp_all\<close>, rule uniq, simp_all)
qed

lemma psync_sound:
  assumes inv: "repl_inv c" and req: "psync_request (rc_mgr c r) = (rid, off)"
    and grant: "evaluate_psync (rc_mgr c p) wal_begin (tail_of c p) rid off = Inr (PartialResync new s)"
  shows "rm_role (rc_mgr c p) = RolePrimary" and "new = replid_of c p"
    and "unat s = length (rc_log c r)" and "prefix (rc_log c r) (rc_log c p)"
proof -
  let ?h = "rm_history (rc_mgr c p)"
  have al: "length (rc_log c r) < 2 ^ 63" "replication_offset (rm_history (rc_mgr c r)) = tail_of c r"
    using repl_invD(1) [OF inv, of r] by (auto simp: aligned_def)
  show P: "rm_role (rc_mgr c p) = RolePrimary"
    using grant by (auto simp: evaluate_psync_def role_is_primary_def split: if_splits)
  have d: "decide_sync ?h wal_begin (tail_of c p) rid off = PartialResync new s"
    using grant by (auto simp: evaluate_psync_def split: if_splits)
  then have nonneg: "0 \<le> off" and new: "new = primary_replid ?h" and s: "s = word_of_int off"
    and le: "\<not> tail_of c p < s"
    and m: "rid = primary_replid ?h \<or> \<not> ReplId_is_empty (primary_replid2 ?h) \<and> rid = primary_replid2 ?h \<and>
       s \<le> replication_offset2 ?h"
    by (auto simp: decide_sync_def Let_def split: if_splits)
  show "new = replid_of c p" by (rule new)
  from req nonneg have rid: "rid = replid_of c r" and off: "off = sint (tail_of c r)"
    using al by (auto simp: psync_request_def split: if_splits)
  have "s = tail_of c r" unfolding s off by simp
  then show us: "unat s = length (rc_log c r)"
    using al(1) by (simp add: unsigned_of_nat take_bit_nat_eq_self)
  obtain t where t: "rc_pub c rid = Some t" "prefix (rc_log c r) t"
    using repl_invD(2) [OF inv, of r] rid by (auto simp: follows_def)
  from m show "prefix (rc_log c r) (rc_log c p)"
  proof
    assume "rid = primary_replid ?h"
    then show ?thesis using repl_invD(2) [OF inv, of p] P t by (auto simp: follows_def)
  next
    assume a: "\<not> ReplId_is_empty (primary_replid2 ?h) \<and> rid = primary_replid2 ?h \<and> s \<le> replication_offset2 ?h"
    then have "prefix (take (unat (replication_offset2 ?h)) t) (rc_log c p)"
      using repl_invD(3) [OF inv, of p] P t by (auto simp: agrees_before_def)
    moreover have "prefix (rc_log c r) (take (unat (replication_offset2 ?h)) t)"
      using a us t(2) by (auto simp: prefix_def word_le_nat_alt)
    ultimately show ?thesis by (rule prefix_order.order_trans [rotated])
  qed
qed

lemma follows_mono:
  assumes "follows pub m l" and "\<And>s. pub (primary_replid (rm_history m)) = Some s \<Longrightarrow>
    \<exists>t. pub' (primary_replid (rm_history m)) = Some (s @ t) \<and> (rm_role m = RolePrimary \<longrightarrow> t = [])"
  shows "follows pub' m l"
  using assms by (fastforce simp: follows_def)

lemmas repl_ops = append_stream_def rotate_and_promote_def demote_to_replica_def
  try_update_my_primary_repl_id_def adopt_primary_identity_def set_replication_offset_def
  failover_update_def update_primary_replid_def set_offset_def

lemma repl_step_inv:
  assumes step: "repl_step c c'" and inv: "repl_inv c"
  shows "repl_inv c'"
  using step
proof cases
  case (primary_write n d)
  have al: "aligned (rc_mgr c n) (rc_log c n)" and pub: "rc_pub c (replid_of c n) = Some (rc_log c n)"
    using repl_invD(1,2) [OF inv, of n] primary_write(2) by (auto simp: follows_def)
  have grow: "\<exists>t. ((rc_pub c)(replid_of c n \<mapsto> rc_log c n @ d)) i = Some (s @ t)" if "rc_pub c i = Some s" for i s
    using that pub by auto
  let ?m' = "fst (append_stream (rc_mgr c n) d)"
  have same: "rm_role ?m' = RolePrimary" "primary_replid (rm_history ?m') = replid_of c n"
    using primary_write(2) by (simp_all add: repl_ops Let_def)
  have "repl_inv (c\<lparr> rc_mgr := (rc_mgr c)(n := ?m'), rc_log := (rc_log c)(n := rc_log c n @ d),
      rc_pub := (rc_pub c)(replid_of c n \<mapsto> rc_log c n @ d) \<rparr>)"
  proof (rule repl_inv_update [OF inv _ _ _ _ grow])
    show "aligned ?m' (rc_log c n @ d)" using al primary_write(3) by (simp add: aligned_def repl_ops Let_def)
    show "follows ((rc_pub c)(replid_of c n \<mapsto> rc_log c n @ d)) ?m' (rc_log c n @ d)"
      using same by (simp add: follows_def)
    have "agrees_before (rc_pub c) (rc_mgr c n) (rc_log c n)" by (rule repl_invD(3) [OF inv])
    then show "agrees_before ((rc_pub c)(replid_of c n \<mapsto> rc_log c n @ d)) ?m' (rc_log c n @ d)"
      using pub primary_write(2) by (auto simp: agrees_before_def repl_ops Let_def)
    show "follows ((rc_pub c)(replid_of c n \<mapsto> rc_log c n @ d)) (rc_mgr c m) (rc_log c m)" if "m \<noteq> n" for m
      using repl_invD(2) [OF inv, of m] repl_invD(4) [OF inv, of m n] primary_write(2) that pub
      by (auto simp: follows_def)
  qed (use same primary_write(2) in auto)
  then show ?thesis using primary_write(1) by simp
next
  case (node_promote rand n)
  let ?id = "ReplId_generate rand" and ?m' = "fst (rotate_and_promote rand (rc_mgr c n) (tail_of c n))"
  let ?pub' = "(rc_pub c)(?id \<mapsto> rc_log c n)"
  have fresh: "?id \<noteq> replid_of c m" for m
    using repl_invD(2) [OF inv, of m] node_promote(2) by (auto simp: follows_def)
  have keep: "?pub' i = Some s" if "rc_pub c i = Some s" for i s using that node_promote(2) by auto
  obtain s where s: "rc_pub c (replid_of c n) = Some s" "prefix (rc_log c n) s"
    using repl_invD(2) [OF inv, of n] by (auto simp: follows_def)
  have al: "aligned (rc_mgr c n) (rc_log c n)" by (rule repl_invD(1) [OF inv])
  then have u: "unat (tail_of c n) = length (rc_log c n)"
    by (simp add: aligned_def unsigned_of_nat take_bit_nat_eq_self)
  have "repl_inv (c\<lparr> rc_mgr := (rc_mgr c)(n := ?m'), rc_log := (rc_log c)(n := rc_log c n), rc_pub := ?pub' \<rparr>)"
  proof (rule repl_inv_update [OF inv])
    show "aligned ?m' (rc_log c n)" using al by (simp add: aligned_def repl_ops Let_def)
    show "follows ?pub' ?m' (rc_log c n)" by (simp add: follows_def repl_ops Let_def)
    have "take (length (rc_log c n)) s = rc_log c n" using s(2) by (auto simp: prefix_def)
    then show "agrees_before ?pub' ?m' (rc_log c n)"
      using keep [OF s(1)] u prefix_length_le [OF s(2)] by (simp add: agrees_before_def repl_ops Let_def)
    show "follows ?pub' (rc_mgr c m) (rc_log c m)" if "m \<noteq> n" for m
      using repl_invD(2) [OF inv, of m] fresh [of m] by (auto simp: follows_def)
    show "\<exists>t. ?pub' i = Some (s @ t)" if "rc_pub c i = Some s" for i s using keep [OF that] by auto
  qed (use fresh in \<open>simp add: repl_ops Let_def\<close>)
  then show ?thesis using node_promote(1) by simp
next
  case (node_demote n)
  have "repl_inv (c\<lparr> rc_mgr := (rc_mgr c)(n := demote_to_replica (rc_mgr c n)),
      rc_log := (rc_log c)(n := rc_log c n), rc_pub := rc_pub c \<rparr>)"
    using repl_invD(1,2) [OF inv]
    by (intro repl_inv_update [OF inv]) (auto simp: repl_ops aligned_def follows_def agrees_before_def)
  then show ?thesis using node_demote by simp
next
  case (replica_continue r rid off p wal_begin new s)
  note sound = psync_sound [OF inv replica_continue(3,4)]
  let ?m' = "if ReplId_is_empty new then rc_mgr c r else try_update_my_primary_repl_id (rc_mgr c r) new"
  have "repl_inv (c\<lparr> rc_mgr := (rc_mgr c)(r := ?m'), rc_log := (rc_log c)(r := rc_log c r), rc_pub := rc_pub c \<rparr>)"
    using repl_invD(1,2) [OF inv] repl_invD(2) [OF inv, of p] sound replica_continue(2)
    by (intro repl_inv_update [OF inv]) (auto simp: repl_ops aligned_def follows_def agrees_before_def)
  then show ?thesis using replica_continue(1) by simp
next
  case (replica_fullresync r rid off p wal_begin new s)
  let ?m' = "adopt_primary_identity (rc_mgr c r) new s"
  have P: "rm_role (rc_mgr c p) = RolePrimary" "new = replid_of c p" "s = tail_of c p"
    using replica_fullresync(4)
    by (auto simp: evaluate_psync_def role_is_primary_def decide_sync_def Let_def split: if_splits)
  have al: "aligned (rc_mgr c p) (rc_log c p)" and f: "follows (rc_pub c) (rc_mgr c p) (rc_log c p)"
    by (rule repl_invD [OF inv])+
  then have u: "unat s = length (rc_log c p)"
    by (simp add: P(3) aligned_def unsigned_of_nat take_bit_nat_eq_self)
  have "repl_inv (c\<lparr> rc_mgr := (rc_mgr c)(r := ?m'), rc_log := (rc_log c)(r := rc_log c p), rc_pub := rc_pub c \<rparr>)"
    using repl_invD(2) [OF inv] replica_fullresync(2) al f P
    by (intro repl_inv_update [OF inv]) (auto simp: repl_ops Let_def aligned_def follows_def agrees_before_def)
  then show ?thesis using replica_fullresync(1) u by simp
next
  case (replica_replay r p l k)
  let ?m' = "set_replication_offset (rc_mgr c r) (of_nat (length l))"
  have P: "rc_pub c (replid_of c r) = Some (rc_log c p)" "prefix (rc_log c r) (rc_log c p)"
    using repl_invD(2) [OF inv, of p] repl_invD(2) [OF inv, of r] replica_replay(3,4) by (auto simp: follows_def)
  then have pre: "prefix l (rc_log c p)"
    unfolding replica_replay(5) by (auto simp: prefix_def) (metis append_take_drop_id)
  moreover have "length (rc_log c p) < 2 ^ 63" using repl_invD(1) [OF inv, of p] by (simp add: aligned_def)
  ultimately have len: "length l < 2 ^ 63" using prefix_length_le [OF pre] by simp
  have "repl_inv (c\<lparr> rc_mgr := (rc_mgr c)(r := ?m'), rc_log := (rc_log c)(r := l), rc_pub := rc_pub c \<rparr>)"
    using repl_invD(2) [OF inv] replica_replay(2) len pre P(1)
    by (intro repl_inv_update [OF inv]) (auto simp: repl_ops aligned_def follows_def agrees_before_def)
  then show ?thesis using replica_replay(1) by simp
qed

lemma repl_init_inv: "repl_init c \<Longrightarrow> repl_inv c"
  by (auto simp: repl_init_def repl_inv_def aligned_def follows_def agrees_before_def rm_new_def
      rm_with_history_def history_new_def Let_def ReplId_is_empty_def ReplId_empty_def inj_def)

interpretation repl: invariant_system repl_init repl_step repl_inv
  using repl_init_inv repl_step_inv by unfold_locales


lemma append_stream_simps [simp]:
  "rm_role (fst (append_stream m d)) = rm_role m"
  "primary_replid (rm_history (fst (append_stream m d))) = primary_replid (rm_history m)"
  "primary_replid2 (rm_history (fst (append_stream m d))) = primary_replid2 (rm_history m)"
  by (simp_all add: append_stream_def set_offset_def Let_def)

lemma rm_new_simps [simp]:
  "rm_role (rm_new rand role x) = role" "rm_history (rm_new rand role x) = history_new rand x"
  by (simp_all add: rm_new_def rm_with_history_def Let_def)

text \<open>Two nodes: the primary writes three bytes, the replica synchronises in full.\<close>

definition sample_repl :: "bool ReplCluster" where
  "sample_repl =
     \<lparr> rc_mgr = (\<lambda>n. rm_new (replicate 20 (if n then 1 else 2)) (if n then RolePrimary else RoleReplica) 0),
       rc_log = (\<lambda>n. []),
       rc_pub = (\<lambda>i. if i \<in> range (\<lambda>n. ReplId_generate (replicate 20 (if n then 1 else 2))) then Some [] else None) \<rparr>"

lemma sample_ids_differ: "ReplId_generate (replicate 20 1) \<noteq> ReplId_generate (replicate 20 2)"
proof -
  have "ReplId_generate (replicate 20 b) ! 1 = REPL_HEX_CHARS ! unat (b AND 0x0F)" for b
    using replicate_Suc [of 19 b] by (simp add: ReplId_generate_def)
  from this [of 1] this [of 2] show ?thesis by (auto simp: REPL_HEX_CHARS_def bstr_def)
qed

lemma sample_repl_init: "repl_init sample_repl"
  unfolding repl_init_def
  by (intro exI [of _ "\<lambda>n. replicate 20 (if n then 1 else 2)"] exI [of _ "\<lambda>n. if n then RolePrimary else RoleReplica"])
    (use sample_ids_differ in \<open>auto simp: sample_repl_def inj_def\<close>)


section \<open>Log truncation\<close>

lemma foldl_min_le: "foldl min a as \<le> a \<and> (\<forall>x \<in> set as. foldl min a as \<le> x)" for a :: u64
proof (induction as arbitrary: a)
  case (Cons b as)
  from Cons.IH [of "min a b"] show ?case by auto
qed simp

lemma foldl_min_in: "foldl min a as = a \<or> foldl min a as \<in> set as" for a :: u64
proof (induction as arbitrary: a)
  case (Cons b as)
  then show ?case using Cons.IH [of "min a b"] by (auto simp: min_def split: if_splits)
qed simp

lemma min_ack_le: "(k, r) \<in> set ss \<Longrightarrow> min_ack_offset ss x \<le> rs_ack_offset r"
  using foldl_min_le [of "rs_ack_offset (snd (hd ss))" "map (\<lambda>(_, r). rs_ack_offset r) (tl ss)"]
  by (cases ss) (fastforce simp: min_ack_offset_def)+

lemma min_ack_attained: "ss \<noteq> [] \<Longrightarrow> \<exists>(k, r) \<in> set ss. min_ack_offset ss x = rs_ack_offset r"
  using foldl_min_in [of "rs_ack_offset (snd (hd ss))" "map (\<lambda>(_, r). rs_ack_offset r) (tl ss)"]
  by (cases ss) (fastforce simp: min_ack_offset_def)+

lemma update_elem: "(k, r) \<in> set (AList.update i v ss) \<Longrightarrow> (k, r) \<in> set ss \<or> (k, r) = (i, v)"
  by (induction ss) (auto split: if_splits)

lemma max_word: "(- 1 :: u64) \<ge> x"
  by simp

text \<open>
  C34: The safe truncation address never passes what a registered replica has acknowledged nor
  what is pinned for a running snapshot; it is one of these bounds, or the largest address when
  there are none; and acknowledgements, in whatever order they arrive, never move it back.
\<close>

theorem safe_aof_address_protects:
  "(\<forall>node_id r. get_replica m node_id = Some r \<longrightarrow> get_current_safe_aof_address m \<le> rs_ack_offset r) \<and>
   get_current_safe_aof_address m \<le> rm_min_served_offset m \<and>
   get_current_safe_aof_address (pin_min_served_offset m offset) \<le> offset \<and>
   (get_current_safe_aof_address m = rm_min_served_offset m \<or>
    (\<exists>(k, r) \<in> set (rm_sessions m). get_current_safe_aof_address m = rs_ack_offset r)) \<and>
   get_current_safe_aof_address m \<le> get_current_safe_aof_address (update_replica_ack now m node_id ack)"
proof -
  let ?s = "rm_sessions m" and ?a = "\<lambda>ss. min_ack_offset ss (- 1)"
  have acks: "?a ?s \<le> rs_ack_offset r" if "get_replica m i = Some r" for i r
    using min_ack_le [of i r ?s] that by (auto simp: get_replica_def dest: map_of_SomeD)
  have att: "rm_sessions m = [] \<or> (\<exists>(k, r) \<in> set ?s. ?a ?s = rs_ack_offset r)"
    using min_ack_attained by blast
  have mono: "?a ?s \<le> ?a (rm_sessions (update_replica_ack now m node_id ack))"
  proof (cases "get_replica m node_id")
    case None
    then show ?thesis by (simp add: update_replica_ack_def)
  next
    case (Some r)
    let ?t = "AList.update node_id (update_ack now r ack) ?s"
    have "?t \<noteq> []" by (cases ?s) auto
    then obtain k q where q: "(k, q) \<in> set ?t" "?a ?t = rs_ack_offset q" using min_ack_attained by blast
    have "?a ?s \<le> rs_ack_offset q"
      using update_elem [OF q(1)]
    proof
      assume "(k, q) \<in> set ?s"
      then show ?thesis by (rule min_ack_le)
    next
      assume "(k, q) = (node_id, update_ack now r ack)"
      then have "rs_ack_offset r \<le> rs_ack_offset q" by (simp add: update_ack_def)
      with acks [OF Some] show ?thesis by (rule order_trans)
    qed
    then show ?thesis using Some q(2) by (simp add: update_replica_ack_def)
  qed
  have pinned: "rm_min_served_offset (update_replica_ack now m node_id ack) = rm_min_served_offset m"
    by (simp add: update_replica_ack_def split: option.splits)
  have none: "?a ?s = - 1" if "?s = []" using that by (simp add: min_ack_offset_def)
  show ?thesis
    using acks att mono none
    by (auto simp: get_current_safe_aof_address_def pin_min_served_offset_def pinned Let_def min_def
        intro: order_trans)
qed

theorem safe_aof_address_protects_witness:
  "get_current_safe_aof_address (fst (register_replica 0 (rm_new (replicate 20 1) RolePrimary 5) ''a'' 1 ''b'')) \<le> 0"
proof -
  let ?m = "fst (register_replica 0 (rm_new (replicate 20 1) RolePrimary 5) ''a'' 1 ''b'')"
  have "get_replica ?m ''a'' = Some (session_info_new 0 ''a'' 1 ''b'')"
    by (simp add: get_replica_def register_replica_def sync_register_replica_def Let_def update_conv')
  then have "get_current_safe_aof_address ?m \<le> rs_ack_offset (session_info_new 0 ''a'' 1 ''b'')"
    using safe_aof_address_protects [of ?m] by blast
  then show ?thesis by (simp add: session_info_new_def)
qed

section \<open>What an offset says about the backlog\<close>

text \<open>
  Moving the offset of a backlog that still holds bytes relabels them: the bytes that were
  appended before offset \<open>3\<close> are afterwards served as those before offset \<open>6\<close>, whatever the log
  holds there.  \<open>set_replication_offset\<close> and \<open>rotate_and_promote\<close> do this; only
  \<open>adopt_primary_identity\<close> clears the backlog.
\<close>

theorem moved_offset_relabels_backlog:
  assumes inv: "backlog_inv (rm_backlog m)" and x: "is_offset_in_range (rm_backlog m) x"
    and fit: "unat (bl_master_repl_offset (rm_backlog m)) + k < 2 ^ 64"
  shows "read_backlog (set_replication_offset m (bl_master_repl_offset (rm_backlog m) + of_nat k)) (x + of_nat k) n =
    read_backlog m x n"
proof -
  let ?b = "rm_backlog m" and ?o = "bl_master_repl_offset (rm_backlog m)"
  have le: "unat x \<le> unat ?o" and h: "0 < bl_hist_len ?b" "unat ?o - unat x \<le> bl_hist_len ?b"
    using x in_range_iff [OF inv] by auto
  have add: "unat (y + of_nat k) = unat y + k" if "unat y \<le> unat ?o" for y :: u64
    using fit that unat_of_nat_64 [of k] by (subst unat_add_lem [THEN iffD1]) auto
  have "is_offset_in_range (set_master_offset ?b (?o + of_nat k)) (x + of_nat k)"
    using inv h le add [of x] add [of ?o] by (subst in_range_iff) auto
  then show ?thesis
    using x inv le add [of x] add [of ?o]
    by (simp add: read_backlog_def set_replication_offset_def read_bytes_window)
qed

text \<open>
  A primary that has restarted at offset \<open>100\<close> with an empty backlog grants a continuation from
  offset \<open>40\<close>, because the bounds of the log allow it, but the backlog the bytes are then sent
  from holds none of them.
\<close>

theorem continue_without_backlog:
  assumes "length rand = 20"
  shows "handle_psync (rm_new rand RolePrimary 100) (ReplId_generate rand) 40 0 100 =
      Inr (PartialResync (ReplId_generate rand) 40)"
    and "read_backlog (rm_new rand RolePrimary 100) 40 n = []"
    and "snd (backlog_offsets (rm_new rand RolePrimary 100)) = 100"
proof -
  have ok: "ReplId_from_bytes (ReplId_generate rand) = Inr (ReplId_generate rand)"
    "\<not> ReplId_is_question_mark (ReplId_generate rand)"
    using ReplId_generate_ok [OF assms] ReplId_from_bytes_id by auto
  show "handle_psync (rm_new rand RolePrimary 100) (ReplId_generate rand) 40 0 100 =
      Inr (PartialResync (ReplId_generate rand) 40)"
    using ok by (simp add: handle_psync_def ReplId_from_str_val_def evaluate_psync_def role_is_primary_def
        decide_sync_def history_new_def Let_def)
  show "read_backlog (rm_new rand RolePrimary 100) 40 n = []" "snd (backlog_offsets (rm_new rand RolePrimary 100)) = 100"
    by (simp_all add: read_backlog_def read_bytes_def slices_def is_offset_in_range_def rm_new_def
        rm_with_history_def history_new_def backlog_offsets_def Let_def)
qed

end
