(* ===== verification/Repl_Protocol.thy ===== *)
theory Repl_Protocol
  imports Repl_Manager
begin

text \<open>
  The replication protocol of \<open>wedb_repl/src/protocol.rs\<close>: the encoders and parsers of the frames
  replica and primary exchange, with the proof that every frame is read back and that an
  incomplete one asks for more input.
  A \<open>String\<close> is its UTF-8 bytes; \<open>usize\<close> has 64 bits; the text of an error message is a tag.
\<close>

section \<open>Numbers and lines\<close>

fun parse_u64_digits :: "u64 \<Rightarrow> bytes \<Rightarrow> u64 option" where
  "parse_u64_digits n [] = Some n"
| "parse_u64_digits n (b # bs) =
     (if is_ascii_digit b then
        (case checked_mul n 10 of None \<Rightarrow> None
         | Some n1 \<Rightarrow> (case checked_add n1 (ucast (b - 48)) of None \<Rightarrow> None
                       | Some n2 \<Rightarrow> parse_u64_digits n2 bs))
      else None)"

definition parse_u64_bytes :: "bytes \<Rightarrow> u64 option" where
  "parse_u64_bytes bytes = (if bytes = [] then None else parse_u64_digits 0 bytes)"

fun parse_i64_digits :: "int \<Rightarrow> bytes \<Rightarrow> int option" where
  "parse_i64_digits n [] = Some n"
| "parse_i64_digits n (b # bs) =
     (if is_ascii_digit b then
        (case checked_i64 (n * 10) of None \<Rightarrow> None
         | Some n1 \<Rightarrow> (case checked_i64 (n1 - uint (b - 48)) of None \<Rightarrow> None
                       | Some n2 \<Rightarrow> parse_i64_digits n2 bs))
      else None)"

definition parse_i64_bytes :: "bytes \<Rightarrow> int option" where
  "parse_i64_bytes bytes =
     (if bytes = [] then None
      else
        let (is_neg, digits) =
              (if hd bytes = 45 then (True, tl bytes)
               else if hd bytes = 43 then (False, tl bytes) else (False, bytes)) in
        if digits = [] then None
        else case parse_i64_digits 0 digits of None \<Rightarrow> None
             | Some n \<Rightarrow> if is_neg then Some n else checked_i64 (- n))"

definition parse_u16_bytes :: "bytes \<Rightarrow> u16 option" where
  "parse_u16_bytes bytes =
     (case parse_u64_bytes bytes of None \<Rightarrow> None
      | Some v \<Rightarrow> if unat v < 2 ^ 16 then Some (ucast v) else None)"

text \<open>The search for the line end; \<open>offset\<close> is where the next search for a carriage return starts.\<close>

function find_crlf_loop :: "bytes \<Rightarrow> nat \<Rightarrow> nat option" where
  "find_crlf_loop buf offset =
     (case position (\<lambda>b. b = 13) (drop offset buf) of
        None \<Rightarrow> None
      | Some pos \<Rightarrow>
          let idx = offset + pos in
          if idx + 1 < length buf \<and> buf ! (idx + 1) = 10 then Some idx
          else find_crlf_loop buf (idx + 1))"
  by auto
termination
  by (relation "measure (\<lambda>(buf, offset). length buf - offset)") (auto dest!: position_SomeD)

declare find_crlf_loop.simps [simp del]

definition find_crlf :: "bytes \<Rightarrow> nat option" where
  "find_crlf buf = find_crlf_loop buf 0"

section \<open>Commands and responses\<close>

datatype ReplConfSubCmd =
    ListeningPort u16
  | IpAddress bytes
  | Capa "bytes list"
  | Ack u64
  | GetAck
  | Other bytes "bytes list"

datatype ReplicaCommand =
    Ping
  | Auth bytes
  | ReplConf ReplConfSubCmd
  | Psync ReplId int

datatype MasterResponse =
    Pong
  | MOk
  | MContinue ReplId
  | MFullResync ReplId u64
  | MError bytes

definition crlf :: bytes where
  "crlf = [13, 10]"

definition PING_FRAME :: bytes where
  "PING_FRAME = bstr ''*1'' @ crlf @ bstr ''$4'' @ crlf @ bstr ''PING'' @ crlf"

definition PONG_FRAME :: bytes where
  "PONG_FRAME = bstr ''+PONG'' @ crlf"

definition OK_FRAME :: bytes where
  "OK_FRAME = bstr ''+OK'' @ crlf"

definition REPLCONF_GETACK_FRAME :: bytes where
  "REPLCONF_GETACK_FRAME = bstr ''*3'' @ crlf @ bstr ''$8'' @ crlf @ bstr ''REPLCONF'' @ crlf @
     bstr ''$6'' @ crlf @ bstr ''GETACK'' @ crlf @ bstr ''$1'' @ crlf @ bstr ''*'' @ crlf"

definition encode_ping :: bytes where
  "encode_ping = PING_FRAME"

definition encode_pong :: bytes where
  "encode_pong = PONG_FRAME"

definition encode_ok :: bytes where
  "encode_ok = OK_FRAME"

definition encode_auth :: "bytes \<Rightarrow> bytes" where
  "encode_auth password =
     bstr ''*2'' @ crlf @ bstr ''$4'' @ crlf @ bstr ''AUTH'' @ crlf @ bstr ''$'' @
     dec (length password) @ crlf @ password @ crlf"

definition encode_replconf_port :: "u16 \<Rightarrow> bytes" where
  "encode_replconf_port port =
     (let port_str = dec (unat port) in
      bstr ''*3'' @ crlf @ bstr ''$8'' @ crlf @ bstr ''REPLCONF'' @ crlf @ bstr ''$14'' @ crlf @
      bstr ''listening-port'' @ crlf @ bstr ''$'' @ dec (length port_str) @ crlf @ port_str @ crlf)"

definition encode_replconf_ip :: "bytes \<Rightarrow> bytes" where
  "encode_replconf_ip ip =
     bstr ''*3'' @ crlf @ bstr ''$8'' @ crlf @ bstr ''REPLCONF'' @ crlf @ bstr ''$10'' @ crlf @
     bstr ''ip-address'' @ crlf @ bstr ''$'' @ dec (length ip) @ crlf @ ip @ crlf"

definition encode_replconf_capa :: "bytes list \<Rightarrow> bytes" where
  "encode_replconf_capa capas =
     (let array_len = 1 + length capas * 2 in
      bstr ''*'' @ dec array_len @ crlf @ bstr ''$8'' @ crlf @ bstr ''REPLCONF'' @ crlf @
      concat (map (\<lambda>capa. bstr ''$4'' @ crlf @ bstr ''capa'' @ crlf @ bstr ''$'' @ dec (length capa) @ crlf @
        capa @ crlf) capas))"

definition encode_replconf_ack :: "u64 \<Rightarrow> bytes" where
  "encode_replconf_ack offset =
     (let off_str = dec (unat offset) in
      bstr ''*3'' @ crlf @ bstr ''$8'' @ crlf @ bstr ''REPLCONF'' @ crlf @ bstr ''$3'' @ crlf @
      bstr ''ACK'' @ crlf @ bstr ''$'' @ dec (length off_str) @ crlf @ off_str @ crlf)"

definition encode_replconf_getack :: bytes where
  "encode_replconf_getack = REPLCONF_GETACK_FRAME"

definition encode_psync :: "ReplId \<Rightarrow> int \<Rightarrow> bytes" where
  "encode_psync replid offset =
     (let off_str = dec_int offset in
      bstr ''*3'' @ crlf @ bstr ''$5'' @ crlf @ bstr ''PSYNC'' @ crlf @ bstr ''$40'' @ crlf @ replid @
      crlf @ bstr ''$'' @ dec (length off_str) @ crlf @ off_str @ crlf)"

definition encode_continue :: "ReplId \<Rightarrow> bytes" where
  "encode_continue replid = bstr ''+CONTINUE '' @ replid @ crlf"

definition encode_fullresync :: "ReplId \<Rightarrow> u64 \<Rightarrow> bytes" where
  "encode_fullresync replid offset = bstr ''+FULLRESYNC '' @ replid @ [32] @ dec (unat offset) @ crlf"

section \<open>Parsers\<close>

definition parse_status :: "bytes list \<Rightarrow> nat \<Rightarrow> ReplError + (MasterResponse \<times> nat) option" where
  "parse_status words consumed =
     (let first_word = (case words of [] \<Rightarrow> [] | w # _ \<Rightarrow> w); rest = drop 1 words in
      if eq_ignore_case_u8 first_word (bstr ''PONG'') then Inr (Some (Pong, consumed))
      else if eq_ignore_case_u8 first_word (bstr ''OK'') then Inr (Some (MOk, consumed))
      else if eq_ignore_case_u8 first_word (bstr ''CONTINUE'') then
        (case rest of
           id_str # _ \<Rightarrow> (case ReplId_from_str_val id_str of
              Inl e \<Rightarrow> Inl e | Inr replid \<Rightarrow> Inr (Some (MContinue replid, consumed)))
         | [] \<Rightarrow> Inr (Some (MContinue ReplId_empty, consumed)))
      else if eq_ignore_case_u8 first_word (bstr ''FULLRESYNC'') then
        (case rest of
           id_part # offset_part # _ \<Rightarrow>
             (case ReplId_from_str_val id_part of
                Inl e \<Rightarrow> Inl e
              | Inr replid \<Rightarrow> (case parse_u64_bytes offset_part of
                  None \<Rightarrow> Inl (Protocol ''FULLRESYNC offset'')
                | Some offset \<Rightarrow> Inr (Some (MFullResync replid offset, consumed))))
         | _ \<Rightarrow> Inl (Protocol ''FULLRESYNC format''))
      else Inl (Protocol ''unknown status''))"

definition parse_master_response :: "bytes \<Rightarrow> ReplError + (MasterResponse \<times> nat) option" where
  "parse_master_response input =
     (if input = [] then Inr None
      else case find_crlf input of
        None \<Rightarrow> Inr None
      | Some crlf_pos \<Rightarrow>
          let line = take crlf_pos input; consumed = crlf_pos + 2 in
          if line = [] then Inl (Protocol ''empty line'')
          else if hd line = 43 then
            (case utf8_chars (tl line) of
               None \<Rightarrow> Inl (Protocol ''status utf8'')
             | Some cs \<Rightarrow> parse_status (split_whitespace (trim_chars cs)) consumed)
          else if hd line = 45 then
            (case utf8_chars (tl line) of
               None \<Rightarrow> Inr (Some (MError (bstr ''error utf8''), consumed))
             | Some cs \<Rightarrow> Inr (Some (MError (concat (trim_chars cs)), consumed)))
          else Inl (Protocol ''unexpected response''))"

definition MAX_REPLICA_CMD_ARGS :: nat where
  "MAX_REPLICA_CMD_ARGS = 64"

text \<open>The loop over the bulk strings of a command: \<open>Inr None\<close> when more input is needed.\<close>

fun parse_args :: "nat \<Rightarrow> bytes \<Rightarrow> nat \<Rightarrow> bytes list \<Rightarrow> ReplError + (bytes list \<times> nat) option" where
  "parse_args 0 input cursor args = Inr (Some (args, cursor))"
| "parse_args (Suc k) input cursor args =
     (if length input \<le> cursor then Inr None
      else if input ! cursor \<noteq> 36 then Inl (Protocol ''bulk start'')
      else case find_crlf (drop cursor input) of
        None \<Rightarrow> Inr None
      | Some len_crlf_rel \<Rightarrow>
          (case parse_u64_bytes (sub_slice (cursor + 1) (cursor + len_crlf_rel) input) of
             None \<Rightarrow> Inl (Protocol ''bulk length'')
           | Some str_len \<Rightarrow>
               let cursor = cursor + (len_crlf_rel + 2) in
               if 2 ^ 64 \<le> cursor + unat str_len then Inl (Protocol ''bulk length'')
               else
                 let data_end = cursor + unat str_len in
                 if 2 ^ 64 \<le> data_end + 2 \<or> length input < data_end + 2 then Inr None
                 else if input ! data_end \<noteq> 13 \<or> input ! (data_end + 1) \<noteq> 10
                 then Inl (Protocol ''bulk end'')
                 else parse_args k input (data_end + 2) (args @ [sub_slice cursor data_end input])))"

text \<open>Capabilities: pairs of the keyword and a value, other arguments are skipped.\<close>

fun parse_capas :: "bytes list \<Rightarrow> ReplError + bytes list" where
  "parse_capas (a # b # as) =
     (if eq_ignore_case_u8 a (bstr ''capa'') then
        (case from_utf8 b of
           None \<Rightarrow> Inl (Protocol ''capa utf8'')
         | Some s \<Rightarrow> (case parse_capas as of Inl e \<Rightarrow> Inl e | Inr capas \<Rightarrow> Inr (s # capas)))
      else parse_capas (b # as))"
| "parse_capas _ = Inr []"

fun all_utf8 :: "bytes list \<Rightarrow> ReplError + bytes list" where
  "all_utf8 [] = Inr []"
| "all_utf8 (a # as) =
     (case from_utf8 a of
        None \<Rightarrow> Inl (Protocol ''argument utf8'')
      | Some s \<Rightarrow> (case all_utf8 as of Inl e \<Rightarrow> Inl e | Inr ss \<Rightarrow> Inr (s # ss)))"

definition parse_replconf :: "bytes list \<Rightarrow> ReplError + ReplConfSubCmd" where
  "parse_replconf args =
     (let sub = args ! 1 in
      if eq_ignore_case_u8 sub (bstr ''listening-port'') then
        (if length args < 3 then Inl (Protocol ''listening-port argument'')
         else case parse_u16_bytes (args ! 2) of
                None \<Rightarrow> Inl (Protocol ''port'') | Some port \<Rightarrow> Inr (ListeningPort port))
      else if eq_ignore_case_u8 sub (bstr ''ip-address'') then
        (if length args < 3 then Inl (Protocol ''ip-address argument'')
         else case from_utf8 (args ! 2) of
                None \<Rightarrow> Inl (Protocol ''ip utf8'') | Some ip \<Rightarrow> Inr (IpAddress ip))
      else if eq_ignore_case_u8 sub (bstr ''capa'') then
        (case parse_capas (drop 1 args) of Inl e \<Rightarrow> Inl e | Inr capas \<Rightarrow> Inr (Capa capas))
      else if eq_ignore_case_u8 sub (bstr ''ack'') then
        (if length args < 3 then Inl (Protocol ''ack argument'')
         else case parse_u64_bytes (args ! 2) of
                None \<Rightarrow> Inl (Protocol ''ack offset'') | Some offset \<Rightarrow> Inr (Ack offset))
      else if eq_ignore_case_u8 sub (bstr ''getack'') then Inr GetAck
      else case from_utf8 sub of
             None \<Rightarrow> Inl (Protocol ''subcommand utf8'')
           | Some name \<Rightarrow> (case all_utf8 (drop 2 args) of
               Inl e \<Rightarrow> Inl e | Inr other_args \<Rightarrow> Inr (Other (map lower_u8 name) other_args)))"

definition parse_command_args :: "bytes list \<Rightarrow> nat \<Rightarrow> ReplError + (ReplicaCommand \<times> nat) option" where
  "parse_command_args args cursor =
     (if args = [] then Inl (Protocol ''empty command'')
      else
        let cmd_name = args ! 0 in
        if eq_ignore_case_u8 cmd_name (bstr ''PING'') then Inr (Some (Ping, cursor))
        else if eq_ignore_case_u8 cmd_name (bstr ''AUTH'') then
          (if length args < 2 then Inl (Protocol ''AUTH argument'')
           else case from_utf8 (args ! 1) of
                  None \<Rightarrow> Inl (Protocol ''AUTH utf8'') | Some pwd \<Rightarrow> Inr (Some (Auth pwd, cursor)))
        else if eq_ignore_case_u8 cmd_name (bstr ''REPLCONF'') then
          (if length args < 2 then Inl (Protocol ''REPLCONF argument'')
           else case parse_replconf args of
                  Inl e \<Rightarrow> Inl e | Inr replconf \<Rightarrow> Inr (Some (ReplConf replconf, cursor)))
        else if eq_ignore_case_u8 cmd_name (bstr ''PSYNC'') then
          (if length args < 3 then Inl (Protocol ''PSYNC argument'')
           else
             let replid_bytes = args ! 1;
                 replid = (if replid_bytes = [63] \<or> list_all (\<lambda>b. b = 63) replid_bytes
                           then Inr ReplId_question_mark else ReplId_from_bytes replid_bytes) in
             case replid of Inl e \<Rightarrow> Inl e
             | Inr replid \<Rightarrow> (case parse_i64_bytes (args ! 2) of
                 None \<Rightarrow> Inl (Protocol ''PSYNC offset'')
               | Some offset \<Rightarrow> Inr (Some (Psync replid offset, cursor))))
        else Inl (Protocol ''unexpected command''))"

definition parse_inline_command :: "bytes \<Rightarrow> ReplError + (ReplicaCommand \<times> nat) option" where
  "parse_inline_command input =
     (case find_crlf input of
        None \<Rightarrow> Inr None
      | Some first_crlf \<Rightarrow>
          let line = take first_crlf input; consumed = first_crlf + 2 in
          case utf8_chars line of
            None \<Rightarrow> Inl (Protocol ''inline utf8'')
          | Some cs \<Rightarrow>
              (case split_whitespace (trim_chars cs) of
                 [] \<Rightarrow> Inl (Protocol ''empty inline'')
               | first_word # words \<Rightarrow>
                   if eq_ignore_case_u8 first_word (bstr ''PING'') then Inr (Some (Ping, consumed))
                   else if eq_ignore_case_u8 first_word (bstr ''AUTH'') then
                     (case words of [] \<Rightarrow> Inl (Protocol ''inline AUTH'')
                      | pwd # _ \<Rightarrow> Inr (Some (Auth pwd, consumed)))
                   else Inl (Protocol ''unexpected start'')))"

definition parse_replica_command :: "bytes \<Rightarrow> ReplError + (ReplicaCommand \<times> nat) option" where
  "parse_replica_command input =
     (if input = [] then Inr None
      else if input ! 0 \<noteq> 42 then parse_inline_command input
      else case find_crlf input of
        None \<Rightarrow> Inr None
      | Some first_crlf \<Rightarrow>
          (case parse_u64_bytes (sub_slice 1 first_crlf input) of
             None \<Rightarrow> Inl (Protocol ''array length'')
           | Some num_args \<Rightarrow>
               if unat num_args > MAX_REPLICA_CMD_ARGS then Inl (Protocol ''too many arguments'')
               else case parse_args (unat num_args) input (first_crlf + 2) [] of
                      Inl e \<Rightarrow> Inl e
                    | Inr None \<Rightarrow> Inr None
                    | Inr (Some (args, cursor)) \<Rightarrow> parse_command_args args cursor))"

section \<open>Numbers are read back\<close>

lemma parse_u64_digits_append:
  "parse_u64_digits n (xs @ ys) = (case parse_u64_digits n xs of None \<Rightarrow> None | Some m \<Rightarrow> parse_u64_digits m ys)"
  by (induction n xs rule: parse_u64_digits.induct) (auto split: option.splits)

lemma digit_ucast: "d < 10 \<Longrightarrow> unat (ucast (of_nat (48 + d) - 48 :: u8) :: u64) = d"
  using digit_u8 [of d] by (simp add: unsigned_ucast_eq take_bit_nat_eq_self del: of_nat_add)

lemma parse_u64_digit:
  assumes "d < 10" "n < 2 ^ 64"
  shows "parse_u64_digits (of_nat n) [of_nat (48 + d)] =
    (if n * 10 + d < 2 ^ 64 then Some (of_nat (n * 10 + d)) else None)"
proof -
  have n: "unat (of_nat n :: u64) = n" using assms(2) by (rule unat_of_nat_64)
  define v :: u64 where "v = ucast (of_nat (48 + d) - 48 :: u8)"
  have v: "unat v = d" using digit_ucast [OF assms(1)] unfolding v_def [symmetric] .
  have "v = of_nat (unat v)" by simp
  then have v': "v = of_nat d" unfolding v .
  have dig: "is_ascii_digit (of_nat (48 + d))" using digit_u8 [OF assms(1)] by simp
  have step: "parse_u64_digits (of_nat n) [of_nat (48 + d)] =
      (case checked_mul (of_nat n) 10 of None \<Rightarrow> None | Some n1 \<Rightarrow> checked_add n1 v)"
    unfolding v_def using dig by (auto simp del: of_nat_add split: option.splits)
  show ?thesis
  proof (cases "n * 10 < 2 ^ 64")
    case True
    have m: "unat (of_nat n * 10 :: u64) = n * 10"
      using unat_of_nat_64 [OF True] by simp
    show ?thesis
      using True m v n v' unfolding step checked_mul_def checked_add_def by simp
  next
    case False
    then show ?thesis using n unfolding step by (simp add: checked_mul_def)
  qed
qed

lemma parse_u64_digits_dec:
  "parse_u64_digits 0 (dec n) = (if n < 2 ^ 64 then Some (of_nat n) else None)"
proof (induction n rule: less_induct)
  case (less n)
  show ?case
  proof (cases "n < 10")
    case True
    then show ?thesis using parse_u64_digit [of n 0] by (subst dec_step) simp
  next
    case False
    have IH: "parse_u64_digits 0 (dec (n div 10)) = (if n div 10 < 2 ^ 64 then Some (of_nat (n div 10)) else None)"
      using False by (intro less.IH) simp
    have d: "dec n = dec (n div 10) @ [of_nat (48 + n mod 10)]" using False by (subst dec_step) simp
    have sum: "n div 10 * 10 + n mod 10 = n" by simp
    show ?thesis
    proof (cases "n div 10 < 2 ^ 64")
      case True
      then show ?thesis
        using parse_u64_digit [of "n mod 10" "n div 10"] IH unfolding d parse_u64_digits_append sum
        by (simp del: of_nat_add)
    next
      case b: False
      then have "\<not> n < 2 ^ 64" by auto
      then show ?thesis unfolding d parse_u64_digits_append using IH b by simp
    qed
  qed
qed

lemma parse_u64_dec: "n < 2 ^ 64 \<Longrightarrow> parse_u64_bytes (dec n) = Some (of_nat n)"
  by (simp add: parse_u64_bytes_def parse_u64_digits_dec)

lemma parse_u64_dec_unat: "parse_u64_bytes (dec (unat x)) = Some x"
  using parse_u64_dec [of "unat x"] unsigned_less [of x, where 'a = nat] by simp

lemma parse_u16_dec: "parse_u16_bytes (dec (unat x)) = Some x"
proof -
  have b: "unat x < 65536" by (rule unat_u16_less)
  then have "parse_u64_bytes (dec (unat x)) = Some (of_nat (unat x))" by (intro parse_u64_dec) simp
  moreover have "unat (of_nat (unat x) :: u64) = unat x" using b by (intro unat_of_nat_64) simp
  moreover have "unat (ucast (of_nat (unat x) :: u64) :: u16) = unat x"
    using b by (simp add: unsigned_ucast_eq unsigned_of_nat take_bit_nat_eq_self take_bit_word_beyond_length_eq)
  then have "ucast (of_nat (unat x) :: u64) = x" by (simp only: unsigned_word_eqI)
  ultimately show ?thesis using b by (simp add: parse_u16_bytes_def)
qed

lemma parse_i64_digits_append:
  "parse_i64_digits n (xs @ ys) = (case parse_i64_digits n xs of None \<Rightarrow> None | Some m \<Rightarrow> parse_i64_digits m ys)"
  by (induction n xs rule: parse_i64_digits.induct) (auto split: option.splits)

lemma parse_i64_digit:
  assumes "d < 10" "n \<le> 2 ^ 63"
  shows "parse_i64_digits (- int n) [of_nat (48 + d)] =
    (if n * 10 + d \<le> 2 ^ 63 then Some (- int (n * 10 + d)) else None)"
proof -
  have dig: "is_ascii_digit (of_nat (48 + d))" "unat (of_nat (48 + d) - 48 :: u8) = d"
    using digit_u8 [OF assms(1)] by simp_all
  have uint: "uint w = int (unat w)" for w :: u8 by simp
  show ?thesis
    using dig(1) assms by (auto simp only: parse_i64_digits.simps uint dig(2)) (auto simp: checked_i64_def i64_min_def i64_max_def simp del: of_nat_add)
qed

lemma parse_i64_digits_dec:
  "parse_i64_digits 0 (dec n) = (if n \<le> 2 ^ 63 then Some (- int n) else None)"
proof (induction n rule: less_induct)
  case (less n)
  show ?case
  proof (cases "n < 10")
    case True
    then show ?thesis using parse_i64_digit [of n 0] by (subst dec_step) simp
  next
    case False
    have IH: "parse_i64_digits 0 (dec (n div 10)) = (if n div 10 \<le> 2 ^ 63 then Some (- int (n div 10)) else None)"
      using False by (intro less.IH) simp
    have d: "dec n = dec (n div 10) @ [of_nat (48 + n mod 10)]" using False by (subst dec_step) simp
    have sum: "n div 10 * 10 + n mod 10 = n" by simp
    show ?thesis
    proof (cases "n div 10 \<le> 2 ^ 63")
      case True
      then show ?thesis
        using parse_i64_digit [of "n mod 10" "n div 10"] IH unfolding d parse_i64_digits_append sum
        by (simp del: of_nat_add)
    next
      case b: False
      then have "\<not> n \<le> 2 ^ 63" by auto
      then show ?thesis unfolding d parse_i64_digits_append using IH b by simp
    qed
  qed
qed

lemma dec_hd: "hd (dec n) \<noteq> 45 \<and> hd (dec n) \<noteq> 43"
  using dec_digits [of "hd (dec n)" n] by (auto simp: is_ascii_digit_def)

lemma dec_int_eq: "dec_int i = (if i < 0 then 45 # dec (nat (- i)) else dec (nat i))"
  by (simp add: dec_int_def show_int_def dec_def bstr_append) (simp add: bstr_def)

lemma parse_i64_dec: "i64_min \<le> i \<Longrightarrow> i \<le> i64_max \<Longrightarrow> parse_i64_bytes (dec_int i) = Some i"
  using dec_hd [of "nat i"]
  by (auto simp: parse_i64_bytes_def dec_int_eq parse_i64_digits_dec checked_i64_def i64_min_def i64_max_def
      nat_le_iff)

section \<open>Lines\<close>

definition crlf_at :: "bytes \<Rightarrow> nat \<Rightarrow> bool" where
  "crlf_at buf i \<longleftrightarrow> i + 1 < length buf \<and> buf ! i = 13 \<and> buf ! (i + 1) = 10"

lemma find_skip: "\<forall>x \<in> set xs. \<not> P x \<Longrightarrow> find P (xs @ ys) = find P ys"
  by (induction xs) auto

lemma find_upt_skip:
  assumes "off \<le> k" "k \<le> n" "\<And>j. off \<le> j \<Longrightarrow> j < k \<Longrightarrow> \<not> P j"
  shows "find P [off..<n] = find P [k..<n]"
proof -
  have "[off..<n] = [off..<k] @ [k..<n]" using assms(1,2) by (metis le_Suc_ex upt_add_eq_append)
  then show ?thesis using assms(3) by (simp add: find_skip)
qed

text \<open>The search finds the first line end.\<close>

lemma find_crlf_loop_eq: "find_crlf_loop buf off = find (crlf_at buf) [off..<length buf]"
proof (induction buf off rule: find_crlf_loop.induct)
  case (1 buf off)
  show ?case
  proof (cases "position (\<lambda>b. b = 13) (drop off buf)")
    case None
    then have "buf ! j \<noteq> 13" if "off \<le> j" "j < length buf" for j
      using that nth_mem [of "j - off" "drop off buf"] by (auto simp: position_None)
    then have "find (crlf_at buf) [off..<length buf] = None" by (auto simp: find_None_iff crlf_at_def)
    then show ?thesis using None by (simp add: find_crlf_loop.simps [of buf off])
  next
    case (Some pos)
    then have d: "pos < length (drop off buf)" "drop off buf ! pos = 13" "\<And>j. j < pos \<Longrightarrow> drop off buf ! j \<noteq> 13"
      unfolding position_Some by auto
    then have p: "off + pos < length buf" "buf ! (off + pos) = 13" by auto
    have before: "\<not> crlf_at buf j" if "off \<le> j" "j < off + pos" for j
      using d(3) [of "j - off"] that p(1) by (auto simp: crlf_at_def)
    have skip: "find (crlf_at buf) [off..<length buf] = find (crlf_at buf) [off + pos..<length buf]"
      using p(1) before by (intro find_upt_skip) auto
    also have "[off + pos..<length buf] = (off + pos) # [off + pos + 1..<length buf]"
      using p(1) by (simp add: upt_conv_Cons)
    finally have f: "find (crlf_at buf) [off..<length buf] =
        (if crlf_at buf (off + pos) then Some (off + pos) else find (crlf_at buf) [off + pos + 1..<length buf])"
      by simp
    have c: "crlf_at buf (off + pos) \<longleftrightarrow> off + pos + 1 < length buf \<and> buf ! (off + pos + 1) = 10"
      using p by (auto simp: crlf_at_def)
    show ?thesis
    proof (cases "crlf_at buf (off + pos)")
      case True
      then show ?thesis using Some c f by (simp add: find_crlf_loop.simps [of buf off] Let_def)
    next
      case False
      then show ?thesis
        using Some c f "1.IH" [OF Some refl] by (auto simp: find_crlf_loop.simps [of buf off] Let_def)
    qed
  qed
qed

lemma nth_notin: "x \<notin> set xs \<Longrightarrow> Suc j < length xs \<Longrightarrow> xs ! j = x \<Longrightarrow> False"
  by (metis Suc_lessD nth_mem)

lemma find_crlf_line: "13 \<notin> set xs \<Longrightarrow> find_crlf (xs @ 13 # 10 # ys) = Some (length xs)"
proof -
  assume a: "13 \<notin> set xs"
  let ?b = "xs @ 13 # 10 # ys"
  have "find (crlf_at ?b) [0..<length ?b] = find (crlf_at ?b) [length xs..<length ?b]"
    using a by (intro find_upt_skip) (auto simp: crlf_at_def nth_append dest: nth_notin split: if_splits)
  also have "[length xs..<length ?b] = length xs # [Suc (length xs)..<length ?b]" by (rule upt_conv_Cons) simp
  also have "find (crlf_at ?b) \<dots> = Some (length xs)"
    by (simp only: find.simps) (simp add: crlf_at_def nth_append)
  finally show ?thesis by (simp add: find_crlf_def find_crlf_loop_eq)
qed

lemma find_crlf_none: "13 \<notin> set xs \<Longrightarrow> find_crlf xs = None"
  by (auto simp: find_crlf_def find_crlf_loop_eq find_None_iff crlf_at_def dest: nth_notin)

lemma find_crlf_none_cr: "13 \<notin> set xs \<Longrightarrow> find_crlf (xs @ [13]) = None"
  by (auto simp: find_crlf_def find_crlf_loop_eq find_None_iff crlf_at_def nth_append dest: nth_notin split: if_splits)

section \<open>Frames\<close>

declare parse_args.simps(2) [simp del]

text \<open>A bulk string and an array of bulk strings; every command a replica sends is such a frame.\<close>

definition bulk :: "bytes \<Rightarrow> bytes" where
  "bulk a = 36 # dec (length a) @ 13 # 10 # a @ [13, 10]"

definition frame :: "bytes list \<Rightarrow> bytes" where
  "frame args = 42 # dec (length args) @ 13 # 10 # concat (map bulk args)"

lemma dec_no_cr: "13 \<notin> set (dec n)"
  using dec_digits [of 13 n] by (auto simp: is_ascii_digit_def)

lemma length_bulk: "length (bulk a) = length (dec (length a)) + length a + 5"
  by (simp add: bulk_def)

lemma sub_slice_mid: "sub_slice (length xs) (length xs + length ys) (xs @ ys @ zs) = ys"
  by (simp add: sub_slice_def)

lemma parse_args_bulk:
  assumes fit: "length (pre @ bulk a @ rest) < 2 ^ 63"
  shows "parse_args (Suc k) (pre @ bulk a @ rest) (length pre) acc =
    parse_args k (pre @ bulk a @ rest) (length pre + length (bulk a)) (acc @ [a])"
proof -
  let ?i = "pre @ bulk a @ rest" and ?d = "dec (length a)"
  have b: "bulk a = 36 # ?d @ 13 # 10 # a @ [13, 10]" by (simp add: bulk_def)
  have at: "\<not> length ?i \<le> length pre" "?i ! length pre = 36" by (simp_all add: b nth_append)
  have "find_crlf ((36 # ?d) @ 13 # 10 # (a @ [13, 10] @ rest)) = Some (length (36 # ?d))"
    using dec_no_cr by (intro find_crlf_line) auto
  then have crlf: "find_crlf (drop (length pre) ?i) = Some (length ?d + 1)" by (simp add: b)
  have len: "sub_slice (length pre + 1) (length pre + (length ?d + 1)) ?i = ?d"
    using sub_slice_mid [of "pre @ [36]" ?d "13 # 10 # a @ [13, 10] @ rest"] by (simp add: b)
  have fa: "length a < 2 ^ 64" using fit by (simp add: b)
  have num: "parse_u64_bytes ?d = Some (of_nat (length a))" "unat (of_nat (length a) :: u64) = length a"
    using fa by (simp_all only: parse_u64_dec unat_of_nat_64)
  have c: "length pre + (length ?d + 1 + 2) + length a = length (pre @ 36 # ?d @ [13, 10] @ a)" by simp
  have e: "?i = (pre @ 36 # ?d @ [13, 10] @ a) @ 13 # 10 # rest" by (simp add: b)
  have ends: "?i ! length (pre @ 36 # ?d @ [13, 10] @ a) = 13" "?i ! (length (pre @ 36 # ?d @ [13, 10] @ a) + 1) = 10"
    unfolding e by (simp_all only: nth_append_length nth_append_right nth_Cons_Suc) (simp_all add: nth_append)
  have data: "sub_slice (length pre + (length ?d + 1 + 2)) (length (pre @ 36 # ?d @ [13, 10] @ a)) ?i = a"
    using sub_slice_mid [of "pre @ 36 # ?d @ [13, 10]" a "[13, 10] @ rest"] by (simp add: b add.commute add.left_commute)
  have room: "\<not> length ?i < length pre + length (bulk a)"
    "\<not> 2 ^ 64 \<le> length pre + length (bulk a)" "\<not> 2 ^ 64 \<le> length (pre @ 36 # ?d @ [13, 10] @ a)"
    using fit by (simp_all add: b)
  have nxt: "length (pre @ 36 # ?d @ [13, 10] @ a) + 2 = length pre + length (bulk a)" by (simp add: b)
  show ?thesis
    unfolding parse_args.simps
    by (simp only: at crlf len num Let_def c ends data room nxt if_False option.case simp_thms)
qed

lemma parse_args_frame:
  "length (pre @ concat (map bulk as) @ rest) < 2 ^ 63 \<Longrightarrow>
   parse_args (length as) (pre @ concat (map bulk as) @ rest) (length pre) acc =
     Inr (Some (acc @ as, length pre + length (concat (map bulk as))))"
proof (induction as arbitrary: pre acc)
  case Nil
  then show ?case by simp
next
  case (Cons a as)
  have "parse_args (length (a # as)) (pre @ bulk a @ concat (map bulk as) @ rest) (length pre) acc =
      parse_args (length as) (pre @ bulk a @ concat (map bulk as) @ rest) (length pre + length (bulk a)) (acc @ [a])"
    using parse_args_bulk [of pre a "concat (map bulk as) @ rest" "length as" acc] Cons.prems by simp
  also have "\<dots> = Inr (Some ((acc @ [a]) @ as, length (pre @ bulk a) + length (concat (map bulk as))))"
    using Cons.IH [of "pre @ bulk a" "acc @ [a]"] Cons.prems by simp
  finally show ?case by simp
qed

text \<open>A frame is read from the front of the input, whatever follows it.\<close>

lemma parse_frame:
  assumes "length args \<le> 64" "length (frame args @ rest) < 2 ^ 63"
  shows "parse_replica_command (frame args @ rest) = parse_command_args args (length (frame args))"
proof -
  let ?d = "dec (length args)" and ?i = "frame args @ rest"
  have f: "?i = (42 # ?d) @ 13 # 10 # concat (map bulk args) @ rest" by (simp add: frame_def)
  have crlf: "find_crlf ?i = Some (length ?d + 1)"
    unfolding f using dec_no_cr by (subst find_crlf_line) auto
  have len: "sub_slice 1 (length ?d + 1) ?i = ?d"
    using sub_slice_mid [of "[42]" ?d "13 # 10 # concat (map bulk args) @ rest"] by (simp add: frame_def)
  have num: "parse_u64_bytes ?d = Some (of_nat (length args))" "unat (of_nat (length args) :: u64) = length args"
    using assms(1) by (simp_all add: parse_u64_dec unat_of_nat_64)
  have "?i = (42 # ?d @ [13, 10]) @ concat (map bulk args) @ rest" by (simp add: frame_def)
  then have "parse_args (length args) ?i (length ?d + 1 + 2) [] = Inr (Some (args, length (frame args)))"
    using parse_args_frame [of "42 # ?d @ [13, 10]" args rest "[]"] assms(2) by (simp add: frame_def)
  moreover have "frame args \<noteq> []" "?i ! 0 = 42" by (simp_all add: frame_def)
  ultimately show ?thesis
    using crlf len num assms(1) by (simp add: parse_replica_command_def MAX_REPLICA_CMD_ARGS_def)
qed

text \<open>An incomplete frame asks for more input.\<close>

lemma take_line_cases:
  assumes "k < length (x # d @ 13 # 10 # r)"
  obtains "k = 0" | t where "take k (x # d @ 13 # 10 # r) = x # t" "set t \<subseteq> set d"
  | "take k (x # d @ 13 # 10 # r) = (x # d) @ [13]"
  | j where "k = length d + 3 + j" "j < length r" "take k (x # d @ 13 # 10 # r) = (x # d) @ 13 # 10 # take j r"
proof -
  have tk: "take k (x # d @ 13 # 10 # r) = take k (x # d) @ take (k - (length d + 1)) (13 # 10 # r)"
    using take_append [of k "x # d" "13 # 10 # r"] by simp
  consider "k = 0" | "0 < k" "k \<le> length d + 1" | "k = length d + 2" | "length d + 3 \<le> k" by linarith
  then show thesis
  proof cases
    case 1
    then show ?thesis by (rule that(1))
  next
    case 2
    then obtain i where "k = Suc i" "i \<le> length d" by (cases k) auto
    then have "take k (x # d @ 13 # 10 # r) = x # take i d" unfolding tk by simp
    then show ?thesis by (rule that(2)) (rule set_take_subset)
  next
    case 3
    then have "take k (x # d @ 13 # 10 # r) = (x # d) @ [13]" unfolding tk by simp
    then show ?thesis by (rule that(3))
  next
    case 4
    then obtain j where j: "k = length d + 3 + j" using le_Suc_ex by blast
    then have "take k (x # d @ 13 # 10 # r) = (x # d) @ 13 # 10 # take j r" unfolding tk by (simp add: numeral_2_eq_2)
    moreover have "j < length r" using assms j by simp
    ultimately show ?thesis using that(4) j by blast
  qed
qed

lemma parse_bulk_cut:
  assumes "k < length (bulk a)" "length pre + length (bulk a) < 2 ^ 63"
  shows "parse_args (Suc n) (pre @ take k (bulk a)) (length pre) acc = Inr None"
proof -
  let ?d = "dec (length a)"
  have b: "bulk a = 36 # ?d @ 13 # 10 # (a @ [13, 10])" by (simp add: bulk_def)
  have k: "k < length (36 # ?d @ 13 # 10 # (a @ [13, 10]))" using assms(1) by (simp add: b)
  from k show ?thesis
  proof (cases rule: take_line_cases)
    case 1
    then show ?thesis by (simp add: parse_args.simps(2))
  next
    case (2 t)
    then have "13 \<notin> set (36 # t)" using dec_no_cr by auto
    then show ?thesis using find_crlf_none [of "36 # t"] 2 by (simp add: b nth_append parse_args.simps(2))
  next
    case 3
    have "13 \<notin> set (36 # ?d)" using dec_no_cr by auto
    then show ?thesis using find_crlf_none_cr [of "36 # ?d"] 3 by (simp add: b nth_append parse_args.simps(2))
  next
    case (4 j)
    let ?i = "pre @ take k (bulk a)"
    have i: "?i = pre @ (36 # ?d) @ 13 # 10 # take j (a @ [13, 10])" using 4(3) by (simp add: b)
    have "13 \<notin> set (36 # ?d)" using dec_no_cr by auto
    then have crlf: "find_crlf (drop (length pre) ?i) = Some (length ?d + 1)"
      using find_crlf_line [of "36 # ?d"] by (simp add: i)
    have len: "sub_slice (length pre + 1) (length pre + (length ?d + 1)) ?i = ?d"
      using sub_slice_mid [of "pre @ [36]" ?d "13 # 10 # take j (a @ [13, 10])"] by (simp add: i)
    have fa: "length a < 2 ^ 64" using assms(2) by (simp add: b)
    have num: "parse_u64_bytes ?d = Some (of_nat (length a))" "unat (of_nat (length a) :: u64) = length a"
      using fa by (simp_all only: parse_u64_dec unat_of_nat_64)
    have "length ?i < length pre + (length ?d + 1 + 2) + length a + 2" using 4(2) by (simp add: i)
    moreover have "\<not> 2 ^ 64 \<le> length pre + (length ?d + 1 + 2) + length a" using assms(2) by (simp add: b)
    moreover have "\<not> length ?i \<le> length pre" "?i ! length pre = 36" by (simp_all add: i nth_append)
    ultimately show ?thesis
      unfolding parse_args.simps by (simp only: crlf len num Let_def option.case if_False if_True simp_thms)
  qed
qed

lemma parse_args_cut:
  "k < length (concat (map bulk as)) \<Longrightarrow> length pre + length (concat (map bulk as)) < 2 ^ 63 \<Longrightarrow>
   parse_args (length as) (pre @ take k (concat (map bulk as))) (length pre) acc = Inr None"
proof (induction as arbitrary: pre acc k)
  case Nil
  then show ?case by simp
next
  case (Cons a as)
  show ?case
  proof (cases "k < length (bulk a)")
    case True
    then show ?thesis using parse_bulk_cut [of k a pre "length as" acc] Cons.prems by simp
  next
    case False
    let ?j = "k - length (bulk a)"
    have "parse_args (length (a # as)) (pre @ bulk a @ take ?j (concat (map bulk as))) (length pre) acc =
        parse_args (length as) (pre @ bulk a @ take ?j (concat (map bulk as))) (length pre + length (bulk a)) (acc @ [a])"
      using parse_args_bulk [of pre a "take ?j (concat (map bulk as))" "length as" acc] Cons.prems False by simp
    also have "\<dots> = Inr None" using Cons.IH [of ?j "pre @ bulk a" "acc @ [a]"] Cons.prems False by simp
    finally show ?thesis using False by simp
  qed
qed

lemma parse_frame_cut:
  assumes "length args \<le> 64" "length (frame args) < 2 ^ 63" "k < length (frame args)"
  shows "parse_replica_command (take k (frame args)) = Inr None"
proof -
  let ?d = "dec (length args)" and ?r = "concat (map bulk args)"
  have f: "frame args = 42 # ?d @ 13 # 10 # ?r" by (simp add: frame_def)
  have k: "k < length (42 # ?d @ 13 # 10 # ?r)" using assms(3) by (simp add: f)
  from k show ?thesis
  proof (cases rule: take_line_cases)
    case 1
    then show ?thesis by (simp add: parse_replica_command_def)
  next
    case (2 t)
    then have "13 \<notin> set (42 # t)" using dec_no_cr by auto
    then show ?thesis using find_crlf_none [of "42 # t"] 2 by (simp add: f parse_replica_command_def)
  next
    case 3
    have "13 \<notin> set (42 # ?d)" using dec_no_cr by auto
    then show ?thesis using find_crlf_none_cr [of "42 # ?d"] 3 by (simp add: f parse_replica_command_def)
  next
    case (4 j)
    let ?i = "take k (frame args)"
    have i: "?i = (42 # ?d) @ 13 # 10 # take j ?r" using 4(3) by (simp add: f)
    have "13 \<notin> set (42 # ?d)" using dec_no_cr by auto
    then have crlf: "find_crlf ?i = Some (length ?d + 1)" using find_crlf_line [of "42 # ?d"] by (simp add: i)
    have len: "sub_slice 1 (length ?d + 1) ?i = ?d"
      using sub_slice_mid [of "[42]" ?d "13 # 10 # take j ?r"] by (simp add: i)
    have num: "parse_u64_bytes ?d = Some (of_nat (length args))" "unat (of_nat (length args) :: u64) = length args"
      using assms(1) by (simp_all add: parse_u64_dec unat_of_nat_64)
    have "?i = (42 # ?d @ [13, 10]) @ take j ?r" by (simp add: i)
    then have "parse_args (length args) ?i (length ?d + 1 + 2) [] = Inr None"
      using parse_args_cut [of j args "42 # ?d @ [13, 10]" "[]"] 4(2) assms(2) by (simp add: f)
    moreover have "?i \<noteq> []" "?i ! 0 = 42" by (simp_all add: i)
    ultimately show ?thesis
      using crlf len num assms(1) by (simp del: take_eq_Nil take_eq_Nil2 add: parse_replica_command_def MAX_REPLICA_CMD_ARGS_def)
  qed
qed

section \<open>Commands are read back\<close>

lemma kw_digits: "dec 1 = [49]" "dec 2 = [50]" "dec 3 = [51]" "dec 4 = [52]" "dec 5 = [53]" "dec 6 = [54]"
  "dec 8 = [56]" "dec 10 = [49, 48]" "dec 14 = [49, 52]" "dec 40 = [52, 48]"
  by (simp_all add: dec_step [of "Suc 0"] dec_step [of 2] dec_step [of 3] dec_step [of 4] dec_step [of 5]
      dec_step [of 6] dec_step [of 8] dec_step [of 10] dec_step [of 14] dec_step [of 40] dec_step [of 0])

lemmas kw_simps = eq_ignore_case_u8_def bstr_def lower_u8_def

lemma kw_neq [simp]:
  "\<not> eq_ignore_case_u8 (bstr ''AUTH'') (bstr ''PING'')"
  "\<not> eq_ignore_case_u8 (bstr ''REPLCONF'') (bstr ''PING'')" "\<not> eq_ignore_case_u8 (bstr ''REPLCONF'') (bstr ''AUTH'')"
  "\<not> eq_ignore_case_u8 (bstr ''PSYNC'') (bstr ''PING'')" "\<not> eq_ignore_case_u8 (bstr ''PSYNC'') (bstr ''AUTH'')"
  "\<not> eq_ignore_case_u8 (bstr ''PSYNC'') (bstr ''REPLCONF'')"
  "\<not> eq_ignore_case_u8 (bstr ''ip-address'') (bstr ''listening-port'')"
  "\<not> eq_ignore_case_u8 (bstr ''capa'') (bstr ''listening-port'')" "\<not> eq_ignore_case_u8 (bstr ''capa'') (bstr ''ip-address'')"
  "\<not> eq_ignore_case_u8 (bstr ''ACK'') (bstr ''listening-port'')" "\<not> eq_ignore_case_u8 (bstr ''ACK'') (bstr ''ip-address'')"
  "\<not> eq_ignore_case_u8 (bstr ''ACK'') (bstr ''capa'')" "eq_ignore_case_u8 (bstr ''ACK'') (bstr ''ack'')"
  "\<not> eq_ignore_case_u8 (bstr ''GETACK'') (bstr ''listening-port'')" "\<not> eq_ignore_case_u8 (bstr ''GETACK'') (bstr ''ip-address'')"
  "\<not> eq_ignore_case_u8 (bstr ''GETACK'') (bstr ''capa'')" "\<not> eq_ignore_case_u8 (bstr ''GETACK'') (bstr ''ack'')"
  "eq_ignore_case_u8 (bstr ''GETACK'') (bstr ''getack'')"
  by (simp_all add: kw_simps)

lemma encoders_are_frames:
  "encode_ping = frame [bstr ''PING'']"
  "encode_auth pwd = frame [bstr ''AUTH'', pwd]"
  "encode_replconf_port port = frame [bstr ''REPLCONF'', bstr ''listening-port'', dec (unat port)]"
  "encode_replconf_ip ip = frame [bstr ''REPLCONF'', bstr ''ip-address'', ip]"
  "encode_replconf_capa capas = frame (bstr ''REPLCONF'' # concat (map (\<lambda>c. [bstr ''capa'', c]) capas))"
  "encode_replconf_ack off = frame [bstr ''REPLCONF'', bstr ''ACK'', dec (unat off)]"
  "encode_replconf_getack = frame [bstr ''REPLCONF'', bstr ''GETACK'', bstr ''*'']"
  "length rid = 40 \<Longrightarrow> encode_psync rid i = frame [bstr ''PSYNC'', rid, dec_int i]"
proof -
  note defs = frame_def bulk_def crlf_def bstr_def Let_def eval_nat_numeral
  show "encode_ping = frame [bstr ''PING'']"
    using kw_digits by (simp add: encode_ping_def PING_FRAME_def defs)
  show "encode_auth pwd = frame [bstr ''AUTH'', pwd]"
    using kw_digits by (simp add: encode_auth_def defs)
  show "encode_replconf_port port = frame [bstr ''REPLCONF'', bstr ''listening-port'', dec (unat port)]"
    using kw_digits by (simp add: encode_replconf_port_def defs)
  show "encode_replconf_ip ip = frame [bstr ''REPLCONF'', bstr ''ip-address'', ip]"
    using kw_digits by (simp add: encode_replconf_ip_def defs)
  show "encode_replconf_ack off = frame [bstr ''REPLCONF'', bstr ''ACK'', dec (unat off)]"
    using kw_digits by (simp add: encode_replconf_ack_def defs)
  show "encode_replconf_getack = frame [bstr ''REPLCONF'', bstr ''GETACK'', bstr ''*'']"
    using kw_digits by (simp add: encode_replconf_getack_def REPLCONF_GETACK_FRAME_def defs)
  show "length rid = 40 \<Longrightarrow> encode_psync rid i = frame [bstr ''PSYNC'', rid, dec_int i]"
    using kw_digits by (simp add: encode_psync_def defs)
  have len: "length (concat (map (\<lambda>c. [bstr ''capa'', c]) capas)) = length capas * 2"
    by (induction capas) simp_all
  have "concat (map bulk (concat (map (\<lambda>c. [bstr ''capa'', c]) capas))) =
      concat (map (\<lambda>capa. bstr ''$4'' @ crlf @ bstr ''capa'' @ crlf @ bstr ''$'' @ dec (length capa) @ crlf @
        capa @ crlf) capas)"
    using kw_digits by (induction capas) (simp_all add: bulk_def crlf_def bstr_def eval_nat_numeral)
  moreover have "bulk (bstr ''REPLCONF'') = bstr ''$8'' @ crlf @ bstr ''REPLCONF'' @ crlf"
    using kw_digits by (simp add: bulk_def crlf_def bstr_def eval_nat_numeral)
  ultimately show "encode_replconf_capa capas = frame (bstr ''REPLCONF'' # concat (map (\<lambda>c. [bstr ''capa'', c]) capas))"
    by (simp add: encode_replconf_capa_def frame_def len Let_def crlf_def) (simp add: bstr_def)
qed

lemma parse_capas_pairs:
  "\<forall>c \<in> set capas. from_utf8 c = Some c \<Longrightarrow> parse_capas (concat (map (\<lambda>c. [bstr ''capa'', c]) capas)) = Inr capas"
  by (induction capas) auto

text \<open>
  Reading a command from the front of any input that starts with its encoding, and asking for
  more on every proper prefix.
\<close>

definition decodes_as :: "bytes \<Rightarrow> ReplicaCommand \<Rightarrow> bool" where
  "decodes_as enc cmd \<longleftrightarrow> length enc < 2 ^ 63 \<and>
     (\<forall>rest. length (enc @ rest) < 2 ^ 63 \<longrightarrow> parse_replica_command (enc @ rest) = Inr (Some (cmd, length enc))) \<and>
     (\<forall>k < length enc. parse_replica_command (take k enc) = Inr None)"

lemma decodes_frame:
  assumes "length args \<le> 64" "length (frame args) < 2 ^ 63"
    "parse_command_args args (length (frame args)) = Inr (Some (cmd, length (frame args)))"
  shows "decodes_as (frame args) cmd"
  unfolding decodes_as_def using assms parse_frame parse_frame_cut by auto

lemma parse_command_cases:
  "parse_command_args [bstr ''PING''] n = Inr (Some (Ping, n))"
  "from_utf8 pwd = Some pwd \<Longrightarrow> parse_command_args [bstr ''AUTH'', pwd] n = Inr (Some (Auth pwd, n))"
  "parse_command_args [bstr ''REPLCONF'', bstr ''listening-port'', dec (unat port)] n =
     Inr (Some (ReplConf (ListeningPort port), n))"
  "from_utf8 ip = Some ip \<Longrightarrow>
     parse_command_args [bstr ''REPLCONF'', bstr ''ip-address'', ip] n = Inr (Some (ReplConf (IpAddress ip), n))"
  "capas \<noteq> [] \<Longrightarrow> \<forall>c \<in> set capas. from_utf8 c = Some c \<Longrightarrow>
     parse_command_args (bstr ''REPLCONF'' # concat (map (\<lambda>c. [bstr ''capa'', c]) capas)) n =
     Inr (Some (ReplConf (Capa capas), n))"
  "parse_command_args [bstr ''REPLCONF'', bstr ''ACK'', dec (unat off)] n = Inr (Some (ReplConf (Ack off), n))"
  "parse_command_args [bstr ''REPLCONF'', bstr ''GETACK'', bstr ''*''] n = Inr (Some (ReplConf GetAck, n))"
  "replid_ok rid \<Longrightarrow> i64_min \<le> i \<Longrightarrow> i \<le> i64_max \<Longrightarrow>
     parse_command_args [bstr ''PSYNC'', rid, dec_int i] n = Inr (Some (Psync rid i, n))"
proof -
  show "parse_command_args [bstr ''PING''] n = Inr (Some (Ping, n))"
    by (simp add: parse_command_args_def)
  show "from_utf8 pwd = Some pwd \<Longrightarrow> parse_command_args [bstr ''AUTH'', pwd] n = Inr (Some (Auth pwd, n))"
    by (simp add: parse_command_args_def)
  show "parse_command_args [bstr ''REPLCONF'', bstr ''listening-port'', dec (unat port)] n =
     Inr (Some (ReplConf (ListeningPort port), n))"
    by (simp add: parse_command_args_def parse_replconf_def parse_u16_dec)
  show "from_utf8 ip = Some ip \<Longrightarrow>
     parse_command_args [bstr ''REPLCONF'', bstr ''ip-address'', ip] n = Inr (Some (ReplConf (IpAddress ip), n))"
    by (simp add: parse_command_args_def parse_replconf_def)
  show "parse_command_args [bstr ''REPLCONF'', bstr ''ACK'', dec (unat off)] n = Inr (Some (ReplConf (Ack off), n))"
    by (simp add: parse_command_args_def parse_replconf_def parse_u64_dec_unat)
  show "parse_command_args [bstr ''REPLCONF'', bstr ''GETACK'', bstr ''*''] n = Inr (Some (ReplConf GetAck, n))"
    by (simp add: parse_command_args_def parse_replconf_def)
  {
    assume c: "capas \<noteq> []" "\<forall>c \<in> set capas. from_utf8 c = Some c"
    obtain a as where as: "concat (map (\<lambda>c. [bstr ''capa'', c]) capas) = bstr ''capa'' # a # as"
      using c(1) by (cases capas) auto
    have "parse_capas (bstr ''capa'' # a # as) = Inr capas" using parse_capas_pairs [OF c(2)] as by simp
    then show "parse_command_args (bstr ''REPLCONF'' # concat (map (\<lambda>c. [bstr ''capa'', c]) capas)) n =
        Inr (Some (ReplConf (Capa capas), n))"
      unfolding as by (simp del: parse_capas.simps add: parse_command_args_def parse_replconf_def)
  }
  {
    assume r: "replid_ok rid" "i64_min \<le> i" "i \<le> i64_max"
    have q: "rid = replicate 40 63" if "rid = [63] \<or> list_all (\<lambda>b. b = 63) rid"
      using that r(1) by (auto simp: replid_ok_def list_all_iff intro: replicate_eqI)
    then show "parse_command_args [bstr ''PSYNC'', rid, dec_int i] n = Inr (Some (Psync rid i, n))"
      using parse_i64_dec [OF r(2,3)] ReplId_from_bytes_id [OF r(1)]
      by (auto simp: parse_command_args_def Let_def ReplId_question_mark_def REPL_ID_LEN_def)
  }
qed

lemma length_dec_u64: "n < 2 ^ 64 \<Longrightarrow> length (dec n) \<le> 20"
proof -
  have "length (dec n) \<le> k" if "0 < k" "n < 10 ^ k" for k n
    using that
  proof (induction k arbitrary: n)
    case (Suc k)
    show ?case
    proof (cases "n < 10")
      case True
      then show ?thesis by (subst dec_step) simp
    next
      case False
      then have "0 < k" using Suc.prems by (cases k) auto
      moreover have "n div 10 < 10 ^ k" using Suc.prems(2) by (simp add: div_less_iff_less_mult mult.commute)
      ultimately have "length (dec (n div 10)) \<le> k" by (rule Suc.IH)
      then show ?thesis using False by (subst dec_step) simp
    qed
  qed simp
  from this [of 20 n] show "n < 2 ^ 64 \<Longrightarrow> ?thesis" by simp
qed

lemma length_frame_small:
  assumes "length args \<le> 64" "sum_list (map length args) < 2 ^ 62 + 1000"
  shows "length (frame args) < 2 ^ 63"
proof -
  have a: "length a \<le> sum_list (map length args)" if "a \<in> set args" for a
    using that by (intro member_le_sum_list) auto
  have "length (bulk a) \<le> length a + 25" if "a \<in> set args" for a
  proof -
    have "length a < 2 ^ 64" using a [OF that] assms(2) by simp
    then show ?thesis using length_dec_u64 [of "length a"] by (simp add: length_bulk)
  qed
  then have "sum_list (map (\<lambda>a. length (bulk a)) args) \<le> sum_list (map (\<lambda>a. length a + 25) args)"
    by (intro sum_list_mono) auto
  also have "\<dots> = sum_list (map length args) + 25 * length args" by (induction args) auto
  finally have "length (concat (map bulk args)) \<le> sum_list (map length args) + 25 * length args"
    by (simp add: length_concat comp_def)
  moreover have "length (dec (length args)) \<le> 20" using assms(1) by (intro length_dec_u64) simp
  ultimately show ?thesis using assms by (simp add: frame_def)
qed

lemma commands_decode:
  assumes pwd: "from_utf8 pwd = Some pwd" "length pwd < 2 ^ 62" and ip: "from_utf8 ip = Some ip" "length ip < 2 ^ 62"
    and rid: "replid_ok rid" and i: "i64_min \<le> i" "i \<le> i64_max"
  shows "decodes_as encode_ping Ping" and "decodes_as (encode_auth pwd) (Auth pwd)"
    and "decodes_as (encode_replconf_port port) (ReplConf (ListeningPort port))"
    and "decodes_as (encode_replconf_ip ip) (ReplConf (IpAddress ip))"
    and "decodes_as (encode_replconf_capa [bstr ''eof'', bstr ''psync2'']) (ReplConf (Capa [bstr ''eof'', bstr ''psync2'']))"
    and "decodes_as (encode_replconf_ack off) (ReplConf (Ack off))"
    and "decodes_as encode_replconf_getack (ReplConf GetAck)"
    and "decodes_as (encode_psync rid i) (Psync rid i)"
proof -
  have l40: "length rid = 40" using rid by (simp add: replid_ok_def)
  have d20: "length (dec n) \<le> 20" if "n < 2 ^ 64" for n using that by (rule length_dec_u64)
  have u: "unat (x :: u64) < 2 ^ 64" "unat (y :: u16) < 2 ^ 64" for x y
    using unsigned_less [of x, where 'a = nat] unat_u16_less [of y] by simp_all
  have di: "length (dec_int i) \<le> 21"
    using d20 [of "nat i"] d20 [of "nat (- i)"] i by (auto simp: dec_int_eq i64_min_def i64_max_def nat_less_iff)
  have capas: "\<forall>c \<in> set [bstr ''eof'', bstr ''psync2'']. from_utf8 c = Some c"
    by (auto simp: bstr_def intro!: from_utf8_ascii)
  have capa: "concat (map (\<lambda>c. [bstr ''capa'', c]) [bstr ''eof'', bstr ''psync2'']) =
      [bstr ''capa'', bstr ''eof'', bstr ''capa'', bstr ''psync2'']" by simp
  show "decodes_as encode_ping Ping"
    unfolding encoders_are_frames by (intro decodes_frame length_frame_small parse_command_cases) auto
  show "decodes_as (encode_auth pwd) (Auth pwd)"
    unfolding encoders_are_frames using pwd by (intro decodes_frame length_frame_small parse_command_cases) auto
  show "decodes_as (encode_replconf_port port) (ReplConf (ListeningPort port))"
    unfolding encoders_are_frames using d20 [OF u(2), of port]
    by (intro decodes_frame length_frame_small parse_command_cases) (auto intro: le_less_trans)
  show "decodes_as (encode_replconf_ip ip) (ReplConf (IpAddress ip))"
    unfolding encoders_are_frames using ip by (intro decodes_frame length_frame_small parse_command_cases) auto
  show "decodes_as (encode_replconf_capa [bstr ''eof'', bstr ''psync2'']) (ReplConf (Capa [bstr ''eof'', bstr ''psync2'']))"
    using capas unfolding encoders_are_frames
    by (intro decodes_frame length_frame_small parse_command_cases(5)) (simp_all add: capa)
  show "decodes_as (encode_replconf_ack off) (ReplConf (Ack off))"
    unfolding encoders_are_frames using d20 [OF u(1), of off]
    by (intro decodes_frame length_frame_small parse_command_cases) (auto intro: le_less_trans)
  show "decodes_as encode_replconf_getack (ReplConf GetAck)"
    unfolding encoders_are_frames by (intro decodes_frame length_frame_small parse_command_cases) auto
  show "decodes_as (encode_psync rid i) (Psync rid i)"
    unfolding encoders_are_frames(8) [OF l40] using di l40 parse_command_cases(8) [OF rid i]
    by (intro decodes_frame length_frame_small) (auto intro: le_less_trans)
qed

text \<open>
  C21: Every command a replica sends is read back by the primary: from the front of any input that
  starts with the encoding, whatever has arrived after it, and consuming exactly its bytes; on
  every proper prefix the parser asks for more input instead of failing.  The strings must be
  text, the id well-formed and the offset an \<open>i64\<close>.
\<close>

theorem replica_commands_roundtrip:
  assumes pwd: "from_utf8 pwd = Some pwd" "length pwd < 2 ^ 62" and ip: "from_utf8 ip = Some ip" "length ip < 2 ^ 62"
    and rid: "replid_ok rid" and i: "i64_min \<le> i" "i \<le> i64_max"
  shows "decodes_as encode_ping Ping \<and> decodes_as (encode_auth pwd) (Auth pwd) \<and>
    decodes_as (encode_replconf_port port) (ReplConf (ListeningPort port)) \<and>
    decodes_as (encode_replconf_ip ip) (ReplConf (IpAddress ip)) \<and>
    decodes_as (encode_replconf_capa [bstr ''eof'', bstr ''psync2'']) (ReplConf (Capa [bstr ''eof'', bstr ''psync2''])) \<and>
    decodes_as (encode_replconf_ack off) (ReplConf (Ack off)) \<and>
    decodes_as encode_replconf_getack (ReplConf GetAck) \<and>
    decodes_as (encode_psync rid i) (Psync rid i)"
  using commands_decode [OF assms] by blast

theorem replica_commands_roundtrip_witness:
  "parse_replica_command (encode_psync ReplId_question_mark (- 1)) = Inr (Some (Psync ReplId_question_mark (- 1), 70))"
proof -
  have "replid_ok ReplId_question_mark" by (simp add: replid_ok_def ReplId_question_mark_def REPL_ID_LEN_def)
  moreover have "from_utf8 [] = Some ([] :: bytes)" by (simp add: from_utf8_ascii)
  ultimately have d: "decodes_as (encode_psync ReplId_question_mark (- 1)) (Psync ReplId_question_mark (- 1))"
    using replica_commands_roundtrip [of "[]" "[]" ReplId_question_mark "- 1"] by (simp add: i64_min_def i64_max_def)
  have "dec_int (- 1) = [45, 49]" using kw_digits by (simp add: dec_int_eq)
  then have "length (encode_psync ReplId_question_mark (- 1)) = 70"
    using kw_digits by (simp add: encode_psync_def crlf_def bstr_def ReplId_question_mark_def REPL_ID_LEN_def Let_def eval_nat_numeral)
  with d show ?thesis unfolding decodes_as_def
    by (auto dest!: spec [where x = "[]"])
qed

section \<open>Responses are read back\<close>

definition response_decodes_as :: "bytes \<Rightarrow> MasterResponse \<Rightarrow> bool" where
  "response_decodes_as enc resp \<longleftrightarrow>
     (\<forall>rest. parse_master_response (enc @ rest) = Inr (Some (resp, length enc))) \<and>
     (\<forall>k < length enc. parse_master_response (take k enc) = Inr None)"

lemma parse_status_line:
  assumes "13 \<notin> set body" "\<forall>b \<in> set body. b < 0x80"
  shows "parse_master_response ((43 # body) @ 13 # 10 # rest) =
    parse_status (split_whitespace (trim_chars (map (\<lambda>b. [b]) body))) (length body + 3)"
proof -
  have "find_crlf ((43 # body) @ 13 # 10 # rest) = Some (length (43 # body))"
    using assms(1) by (intro find_crlf_line) auto
  then show ?thesis
    using utf8_chars_ascii [OF assms(2)] by (simp add: parse_master_response_def Let_def numeral_3_eq_3)
qed

lemma parse_status_cut:
  assumes "13 \<notin> set body" "k < length body + 3"
  shows "parse_master_response (take k ((43 # body) @ [13, 10])) = Inr None"
proof -
  have k: "k < length (43 # body @ 13 # 10 # [])" using assms(2) by simp
  from k show ?thesis
  proof (cases rule: take_line_cases)
    case 1
    then show ?thesis by (simp add: parse_master_response_def)
  next
    case (2 t)
    then have "13 \<notin> set (43 # t)" using assms(1) by auto
    then show ?thesis using 2 find_crlf_none [of "43 # t"] by (simp add: parse_master_response_def)
  next
    case 3
    have "13 \<notin> set (43 # body)" using assms(1) by auto
    then show ?thesis using 3 find_crlf_none_cr [of "43 # body"] by (simp add: parse_master_response_def)
  next
    case (4 j)
    then show ?thesis by simp
  qed
qed

lemma response_status:
  assumes "13 \<notin> set body" "\<forall>b \<in> set body. b < 0x80"
    "parse_status (split_whitespace (trim_chars (map (\<lambda>b. [b]) body))) (length body + 3) =
      Inr (Some (resp, length body + 3))"
  shows "response_decodes_as ((43 # body) @ [13, 10]) resp"
  unfolding response_decodes_as_def
  using parse_status_line [OF assms(1,2)] parse_status_cut [OF assms(1)] assms(3) by auto

lemma trim_chars_solid:
  "cs \<noteq> [] \<Longrightarrow> \<not> is_whitespace (hd cs) \<Longrightarrow> \<not> is_whitespace (last cs) \<Longrightarrow> trim_chars cs = cs"
proof -
  assume a: "cs \<noteq> []" "\<not> is_whitespace (hd cs)" "\<not> is_whitespace (last cs)"
  have fst: "dropWhile is_whitespace cs = cs" using a by (cases cs) auto
  moreover have "dropWhile is_whitespace (rev cs) = rev cs" using a by (cases cs rule: rev_cases) auto
  ultimately show ?thesis by (simp add: trim_chars_def)
qed

definition solid :: "bytes \<Rightarrow> bool" where
  "solid w \<longleftrightarrow> w \<noteq> [] \<and> (\<forall>b \<in> set w. \<not> is_whitespace [b] \<and> b < 0x80 \<and> b \<noteq> 13)"

lemma solid_words:
  assumes "solid a"
  shows "split_whitespace (trim_chars (map (\<lambda>b. [b]) a)) = [a]"
    and "solid b \<Longrightarrow> split_whitespace (trim_chars (map (\<lambda>b. [b]) (a @ 32 # b))) = [a, b]"
    and "solid b \<Longrightarrow> solid c \<Longrightarrow>
      split_whitespace (trim_chars (map (\<lambda>b. [b]) (a @ 32 # b @ 32 # c))) = [a, b, c]"
proof -
  have sp: "is_whitespace [32]" by (simp add: is_whitespace_def)
  have ends: "trim_chars (map (\<lambda>b. [b]) l) = map (\<lambda>b. [b]) l"
    if "l \<noteq> []" "\<not> is_whitespace [hd l]" "\<not> is_whitespace [last l]" for l
    using that by (intro trim_chars_solid) (simp_all add: hd_map last_map)
  have w: "split_words (map (\<lambda>b. [b]) w @ cs) [] = split_words cs w" if "solid w" for w cs
    using split_words_solid [of w cs "[]"] that by (simp add: solid_def)
  have w1: "split_words (map (\<lambda>b. [b]) w) [] = [w]" if "solid w" for w
    using w [OF that, of "[]"] that by (simp add: solid_def)
  have hl: "\<not> is_whitespace [hd w]" "\<not> is_whitespace [last w]" "w \<noteq> []" if "solid w" for w
    using that by (auto simp: solid_def)
  show "split_whitespace (trim_chars (map (\<lambda>b. [b]) a)) = [a]"
    using hl [OF assms] ends [of a] w1 [OF assms] by (simp add: split_whitespace_def)
  show "split_whitespace (trim_chars (map (\<lambda>b. [b]) (a @ 32 # b))) = [a, b]" if "solid b"
    using hl [OF assms] hl [OF that] ends [of "a @ 32 # b"] w [OF assms] w1 [OF that] sp
    by (simp add: split_whitespace_def)
  show "split_whitespace (trim_chars (map (\<lambda>b. [b]) (a @ 32 # b @ 32 # c))) = [a, b, c]" if "solid b" "solid c"
    using hl [OF assms] hl [OF that(1)] hl [OF that(2)] ends [of "a @ 32 # b @ 32 # c"] w [OF assms] w [OF that(1)]
      w1 [OF that(2)] sp
    by (simp add: split_whitespace_def)
qed

lemma solid_dec: "solid (dec n)"
  using dec_digits [of _ n] digit_not_space dec_no_cr [of n] by (auto simp: solid_def)

lemma solid_replid: "replid_ok r \<Longrightarrow> solid r"
proof -
  have "\<not> is_whitespace [b] \<and> b < 0x80 \<and> b \<noteq> 13" if "is_ascii_hexdigit_u8 b \<or> b = 63" for b
    using that by (auto simp: is_ascii_hexdigit_u8_def is_whitespace_def word_le_nat_alt word_less_nat_alt)
  then show "replid_ok r \<Longrightarrow> solid r" by (fastforce simp: solid_def replid_ok_def)
qed

lemma solid_keywords: "solid (bstr ''PONG'')" "solid (bstr ''OK'')" "solid (bstr ''CONTINUE'')" "solid (bstr ''FULLRESYNC'')"
  by (simp_all add: solid_def bstr_def is_whitespace_def)

lemma response_kw_neq [simp]:
  "\<not> eq_ignore_case_u8 (bstr ''OK'') (bstr ''PONG'')"
  "\<not> eq_ignore_case_u8 (bstr ''CONTINUE'') (bstr ''PONG'')" "\<not> eq_ignore_case_u8 (bstr ''CONTINUE'') (bstr ''OK'')"
  "\<not> eq_ignore_case_u8 (bstr ''FULLRESYNC'') (bstr ''PONG'')" "\<not> eq_ignore_case_u8 (bstr ''FULLRESYNC'') (bstr ''OK'')"
  "\<not> eq_ignore_case_u8 (bstr ''FULLRESYNC'') (bstr ''CONTINUE'')"
  by (simp_all add: kw_simps)

lemma responses_roundtrip:
  "response_decodes_as encode_pong Pong" "response_decodes_as encode_ok MOk"
  "replid_ok r \<Longrightarrow> response_decodes_as (encode_continue r) (MContinue r)"
  "replid_ok r \<Longrightarrow> response_decodes_as (encode_fullresync r off) (MFullResync r off)"
proof -
  have line: "response_decodes_as ((43 # body) @ [13, 10]) resp"
    if "\<forall>b \<in> set body. b = 32 \<or> b < 0x80 \<and> b \<noteq> 13"
      "split_whitespace (trim_chars (map (\<lambda>b. [b]) body)) = ws"
      "\<And>n. parse_status ws n = Inr (Some (resp, n))" for body resp ws
    using that by (intro response_status) auto
  have "response_decodes_as ((43 # bstr ''PONG'') @ [13, 10]) Pong"
    using solid_keywords by (intro line [OF _ solid_words(1)]) (auto simp: solid_def parse_status_def)
  then show "response_decodes_as encode_pong Pong"
    by (simp add: encode_pong_def PONG_FRAME_def bstr_def crlf_def)
  have "response_decodes_as ((43 # bstr ''OK'') @ [13, 10]) MOk"
    using solid_keywords by (intro line [OF _ solid_words(1)]) (auto simp: solid_def parse_status_def)
  then show "response_decodes_as encode_ok MOk"
    by (simp add: encode_ok_def OK_FRAME_def bstr_def crlf_def)
  assume r: "replid_ok r"
  note sr = solid_replid [OF r] and idr = ReplId_from_bytes_id [OF r]
  have "response_decodes_as ((43 # bstr ''CONTINUE'' @ 32 # r) @ [13, 10]) (MContinue r)"
    using sr solid_keywords(3) idr
    by (intro line [OF _ solid_words(2) [OF solid_keywords(3) sr]])
      (auto simp: solid_def parse_status_def ReplId_from_str_val_def)
  then show "response_decodes_as (encode_continue r) (MContinue r)"
    by (simp add: encode_continue_def bstr_def crlf_def)
  have "response_decodes_as ((43 # bstr ''FULLRESYNC'' @ 32 # r @ 32 # dec (unat off)) @ [13, 10]) (MFullResync r off)"
    using sr solid_keywords(4) solid_dec [of "unat off"] idr
    by (intro line [OF _ solid_words(3) [OF solid_keywords(4) sr solid_dec]])
      (auto simp: solid_def parse_status_def ReplId_from_str_val_def parse_u64_dec_unat)
  then show "response_decodes_as (encode_fullresync r off) (MFullResync r off)"
    by (simp add: encode_fullresync_def bstr_def crlf_def)
qed

end
