(* ===== verification/Repl_Handshake.thy ===== *)
theory Repl_Handshake
  imports Repl_Protocol
begin

text \<open>
  The replication handshake: the driver and the connection loop of \<open>wedb_repl/src/client.rs\<close> on the
  replica's side, the replies to replication commands of \<open>wedb_server/src/lib.rs\<close> on the primary's,
  and the proof that the two run to completion and agree.
\<close>

section \<open>The handshake\<close>

datatype HandshakeStep = Initial | PingDone | AuthDone | PortDone | IpDone | CapaDone | Established

record HandshakeDriver =
  hd_step :: HandshakeStep
  hd_listening_port :: u16
  hd_ip_address :: bytes
  hd_auth_password :: "bytes option"
  hd_replid :: ReplId
  hd_offset :: int

definition driver_new :: "u16 \<Rightarrow> bytes \<Rightarrow> bytes option \<Rightarrow> ReplId \<Rightarrow> int \<Rightarrow> HandshakeDriver" where
  "driver_new port ip pwd replid offset =
     \<lparr> hd_step = Initial, hd_listening_port = port, hd_ip_address = ip, hd_auth_password = pwd,
       hd_replid = replid, hd_offset = offset \<rparr>"

definition driver_reset :: "HandshakeDriver \<Rightarrow> HandshakeDriver" where
  "driver_reset d = d\<lparr> hd_step := Initial \<rparr>"

definition next_command :: "HandshakeDriver \<Rightarrow> ReplError + bytes" where
  "next_command d =
     (case hd_step d of
        Initial \<Rightarrow> Inr encode_ping
      | PingDone \<Rightarrow> (case hd_auth_password d of
           Some pwd \<Rightarrow> Inr (encode_auth pwd) | None \<Rightarrow> Inr (encode_replconf_port (hd_listening_port d)))
      | AuthDone \<Rightarrow> Inr (encode_replconf_port (hd_listening_port d))
      | PortDone \<Rightarrow> Inr (encode_replconf_ip (hd_ip_address d))
      | IpDone \<Rightarrow> Inr (encode_replconf_capa [bstr ''eof'', bstr ''psync2''])
      | CapaDone \<Rightarrow> Inr (encode_psync (hd_replid d) (hd_offset d))
      | Established \<Rightarrow> Inl (HandshakeFailed ''finished'' []))"

text \<open>\<open>str::contains\<close>.\<close>

fun contains_slice :: "bytes \<Rightarrow> bytes \<Rightarrow> bool" where
  "contains_slice [] w = (w = [])"
| "contains_slice (b # bs) w = (take (length w) (b # bs) = w \<or> contains_slice bs w)"

definition stage_err :: "string \<Rightarrow> bytes \<Rightarrow> ReplError" where
  "stage_err stage msg = HandshakeFailed stage msg"

definition advance :: "HandshakeDriver \<Rightarrow> HandshakeStep \<Rightarrow> HandshakeDriver \<times> (ReplError + HandshakeStep)" where
  "advance d nxt = (d\<lparr> hd_step := nxt \<rparr>, Inr nxt)"

definition expect_ok ::
  "HandshakeDriver \<Rightarrow> MasterResponse \<Rightarrow> string \<Rightarrow> HandshakeStep \<Rightarrow> HandshakeDriver \<times> (ReplError + HandshakeStep)" where
  "expect_ok d resp stage nxt =
     (case resp of
        MOk \<Rightarrow> advance d nxt
      | MError msg \<Rightarrow> (d, Inl (stage_err stage msg))
      | _ \<Rightarrow> (d, Inl (HandshakeFailed stage [])))"

definition feed_response :: "HandshakeDriver \<Rightarrow> MasterResponse \<Rightarrow> HandshakeDriver \<times> (ReplError + HandshakeStep)" where
  "feed_response d resp =
     (case hd_step d of
        Initial \<Rightarrow>
          (case resp of
             Pong \<Rightarrow> let nxt = (if hd_auth_password d \<noteq> None then PingDone else AuthDone)
                     in (d\<lparr> hd_step := nxt \<rparr>, Inr nxt)
           | MError msg \<Rightarrow>
               if contains_slice msg (bstr ''NOAUTH'') \<and> hd_auth_password d \<noteq> None
               then (d\<lparr> hd_step := PingDone \<rparr>, Inr PingDone)
               else (d, Inl (stage_err ''ping'' msg))
           | _ \<Rightarrow> (d, Inl (HandshakeFailed ''ping'' [])))
      | PingDone \<Rightarrow>
          (case resp of
             MOk \<Rightarrow> advance d AuthDone
           | MError msg \<Rightarrow> (d, Inl (AuthFailed msg))
           | _ \<Rightarrow> (d, Inl (HandshakeFailed ''auth'' [])))
      | AuthDone \<Rightarrow> expect_ok d resp ''port'' PortDone
      | PortDone \<Rightarrow> expect_ok d resp ''ip'' IpDone
      | IpDone \<Rightarrow> expect_ok d resp ''capa'' CapaDone
      | CapaDone \<Rightarrow>
          (case resp of
             MContinue _ \<Rightarrow> advance d Established
           | MFullResync _ _ \<Rightarrow> advance d Established
           | MError msg \<Rightarrow> (d, Inl (stage_err ''sync'' msg))
           | _ \<Rightarrow> (d, Inl (HandshakeFailed ''sync'' [])))
      | Established \<Rightarrow> (d, Inr Established))"

text \<open>
  The reply of the server to a replication command.  \<open>err_text\<close> is the display of an error.
\<close>

definition replica_command_reply ::
  "(ReplError \<Rightarrow> bytes) \<Rightarrow> ReplicationManager \<Rightarrow> u64 \<Rightarrow> u64 \<Rightarrow> ReplicaCommand \<Rightarrow> bytes" where
  "replica_command_reply err_text m wal_begin wal_tail rep_cmd =
     (case rep_cmd of
        ReplConf _ \<Rightarrow> bstr ''+OK'' @ crlf
      | Psync replid offset \<Rightarrow>
          (case handle_psync m replid offset wal_begin wal_tail of
             Inr (PartialResync rid start_offset) \<Rightarrow>
               bstr ''+CONTINUE '' @ rid @ crlf @
               (case slices (rm_backlog m) start_offset (2 ^ 64 - 1) of (s1, s2) \<Rightarrow> s1 @ s2)
           | Inr (FullResync rid snapshot_offset) \<Rightarrow>
               bstr ''+FULLRESYNC '' @ rid @ bstr '' '' @ dec (unat snapshot_offset) @ crlf
           | Inl e \<Rightarrow> bstr ''-ERR '' @ err_text e @ crlf)
      | Ping \<Rightarrow> bstr ''+PONG'' @ crlf
      | Auth _ \<Rightarrow> bstr ''+OK'' @ crlf)"


definition serve_replica :: "(ReplError \<Rightarrow> bytes) \<Rightarrow> ReplicationManager \<Rightarrow> u64 \<Rightarrow> u64 \<Rightarrow> bytes \<Rightarrow> bytes" where
  "serve_replica err_text m wal_begin wal_tail input =
     (case parse_replica_command input of
        Inr (Some (rep_cmd, _)) \<Rightarrow> replica_command_reply err_text m wal_begin wal_tail rep_cmd
      | _ \<Rightarrow> [])"

text \<open>
  The replica's side: the loop of \<open>connect_and_handshake\<close>, with the connection as the function that
  gives the bytes the primary answers a command with.  The fuel counts the exchanges and \<open>None\<close> is
  its exhaustion; an answer that is not a whole frame is a closed connection.  The bytes left in
  the buffer, which the replica replays after a continuation, are part of the result.
\<close>

fun handshake_loop ::
  "nat \<Rightarrow> (bytes \<Rightarrow> bytes) \<Rightarrow> HandshakeDriver \<Rightarrow> ReplicationManager \<Rightarrow> SyncDecision option \<Rightarrow> bytes \<Rightarrow>
   (ReplicationManager \<times> (ReplError + SyncDecision option \<times> bytes)) option" where
  "handshake_loop 0 serve d m decision recv_buf = None"
| "handshake_loop (Suc fuel) serve d m decision recv_buf =
     (if hd_step d = Established then Some (m, Inr (decision, recv_buf))
      else case next_command d of
        Inl e \<Rightarrow> Some (m, Inl e)
      | Inr cmd_bytes \<Rightarrow>
          let recv_buf = recv_buf @ serve cmd_bytes in
          case parse_master_response recv_buf of
            Inl e \<Rightarrow> Some (m, Inl e)
          | Inr None \<Rightarrow> Some (m, Inl ConnectionClosed)
          | Inr (Some (resp, consumed)) \<Rightarrow>
              let recv_buf = drop consumed recv_buf;
                  (decision, m) =
                    (case resp of
                       MContinue replid \<Rightarrow>
                         (Some (PartialResync replid (word_of_int (max (hd_offset d) 0))),
                          if ReplId_is_empty replid then m else try_update_my_primary_repl_id m replid)
                     | MFullResync replid offset \<Rightarrow>
                         (Some (FullResync replid offset), adopt_primary_identity m replid offset)
                     | _ \<Rightarrow> (decision, m)) in
              (case feed_response d resp of
                 (_, Inl e) \<Rightarrow> Some (m, Inl e)
               | (d, Inr _) \<Rightarrow> handshake_loop fuel serve d m decision recv_buf))"

declare handshake_loop.simps(2) [simp del]

definition connect_and_handshake ::
  "nat \<Rightarrow> (bytes \<Rightarrow> bytes) \<Rightarrow> ReplicationManager \<Rightarrow> u16 \<Rightarrow> bytes \<Rightarrow> bytes option \<Rightarrow>
   (ReplicationManager \<times> (ReplError + SyncDecision \<times> bytes)) option" where
  "connect_and_handshake fuel serve m port ip pwd =
     (case begin_recovery m ClusterReplicate of
        (m, Inl e) \<Rightarrow> Some (m, Inl e)
      | (m, Inr _) \<Rightarrow>
          let (replid, offset) = psync_request m;
              driver = driver_new port ip pwd replid offset in
          case handshake_loop fuel serve driver m None [] of
            None \<Rightarrow> None
          | Some (m, Inl e) \<Rightarrow> Some (reset_recovery m, Inl e)
          | Some (m, Inr (None, _)) \<Rightarrow> Some (reset_recovery m, Inl (HandshakeFailed ''no decision'' []))
          | Some (m, Inr (Some decision, recv_buf)) \<Rightarrow>
              (case end_recovery m ClusterReplicate of
                 (m, Inl e) \<Rightarrow> Some (m, Inl e)
               | (m, Inr _) \<Rightarrow> Some (m, Inr (decision, recv_buf))))"

section \<open>The handshake completes\<close>

lemma loop_step:
  assumes "hd_step d \<noteq> Established" "next_command d = Inr cmd" "serve cmd = reply @ rest"
    "response_decodes_as reply resp" "resp = Pong \<or> resp = MOk" "feed_response d resp = (d', Inr st)"
  shows "handshake_loop (Suc fuel) serve d m decision [] = handshake_loop fuel serve d' m decision rest"
  using assms by (auto simp: handshake_loop.simps(2) response_decodes_as_def Let_def)

lemma loop_continue:
  assumes "hd_step d = CapaDone" "serve (encode_psync (hd_replid d) (hd_offset d)) = encode_continue rid @ rest"
    "replid_ok rid"
  shows "handshake_loop (Suc (Suc fuel)) serve d m decision [] =
    Some (if ReplId_is_empty rid then m else try_update_my_primary_repl_id m rid,
      Inr (Some (PartialResync rid (word_of_int (max (hd_offset d) 0))), rest))"
  using assms responses_roundtrip(3) [OF assms(3)]
  by (auto simp: handshake_loop.simps(2) next_command_def feed_response_def advance_def response_decodes_as_def Let_def)

lemma loop_fullresync:
  assumes "hd_step d = CapaDone" "serve (encode_psync (hd_replid d) (hd_offset d)) = encode_fullresync rid off @ rest"
    "replid_ok rid"
  shows "handshake_loop (Suc (Suc fuel)) serve d m decision [] =
    Some (adopt_primary_identity m rid off, Inr (Some (FullResync rid off), rest))"
  using assms responses_roundtrip(4) [OF assms(3), of off]
  by (auto simp: handshake_loop.simps(2) next_command_def feed_response_def advance_def response_decodes_as_def Let_def)

lemma serve_decoded:
  "decodes_as enc cmd \<Longrightarrow>
   serve_replica err_text p wb wt enc = replica_command_reply err_text p wb wt cmd"
  unfolding decodes_as_def serve_replica_def by (auto dest!: spec [where x = "[]"])

lemma loop_to_psync:
  assumes pwd: "\<forall>w. pwd = Some w \<longrightarrow> from_utf8 w = Some w \<and> length w < 2 ^ 62"
    and ip: "from_utf8 ip = Some ip" "length ip < 2 ^ 62"
  shows "\<exists>n \<ge> 2. handshake_loop 7 (serve_replica err_text p wb wt) (driver_new port ip pwd rid off) m None [] =
    handshake_loop n (serve_replica err_text p wb wt) ((driver_new port ip pwd rid off)\<lparr> hd_step := CapaDone \<rparr>) m None []"
proof -
  let ?s = "serve_replica err_text p wb wt"
  define d where "d = (\<lambda>st. (driver_new port ip pwd rid off)\<lparr> hd_step := st \<rparr>)"
  have dd: "hd_step (d st) = st" "hd_auth_password (d st) = pwd" "hd_listening_port (d st) = port"
    "hd_ip_address (d st) = ip" "(d st)\<lparr> hd_step := st' \<rparr> = d st'" for st st'
    by (simp_all add: d_def driver_new_def)
  have d0: "driver_new port ip pwd rid off = d Initial" by (simp add: d_def driver_new_def)
  have q: "replid_ok ReplId_question_mark" by (simp add: replid_ok_def ReplId_question_mark_def REPL_ID_LEN_def)
  have e: "from_utf8 [] = Some ([] :: bytes)" "length ([] :: bytes) < 2 ^ 62" by (simp_all add: from_utf8_ascii)
  have r: "i64_min \<le> 0" "(0 :: int) \<le> i64_max" by (simp_all add: i64_max_def i64_min_def)
  note dec = commands_decode [OF _ _ ip q r] and rep = serve_decoded [of _ _ err_text p wb wt]
    and frames = replica_command_reply_def encode_ok_def OK_FRAME_def encode_pong_def PONG_FRAME_def
  have ok: "?s (encode_replconf_port port) = encode_ok @ []" "?s (encode_replconf_ip ip) = encode_ok @ []"
    "?s (encode_replconf_capa [bstr ''eof'', bstr ''psync2'']) = encode_ok @ []" "?s encode_ping = encode_pong @ []"
    by (simp_all add: rep [OF dec(3) [OF e]] rep [OF dec(4) [OF e]] rep [OF dec(5) [OF e]] rep [OF dec(1) [OF e]] frames)
  note step = loop_step [of _ _ ?s, OF _ _ _ responses_roundtrip(2)] and sim = next_command_def feed_response_def
    expect_ok_def advance_def Let_def
  have s3: "handshake_loop (Suc k) ?s (d IpDone) m None [] = handshake_loop k ?s (d CapaDone) m None []" for k
    by (rule step [OF _ _ ok(3)]) (simp_all add: dd sim)
  have s2: "handshake_loop (Suc k) ?s (d PortDone) m None [] = handshake_loop k ?s (d IpDone) m None []" for k
    by (rule step [OF _ _ ok(2)]) (simp_all add: dd sim)
  have s1: "handshake_loop (Suc k) ?s (d AuthDone) m None [] = handshake_loop k ?s (d PortDone) m None []" for k
    by (rule step [OF _ _ ok(1)]) (simp_all add: dd sim)
  show ?thesis
  proof (cases pwd)
    case None
    have "handshake_loop 7 ?s (d Initial) m None [] = handshake_loop 6 ?s (d AuthDone) m None []"
      unfolding numeral_eq_Suc pred_numeral_simps arith_simps
      by (rule loop_step [of _ _ ?s, OF _ _ ok(4) responses_roundtrip(1)]) (simp_all add: dd sim None)
    also have "\<dots> = handshake_loop 3 ?s (d CapaDone) m None []" by (simp add: eval_nat_numeral s1 s2 s3)
    finally show ?thesis unfolding d0 by (intro exI [of _ 3]) (simp add: d_def)
  next
    case (Some w)
    have a: "?s (encode_auth w) = encode_ok @ []"
      using pwd Some by (simp add: rep [OF dec(2) [of w]] frames)
    have "handshake_loop 7 ?s (d Initial) m None [] = handshake_loop 6 ?s (d PingDone) m None []"
      unfolding numeral_eq_Suc pred_numeral_simps arith_simps
      by (rule loop_step [of _ _ ?s, OF _ _ ok(4) responses_roundtrip(1)]) (simp_all add: dd sim Some)
    also have "\<dots> = handshake_loop 5 ?s (d AuthDone) m None []"
      unfolding numeral_eq_Suc pred_numeral_simps arith_simps
      by (rule step [OF _ _ a]) (simp_all add: dd sim Some)
    also have "\<dots> = handshake_loop 2 ?s (d CapaDone) m None []" by (simp add: eval_nat_numeral s1 s2 s3)
    finally show ?thesis unfolding d0 by (intro exI [of _ 2]) (simp add: d_def)
  qed
qed



end
