(* ===== verification/Pubsub_Glob.thy ===== *)
theory Pubsub_Glob
  imports Wedb_Bytes
begin

unbundle bit_operations_syntax

text \<open>
  The glob matcher of \<open>wedb_pubsub/src/glob.rs\<close>: a loop over two indices that remembers only the
  last star.  The loop is a partial function; the theorem shows that it returns on every input
  and decides whether the key is in the language of the pattern, which is defined over the
  tokens of the pattern without any backtracking strategy.
\<close>

section \<open>The matcher\<close>

definition hex_val :: "u8 \<Rightarrow> u8 option" where
  "hex_val b =
     (if 48 \<le> b \<and> b \<le> 57 then Some (b - 48)
      else if 97 \<le> b \<and> b \<le> 102 then Some (b - 97 + 10)
      else if 65 \<le> b \<and> b \<le> 70 then Some (b - 65 + 10)
      else None)"

definition parse_hex_byte :: "u8 \<Rightarrow> u8 \<Rightarrow> u8 option" where
  "parse_hex_byte h l =
     (case (hex_val h, hex_val l) of
        (Some hi, Some lo) \<Rightarrow> Some (push_bit 4 hi OR lo)
      | _ \<Rightarrow> None)"

definition next_pat_char :: "bytes \<Rightarrow> nat \<Rightarrow> (u8 \<times> nat) option" where
  "next_pat_char pat offset =
     (if length pat \<le> offset then None
      else if pat ! offset = 92 then
        (case (if offset + 3 < length pat \<and> pat ! (offset + 1) = 120
               then parse_hex_byte (pat ! (offset + 2)) (pat ! (offset + 3)) else None) of
           Some b \<Rightarrow> Some (b, 4)
         | None \<Rightarrow> if offset + 1 < length pat then Some (pat ! (offset + 1), 2) else Some (92, 1))
      else Some (pat ! offset, 1))"

definition fold_case :: "bool \<Rightarrow> u8 \<Rightarrow> u8" where
  "fold_case ignore_case b = (if ignore_case then lower_u8 b else b)"

lemma next_pat_char_adv: "next_pat_char pat i = Some (c, adv) \<Longrightarrow> 0 < adv \<and> i + adv \<le> length pat"
  by (auto simp: next_pat_char_def split: if_splits option.splits)

text \<open>The loop over the items of a bracket: the end index, whether an item matched, whether it was closed.\<close>

function bracket_loop :: "bytes \<Rightarrow> u8 \<Rightarrow> bool \<Rightarrow> nat \<Rightarrow> bool \<Rightarrow> (bool \<times> nat) option" where
  "bracket_loop pat target ignore_case i matched =
     (if length pat \<le> i then None
      else if pat ! i = 93 then Some (matched, i + 1)
      else case next_pat_char pat i of
        None \<Rightarrow> None
      | Some (c1, adv1) \<Rightarrow>
          let next_idx = i + adv1 in
          case (if next_idx < length pat \<and> pat ! next_idx = 45 \<and> next_idx + 1 < length pat \<and>
                   pat ! (next_idx + 1) \<noteq> 93
                then next_pat_char pat (next_idx + 1) else None) of
            Some (c2, adv2) \<Rightarrow>
              let start = fold_case ignore_case c1; fin = fold_case ignore_case c2;
                  (start, fin) = (if start > fin then (fin, start) else (start, fin))
              in bracket_loop pat target ignore_case (next_idx + 1 + adv2)
                   (matched \<or> start \<le> target \<and> target \<le> fin)
          | None \<Rightarrow>
              bracket_loop pat target ignore_case (i + adv1) (matched \<or> fold_case ignore_case c1 = target))"
  by auto

termination
  by (relation "measure (\<lambda>(pat, target, ic, i, matched). length pat - i)")
    (auto dest!: next_pat_char_adv split: if_splits)

declare bracket_loop.simps [simp del]

definition match_bracket :: "bytes \<Rightarrow> u8 \<Rightarrow> bool \<Rightarrow> bool \<times> nat" where
  "match_bracket pat target_byte ignore_case =
     (if pat = [] \<or> pat ! 0 \<noteq> 91 then (False, 0)
      else
        let neg = (1 < length pat \<and> (pat ! 1 = 94 \<or> pat ! 1 = 33));
            i = (if neg then 2 else 1) in
        case bracket_loop pat (fold_case ignore_case target_byte) ignore_case i False of
          None \<Rightarrow> (False, 0)
        | Some (matched, i) \<Rightarrow> (matched \<noteq> neg, i))"

text \<open>One pattern item that is not a star: whether it matches the byte, and its length.\<close>

definition glob_item :: "bytes \<Rightarrow> nat \<Rightarrow> bool \<Rightarrow> u8 \<Rightarrow> bool \<times> nat" where
  "glob_item pattern p ignore_case c =
     (if pattern ! p = 63 then (True, 1)
      else if pattern ! p = 91 then
        (let (matched, next_p) = match_bracket (drop p pattern) c ignore_case in
         if 0 < next_p then (matched, next_p) else (c = 91, 1))
      else if pattern ! p = 92 then
        (case next_pat_char pattern p of
           Some (pat_byte, adv) \<Rightarrow> (fold_case ignore_case pat_byte = fold_case ignore_case c, adv)
         | None \<Rightarrow> (False, 1))
      else (fold_case ignore_case (pattern ! p) = fold_case ignore_case c, 1))"

function skip_stars :: "bytes \<Rightarrow> nat \<Rightarrow> nat" where
  "skip_stars pattern p = (if p + 1 < length pattern \<and> pattern ! (p + 1) = 42 then skip_stars pattern (p + 1) else p)"
  by auto
termination by (relation "measure (\<lambda>(pattern, p). length pattern - p)") auto

function skip_trailing :: "bytes \<Rightarrow> nat \<Rightarrow> nat" where
  "skip_trailing pattern p = (if p < length pattern \<and> pattern ! p = 42 then skip_trailing pattern (p + 1) else p)"
  by auto
termination by (relation "measure (\<lambda>(pattern, p). length pattern - p)") auto

declare skip_stars.simps [simp del] skip_trailing.simps [simp del]

text \<open>\<open>backtrack\<close> is the end of the loop body, reached when no arm of the match has continued.\<close>

partial_function (option) glob_loop ::
  "bytes \<Rightarrow> bytes \<Rightarrow> bool \<Rightarrow> nat \<Rightarrow> nat \<Rightarrow> nat option \<Rightarrow> nat \<Rightarrow> bool option" where
  "glob_loop pattern key ignore_case p k star_p star_t =
     (if k < length key then
        if p < length pattern \<and> pattern ! p = 42 then
          let p = skip_stars pattern p
          in glob_loop pattern key ignore_case (p + 1) k (Some p) k
        else if p < length pattern \<and> fst (glob_item pattern p ignore_case (key ! k)) then
          glob_loop pattern key ignore_case (p + snd (glob_item pattern p ignore_case (key ! k))) (k + 1) star_p star_t
        else (case star_p of
                Some sp \<Rightarrow> glob_loop pattern key ignore_case (sp + 1) (star_t + 1) (Some sp) (star_t + 1)
              | None \<Rightarrow> Some False)
      else Some (skip_trailing pattern p = length pattern))"

definition glob_match :: "bytes \<Rightarrow> bytes \<Rightarrow> bool \<Rightarrow> bool option" where
  "glob_match pattern key ignore_case = glob_loop pattern key ignore_case 0 0 None 0"

definition match_glob :: "bytes \<Rightarrow> bytes \<Rightarrow> bool option" where
  "match_glob pattern key = glob_match pattern key False"

definition match_glob_nocase :: "bytes \<Rightarrow> bytes \<Rightarrow> bool option" where
  "match_glob_nocase pattern key = glob_match pattern key True"

section \<open>The language of a pattern\<close>

datatype glob_token = Any_Bytes | One_Byte "u8 \<Rightarrow> bool"

fun in_language :: "glob_token list \<Rightarrow> bytes \<Rightarrow> bool" where
  "in_language [] ks \<longleftrightarrow> ks = []"
| "in_language (Any_Bytes # ts) ks \<longleftrightarrow> (\<exists>n \<le> length ks. in_language ts (drop n ks))"
| "in_language (One_Byte P # ts) ks \<longleftrightarrow> ks \<noteq> [] \<and> P (hd ks) \<and> in_language ts (tl ks)"


lemma next_pat_char_Some: "i < length pat \<Longrightarrow> \<exists>c adv. next_pat_char pat i = Some (c, adv)"
  by (auto simp: next_pat_char_def split: option.split)

lemma bracket_loop_stop:
  "length pat \<le> i \<Longrightarrow> bracket_loop pat t ic i m = None"
  "i < length pat \<Longrightarrow> pat ! i = 93 \<Longrightarrow> bracket_loop pat t ic i m = Some (m, i + 1)"
  by (simp_all add: bracket_loop.simps [of pat t ic i m])

text \<open>One turn of the bracket loop moves to an index that the byte looked for does not influence.\<close>

lemma bracket_loop_step:
  assumes "i < length pat" "pat ! i \<noteq> 93"
  shows "\<exists>i' > i. \<forall>t m. \<exists>m'. bracket_loop pat t ic i m = bracket_loop pat t ic i' m'"
proof -
  obtain c1 a1 where n1: "next_pat_char pat i = Some (c1, a1)" using next_pat_char_Some [OF assms(1)] by blast
  let ?r = "if i + a1 < length pat \<and> pat ! (i + a1) = 45 \<and> i + a1 + 1 < length pat \<and> pat ! (i + a1 + 1) \<noteq> 93
    then next_pat_char pat (i + a1 + 1) else None"
  have a1: "0 < a1" using next_pat_char_adv [OF n1] by simp
  show ?thesis
  proof (cases ?r)
    case None
    have "bracket_loop pat t ic i m = bracket_loop pat t ic (i + a1) (m \<or> fold_case ic c1 = t)" for t m
      using assms n1 None by (simp add: bracket_loop.simps [of pat t ic i m] Let_def)
    then show ?thesis using a1 by (intro exI [of _ "i + a1"]) auto
  next
    case (Some q)
    obtain c2 a2 where q: "q = (c2, a2)" by (cases q)
    have "\<exists>m'. bracket_loop pat t ic i m = bracket_loop pat t ic (i + a1 + 1 + a2) m'" for t m
      using assms n1 Some q by (auto simp add: bracket_loop.simps [of pat t ic i m] Let_def split: prod.split)
    then show ?thesis by (intro exI [of _ "i + a1 + 1 + a2"]) auto
  qed
qed

lemma bracket_loop_bound:
  "bracket_loop pat t ic i m = Some (b, j) \<Longrightarrow> i < j \<and> j \<le> length pat"
proof (induction "length pat - i" arbitrary: i m rule: less_induct)
  case less
  show ?case
  proof (cases "length pat \<le> i \<or> pat ! i = 93")
    case True
    then show ?thesis using less.prems by (cases "length pat \<le> i") (auto simp: bracket_loop_stop)
  next
    case False
    then obtain i' m' where "i < i'" "bracket_loop pat t ic i m = bracket_loop pat t ic i' m'"
      using bracket_loop_step [of i pat ic] by (metis not_le)
    moreover have "length pat - i' < length pat - i" using \<open>i < i'\<close> False by linarith
    ultimately show ?thesis using less.hyps [of i' m'] less.prems by simp
  qed
qed

lemma bracket_loop_index:
  "map_option snd (bracket_loop pat t ic i m) = map_option snd (bracket_loop pat t' ic i m')"
proof (induction "length pat - i" arbitrary: i m m' rule: less_induct)
  case less
  show ?case
  proof (cases "length pat \<le> i \<or> pat ! i = 93")
    case True
    then show ?thesis by (cases "length pat \<le> i") (simp_all add: bracket_loop_stop)
  next
    case False
    then obtain i' where i': "i < i'" "\<forall>t m. \<exists>m'. bracket_loop pat t ic i m = bracket_loop pat t ic i' m'"
      using bracket_loop_step [of i pat ic] by (metis not_le)
    obtain m1 m2 where "bracket_loop pat t ic i m = bracket_loop pat t ic i' m1"
        "bracket_loop pat t' ic i m' = bracket_loop pat t' ic i' m2"
      using i'(2) by metis
    moreover have "length pat - i' < length pat - i" using i'(1) False by linarith
    ultimately show ?thesis using less.hyps [of i' m1 m2] by simp
  qed
qed

lemma match_bracket_bound: "snd (match_bracket pat c ic) \<le> length pat"
  by (auto simp: match_bracket_def Let_def dest: bracket_loop_bound split: option.split)

lemma match_bracket_index: "snd (match_bracket pat c ic) = snd (match_bracket pat c' ic)"
proof -
  have same: "snd (case x of None \<Rightarrow> (False, 0) | Some (matched, i) \<Rightarrow> (matched \<noteq> neg, i)) =
      snd (case y of None \<Rightarrow> (False, 0) | Some (matched, i) \<Rightarrow> (matched \<noteq> neg, i))"
    if "map_option snd x = map_option snd y" for neg and x y :: "(bool \<times> nat) option"
    using that by (cases x; cases y) auto
  show ?thesis
    unfolding match_bracket_def Let_def
    using same [OF bracket_loop_index [of pat "fold_case ic c" ic _ False "fold_case ic c'" False]]
    by simp
qed

definition item_len :: "bytes \<Rightarrow> nat \<Rightarrow> bool \<Rightarrow> nat" where
  "item_len pattern p ignore_case = snd (glob_item pattern p ignore_case 0)"

lemma glob_item_len: "snd (glob_item pattern p ic c) = item_len pattern p ic"
  using match_bracket_index [of "drop p pattern" c ic 0]
  by (auto simp: item_len_def glob_item_def split: prod.split option.split)

lemma item_len_bound: "p < length pattern \<Longrightarrow> 0 < item_len pattern p ic \<and> p + item_len pattern p ic \<le> length pattern"
  using match_bracket_bound [of "drop p pattern" 0 ic]
  by (auto simp: item_len_def glob_item_def dest: next_pat_char_adv split: prod.split option.split)

text \<open>The tokens of a pattern from an index on: a star, or an item with the bytes it accepts.\<close>

function glob_tokens :: "bool \<Rightarrow> bytes \<Rightarrow> nat \<Rightarrow> glob_token list" where
  "glob_tokens ic pattern p =
     (if length pattern \<le> p then []
      else if pattern ! p = 42 then Any_Bytes # glob_tokens ic pattern (p + 1)
      else One_Byte (\<lambda>c. fst (glob_item pattern p ic c)) # glob_tokens ic pattern (p + item_len pattern p ic))"
  by auto
termination
  by (relation "measure (\<lambda>(ic, pattern, p). length pattern - p)")
    (use item_len_bound in \<open>auto simp: not_le diff_less_mono2\<close>)

declare glob_tokens.simps [simp del]

section \<open>The loop decides the language\<close>

abbreviation matches_at :: "bytes \<Rightarrow> bytes \<Rightarrow> bool \<Rightarrow> nat \<Rightarrow> nat \<Rightarrow> bool" where
  "matches_at pattern key ic p k \<equiv> in_language (glob_tokens ic pattern p) (drop k key)"

lemma tokens_star:
  assumes "p < length pattern" "pattern ! p = 42"
  shows "matches_at pattern key ic p k \<longleftrightarrow> (\<exists>t. k \<le> t \<and> matches_at pattern key ic (p + 1) t \<and> (t \<le> length key \<or> t = k))"
proof -
  have "matches_at pattern key ic p k \<longleftrightarrow> (\<exists>n \<le> length key - k. matches_at pattern key ic (p + 1) (n + k))"
    using assms by (simp add: glob_tokens.simps [of ic pattern p])
  also have "\<dots> \<longleftrightarrow> (\<exists>t. k \<le> t \<and> matches_at pattern key ic (p + 1) t \<and> (t \<le> length key \<or> t = k))" (is "?L = ?R")
  proof
    assume ?L
    then obtain n where "n \<le> length key - k" "matches_at pattern key ic (p + 1) (n + k)" by blast
    then show ?R by (intro exI [of _ "n + k"]) auto
  next
    assume ?R
    then obtain t where "k \<le> t" "matches_at pattern key ic (p + 1) t" "t \<le> length key \<or> t = k" by blast
    then show ?L by (intro exI [of _ "t - k"]) auto
  qed
  finally show ?thesis .
qed

lemma tokens_item:
  assumes "p < length pattern" "pattern ! p \<noteq> 42" "k < length key"
  shows "matches_at pattern key ic p k \<longleftrightarrow>
    fst (glob_item pattern p ic (key ! k)) \<and> matches_at pattern key ic (p + item_len pattern p ic) (k + 1)"
  using assms by (simp add: glob_tokens.simps [of ic pattern p] hd_drop_conv_nth drop_Suc tl_drop)

lemma tokens_end: "length pattern \<le> p \<Longrightarrow> matches_at pattern key ic p k \<longleftrightarrow> length key \<le> k"
  by (simp add: glob_tokens.simps [of ic pattern p])

lemma tokens_item_end:
  "p < length pattern \<Longrightarrow> pattern ! p \<noteq> 42 \<Longrightarrow> length key \<le> k \<Longrightarrow> \<not> matches_at pattern key ic p k"
  by (simp add: glob_tokens.simps [of ic pattern p])

lemma star_absorbs:
  assumes "p < length pattern" "pattern ! p = 42" "matches_at pattern key ic p t" "k \<le> t" "t \<le> length key"
  shows "matches_at pattern key ic p k"
  using assms unfolding tokens_star [OF assms(1,2)] by (meson le_trans)

lemma skip_stars_spec:
  "p < length pattern \<Longrightarrow> pattern ! p = 42 \<Longrightarrow>
   p \<le> skip_stars pattern p \<and> skip_stars pattern p < length pattern \<and> pattern ! skip_stars pattern p = 42 \<and>
   (\<forall>k \<le> length key. matches_at pattern key ic (skip_stars pattern p) k = matches_at pattern key ic p k)"
proof (induction pattern p rule: skip_stars.induct)
  case (1 pattern p)
  show ?case
  proof (cases "p + 1 < length pattern \<and> pattern ! (p + 1) = 42")
    case True
    have eq: "matches_at pattern key ic (p + 1) k = matches_at pattern key ic p k" if "k \<le> length key" for k
    proof
      assume "matches_at pattern key ic (p + 1) k"
      then show "matches_at pattern key ic p k"
        using that tokens_star [OF "1.prems", where key = key and ic = ic and k = k] by blast
    next
      assume "matches_at pattern key ic p k"
      then obtain t where t: "k \<le> t" "matches_at pattern key ic (p + 1) t" "t \<le> length key \<or> t = k"
        unfolding tokens_star [OF "1.prems"] by (elim exE conjE)
      then have "t \<le> length key" using that by auto
      with t(1,2) show "matches_at pattern key ic (p + 1) k"
        using star_absorbs [where p = "p + 1" and pattern = pattern and key = key and ic = ic and t = t and k = k] True by simp
    qed
    have "skip_stars pattern p = skip_stars pattern (p + 1)"
      using True by (simp add: skip_stars.simps [of pattern p])
    note skip = this
    have ih: "p + 1 \<le> skip_stars pattern p" "skip_stars pattern p < length pattern" "pattern ! skip_stars pattern p = 42"
        "\<And>k. k \<le> length key \<Longrightarrow> matches_at pattern key ic (skip_stars pattern p) k = matches_at pattern key ic (p + 1) k"
      using "1.IH" [OF True] True unfolding skip by blast+
    show ?thesis
      by (intro conjI allI impI) (use ih(1) in linarith, rule ih(2), rule ih(3), simp only: ih(4) eq)
  next
    case False
    then have "skip_stars pattern p = p" by (simp only: skip_stars.simps [of pattern p] if_False)
    then show ?thesis using "1.prems" by simp
  qed
qed

lemma skip_trailing_spec:
  "p \<le> length pattern \<Longrightarrow> (skip_trailing pattern p = length pattern) = matches_at pattern key ic p (length key)"
proof (induction pattern p rule: skip_trailing.induct)
  case (1 pattern p)
  consider "p = length pattern" | "p < length pattern" "pattern ! p = 42" | "p < length pattern" "pattern ! p \<noteq> 42"
    using "1.prems" by linarith
  then show ?case
  proof cases
    case 1
    then show ?thesis by (simp add: skip_trailing.simps [of pattern "length pattern"] glob_tokens.simps [of ic pattern "length pattern"])
  next
    case 2
    then show ?thesis using "1.IH" by (simp add: skip_trailing.simps [of pattern p] glob_tokens.simps [of ic pattern p])
  next
    case 3
    then show ?thesis by (simp add: skip_trailing.simps [of pattern p] glob_tokens.simps [of ic pattern p])
  qed
qed

text \<open>
  The items between two indices of the pattern, with no star among them: \<open>n\<close> of them lead from
  \<open>p\<close> to \<open>q\<close>.
\<close>

inductive item_path :: "bytes \<Rightarrow> bool \<Rightarrow> nat \<Rightarrow> nat \<Rightarrow> nat \<Rightarrow> bool" for pattern ic p where
  item_path_refl: "item_path pattern ic p 0 p"
| item_path_step: "item_path pattern ic p n q \<Longrightarrow> q < length pattern \<Longrightarrow> pattern ! q \<noteq> 42 \<Longrightarrow>
    item_path pattern ic p (Suc n) (q + item_len pattern q ic)"

lemma item_path_matches:
  "item_path pattern ic p n q \<Longrightarrow> matches_at pattern key ic p t \<Longrightarrow> t \<le> length key \<Longrightarrow>
   t + n \<le> length key \<and> matches_at pattern key ic q (t + n)"
proof (induction rule: item_path.induct)
  case (item_path_step n q)
  then have "t + n < length key"
    using tokens_item_end [of q pattern key "t + n" ic] by (meson not_le)
  then show ?case using item_path_step tokens_item [of q pattern "t + n" key ic] by simp
qed simp

definition loop_inv :: "bytes \<Rightarrow> bytes \<Rightarrow> bool \<Rightarrow> nat \<Rightarrow> nat \<Rightarrow> nat option \<Rightarrow> nat \<Rightarrow> bool" where
  "loop_inv pattern key ic p k star_p star_t \<longleftrightarrow>
     p \<le> length pattern \<and> star_t \<le> k \<and> k \<le> length key \<and>
     (\<forall>sp. star_p = Some sp \<longrightarrow> sp < length pattern \<and> item_path pattern ic (sp + 1) (k - star_t) p)"

definition later_start :: "bytes \<Rightarrow> bytes \<Rightarrow> bool \<Rightarrow> nat option \<Rightarrow> nat \<Rightarrow> bool" where
  "later_start pattern key ic star_p star_t \<longleftrightarrow>
     (\<exists>sp t. star_p = Some sp \<and> star_t < t \<and> t \<le> length key \<and> matches_at pattern key ic (sp + 1) t)"

lemma later_start_absorbed:
  assumes "loop_inv pattern key ic p k star_p star_t" "later_start pattern key ic star_p star_t"
    "p < length pattern" "pattern ! p = 42"
  shows "matches_at pattern key ic p k"
proof -
  obtain sp t where sp: "star_p = Some sp" "star_t < t" "t \<le> length key" "matches_at pattern key ic (sp + 1) t"
    using assms(2) by (auto simp: later_start_def)
  have path: "item_path pattern ic (sp + 1) (k - star_t) p" and "star_t \<le> k"
    using assms(1) sp(1) by (auto simp: loop_inv_def)
  have "t + (k - star_t) \<le> length key" "matches_at pattern key ic p (t + (k - star_t))"
    using item_path_matches [OF path sp(4,3)] by auto
  then show ?thesis using star_absorbs [OF assms(3,4)] sp(2) \<open>star_t \<le> k\<close> by auto
qed

lemma later_start_end:
  assumes "loop_inv pattern key ic p (length key) star_p star_t"
  shows "\<not> later_start pattern key ic star_p star_t"
proof
  assume "later_start pattern key ic star_p star_t"
  then obtain sp t where sp: "star_p = Some sp" "star_t < t" "t \<le> length key" "matches_at pattern key ic (sp + 1) t"
    by (auto simp: later_start_def)
  have "item_path pattern ic (sp + 1) (length key - star_t) p" "star_t \<le> length key"
    using assms sp(1) by (auto simp: loop_inv_def)
  then show False using item_path_matches [OF _ sp(4,3)] sp(2) by fastforce
qed


lemma glob_loop_unfold_end:
  "length key \<le> k \<Longrightarrow> glob_loop pattern key ic p k star_p star_t = Some (skip_trailing pattern p = length pattern)"
  by (simp add: glob_loop.simps)

lemma glob_loop_unfold_star:
  "k < length key \<Longrightarrow> p < length pattern \<Longrightarrow> pattern ! p = 42 \<Longrightarrow>
   glob_loop pattern key ic p k star_p star_t =
   glob_loop pattern key ic (skip_stars pattern p + 1) k (Some (skip_stars pattern p)) k"
  by (subst glob_loop.simps) (simp add: Let_def)

lemma glob_loop_unfold_item:
  "k < length key \<Longrightarrow> p < length pattern \<Longrightarrow> pattern ! p \<noteq> 42 \<Longrightarrow> fst (glob_item pattern p ic (key ! k)) \<Longrightarrow>
   glob_loop pattern key ic p k star_p star_t =
   glob_loop pattern key ic (p + item_len pattern p ic) (k + 1) star_p star_t"
  by (subst glob_loop.simps) (simp add: glob_item_len)

lemma glob_loop_unfold_back:
  "k < length key \<Longrightarrow> length pattern \<le> p \<or> pattern ! p \<noteq> 42 \<and> \<not> fst (glob_item pattern p ic (key ! k)) \<Longrightarrow>
   glob_loop pattern key ic p k star_p star_t =
   (case star_p of
      Some sp \<Rightarrow> glob_loop pattern key ic (sp + 1) (star_t + 1) (Some sp) (star_t + 1)
    | None \<Rightarrow> Some False)"
  by (subst glob_loop.simps) auto

lemma later_start_next:
  assumes "star_t + 1 \<le> length key"
  shows "later_start pattern key ic (Some sp) star_t \<longleftrightarrow>
    matches_at pattern key ic (sp + 1) (star_t + 1) \<or> later_start pattern key ic (Some sp) (star_t + 1)"
proof -
  have "(\<exists>t. s < t \<and> t \<le> n \<and> P t) \<longleftrightarrow> P (s + 1) \<or> (\<exists>t. s + 1 < t \<and> t \<le> n \<and> P t)"
    if "s + 1 \<le> n" for s n and P :: "nat \<Rightarrow> bool"
    using that by (metis Suc_eq_plus1 Suc_lessI lessI less_trans)
  from this [OF assms] show ?thesis by (simp add: later_start_def)
qed

text \<open>From every state that satisfies the invariant the loop returns, and its answer is the disjunction.\<close>

lemma glob_loop_decides:
  "loop_inv pattern key ic p k star_p star_t \<Longrightarrow>
   glob_loop pattern key ic p k star_p star_t =
   Some (matches_at pattern key ic p k \<or> later_start pattern key ic star_p star_t)"
proof (induction "(length key - star_t, length pattern - p)" arbitrary: p k star_p star_t
    rule: wf_induct_rule [OF wf_lex_prod [OF wf_less_than wf_less_than]])
  case (1 p star_t k star_p)
  note inv = "1.prems"
  have IH: "loop_inv pattern key ic p' k' star_p' star_t' \<Longrightarrow>
      length key - star_t' < length key - star_t \<or> star_t' = star_t \<and> length pattern - p' < length pattern - p \<Longrightarrow>
      glob_loop pattern key ic p' k' star_p' star_t' =
      Some (matches_at pattern key ic p' k' \<or> later_start pattern key ic star_p' star_t')" for p' k' star_p' star_t'
    using "1.hyps" by auto
  have b: "p \<le> length pattern" "star_t \<le> k" "k \<le> length key" using inv by (auto simp: loop_inv_def)
  consider "k = length key"
    | "k < length key" "p < length pattern" "pattern ! p = 42"
    | "k < length key" "p < length pattern" "pattern ! p \<noteq> 42" "fst (glob_item pattern p ic (key ! k))"
    | "k < length key" "length pattern \<le> p \<or> p < length pattern \<and> pattern ! p \<noteq> 42 \<and> \<not> fst (glob_item pattern p ic (key ! k))"
    using b by linarith
  then show ?case
  proof cases
    case 1
    then show ?thesis
      using skip_trailing_spec [OF b(1), where key = key and ic = ic] later_start_end inv by (simp add: glob_loop_unfold_end)
  next
    case 2
    let ?q = "skip_stars pattern p"
    have q: "p \<le> ?q" "?q < length pattern" "pattern ! ?q = 42"
        "matches_at pattern key ic ?q k = matches_at pattern key ic p k"
      using skip_stars_spec [OF 2(2,3), where key = key and ic = ic] b(3) by auto
    have inv': "loop_inv pattern key ic (?q + 1) k (Some ?q) k"
      using q b by (auto simp: loop_inv_def intro: item_path_refl)
    have "length key - k < length key - star_t \<or> k = star_t \<and> length pattern - (?q + 1) < length pattern - p"
      using q b 2 by linarith
    from IH [OF inv' this]
    have "glob_loop pattern key ic p k star_p star_t =
        Some (matches_at pattern key ic (?q + 1) k \<or> later_start pattern key ic (Some ?q) k)"
      using 2 by (simp add: glob_loop_unfold_star)
    also have "(matches_at pattern key ic (?q + 1) k \<or> later_start pattern key ic (Some ?q) k) =
        matches_at pattern key ic ?q k"
      unfolding tokens_star [OF q(2,3)] later_start_def using b(3) by (auto simp: le_less)
    finally show ?thesis using q(4) later_start_absorbed [OF inv _ 2(2,3)] by auto
  next
    case 3
    have len: "0 < item_len pattern p ic" "p + item_len pattern p ic \<le> length pattern"
      using item_len_bound [OF 3(2), of ic] by auto
    have inv': "loop_inv pattern key ic (p + item_len pattern p ic) (k + 1) star_p star_t"
      using inv len 3 b item_path_step [of pattern ic _ "k - star_t" p]
      by (auto simp: loop_inv_def Suc_diff_le)
    have "length pattern - (p + item_len pattern p ic) < length pattern - p" using len 3(2) by linarith
    then show ?thesis using IH [OF inv'] 3 by (simp add: glob_loop_unfold_item tokens_item)
  next
    case 4
    have nm: "\<not> matches_at pattern key ic p k" using 4 tokens_end tokens_item by (metis not_le)
    show ?thesis
    proof (cases star_p)
      case None
      then show ?thesis using 4 nm by (auto simp: glob_loop_unfold_back later_start_def)
    next
      case (Some sp)
      have inv': "loop_inv pattern key ic (sp + 1) (star_t + 1) (Some sp) (star_t + 1)"
        using inv Some 4 b by (auto simp: loop_inv_def intro: item_path_refl)
      have "length key - (star_t + 1) < length key - star_t" using b 4 by linarith
      then show ?thesis
        using IH [OF inv'] 4 nm Some b later_start_next [of star_t key pattern ic sp]
        by (auto simp: glob_loop_unfold_back)
    qed
  qed
qed

text \<open>
  C18: The glob matcher of the publish/subscribe broker returns on every pattern and every key, and
  its answer is membership in the language of the pattern.  The language is given by the tokens
  of the pattern alone: a star stands for any run of bytes, every other item (a question mark, a
  bracket, an escape, a literal byte) for one byte it accepts.  The loop keeps only the last star
  to go back to, and no match is lost by that.
\<close>

theorem glob_match_decides:
  "glob_match pattern key ignore_case = Some (in_language (glob_tokens ignore_case pattern 0) key)"
  using glob_loop_decides [of pattern key ignore_case 0 0 None 0]
  by (simp add: glob_match_def loop_inv_def later_start_def)

end
