(* ===== verification/Zset_Float.thy ===== *)
theory Zset_Float
  imports Wedb_Bytes "HOL-Library.Product_Lexorder"
begin

text \<open>
  The scores of a sorted set.  An \<open>f64\<close> is its 64 bits; the comparisons are those of
  IEEE 754 binary64.  The order-preserving byte image of a score
  comes from the package \<open>wrecord\<close> and is the parameter \<open>enc\<close> of the definitions; where a
  result needs that it preserves the order, this is the hypothesis \<open>order_preserving enc\<close>.
\<close>

unbundle bit_operations_syntax

section \<open>Binary64\<close>

type_synonym f64 = "64 word"

definition f64_magnitude :: "f64 \<Rightarrow> int" where
  "f64_magnitude x = uint (x AND 0x7FFFFFFFFFFFFFFF)"

definition f64_negative :: "f64 \<Rightarrow> bool" where
  "f64_negative x \<longleftrightarrow> 0x8000000000000000 \<le> x"

definition is_nan :: "f64 \<Rightarrow> bool" where
  "is_nan x \<longleftrightarrow> 0x7FF0000000000000 < f64_magnitude x"

definition f64_key :: "f64 \<Rightarrow> int" where
  "f64_key x = (if f64_negative x then - f64_magnitude x else f64_magnitude x)"

definition f64_eq :: "f64 \<Rightarrow> f64 \<Rightarrow> bool" where
  "f64_eq x y \<longleftrightarrow> \<not> is_nan x \<and> \<not> is_nan y \<and> f64_key x = f64_key y"

definition f64_lt :: "f64 \<Rightarrow> f64 \<Rightarrow> bool" where
  "f64_lt x y \<longleftrightarrow> \<not> is_nan x \<and> \<not> is_nan y \<and> f64_key x < f64_key y"

definition f64_le :: "f64 \<Rightarrow> f64 \<Rightarrow> bool" where
  "f64_le x y \<longleftrightarrow> \<not> is_nan x \<and> \<not> is_nan y \<and> f64_key x \<le> f64_key y"

lemma mask63: "(0x7FFFFFFFFFFFFFFF :: 64 word) = Bit_Operations.mask 63"
  by (simp add: mask_eq_exp_minus_1)

lemma f64_split: "f64_magnitude x = uint x mod 2 ^ 63"
proof -
  have "f64_magnitude x = uint (take_bit 63 x)"
    by (simp only: f64_magnitude_def mask63 take_bit_eq_mask)
  also have "\<dots> = take_bit 63 (uint x)" by (rule unsigned_take_bit_eq)
  finally show ?thesis by (simp only: take_bit_eq_mod)
qed

lemma f64_neg_split: "f64_negative x \<longleftrightarrow> 2 ^ 63 \<le> uint x"
  by (simp add: f64_negative_def word_le_def)

lemma f64_uint: "uint x = f64_magnitude x + (if f64_negative x then 2 ^ 63 else 0)"
proof (cases "2 ^ 63 \<le> uint x")
  case True
  have "uint x < 2 ^ 64" using unsigned_less [of x] by simp
  then have "(uint x - 2 ^ 63) mod 2 ^ 63 = uint x - 2 ^ 63"
    using True by (intro mod_pos_pos_trivial) simp_all
  then have "uint x mod 2 ^ 63 = uint x - 2 ^ 63" by (simp only: minus_mod_self2)
  then show ?thesis using True by (simp only: f64_split f64_neg_split if_True)
next
  case False
  then show ?thesis by (simp add: f64_split f64_neg_split)
qed

lemma f64_magnitude_bounds: "0 \<le> f64_magnitude x" "f64_magnitude x < 2 ^ 63"
  unfolding f64_split by simp_all

lemma f64_key_inj: "f64_key x = f64_key y \<Longrightarrow> f64_key x \<noteq> 0 \<Longrightarrow> x = y"
  using f64_magnitude_bounds [of x] f64_magnitude_bounds [of y]
  by (intro word_uint_eqI) (auto simp: f64_key_def f64_uint [of x] f64_uint [of y] split: if_splits)

section \<open>The byte image of a score\<close>

text \<open>
  \<open>encode_sortable_f64\<close> folds the negative zero before it encodes.
\<close>

definition encode_sortable_f64 :: "(f64 \<Rightarrow> bytes) \<Rightarrow> f64 \<Rightarrow> bytes" where
  "encode_sortable_f64 enc val = enc (if f64_eq val 0 then 0 else val)"

definition order_preserving :: "(f64 \<Rightarrow> bytes) \<Rightarrow> bool" where
  "order_preserving enc \<longleftrightarrow> (\<forall>x y. f64_lt x y \<longrightarrow> enc x < enc y)"

lemma f64_key_0 [simp]: "f64_key 0 = 0" "\<not> is_nan 0"
  by (simp_all add: f64_key_def f64_magnitude_def is_nan_def)

lemma sortable_less:
  assumes "order_preserving enc" "\<not> is_nan x" "\<not> is_nan y"
  shows "encode_sortable_f64 enc x < encode_sortable_f64 enc y \<longleftrightarrow> f64_lt x y"
    and "encode_sortable_f64 enc x = encode_sortable_f64 enc y \<longleftrightarrow> f64_eq x y"
proof -
  define n where "n z = (if f64_eq z 0 then 0 else z)" for z
  have n: "\<not> is_nan (n z)" "f64_key (n z) = f64_key z" if "\<not> is_nan z" for z
    using that by (auto simp: n_def f64_eq_def)
  have lt_n: "enc (n a) < enc (n b)" if "f64_key a < f64_key b" "\<not> is_nan a" "\<not> is_nan b" for a b
    using that n [of a] n [of b] assms(1) by (simp add: order_preserving_def f64_lt_def)
  have eq_n: "n x = n y" if "f64_key x = f64_key y"
    using that assms f64_key_inj [of x y] by (auto simp: n_def f64_eq_def)
  have s: "encode_sortable_f64 enc z = enc (n z)" for z by (simp only: encode_sortable_f64_def n_def)
  consider (lt) "f64_key x < f64_key y" | (eq) "f64_key x = f64_key y" | (gt) "f64_key y < f64_key x" by linarith
  then have "(enc (n x) < enc (n y) \<longleftrightarrow> f64_key x < f64_key y) \<and> (enc (n x) = enc (n y) \<longleftrightarrow> f64_key x = f64_key y)"
  proof cases
    case lt
    then show ?thesis using lt_n [of x y] assms by simp
  next
    case eq
    then show ?thesis using eq_n by simp
  next
    case gt
    then have "enc (n y) < enc (n x)" using lt_n [of y x] assms by simp
    then show ?thesis using gt by auto
  qed
  then show "encode_sortable_f64 enc x < encode_sortable_f64 enc y \<longleftrightarrow> f64_lt x y"
      "encode_sortable_f64 enc x = encode_sortable_f64 enc y \<longleftrightarrow> f64_eq x y"
    using assms by (simp_all add: s f64_lt_def f64_eq_def)
qed

text \<open>A concrete order-preserving image: the big-endian bytes of the signed magnitude, shifted to be positive.\<close>

definition to_be_bytes :: "64 word \<Rightarrow> bytes" where
  "to_be_bytes w = rev (to_le_bytes w)"

lemma length_to_be_bytes [simp]: "length (to_be_bytes w) = 8"
  by (simp add: to_be_bytes_def)

definition key_image :: "f64 \<Rightarrow> bytes" where
  "key_image x = to_be_bytes (word_of_int (f64_key x + 2 ^ 63))"

definition be_value :: "bytes \<Rightarrow> nat" where
  "be_value bs = foldl (\<lambda>acc b. acc * 256 + unat b) 0 bs"

lemma foldl_be: "foldl (\<lambda>acc b. acc * 256 + unat b) n (bs :: bytes) = n * 256 ^ length bs + be_value bs"
  unfolding be_value_def
proof (induction bs arbitrary: n)
  case (Cons b bs)
  show ?case using Cons [of "n * 256 + unat b"] Cons [of "unat b"] by (simp add: algebra_simps)
qed simp

lemma be_value_Cons: "be_value (b # bs) = unat b * 256 ^ length bs + be_value bs"
  using foldl_be [of "unat b" bs] by (simp add: be_value_def)

lemma be_value_bound: "be_value bs < 256 ^ length bs"
proof (induction bs)
  case (Cons b bs)
  have "unat b < 256" using unsigned_less [of b] by simp
  then have "Suc (unat b) * 256 ^ length bs \<le> 256 * 256 ^ length bs" by (intro mult_le_mono1) simp
  then show ?case using Cons unfolding be_value_Cons list.size add_Suc_right add_0_right power_Suc mult_Suc by linarith
qed (simp add: be_value_def)

lemma be_value_less: "length a = length b \<Longrightarrow> be_value a < be_value b \<Longrightarrow> a < b"
proof (induction a b rule: list_induct2)
  case (Cons x xs y ys)
  show ?case
  proof (cases "unat x" "unat y" rule: linorder_cases)
    case less
    then show ?thesis by (simp add: word_less_nat_alt)
  next
    case equal
    then have "x = y" by (simp only: unsigned_word_eqI)
    then show ?thesis using Cons by (simp add: be_value_Cons)
  next
    case greater
    then have "Suc (unat y) * 256 ^ length ys \<le> unat x * 256 ^ length ys" by (intro mult_le_mono1) simp
    then show ?thesis
      using Cons.prems Cons.hyps be_value_bound [of ys] unfolding be_value_Cons mult_Suc by simp
  qed
qed simp

lemma be_value_bytes:
  "be_value (map (\<lambda>i. ucast (drop_bit (8 * i) (w :: 64 word))) (rev [0..<k])) = unat w mod 256 ^ k"
proof (induction k)
  case 0
  then show ?case by (simp add: be_value_def)
next
  case (Suc k)
  have "unat (ucast (drop_bit (8 * k) w) :: u8) = unat w div 256 ^ k mod 256"
  proof -
    have "unat (ucast (drop_bit (8 * k) w) :: u8) = take_bit 8 (drop_bit (8 * k) (unat w))"
      by (simp only: unsigned_ucast_eq unat_drop_bit_eq) simp
    then show ?thesis by (simp add: take_bit_eq_mod drop_bit_eq_div power_mult)
  qed
  then show ?case
    using Suc mod_mult2_eq [of "unat w" "256 ^ k" 256] by (simp add: be_value_Cons mult.commute)
qed

lemma be_value_to_be_bytes: "be_value (to_be_bytes w) = unat w"
proof -
  have "be_value (to_be_bytes w) = unat w mod 256 ^ 8"
    unfolding to_be_bytes_def to_le_bytes_def rev_map by (rule be_value_bytes)
  moreover have "unat w < 256 ^ 8" using unsigned_less [of w] by simp
  ultimately show ?thesis by simp
qed

lemma key_image_order_preserving: "order_preserving key_image"
  unfolding order_preserving_def
proof (intro allI impI)
  fix x y
  assume "f64_lt x y"
  then have lt: "f64_key x < f64_key y" by (simp add: f64_lt_def)
  have u: "int (unat (word_of_int (f64_key z + 2 ^ 63) :: 64 word)) = f64_key z + 2 ^ 63" for z
  proof -
    have "0 \<le> f64_key z + 2 ^ 63" "f64_key z + 2 ^ 63 < 2 ^ 64"
      using f64_magnitude_bounds [of z] by (simp_all add: f64_key_def)
    then have "uint (word_of_int (f64_key z + 2 ^ 63) :: 64 word) = f64_key z + 2 ^ 63"
      by (subst unsigned_of_int) (simp add: take_bit_int_eq_self)
    then show ?thesis by (simp only: uint_nat)
  qed
  have "unat (word_of_int (f64_key x + 2 ^ 63) :: 64 word) < unat (word_of_int (f64_key y + 2 ^ 63) :: 64 word)"
    using u [of x] u [of y] lt by linarith
  then show "key_image x < key_image y"
    unfolding key_image_def by (intro be_value_less) (simp_all add: to_be_bytes_def [symmetric] be_value_to_be_bytes length_to_be_bytes)
qed

end
