(* ===== verification/Zset_Skiplist.thy ===== *)
theory Zset_Skiplist
  imports Zset_Float "HOL-Library.Monad_Syntax"
begin

text \<open>
  The skip list of \<open>wedb_zset/src/skiplist.rs\<close>, on an explicit heap.  A pointer is an address or
  null (\<open>None\<close>); an operation is in the option monad, and \<open>None\<close> stands for everything that must
  not happen in the code: a dangling or null pointer followed, a level index out of range, a
  subtraction below zero, a loop that does not end.  The random level of a new node comes from a
  parameter \<open>draw\<close>: whether the n-th call of \<open>rng.f32()\<close> falls below \<open>SKIPLIST_P\<close>.
\<close>

section \<open>Data\<close>

type_synonym addr = nat

record link =
  link_forward :: "addr option"
  link_span :: nat

record node =
  node_score :: f64
  node_order :: bytes
  node_member :: bytes
  node_backward :: "addr option"
  node_level :: "link list"

type_synonym heap = "addr \<Rightarrow> node option"

type_synonym entry = "bytes \<times> f64"

record skiplist =
  sl_heap :: heap
  sl_header :: addr
  sl_tail :: "addr option"
  sl_length :: nat
  sl_level :: nat
  sl_rng :: nat
  sl_brk :: addr

definition MAX_LEVEL :: nat where
  "MAX_LEVEL = 32"

definition node_new :: "(f64 \<Rightarrow> bytes) \<Rightarrow> nat \<Rightarrow> f64 \<Rightarrow> bytes \<Rightarrow> node" where
  "node_new enc level score member =
     \<lparr>node_score = score, node_order = encode_sortable_f64 enc score, node_member = member,
      node_backward = None, node_level = replicate level \<lparr>link_forward = None, link_span = 0\<rparr>\<rparr>"

definition lk :: "heap \<Rightarrow> addr \<times> nat \<Rightarrow> link option" where
  "lk h = (\<lambda>(a, i). case h a of
      Some nd \<Rightarrow> if i < length (node_level nd) then Some (node_level nd ! i) else None
    | None \<Rightarrow> None)"

definition forward :: "heap \<Rightarrow> addr \<Rightarrow> nat \<Rightarrow> addr option option" where
  "forward h a i = map_option link_forward (lk h (a, i))"

definition span_at :: "heap \<Rightarrow> addr \<Rightarrow> nat \<Rightarrow> nat option" where
  "span_at h a i = map_option link_span (lk h (a, i))"

definition set_link :: "heap \<Rightarrow> addr \<Rightarrow> nat \<Rightarrow> (link \<Rightarrow> link) \<Rightarrow> heap option" where
  "set_link h a i f =
     (case h a of
        Some nd \<Rightarrow>
          if i < length (node_level nd)
          then Some (h(a \<mapsto> nd\<lparr>node_level := (node_level nd)[i := f (node_level nd ! i)]\<rparr>))
          else None
      | None \<Rightarrow> None)"

definition set_forward :: "heap \<Rightarrow> addr \<Rightarrow> nat \<Rightarrow> addr option \<Rightarrow> heap option" where
  "set_forward h a i fwd = set_link h a i (\<lambda>l. l\<lparr>link_forward := fwd\<rparr>)"

definition set_span :: "heap \<Rightarrow> addr \<Rightarrow> nat \<Rightarrow> nat \<Rightarrow> heap option" where
  "set_span h a i s = set_link h a i (\<lambda>l. l\<lparr>link_span := s\<rparr>)"

definition get_backward :: "heap \<Rightarrow> addr \<Rightarrow> addr option option" where
  "get_backward h a = map_option node_backward (h a)"

definition set_backward :: "heap \<Rightarrow> addr \<Rightarrow> addr option \<Rightarrow> heap option" where
  "set_backward h a b = map_option (\<lambda>nd. h(a \<mapsto> nd\<lparr>node_backward := b\<rparr>)) (h a)"

text \<open>Subtraction of \<open>usize\<close> values.\<close>

definition usub :: "nat \<Rightarrow> nat \<Rightarrow> nat option" where
  "usub a b = (if b \<le> a then Some (a - b) else None)"

definition skiplist_new :: "(f64 \<Rightarrow> bytes) \<Rightarrow> skiplist" where
  "skiplist_new enc =
     \<lparr>sl_heap = [0 \<mapsto> node_new enc MAX_LEVEL 0 []], sl_header = 0, sl_tail = None, sl_length = 0,
      sl_level = 1, sl_rng = 0, sl_brk = 1\<rparr>"

section \<open>Search\<close>

text \<open>
  The inner loop of every search: move along level \<open>i\<close> while \<open>go\<close> accepts the next node and the
  rank it would have, adding up the spans.
\<close>

partial_function (option) walk ::
  "heap \<Rightarrow> (node \<Rightarrow> nat \<Rightarrow> bool) \<Rightarrow> nat \<Rightarrow> addr \<Rightarrow> nat \<Rightarrow> (addr \<times> nat) option" where
  "walk h go i cur rank =
     do { f \<leftarrow> forward h cur i;
          case f of
            None \<Rightarrow> Some (cur, rank)
          | Some next \<Rightarrow>
              do { nd \<leftarrow> h next;
                   s \<leftarrow> span_at h cur i;
                   if go nd (rank + s) then walk h go i next (rank + s) else Some (cur, rank) } }"

text \<open>From the top level down; the list holds \<open>update[i]\<close> and \<open>rank[i]\<close> for every level.\<close>

fun descend ::
  "heap \<Rightarrow> (node \<Rightarrow> nat \<Rightarrow> bool) \<Rightarrow> nat \<Rightarrow> addr \<Rightarrow> nat \<Rightarrow> (addr \<times> nat \<times> (addr \<times> nat) list) option" where
  "descend h go 0 cur rank = Some (cur, rank, [])"
| "descend h go (Suc i) cur rank =
     do { (c, r) \<leftarrow> walk h go i cur rank;
          (c', r', us) \<leftarrow> descend h go i c r;
          Some (c', r', us @ [(c, r)]) }"

definition key_lt :: "bytes \<Rightarrow> bytes \<Rightarrow> node \<Rightarrow> nat \<Rightarrow> bool" where
  "key_lt order member nd r \<longleftrightarrow> (node_order nd, node_member nd) < (order, member)"

section \<open>Insertion\<close>

function random_level_from :: "(nat \<Rightarrow> bool) \<Rightarrow> nat \<Rightarrow> nat \<Rightarrow> nat \<times> nat" where
  "random_level_from draw n lvl =
     (if lvl < MAX_LEVEL then
        (if draw n then random_level_from draw (Suc n) (Suc lvl) else (lvl, Suc n))
      else (lvl, n))"
  by auto
termination by (relation "measure (\<lambda>(draw, n, lvl). MAX_LEVEL - lvl)") auto

declare random_level_from.simps [simp del]

definition random_level :: "(nat \<Rightarrow> bool) \<Rightarrow> nat \<Rightarrow> nat \<times> nat" where
  "random_level draw n = random_level_from draw n 1"

primrec raise_spans :: "heap \<Rightarrow> addr \<Rightarrow> nat \<Rightarrow> nat \<Rightarrow> nat \<Rightarrow> heap option" where
  "raise_spans h header len lo 0 = Some h"
| "raise_spans h header len lo (Suc n) =
     do { h \<leftarrow> raise_spans h header len lo n; set_span h header (lo + n) len }"

primrec link_levels :: "heap \<Rightarrow> addr \<Rightarrow> (addr \<times> nat) list \<Rightarrow> nat \<Rightarrow> heap option" where
  "link_levels h new us 0 = Some h"
| "link_levels h new us (Suc i) =
     do { h \<leftarrow> link_levels h new us i;
          let u = fst (us ! i);
          f \<leftarrow> forward h u i;
          h \<leftarrow> set_forward h new i f;
          h \<leftarrow> set_forward h u i (Some new);
          s \<leftarrow> span_at h u i;
          d \<leftarrow> usub (snd (us ! 0)) (snd (us ! i));
          s' \<leftarrow> usub s d;
          h \<leftarrow> set_span h new i s';
          set_span h u i (d + 1) }"

primrec bump_spans :: "heap \<Rightarrow> (addr \<times> nat) list \<Rightarrow> nat \<Rightarrow> nat \<Rightarrow> heap option" where
  "bump_spans h us lo 0 = Some h"
| "bump_spans h us lo (Suc n) =
     do { h \<leftarrow> bump_spans h us lo n;
          s \<leftarrow> span_at h (fst (us ! (lo + n))) (lo + n);
          set_span h (fst (us ! (lo + n))) (lo + n) (s + 1) }"

definition skiplist_insert ::
  "(f64 \<Rightarrow> bytes) \<Rightarrow> (nat \<Rightarrow> bool) \<Rightarrow> skiplist \<Rightarrow> f64 \<Rightarrow> bytes \<Rightarrow> skiplist option" where
  "skiplist_insert enc draw sl score member =
     do { let order = encode_sortable_f64 enc score;
          (_, _, us) \<leftarrow> descend (sl_heap sl) (key_lt order member) (sl_level sl) (sl_header sl) 0;
          let (lvl, rng) = random_level draw (sl_rng sl);
          h \<leftarrow> raise_spans (sl_heap sl) (sl_header sl) (sl_length sl) (sl_level sl) (lvl - sl_level sl);
          let us = us @ replicate (lvl - sl_level sl) (sl_header sl, 0);
          let level = max (sl_level sl) lvl;
          let new = sl_brk sl;
          h \<leftarrow> link_levels (h(new \<mapsto> node_new enc lvl score member)) new us lvl;
          h \<leftarrow> bump_spans h us lvl (level - lvl);
          h \<leftarrow> set_backward h new (if fst (us ! 0) = sl_header sl then None else Some (fst (us ! 0)));
          forward0 \<leftarrow> forward h new 0;
          (h, tail) \<leftarrow> (case forward0 of
              Some f \<Rightarrow> do { h \<leftarrow> set_backward h f (Some new); Some (h, sl_tail sl) }
            | None \<Rightarrow> Some (h, Some new));
          Some (sl\<lparr>sl_heap := h, sl_tail := tail, sl_length := sl_length sl + 1, sl_level := level,
                   sl_rng := rng, sl_brk := new + 1\<rparr>) }"

section \<open>Deletion\<close>

primrec unlink_levels :: "heap \<Rightarrow> addr \<Rightarrow> (addr \<times> nat) list \<Rightarrow> nat \<Rightarrow> heap option" where
  "unlink_levels h target us 0 = Some h"
| "unlink_levels h target us (Suc i) =
     do { h \<leftarrow> unlink_levels h target us i;
          let u = fst (us ! i);
          f \<leftarrow> forward h u i;
          if f = Some target then
            do { s \<leftarrow> span_at h u i;
                 ts \<leftarrow> span_at h target i;
                 new_span \<leftarrow> usub (s + ts) 1;
                 h \<leftarrow> set_span h u i new_span;
                 tf \<leftarrow> forward h target i;
                 set_forward h u i tf }
          else
            do { s \<leftarrow> span_at h u i;
                 s' \<leftarrow> usub s 1;
                 set_span h u i s' } }"

text \<open>\<open>while self.level > 1 && header.forward(self.level - 1).is_null()\<close>.\<close>

fun trim_level :: "heap \<Rightarrow> addr \<Rightarrow> nat \<Rightarrow> nat option" where
  "trim_level h header (Suc (Suc l)) =
     do { f \<leftarrow> forward h header (Suc l);
          if f = None then trim_level h header (Suc l) else Some (Suc (Suc l)) }"
| "trim_level h header l = Some l"

definition delete_entry :: "(f64 \<Rightarrow> bytes) \<Rightarrow> skiplist \<Rightarrow> f64 \<Rightarrow> bytes \<Rightarrow> (skiplist \<times> entry option) option" where
  "delete_entry enc sl score member =
     do { let order = encode_sortable_f64 enc score;
          (cur, _, us) \<leftarrow> descend (sl_heap sl) (key_lt order member) (sl_level sl) (sl_header sl) 0;
          t \<leftarrow> forward (sl_heap sl) cur 0;
          case t of
            None \<Rightarrow> Some (sl, None)
          | Some target \<Rightarrow>
              do { nd \<leftarrow> sl_heap sl target;
                   if node_order nd = order \<and> node_member nd = member then
                     do { h \<leftarrow> unlink_levels (sl_heap sl) target us (sl_level sl);
                          f0 \<leftarrow> forward h target 0;
                          b \<leftarrow> get_backward h target;
                          (h, tail) \<leftarrow> (case f0 of
                              Some f \<Rightarrow> do { h \<leftarrow> set_backward h f b; Some (h, sl_tail sl) }
                            | None \<Rightarrow> Some (h, b));
                          level \<leftarrow> trim_level h (sl_header sl) (sl_level sl);
                          len \<leftarrow> usub (sl_length sl) 1;
                          boxed \<leftarrow> h target;
                          Some (sl\<lparr>sl_heap := h(target := None), sl_tail := tail, sl_length := len,
                                   sl_level := level\<rparr>,
                                Some (node_member boxed, node_score boxed)) }
                   else Some (sl, None) } }"

definition skiplist_delete :: "(f64 \<Rightarrow> bytes) \<Rightarrow> skiplist \<Rightarrow> f64 \<Rightarrow> bytes \<Rightarrow> (skiplist \<times> bool) option" where
  "skiplist_delete enc sl score member =
     map_option (\<lambda>(sl, e). (sl, e \<noteq> None)) (delete_entry enc sl score member)"

definition pop_first :: "skiplist \<Rightarrow> (skiplist \<times> entry option) option" where
  "pop_first sl =
     (if sl_length sl = 0 then Some (sl, None)
      else
        do { t \<leftarrow> forward (sl_heap sl) (sl_header sl) 0;
             case t of
               None \<Rightarrow> Some (sl, None)
             | Some first \<Rightarrow>
                 do { h \<leftarrow> unlink_levels (sl_heap sl) first (replicate (sl_level sl) (sl_header sl, 0)) (sl_level sl);
                      f0 \<leftarrow> forward h first 0;
                      (h, tail) \<leftarrow> (case f0 of
                          Some f \<Rightarrow> do { h \<leftarrow> set_backward h f None; Some (h, sl_tail sl) }
                        | None \<Rightarrow> Some (h, None));
                      level \<leftarrow> trim_level h (sl_header sl) (sl_level sl);
                      len \<leftarrow> usub (sl_length sl) 1;
                      boxed \<leftarrow> h first;
                      Some (sl\<lparr>sl_heap := h(first := None), sl_tail := tail, sl_length := len,
                               sl_level := level\<rparr>,
                            Some (node_member boxed, node_score boxed)) } })"

definition pop_last :: "(f64 \<Rightarrow> bytes) \<Rightarrow> skiplist \<Rightarrow> (skiplist \<times> entry option) option" where
  "pop_last enc sl =
     (case sl_tail sl of
        None \<Rightarrow> Some (sl, None)
      | Some t \<Rightarrow>
          if sl_length sl = 0 then Some (sl, None)
          else do { nd \<leftarrow> sl_heap sl t; delete_entry enc sl (node_score nd) (node_member nd) })"

section \<open>Ranks\<close>

partial_function (option) rank_walk ::
  "heap \<Rightarrow> bytes \<Rightarrow> bytes \<Rightarrow> nat \<Rightarrow> addr \<Rightarrow> nat \<Rightarrow> (addr \<times> nat + nat) option" where
  "rank_walk h order member i cur rank =
     do { f \<leftarrow> forward h cur i;
          case f of
            None \<Rightarrow> Some (Inl (cur, rank))
          | Some next \<Rightarrow>
              do { nd \<leftarrow> h next;
                   s \<leftarrow> span_at h cur i;
                   if (node_order nd, node_member nd) < (order, member)
                   then rank_walk h order member i next (rank + s)
                   else if (node_order nd, node_member nd) = (order, member)
                   then map_option Inr (usub (rank + s) 1)
                   else Some (Inl (cur, rank)) } }"

fun rank_descend :: "heap \<Rightarrow> bytes \<Rightarrow> bytes \<Rightarrow> nat \<Rightarrow> addr \<Rightarrow> nat \<Rightarrow> nat option option" where
  "rank_descend h order member 0 cur rank = Some None"
| "rank_descend h order member (Suc i) cur rank =
     do { x \<leftarrow> rank_walk h order member i cur rank;
          case x of
            Inl (c, r) \<Rightarrow> rank_descend h order member i c r
          | Inr r \<Rightarrow> Some (Some r) }"

definition get_rank :: "(f64 \<Rightarrow> bytes) \<Rightarrow> skiplist \<Rightarrow> f64 \<Rightarrow> bytes \<Rightarrow> nat option option" where
  "get_rank enc sl score member =
     rank_descend (sl_heap sl) (encode_sortable_f64 enc score) member (sl_level sl) (sl_header sl) 0"

text \<open>The search for a rank stops at the level on which the rank is met.\<close>

fun seek_rank :: "heap \<Rightarrow> nat \<Rightarrow> nat \<Rightarrow> addr \<Rightarrow> nat \<Rightarrow> (addr \<times> nat) option" where
  "seek_rank h target_rank 0 cur rank = Some (cur, rank)"
| "seek_rank h target_rank (Suc i) cur rank =
     do { (c, r) \<leftarrow> walk h (\<lambda>nd r. r \<le> target_rank) i cur rank;
          if r = target_rank then Some (c, r) else seek_rank h target_rank i c r }"

definition get_by_rank :: "skiplist \<Rightarrow> nat \<Rightarrow> entry option option" where
  "get_by_rank sl rank =
     (if sl_length sl \<le> rank then Some None
      else
        do { (c, r) \<leftarrow> seek_rank (sl_heap sl) (rank + 1) (sl_level sl) (sl_header sl) 0;
             if r = rank + 1
             then do { nd \<leftarrow> sl_heap sl c; Some (Some (node_member nd, node_score nd)) }
             else Some None })"

text \<open>\<open>for _ in 0..count\<close>: up to \<open>count\<close> entries along a direction, stopping at null and at the header.\<close>

fun collect_count ::
  "heap \<Rightarrow> addr \<Rightarrow> (addr \<Rightarrow> addr option option) \<Rightarrow> nat \<Rightarrow> addr option \<Rightarrow> entry list option" where
  "collect_count h header step 0 cur = Some []"
| "collect_count h header step (Suc n) cur =
     (case cur of
        None \<Rightarrow> Some []
      | Some a \<Rightarrow>
          if a = header then Some []
          else do { nd \<leftarrow> h a;
                    cur \<leftarrow> step a;
                    res \<leftarrow> collect_count h header step n cur;
                    Some ((node_member nd, node_score nd) # res) })"

definition range_by_rank :: "skiplist \<Rightarrow> nat \<Rightarrow> nat \<Rightarrow> bool \<Rightarrow> entry list option" where
  "range_by_rank sl start stop reverse =
     (if sl_length sl = 0 \<or> stop < start \<or> sl_length sl \<le> start then Some []
      else
        let h = sl_heap sl;
            actual_stop = min stop (sl_length sl - 1);
            count = actual_stop - start + 1
        in if \<not> reverse then
             do { (c, _) \<leftarrow> seek_rank h (start + 1) (sl_level sl) (sl_header sl) 0;
                  collect_count h (sl_header sl) (\<lambda>a. forward h a 0) count (Some c) }
           else
             do { (c, _) \<leftarrow> seek_rank h (sl_length sl - 1 - start + 1) (sl_level sl) (sl_header sl) 0;
                  collect_count h (sl_header sl) (get_backward h) count (Some c) })"

section \<open>Ranges by score and by member\<close>

record score_range =
  range_min :: f64
  min_inclusive :: bool
  range_max :: f64
  max_inclusive :: bool

definition range_is_valid :: "score_range \<Rightarrow> bool" where
  "range_is_valid sr \<longleftrightarrow>
     \<not> (is_nan (range_min sr) \<or> is_nan (range_max sr) \<or> f64_lt (range_max sr) (range_min sr)) \<and>
     \<not> (f64_eq (range_min sr) (range_max sr) \<and> (\<not> min_inclusive sr \<or> \<not> max_inclusive sr))"

definition above_min :: "score_range \<Rightarrow> f64 \<Rightarrow> bool" where
  "above_min sr s \<longleftrightarrow> (if min_inclusive sr then f64_le (range_min sr) s else f64_lt (range_min sr) s)"

definition below_max :: "score_range \<Rightarrow> f64 \<Rightarrow> bool" where
  "below_max sr s \<longleftrightarrow> (if max_inclusive sr then f64_le s (range_max sr) else f64_lt s (range_max sr))"

definition range_contains :: "score_range \<Rightarrow> f64 \<Rightarrow> bool" where
  "range_contains sr s \<longleftrightarrow> range_is_valid sr \<and> \<not> is_nan s \<and> above_min sr s \<and> below_max sr s"

text \<open>The condition under which a search for the minimum moves on.\<close>

definition before_min :: "score_range \<Rightarrow> f64 \<Rightarrow> bool" where
  "before_min sr s \<longleftrightarrow> (if min_inclusive sr then f64_lt s (range_min sr) else f64_le s (range_min sr))"

text \<open>
  The collecting loop of the score and member ranges: skip \<open>offset\<close> entries, take \<open>count\<close>, stop at
  the first entry that is not \<open>within\<close> the other bound, at null, and, backwards, at the header.
\<close>

partial_function (option) collect ::
  "heap \<Rightarrow> (addr \<Rightarrow> bool) \<Rightarrow> (addr \<Rightarrow> addr option option) \<Rightarrow> (entry \<Rightarrow> bool) \<Rightarrow> nat \<Rightarrow> nat \<Rightarrow>
   addr option \<Rightarrow> nat \<Rightarrow> entry list \<Rightarrow> entry list option" where
  "collect h at_end step within offset count cur skipped res =
     (case cur of
        None \<Rightarrow> Some res
      | Some a \<Rightarrow>
          if at_end a then Some res
          else
            do { nd \<leftarrow> h a;
                 let e = (node_member nd, node_score nd);
                 if \<not> within e then Some res
                 else if skipped < offset then
                   do { cur \<leftarrow> step a; collect h at_end step within offset count cur (skipped + 1) res }
                 else if count \<le> length (res @ [e]) then Some (res @ [e])
                 else do { cur \<leftarrow> step a; collect h at_end step within offset count cur skipped (res @ [e]) } })"

definition range_by_score :: "skiplist \<Rightarrow> score_range \<Rightarrow> bool \<Rightarrow> nat \<Rightarrow> nat \<Rightarrow> entry list option" where
  "range_by_score sl sr reverse offset count =
     (if sl_length sl = 0 \<or> count = 0 \<or> \<not> range_is_valid sr then Some []
      else
        let h = sl_heap sl in
        if \<not> reverse then
          do { (c, _, _) \<leftarrow> descend h (\<lambda>nd r. before_min sr (node_score nd)) (sl_level sl) (sl_header sl) 0;
               cur \<leftarrow> forward h c 0;
               collect h (\<lambda>_. False) (\<lambda>a. forward h a 0) (\<lambda>e. below_max sr (snd e)) offset count cur 0 [] }
        else
          do { (c, _, _) \<leftarrow> descend h (\<lambda>nd r. below_max sr (node_score nd)) (sl_level sl) (sl_header sl) 0;
               collect h (\<lambda>a. a = sl_header sl) (get_backward h) (\<lambda>e. above_min sr (snd e)) offset count
                 (Some c) 0 [] })"

definition count_by_score :: "skiplist \<Rightarrow> score_range \<Rightarrow> nat option" where
  "count_by_score sl sr =
     (if sl_length sl = 0 \<or> \<not> range_is_valid sr then Some 0
      else
        do { let h = sl_heap sl;
             (c, first_rank, _) \<leftarrow> descend h (\<lambda>nd r. before_min sr (node_score nd)) (sl_level sl) (sl_header sl) 0;
             f \<leftarrow> forward h c 0;
             case f of
               None \<Rightarrow> Some 0
             | Some first_node \<Rightarrow>
                 do { nd \<leftarrow> h first_node;
                      if \<not> below_max sr (node_score nd) then Some 0
                      else
                        do { let first_rank = first_rank + 1;
                             (_, last_rank, _) \<leftarrow>
                               descend h (\<lambda>nd r. below_max sr (node_score nd)) (sl_level sl) (sl_header sl) 0;
                             Some (if last_rank < first_rank then 0 else last_rank - first_rank + 1) } } })"

datatype lex_bound = Included bytes | Excluded bytes | Neg_Inf | Pos_Inf

fun matches_min :: "lex_bound \<Rightarrow> bytes \<Rightarrow> bool" where
  "matches_min Neg_Inf member = True"
| "matches_min Pos_Inf member = False"
| "matches_min (Included b) member = (b \<le> member)"
| "matches_min (Excluded b) member = (b < member)"

fun matches_max :: "lex_bound \<Rightarrow> bytes \<Rightarrow> bool" where
  "matches_max Pos_Inf member = True"
| "matches_max Neg_Inf member = False"
| "matches_max (Included b) member = (member \<le> b)"
| "matches_max (Excluded b) member = (member < b)"

definition nav_lex :: "skiplist \<Rightarrow> bytes \<Rightarrow> bool \<Rightarrow> (addr \<times> nat) option" where
  "nav_lex sl bound lt_only =
     do { (c, r, _) \<leftarrow> descend (sl_heap sl)
            (\<lambda>nd r. if lt_only then node_member nd < bound else node_member nd \<le> bound)
            (sl_level sl) (sl_header sl) 0;
          Some (c, r) }"

definition lower_bound :: "skiplist \<Rightarrow> lex_bound \<Rightarrow> addr option option" where
  "lower_bound sl lo =
     (case (case lo of
              Neg_Inf \<Rightarrow> Some (Some (sl_header sl))
            | Included b \<Rightarrow> map_option (Some \<circ> fst) (nav_lex sl b True)
            | Excluded b \<Rightarrow> map_option (Some \<circ> fst) (nav_lex sl b False)
            | Pos_Inf \<Rightarrow> Some None) of
        None \<Rightarrow> None
      | Some None \<Rightarrow> Some None
      | Some (Some cur) \<Rightarrow> forward (sl_heap sl) cur 0)"

definition upper_bound :: "skiplist \<Rightarrow> lex_bound \<Rightarrow> addr option option" where
  "upper_bound sl hi =
     (case hi of
        Pos_Inf \<Rightarrow> Some (sl_tail sl)
      | Neg_Inf \<Rightarrow> Some None
      | Included b \<Rightarrow>
          do { (node, _) \<leftarrow> nav_lex sl b False;
               Some (if node = sl_header sl then None else Some node) }
      | Excluded b \<Rightarrow>
          do { (node, _) \<leftarrow> nav_lex sl b True;
               Some (if node = sl_header sl then None else Some node) })"

definition range_by_lex :: "skiplist \<Rightarrow> lex_bound \<Rightarrow> lex_bound \<Rightarrow> bool \<Rightarrow> nat \<Rightarrow> nat \<Rightarrow> entry list option" where
  "range_by_lex sl lo hi reverse offset count =
     (if sl_length sl = 0 \<or> count = 0 then Some []
      else
        let h = sl_heap sl in
        if \<not> reverse then
          do { cur \<leftarrow> lower_bound sl lo;
               collect h (\<lambda>_. False) (\<lambda>a. forward h a 0) (\<lambda>e. matches_max hi (fst e)) offset count cur 0 [] }
        else
          do { cur \<leftarrow> upper_bound sl hi;
               collect h (\<lambda>a. a = sl_header sl) (get_backward h) (\<lambda>e. matches_min lo (fst e)) offset count cur 0 [] })"

definition count_by_lex :: "skiplist \<Rightarrow> lex_bound \<Rightarrow> lex_bound \<Rightarrow> nat option" where
  "count_by_lex sl lo hi =
     (if sl_length sl = 0 \<or> lo = Pos_Inf then Some 0
      else
        do { (c, before_min) \<leftarrow> (case lo of
                 Included b \<Rightarrow> nav_lex sl b True
               | Excluded b \<Rightarrow> nav_lex sl b False
               | _ \<Rightarrow> Some (sl_header sl, 0));
             f \<leftarrow> forward (sl_heap sl) c 0;
             case f of
               None \<Rightarrow> Some 0
             | Some first_node \<Rightarrow>
                 do { nd \<leftarrow> sl_heap sl first_node;
                      if \<not> matches_max hi (node_member nd) then Some 0
                      else
                        case hi of
                          Neg_Inf \<Rightarrow> Some 0
                        | Pos_Inf \<Rightarrow> Some (sl_length sl - before_min)
                        | Included b \<Rightarrow> do { (_, last_rank) \<leftarrow> nav_lex sl b False; Some (last_rank - before_min) }
                        | Excluded b \<Rightarrow> do { (_, last_rank) \<leftarrow> nav_lex sl b True; Some (last_rank - before_min) } } })"

section \<open>Iteration and release\<close>

fun iter_next :: "heap \<Rightarrow> addr option \<Rightarrow> nat \<Rightarrow> entry list option" where
  "iter_next h cur 0 = Some []"
| "iter_next h cur (Suc remaining) =
     (case cur of
        None \<Rightarrow> Some []
      | Some a \<Rightarrow>
          do { nd \<leftarrow> h a;
               cur \<leftarrow> forward h a 0;
               res \<leftarrow> iter_next h cur remaining;
               Some ((node_member nd, node_score nd) # res) })"

definition skiplist_iter :: "skiplist \<Rightarrow> entry list option" where
  "skiplist_iter sl =
     do { cur \<leftarrow> forward (sl_heap sl) (sl_header sl) 0;
          iter_next (sl_heap sl) cur (sl_length sl) }"

partial_function (option) drop_nodes :: "heap \<Rightarrow> addr option \<Rightarrow> heap option" where
  "drop_nodes h cur =
     (case cur of
        None \<Rightarrow> Some h
      | Some a \<Rightarrow> do { next \<leftarrow> forward h a 0; drop_nodes (h(a := None)) next })"

definition skiplist_drop :: "skiplist \<Rightarrow> heap option" where
  "skiplist_drop sl =
     do { cur \<leftarrow> forward (sl_heap sl) (sl_header sl) 0;
          h \<leftarrow> drop_nodes (sl_heap sl) cur;
          _ \<leftarrow> h (sl_header sl);
          Some (h(sl_header sl := None)) }"

end
