(* ===== verification/Zset_Shape.thy ===== *)
theory Zset_Shape
  imports Zset_Skiplist
begin

text \<open>
  The shape of a skip list and how the loops of the operations change it.  A skip list is the
  sequence of its node addresses, header first, so that a rank is an index; \<open>links_ok\<close> says that on
  every level each link leads to the next node that is tall enough and that its span is the distance
  of the two ranks.  The invariant of the whole structure is \<open>rep\<close>.
\<close>

section \<open>Heaps as functions\<close>

text \<open>What the proofs read of a heap: contents, heights, back pointers and links.\<close>

definition info :: "heap \<Rightarrow> addr \<Rightarrow> (f64 \<times> bytes \<times> bytes) option" where
  "info h a = map_option (\<lambda>nd. (node_score nd, node_order nd, node_member nd)) (h a)"

definition hts :: "heap \<Rightarrow> addr \<Rightarrow> nat option" where
  "hts h a = map_option (length \<circ> node_level) (h a)"

lemma lk_simps: "lk h (a, i) = Some l \<longleftrightarrow> (\<exists>nd. h a = Some nd \<and> i < length (node_level nd) \<and> node_level nd ! i = l)"
  by (auto simp: lk_def split: option.splits if_splits)

lemma set_link_ok:
  assumes "lk h (a, i) = Some l"
  shows "\<exists>h'. set_link h a i f = Some h' \<and> lk h' = (lk h)((a, i) \<mapsto> f l) \<and>
    info h' = info h \<and> hts h' = hts h \<and> get_backward h' = get_backward h"
proof -
  obtain nd where nd: "h a = Some nd" "i < length (node_level nd)" "node_level nd ! i = l"
    using assms by (auto simp: lk_simps)
  let ?h = "h(a \<mapsto> nd\<lparr>node_level := (node_level nd)[i := f l]\<rparr>)"
  have "set_link h a i f = Some ?h" using nd by (simp add: set_link_def)
  moreover have "lk ?h = (lk h)((a, i) \<mapsto> f l)"
    using nd by (auto simp: lk_def fun_eq_iff nth_list_update)
  moreover have "info ?h = info h" "hts ?h = hts h" "get_backward ?h = get_backward h"
    using nd by (auto simp: info_def hts_def get_backward_def fun_eq_iff)
  ultimately show ?thesis by blast
qed

lemma set_backward_ok:
  assumes "h a = Some nd"
  shows "\<exists>h'. set_backward h a b = Some h' \<and> get_backward h' = (get_backward h)(a \<mapsto> b) \<and>
    info h' = info h \<and> hts h' = hts h \<and> lk h' = lk h"
proof -
  let ?h = "h(a \<mapsto> nd\<lparr>node_backward := b\<rparr>)"
  have "set_backward h a b = Some ?h" using assms by (simp add: set_backward_def)
  moreover have "lk ?h = lk h" "info ?h = info h" "hts ?h = hts h" "get_backward ?h = (get_backward h)(a \<mapsto> b)"
    using assms by (auto simp: lk_def info_def hts_def get_backward_def fun_eq_iff)
  ultimately show ?thesis by blast
qed

lemma dom_info: "dom h = dom (info h)"
  by (auto simp: info_def dom_def)

text \<open>Two heaps that agree except in their links.\<close>

definition same_nodes :: "heap \<Rightarrow> heap \<Rightarrow> bool" where
  "same_nodes h h' \<longleftrightarrow> info h' = info h \<and> hts h' = hts h \<and> get_backward h' = get_backward h"

lemma same_nodes_refl [simp]: "same_nodes h h"
  by (simp add: same_nodes_def)

lemma same_nodes_trans: "same_nodes h h' \<Longrightarrow> same_nodes h' h'' \<Longrightarrow> same_nodes h h''"
  by (simp add: same_nodes_def)

lemma set_forward_ok:
  "lk h (a, i) = Some l \<Longrightarrow>
   \<exists>h'. set_forward h a i f = Some h' \<and> lk h' = (lk h)((a, i) \<mapsto> l\<lparr>link_forward := f\<rparr>) \<and> same_nodes h h'"
  using set_link_ok [of h a i l "\<lambda>l. l\<lparr>link_forward := f\<rparr>"] by (auto simp: set_forward_def same_nodes_def)

lemma set_span_ok:
  "lk h (a, i) = Some l \<Longrightarrow>
   \<exists>h'. set_span h a i s = Some h' \<and> lk h' = (lk h)((a, i) \<mapsto> l\<lparr>link_span := s\<rparr>) \<and> same_nodes h h'"
  using set_link_ok [of h a i l "\<lambda>l. l\<lparr>link_span := s\<rparr>"] by (auto simp: set_span_def same_nodes_def)

lemma forward_lk: "lk h (a, i) = Some l \<Longrightarrow> forward h a i = Some (link_forward l)"
  and span_lk: "lk h (a, i) = Some l \<Longrightarrow> span_at h a i = Some (link_span l)"
  by (simp_all add: forward_def span_at_def)

section \<open>What the loops do to the links\<close>

lemma raise_spans_ok:
  assumes "\<And>i. lo \<le> i \<Longrightarrow> i < lo + n \<Longrightarrow> \<exists>l. lk h (hdr, i) = Some l"
  shows "\<exists>h'. raise_spans h hdr len lo n = Some h' \<and> same_nodes h h' \<and>
    lk h' = (\<lambda>(a, i). if a = hdr \<and> lo \<le> i \<and> i < lo + n then map_option (\<lambda>l. l\<lparr>link_span := len\<rparr>) (lk h (a, i))
                     else lk h (a, i))"
  using assms
proof (induction n)
  case 0
  then show ?case by (auto simp: fun_eq_iff)
next
  case (Suc n)
  then obtain h1 where h1: "raise_spans h hdr len lo n = Some h1" "same_nodes h h1"
      "lk h1 = (\<lambda>(a, i). if a = hdr \<and> lo \<le> i \<and> i < lo + n then map_option (\<lambda>l. l\<lparr>link_span := len\<rparr>) (lk h (a, i))
                     else lk h (a, i))"
    by auto
  obtain l where l: "lk h (hdr, lo + n) = Some l" using Suc.prems [of "lo + n"] by auto
  then have "lk h1 (hdr, lo + n) = Some l" by (simp add: h1)
  from set_span_ok [OF this, of len] obtain h2 where
    h2: "set_span h1 hdr (lo + n) len = Some h2" "lk h2 = (lk h1)((hdr, lo + n) \<mapsto> l\<lparr>link_span := len\<rparr>)" "same_nodes h1 h2"
    by blast
  show ?case
    using h1(1,2) h2 l same_nodes_trans by (auto simp: fun_eq_iff h1(3) less_Suc_eq)
qed

lemma link_levels_ok:
  assumes "\<And>i. i < n \<Longrightarrow> fst (us ! i) \<noteq> new \<and> snd (us ! i) \<le> snd (us ! 0)"
    and "\<And>i. i < n \<Longrightarrow> \<exists>l. lk h (fst (us ! i), i) = Some l \<and> snd (us ! 0) - snd (us ! i) \<le> link_span l"
    and "\<And>i. i < n \<Longrightarrow> \<exists>l. lk h (new, i) = Some l"
  shows "\<exists>h'. link_levels h new us n = Some h' \<and> same_nodes h h' \<and>
    (\<forall>a i. lk h' (a, i) =
      (if i < n \<and> a = new then
         map_option (\<lambda>l. \<lparr>link_forward = link_forward l, link_span = link_span l - (snd (us ! 0) - snd (us ! i))\<rparr>)
           (lk h (fst (us ! i), i))
       else if i < n \<and> a = fst (us ! i) then
         Some \<lparr>link_forward = Some new, link_span = snd (us ! 0) - snd (us ! i) + 1\<rparr>
       else lk h (a, i)))"
  using assms
proof (induction n)
  case 0
  then show ?case by auto
next
  case (Suc n)
  let ?u = "fst (us ! n)" and ?d = "snd (us ! 0) - snd (us ! n)"
  obtain h1 where h1: "link_levels h new us n = Some h1" "same_nodes h h1" and lk1: "\<forall>a i. lk h1 (a, i) =
      (if i < n \<and> a = new then
         map_option (\<lambda>l. \<lparr>link_forward = link_forward l, link_span = link_span l - (snd (us ! 0) - snd (us ! i))\<rparr>)
           (lk h (fst (us ! i), i))
       else if i < n \<and> a = fst (us ! i) then
         Some \<lparr>link_forward = Some new, link_span = snd (us ! 0) - snd (us ! i) + 1\<rparr>
       else lk h (a, i))"
    using Suc.IH [OF Suc.prems(1) [OF less_SucI] Suc.prems(2) [OF less_SucI] Suc.prems(3) [OF less_SucI]] by blast
  have ne: "?u \<noteq> new" "snd (us ! n) \<le> snd (us ! 0)" using Suc.prems(1) [of n] by auto
  obtain l where l: "lk h (?u, n) = Some l" "?d \<le> link_span l" using Suc.prems(2) [of n] by auto
  obtain m where m: "lk h (new, n) = Some m" using Suc.prems(3) [of n] by auto
  have l1: "lk h1 (?u, n) = Some l" and m1: "lk h1 (new, n) = Some m" using l m lk1 by auto
  obtain h2 where h2: "set_forward h1 new n (link_forward l) = Some h2"
      "lk h2 = (lk h1)((new, n) \<mapsto> m\<lparr>link_forward := link_forward l\<rparr>)" "same_nodes h1 h2"
    using set_forward_ok [OF m1] by blast
  have l2: "lk h2 (?u, n) = Some l" using l1 ne by (simp add: h2(2))
  obtain h3 where h3: "set_forward h2 ?u n (Some new) = Some h3"
      "lk h3 = (lk h2)((?u, n) \<mapsto> l\<lparr>link_forward := Some new\<rparr>)" "same_nodes h2 h3"
    using set_forward_ok [OF l2] by blast
  have l3: "lk h3 (?u, n) = Some (l\<lparr>link_forward := Some new\<rparr>)" by (simp add: h3(2))
  have m3: "lk h3 (new, n) = Some (m\<lparr>link_forward := link_forward l\<rparr>)" using ne by (simp add: h3(2) h2(2))
  obtain h4 where h4: "set_span h3 new n (link_span l - ?d) = Some h4"
      "lk h4 = (lk h3)((new, n) \<mapsto> m\<lparr>link_forward := link_forward l, link_span := link_span l - ?d\<rparr>)" "same_nodes h3 h4"
    using set_span_ok [OF m3] by auto
  have l4: "lk h4 (?u, n) = Some (l\<lparr>link_forward := Some new\<rparr>)" using l3 ne by (simp add: h4(2))
  obtain h5 where h5: "set_span h4 ?u n (?d + 1) = Some h5"
      "lk h5 = (lk h4)((?u, n) \<mapsto> l\<lparr>link_forward := Some new, link_span := ?d + 1\<rparr>)" "same_nodes h4 h5"
    using set_span_ok [OF l4] by auto
  have run: "link_levels h new us (Suc n) = Some h5"
    using h1(1) h2(1) h3(1) h4(1) h5(1) l(2) ne(2) forward_lk [OF l1] span_lk [OF l3]
    by (simp add: Let_def usub_def)
  have same: "same_nodes h h5" using h1(2) h2(3) h3(3) h4(3) h5(3) same_nodes_trans by blast
  have lk5: "lk h5 = (lk h1)((new, n) \<mapsto> m\<lparr>link_forward := link_forward l, link_span := link_span l - ?d\<rparr>,
      (?u, n) \<mapsto> l\<lparr>link_forward := Some new, link_span := ?d + 1\<rparr>)"
    using ne by (auto simp: h5(2) h4(2) h3(2) h2(2) fun_eq_iff)
  have "lk h5 (a, i) =
      (if i < Suc n \<and> a = new then
         map_option (\<lambda>l. \<lparr>link_forward = link_forward l, link_span = link_span l - (snd (us ! 0) - snd (us ! i))\<rparr>)
           (lk h (fst (us ! i), i))
       else if i < Suc n \<and> a = fst (us ! i) then
         Some \<lparr>link_forward = Some new, link_span = snd (us ! 0) - snd (us ! i) + 1\<rparr>
       else lk h (a, i))" for a i
  proof (cases "i = n")
    case True
    then show ?thesis using ne l(1) lk1 by (simp add: lk5)
  next
    case False
    then show ?thesis using lk1 by (simp add: lk5 less_Suc_eq)
  qed
  with run same show ?case by blast
qed

lemma bump_spans_ok:
  assumes "\<And>i. lo \<le> i \<Longrightarrow> i < lo + n \<Longrightarrow> \<exists>l. lk h (fst (us ! i), i) = Some l"
  shows "\<exists>h'. bump_spans h us lo n = Some h' \<and> same_nodes h h' \<and>
    (\<forall>a i. lk h' (a, i) =
      (if lo \<le> i \<and> i < lo + n \<and> a = fst (us ! i) then map_option (\<lambda>l. l\<lparr>link_span := link_span l + 1\<rparr>) (lk h (a, i))
       else lk h (a, i)))"
  using assms
proof (induction n)
  case 0
  then show ?case by auto
next
  case (Suc n)
  let ?u = "fst (us ! (lo + n))"
  obtain h1 where h1: "bump_spans h us lo n = Some h1" "same_nodes h h1" and lk1: "\<forall>a i. lk h1 (a, i) =
      (if lo \<le> i \<and> i < lo + n \<and> a = fst (us ! i) then map_option (\<lambda>l. l\<lparr>link_span := link_span l + 1\<rparr>) (lk h (a, i))
       else lk h (a, i))"
    using Suc by auto
  obtain l where l: "lk h (?u, lo + n) = Some l" using Suc.prems [of "lo + n"] by auto
  then have l1: "lk h1 (?u, lo + n) = Some l" using lk1 by auto
  obtain h2 where h2: "set_span h1 ?u (lo + n) (link_span l + 1) = Some h2"
      "lk h2 = (lk h1)((?u, lo + n) \<mapsto> l\<lparr>link_span := link_span l + 1\<rparr>)" "same_nodes h1 h2"
    using set_span_ok [OF l1] by blast
  have "bump_spans h us lo (Suc n) = Some h2" using h1(1) h2(1) span_lk [OF l1] by simp
  moreover have "same_nodes h h2" using h1(2) h2(3) same_nodes_trans by blast
  ultimately show ?case using l by (intro exI [of _ h2]) (auto simp: h2(2) lk1 less_Suc_eq)
qed

lemma unlink_levels_ok:
  assumes "\<And>i. i < n \<Longrightarrow> fst (us ! i) \<noteq> target"
    and "\<And>i. i < n \<Longrightarrow> \<exists>l. lk h (fst (us ! i), i) = Some l \<and> 0 < link_span l \<and>
           (link_forward l = Some target \<longrightarrow> (\<exists>t. lk h (target, i) = Some t))"
  shows "\<exists>h'. unlink_levels h target us n = Some h' \<and> same_nodes h h' \<and>
    (\<forall>a i. lk h' (a, i) =
      (if i < n \<and> a = fst (us ! i) then
         map_option (\<lambda>l. if link_forward l = Some target
             then \<lparr>link_forward = link_forward (the (lk h (target, i))),
                   link_span = link_span l + link_span (the (lk h (target, i))) - 1\<rparr>
             else l\<lparr>link_span := link_span l - 1\<rparr>) (lk h (a, i))
       else lk h (a, i)))"
  using assms
proof (induction n)
  case 0
  then show ?case by auto
next
  case (Suc n)
  let ?u = "fst (us ! n)"
  obtain h1 where h1: "unlink_levels h target us n = Some h1" "same_nodes h h1" and lk1: "\<forall>a i. lk h1 (a, i) =
      (if i < n \<and> a = fst (us ! i) then
         map_option (\<lambda>l. if link_forward l = Some target
             then \<lparr>link_forward = link_forward (the (lk h (target, i))),
                   link_span = link_span l + link_span (the (lk h (target, i))) - 1\<rparr>
             else l\<lparr>link_span := link_span l - 1\<rparr>) (lk h (a, i))
       else lk h (a, i))"
    using Suc.IH [OF Suc.prems(1) [OF less_SucI] Suc.prems(2) [OF less_SucI]] by blast
  have ne: "?u \<noteq> target" using Suc.prems(1) [of n] by auto
  obtain l where l: "lk h (?u, n) = Some l" "0 < link_span l"
      "link_forward l = Some target \<longrightarrow> (\<exists>t. lk h (target, n) = Some t)"
    using Suc.prems(2) [of n] by auto
  have l1: "lk h1 (?u, n) = Some l" using l(1) lk1 by auto
  show ?case
  proof (cases "link_forward l = Some target")
    case True
    then obtain t where t: "lk h (target, n) = Some t" using l(3) by blast
    have t1: "lk h1 (target, n) = Some t" using t lk1 by auto
    let ?s = "link_span l + link_span t - 1"
    obtain h2 where h2: "set_span h1 ?u n ?s = Some h2"
        "lk h2 = (lk h1)((?u, n) \<mapsto> l\<lparr>link_span := ?s\<rparr>)" "same_nodes h1 h2"
      using set_span_ok [OF l1] by blast
    have t2: "lk h2 (target, n) = Some t" using t1 ne by (simp add: h2(2))
    have l2: "lk h2 (?u, n) = Some (l\<lparr>link_span := ?s\<rparr>)" by (simp add: h2(2))
    obtain h3 where h3: "set_forward h2 ?u n (link_forward t) = Some h3"
        "lk h3 = (lk h2)((?u, n) \<mapsto> l\<lparr>link_span := ?s, link_forward := link_forward t\<rparr>)" "same_nodes h2 h3"
      using set_forward_ok [OF l2] by auto
    have "unlink_levels h target us (Suc n) = Some h3"
      using h1(1) h2(1) h3(1) l(2) True forward_lk [OF l1] span_lk [OF l1] span_lk [OF t1] forward_lk [OF t2]
      by (simp add: Let_def usub_def)
    moreover have "same_nodes h h3" using h1(2) h2(3) h3(3) same_nodes_trans by blast
    moreover have "l\<lparr>link_span := ?s, link_forward := link_forward t\<rparr> = \<lparr>link_forward = link_forward t, link_span = ?s\<rparr>"
      by simp
    ultimately show ?thesis
      using l(1) t True by (intro exI [of _ h3]) (auto simp: h3(2) h2(2) lk1 less_Suc_eq)
  next
    case False
    obtain h2 where h2: "set_span h1 ?u n (link_span l - 1) = Some h2"
        "lk h2 = (lk h1)((?u, n) \<mapsto> l\<lparr>link_span := link_span l - 1\<rparr>)" "same_nodes h1 h2"
      using set_span_ok [OF l1] by blast
    have "unlink_levels h target us (Suc n) = Some h2"
      using h1(1) h2(1) l(2) False forward_lk [OF l1] span_lk [OF l1] by (simp add: Let_def usub_def)
    moreover have "same_nodes h h2" using h1(2) h2(3) same_nodes_trans by blast
    ultimately show ?thesis
      using l(1) False by (intro exI [of _ h2]) (auto simp: h2(2) lk1 less_Suc_eq)
  qed
qed

section \<open>The shape of a skip list\<close>

text \<open>
  A skip list is the sequence \<open>q\<close> of its addresses, the header first; the rank of a node is its
  index.  \<open>nextr hs i r s\<close>: after rank \<open>r\<close> the first node with more than \<open>i\<close> levels has rank \<open>s\<close>,
  or there is none and \<open>s\<close> is the length.
\<close>

definition nextr :: "nat list \<Rightarrow> nat \<Rightarrow> nat \<Rightarrow> nat \<Rightarrow> bool" where
  "nextr hs i r s \<longleftrightarrow>
     r < s \<and> s \<le> length hs \<and> (\<forall>t. r < t \<and> t < s \<longrightarrow> hs ! t \<le> i) \<and> (s < length hs \<longrightarrow> i < hs ! s)"

definition mk_link :: "addr list \<Rightarrow> nat \<Rightarrow> nat \<Rightarrow> link" where
  "mk_link q r s =
     (if s < length q then \<lparr>link_forward = Some (q ! s), link_span = s - r\<rparr>
      else \<lparr>link_forward = None, link_span = length q - 1 - r\<rparr>)"

text \<open>The rank of \<open>update[i]\<close> when \<open>c\<close> entries precede the key.\<close>

definition upd_rank :: "nat list \<Rightarrow> nat \<Rightarrow> nat \<Rightarrow> nat \<Rightarrow> bool" where
  "upd_rank hs c i u \<longleftrightarrow> u \<le> c \<and> (u = 0 \<or> i < hs ! u) \<and> (\<forall>t. u < t \<and> t \<le> c \<longrightarrow> hs ! t \<le> i)"

definition ht :: "heap \<Rightarrow> addr \<Rightarrow> nat" where
  "ht h a = the (hts h a)"

definition heights :: "heap \<Rightarrow> addr list \<Rightarrow> nat list" where
  "heights h q = map (ht h) q"

lemma length_heights [simp]: "length (heights h q) = length q"
  by (simp add: heights_def)

lemma nth_heights [simp]: "r < length q \<Longrightarrow> heights h q ! r = ht h (q ! r)"
  by (simp add: heights_def)

definition links_ok :: "heap \<Rightarrow> addr list \<Rightarrow> nat \<Rightarrow> bool" where
  "links_ok h q lv \<longleftrightarrow>
     (\<forall>r i. r < length q \<and> i < (if r = 0 then lv else ht h (q ! r)) \<longrightarrow>
       (\<exists>s. nextr (heights h q) i r s \<and> lk h (q ! r, i) = Some (mk_link q r s)))"

lemma upd_rank_0:
  assumes "upd_rank hs c 0 u" "\<And>t. 0 < t \<Longrightarrow> t \<le> c \<Longrightarrow> 0 < hs ! t"
  shows "u = c"
proof (rule ccontr)
  assume "u \<noteq> c"
  then have "u < c" using assms(1) by (simp add: upd_rank_def)
  then have "hs ! c = 0" using assms(1) by (simp add: upd_rank_def)
  then show False using assms(2) [of c] \<open>u < c\<close> by simp
qed

lemma upd_rank_next:
  assumes "upd_rank hs c i u" "nextr hs i u s" "c < length hs"
  shows "c < s"
proof (rule ccontr)
  assume "\<not> c < s"
  then have "s \<le> c" "s < length hs" using assms(3) by auto
  then have "i < hs ! s" "hs ! s \<le> i" using assms by (auto simp: upd_rank_def nextr_def)
  then show False by simp
qed

lemma upd_rank_other:
  assumes "upd_rank hs c i u" "nextr hs i r s" "r \<le> c" "r = 0 \<or> i < hs ! r" "r \<noteq> u"
  shows "r < u \<and> s \<le> u"
proof -
  have "r < u"
  proof (rule ccontr)
    assume "\<not> r < u"
    then have "u < r" using assms(5) by simp
    then have "hs ! r \<le> i" using assms(1,3) by (auto simp: upd_rank_def)
    then show False using assms(4) \<open>u < r\<close> by auto
  qed
  moreover have "s \<le> u"
  proof (rule ccontr)
    assume "\<not> s \<le> u"
    then have "hs ! u \<le> i" using assms(2) \<open>r < u\<close> by (auto simp: nextr_def)
    then show False using assms(1) \<open>r < u\<close> by (auto simp: upd_rank_def)
  qed
  ultimately show ?thesis ..
qed

lemma upd_rank_unique: "upd_rank hs c i u \<Longrightarrow> upd_rank hs c i u' \<Longrightarrow> u = u'"
  unfolding upd_rank_def by (metis leI le_neq_implies_less not_less_zero not_le)

section \<open>Search\<close>

definition prefix_search :: "heap \<Rightarrow> addr list \<Rightarrow> (node \<Rightarrow> nat \<Rightarrow> bool) \<Rightarrow> nat \<Rightarrow> bool" where
  "prefix_search h q go c \<longleftrightarrow>
     c < length q \<and> (\<forall>r. 0 < r \<and> r < length q \<longrightarrow> (\<exists>nd. h (q ! r) = Some nd \<and> (go nd r \<longleftrightarrow> r \<le> c)))"

lemma walk_ok:
  assumes "links_ok h q lv" "prefix_search h q go c" "i < lv"
  shows "r \<le> c \<Longrightarrow> r = 0 \<or> i < ht h (q ! r) \<Longrightarrow>
    \<exists>u. walk h go i (q ! r) r = Some (q ! u, u) \<and> upd_rank (heights h q) c i u"
proof (induction "c - r" arbitrary: r rule: less_induct)
  case less
  have c: "c < length q" using assms(2) by (simp add: prefix_search_def)
  have r: "r < length q" "i < (if r = 0 then lv else ht h (q ! r))" using less.prems c assms(3) by auto
  then obtain s where s: "nextr (heights h q) i r s" "lk h (q ! r, i) = Some (mk_link q r s)"
    using assms(1) unfolding links_ok_def by blast
  have rs: "r < s" "s \<le> length q" "\<And>t. r < t \<Longrightarrow> t < s \<Longrightarrow> heights h q ! t \<le> i"
    using s(1) by (auto simp: nextr_def)
  have upd: "upd_rank (heights h q) c i r" if "c < s"
    using that less.prems rs r(1) by (auto simp: upd_rank_def)
  show ?case
  proof (cases "s < length q")
    case False
    then have "walk h go i (q ! r) r = Some (q ! r, r)"
      using s(2) by (subst walk.simps) (simp add: forward_lk mk_link_def)
    then show ?thesis using upd False c by (intro exI [of _ r]) simp
  next
    case True
    obtain nd where nd: "h (q ! s) = Some nd" "go nd s \<longleftrightarrow> s \<le> c"
      using assms(2) True rs(1) unfolding prefix_search_def by (metis gr_implies_not0 gr0I)
    have eq: "walk h go i (q ! r) r = (if s \<le> c then walk h go i (q ! s) s else Some (q ! r, r))"
      using s(2) True nd rs(1) by (subst walk.simps) (simp add: forward_lk span_lk mk_link_def)
    show ?thesis
    proof (cases "s \<le> c")
      case True
      have "i < ht h (q ! s)" using s(1) \<open>s < length q\<close> by (simp add: nextr_def)
      then show ?thesis using less.hyps [of s] True rs(1) eq by auto
    next
      case False
      then show ?thesis using upd eq by (intro exI [of _ r]) simp
    qed
  qed
qed

lemma descend_ok:
  assumes "links_ok h q lv" "prefix_search h q go c"
  shows "k \<le> lv \<Longrightarrow> r \<le> c \<Longrightarrow> r = 0 \<or> k \<le> ht h (q ! r) \<Longrightarrow>
    \<exists>us. length us = k \<and> (\<forall>i < k. \<exists>u. us ! i = (q ! u, u) \<and> upd_rank (heights h q) c i u) \<and>
      (descend h go k (q ! r) r =
       (if k = 0 then Some (q ! r, r, us) else Some (fst (us ! 0), snd (us ! 0), us)))"
proof (induction k arbitrary: r)
  case 0
  then show ?case by simp
next
  case (Suc k)
  obtain u where u: "walk h go k (q ! r) r = Some (q ! u, u)" "upd_rank (heights h q) c k u"
    using walk_ok [OF assms, of k r] Suc.prems by auto
  have c: "c < length q" using assms(2) by (simp add: prefix_search_def)
  have "u \<le> c" "u = 0 \<or> k \<le> ht h (q ! u)" using u(2) c by (auto simp: upd_rank_def)
  then obtain us where us: "length us = k" "\<forall>i < k. \<exists>u. us ! i = (q ! u, u) \<and> upd_rank (heights h q) c i u"
      "descend h go k (q ! u) u = (if k = 0 then Some (q ! u, u, us) else Some (fst (us ! 0), snd (us ! 0), us))"
    using Suc.IH [of u] Suc.prems(1) by auto
  have "descend h go (Suc k) (q ! r) r =
      Some (fst ((us @ [(q ! u, u)]) ! 0), snd ((us @ [(q ! u, u)]) ! 0), us @ [(q ! u, u)])"
    using u(1) us(1) by (cases "k = 0") (simp_all add: us(3) nth_append)
  moreover have "\<forall>i < Suc k. \<exists>u'. (us @ [(q ! u, u)]) ! i = (q ! u', u') \<and> upd_rank (heights h q) c i u'"
    using us(1,2) u(2) by (auto simp: nth_append less_Suc_eq)
  ultimately show ?case using us(1) by (intro exI [of _ "us @ [(q ! u, u)]"]) simp
qed

text \<open>A search from the header: it ends at rank \<open>c\<close>.\<close>

lemma descend_header:
  assumes "links_ok h q lv" "prefix_search h q go c" "0 < lv"
    and pos: "\<And>r. 0 < r \<Longrightarrow> r < length q \<Longrightarrow> 0 < ht h (q ! r)"
  obtains us where "descend h go lv (q ! 0) 0 = Some (q ! c, c, us)" "length us = lv" "us ! 0 = (q ! c, c)"
    "\<And>i. i < lv \<Longrightarrow> \<exists>u. us ! i = (q ! u, u) \<and> upd_rank (heights h q) c i u"
proof -
  obtain us where us: "length us = lv" "\<forall>i < lv. \<exists>u. us ! i = (q ! u, u) \<and> upd_rank (heights h q) c i u"
      "descend h go lv (q ! 0) 0 = Some (fst (us ! 0), snd (us ! 0), us)"
    using descend_ok [OF assms(1,2), of lv 0] assms(3) by auto
  have c: "c < length q" using assms(2) by (simp add: prefix_search_def)
  obtain u where u: "us ! 0 = (q ! u, u)" "upd_rank (heights h q) c 0 u" using us(2) assms(3) by blast
  have "u = c" using upd_rank_0 [OF u(2)] pos c by auto
  then show thesis using that us u(1) by auto
qed

section \<open>Inserting and removing a rank\<close>

definition ins :: "nat \<Rightarrow> 'a \<Rightarrow> 'a list \<Rightarrow> 'a list" where
  "ins c x xs = take (Suc c) xs @ x # drop (Suc c) xs"

definition del :: "nat \<Rightarrow> 'a list \<Rightarrow> 'a list" where
  "del c xs = take (Suc c) xs @ drop (Suc (Suc c)) xs"

lemma length_ins [simp]: "length (ins c x xs) = Suc (length xs)"
  by (simp add: ins_def)

lemma nth_ins: "c < length xs \<Longrightarrow> ins c x xs ! r = (if r \<le> c then xs ! r else if r = Suc c then x else xs ! (r - 1))"
  by (auto simp: ins_def nth_append nth_Cons' min_def) (rule arg_cong [where f = "nth xs"], arith)+

lemma length_del: "Suc c < length xs \<Longrightarrow> length (del c xs) = length xs - 1"
  by (simp add: del_def)

lemma nth_del: "Suc c < length xs \<Longrightarrow> del c xs ! r = (if r \<le> c then xs ! r else xs ! Suc r)"
  by (auto simp: del_def nth_append min_def)

lemma map_ins: "map f (ins c x xs) = ins c (f x) (map f xs)"
  by (simp add: ins_def take_map drop_map)

lemma map_del: "map f (del c xs) = del c (map f xs)"
  by (simp add: del_def take_map drop_map)

lemma nextr_ins:
  assumes "c < length hs" "nextr hs i r s"
  shows "r \<le> c \<Longrightarrow> s \<le> c \<Longrightarrow> nextr (ins c lvl hs) i r s"
    and "r \<le> c \<Longrightarrow> c < s \<Longrightarrow> i < lvl \<Longrightarrow> nextr (ins c lvl hs) i r (Suc c)"
    and "r \<le> c \<Longrightarrow> c < s \<Longrightarrow> nextr (ins c lvl hs) i (Suc c) (Suc s)"
    and "r \<le> c \<Longrightarrow> c < s \<Longrightarrow> lvl \<le> i \<Longrightarrow> nextr (ins c lvl hs) i r (Suc s)"
    and "c < r \<Longrightarrow> nextr (ins c lvl hs) i (Suc r) (Suc s)"
  using assms by (auto simp: nextr_def nth_ins) (drule spec, erule mp, arith)+

lemma nextr_del:
  assumes "Suc c < length hs" "nextr hs i r s"
  shows "r \<le> c \<Longrightarrow> s \<le> c \<Longrightarrow> nextr (del c hs) i r s"
    and "r \<le> c \<Longrightarrow> s = Suc c \<Longrightarrow> nextr hs i (Suc c) s2 \<Longrightarrow> nextr (del c hs) i r (s2 - 1)"
    and "r \<le> c \<Longrightarrow> Suc c < s \<Longrightarrow> nextr (del c hs) i r (s - 1)"
    and "c < r \<Longrightarrow> nextr (del c hs) i (r - 1) (s - 1)"
  using assms by (auto simp: nextr_def nth_del length_del) (drule spec, erule mp, arith)+

lemma mk_link_ins:
  assumes "c < length q"
  shows "s \<le> c \<Longrightarrow> mk_link (ins c new q) r s = mk_link q r s"
    and "mk_link (ins c new q) r (Suc c) = \<lparr>link_forward = Some new, link_span = Suc c - r\<rparr>"
    and "r \<le> c \<Longrightarrow> c < s \<Longrightarrow> s \<le> length q \<Longrightarrow> mk_link (ins c new q) (Suc c) (Suc s) =
      \<lparr>link_forward = link_forward (mk_link q r s), link_span = link_span (mk_link q r s) - (c - r)\<rparr>"
    and "r \<le> c \<Longrightarrow> c < s \<Longrightarrow> s \<le> length q \<Longrightarrow> mk_link (ins c new q) r (Suc s) =
      (mk_link q r s)\<lparr>link_span := link_span (mk_link q r s) + 1\<rparr>"
    and "c < s \<Longrightarrow> mk_link (ins c new q) (Suc r) (Suc s) = mk_link q r s"
  using assms by (auto simp: mk_link_def nth_ins)

lemma mk_link_del:
  assumes "Suc c < length q"
  shows "s \<le> c \<Longrightarrow> mk_link (del c q) r s = mk_link q r s"
    and "r \<le> c \<Longrightarrow> Suc c < s \<Longrightarrow> s \<le> length q \<Longrightarrow> mk_link (del c q) r (s - 1) =
      \<lparr>link_forward = link_forward (mk_link q (Suc c) s),
       link_span = link_span (mk_link q r (Suc c)) + link_span (mk_link q (Suc c) s) - 1\<rparr>"
    and "r \<le> c \<Longrightarrow> Suc c < s \<Longrightarrow> s \<le> length q \<Longrightarrow> mk_link (del c q) r (s - 1) =
      (mk_link q r s)\<lparr>link_span := link_span (mk_link q r s) - 1\<rparr>"
    and "c < r \<Longrightarrow> r < s \<Longrightarrow> mk_link (del c q) (r - 1) (s - 1) = mk_link q r s"
  using assms by (auto simp: mk_link_def nth_del length_del)


lemma links_ok_insert:
  assumes ok: "links_ok h q lv" and q: "distinct q" "c < length q" "new \<notin> set q"
    and lv: "lvl \<le> lv"
    and U: "\<And>i. i < lv \<Longrightarrow> upd_rank (heights h q) c i (U i)"
    and hts': "heights h' (ins c new q) = ins c lvl (heights h q)"
    and old: "\<And>a i. a \<in> set q \<Longrightarrow> i < lv \<Longrightarrow> lk h' (a, i) =
      (if i < lvl \<and> a = q ! U i then Some \<lparr>link_forward = Some new, link_span = c - U i + 1\<rparr>
       else if lvl \<le> i \<and> a = q ! U i then map_option (\<lambda>l. l\<lparr>link_span := link_span l + 1\<rparr>) (lk h (a, i))
       else lk h (a, i))"
    and fresh: "\<And>i. i < lvl \<Longrightarrow> lk h' (new, i) =
      map_option (\<lambda>l. \<lparr>link_forward = link_forward l, link_span = link_span l - (c - U i)\<rparr>) (lk h (q ! U i, i))"
    and low: "\<And>r. 0 < r \<Longrightarrow> r < length q \<Longrightarrow> ht h (q ! r) \<le> lv"
  shows "links_ok h' (ins c new q) lv"
  unfolding links_ok_def
proof (intro allI impI, elim conjE)
  fix r i
  assume r: "r < length (ins c new q)" and i: "i < (if r = 0 then lv else ht h' (ins c new q ! r))"
  have hs: "c < length (heights h q)" using q(2) by simp
  have ht': "ht h' (ins c new q ! r) = ins c lvl (heights h q) ! r"
    using r hts' nth_heights [of r "ins c new q" h'] by simp
  have U': "U i < length q" "U i \<le> c" "U i = 0 \<or> i < ht h (q ! U i)" if "i < lv"
    using U [OF that] q(2) by (auto simp: upd_rank_def)
  have link: "\<exists>s. nextr (heights h q) i r s \<and> lk h (q ! r, i) = Some (mk_link q r s)"
    if "r < length q" "i < (if r = 0 then lv else ht h (q ! r))" for r
    using ok that unfolding links_ok_def by blast
  consider (before) "r \<le> c" | (new) "r = Suc c" | (after) "Suc c < r" by linarith
  then show "\<exists>s. nextr (heights h' (ins c new q)) i r s \<and> lk h' (ins c new q ! r, i) = Some (mk_link (ins c new q) r s)"
  proof cases
    case before
    have rq: "r < length q" "ins c new q ! r = q ! r" using before q(2) by (auto simp: nth_ins)
    have ir: "i < (if r = 0 then lv else ht h (q ! r))"
      using i ht' before q(2) rq by (auto simp: nth_ins split: if_splits)
    then have ilv: "i < lv" using low [of r] rq by (auto split: if_splits intro: less_le_trans)
    obtain s where s: "nextr (heights h q) i r s" "lk h (q ! r, i) = Some (mk_link q r s)"
      using link [OF rq(1) ir] by blast
    have sl: "s \<le> length q" using s(1) by (simp add: nextr_def)
    show ?thesis
    proof (cases "r = U i")
      case True
      have cs: "c < s" using upd_rank_next [OF U [OF ilv]] s(1) hs True by simp
      show ?thesis
      proof (cases "i < lvl")
        case True
        have "nextr (heights h' (ins c new q)) i r (Suc c)" unfolding hts' using nextr_ins(2) [OF hs s(1) before cs True] .
        moreover have "lk h' (q ! r, i) = Some (mk_link (ins c new q) r (Suc c))"
          using old [of "q ! r" i] rq ilv True \<open>r = U i\<close> before q(2) by (simp add: mk_link_ins(2) Suc_diff_le)
        ultimately show ?thesis using rq(2) by auto
      next
        case False
        have "nextr (heights h' (ins c new q)) i r (Suc s)"
          unfolding hts' using nextr_ins(4) [OF hs s(1) before cs] False by simp
        moreover have "lk h' (q ! r, i) = Some (mk_link (ins c new q) r (Suc s))"
          using old [of "q ! r" i] rq ilv False \<open>r = U i\<close> before q(2) s(2) cs sl by (simp add: mk_link_ins(4))
        ultimately show ?thesis using rq(2) by auto
      qed
    next
      case False
      have "r = 0 \<or> i < heights h q ! r" using ir rq(1) by (auto split: if_splits)
      then have su: "s \<le> U i" using upd_rank_other [OF U [OF ilv] s(1) before _ False] by blast
      then have sc: "s \<le> c" using U'(2) [OF ilv] by simp
      have "q ! r \<noteq> q ! U i" using q(1) rq(1) U'(1) [OF ilv] False by (simp add: nth_eq_iff_index_eq)
      then have "lk h' (q ! r, i) = Some (mk_link (ins c new q) r s)"
        using old [of "q ! r" i] rq ilv s(2) sc q(2) by (simp add: mk_link_ins(1))
      moreover have "nextr (heights h' (ins c new q)) i r s" unfolding hts' using nextr_ins(1) [OF hs s(1) before sc] .
      ultimately show ?thesis using rq(2) by auto
    qed
  next
    case new
    have il: "i < lvl" using i ht' new hs by (simp add: nth_ins)
    then have ilv: "i < lv" using lv by simp
    have "i < (if U i = 0 then lv else ht h (q ! U i))" using U'(3) [OF ilv] ilv by auto
    then obtain s where s: "nextr (heights h q) i (U i) s" "lk h (q ! U i, i) = Some (mk_link q (U i) s)"
      using link [OF U'(1) [OF ilv]] by blast
    have cs: "c < s" using upd_rank_next [OF U [OF ilv] s(1) hs] .
    have "s \<le> length q" using s(1) by (simp add: nextr_def)
    then have "lk h' (new, i) = Some (mk_link (ins c new q) (Suc c) (Suc s))"
      using fresh [OF il] s(2) cs U'(2) [OF ilv] q(2) by (simp add: mk_link_ins(3))
    moreover have "nextr (heights h' (ins c new q)) i r (Suc s)"
      unfolding hts' new using nextr_ins(3) [OF hs s(1) U'(2) [OF ilv] cs] .
    ultimately show ?thesis using new q(2) by (intro exI [of _ "Suc s"]) (simp add: nth_ins)
  next
    case after
    then obtain p where p: "r = Suc p" "c < p" by (cases r) auto
    have pq: "p < length q" "ins c new q ! r = q ! p" using r p q(2) by (auto simp: nth_ins)
    have ip: "i < ht h (q ! p)" using i ht' after p hs pq(1) by (simp add: nth_ins)
    then have ilv: "i < lv" using low [of p] p pq by simp
    obtain s where s: "nextr (heights h q) i p s" "lk h (q ! p, i) = Some (mk_link q p s)"
      using link [OF pq(1)] ip p by auto
    have "q ! p \<noteq> q ! U i" using q(1) pq(1) U'(1,2) [OF ilv] p(2) by (simp add: nth_eq_iff_index_eq)
    then have "lk h' (q ! p, i) = Some (mk_link q p s)" using old [of "q ! p" i] pq ilv s(2) by simp
    moreover have "c < s" using s(1) p(2) by (simp add: nextr_def)
    ultimately have "lk h' (ins c new q ! r, i) = Some (mk_link (ins c new q) r (Suc s))"
      using pq(2) p(1) q(2) by (simp add: mk_link_ins(5))
    moreover have "nextr (heights h' (ins c new q)) i r (Suc s)"
      unfolding hts' p(1) using nextr_ins(5) [OF hs s(1) p(2)] .
    ultimately show ?thesis by blast
  qed
qed

lemma links_ok_delete:
  assumes ok: "links_ok h q lv" and q: "distinct q" "Suc c < length q"
    and U: "\<And>i. i < lv \<Longrightarrow> upd_rank (heights h q) c i (U i)"
    and hts': "heights h' (del c q) = del c (heights h q)"
    and old: "\<And>a i. a \<in> set (del c q) \<Longrightarrow> i < lv \<Longrightarrow> lk h' (a, i) =
      (if a = q ! U i then
         map_option (\<lambda>l. if link_forward l = Some (q ! Suc c)
             then \<lparr>link_forward = link_forward (the (lk h (q ! Suc c, i))),
                   link_span = link_span l + link_span (the (lk h (q ! Suc c, i))) - 1\<rparr>
             else l\<lparr>link_span := link_span l - 1\<rparr>) (lk h (a, i))
       else lk h (a, i))"
    and low: "\<And>r. 0 < r \<Longrightarrow> r < length q \<Longrightarrow> ht h (q ! r) \<le> lv"
  shows "links_ok h' (del c q) lv"
  unfolding links_ok_def
proof (intro allI impI, elim conjE)
  fix r i
  assume r: "r < length (del c q)" and i: "i < (if r = 0 then lv else ht h' (del c q ! r))"
  have hs: "Suc c < length (heights h q)" using q(2) by simp
  have ht': "ht h' (del c q ! r) = del c (heights h q) ! r"
    using r hts' nth_heights [of r "del c q" h'] by simp
  have mem: "del c q ! r \<in> set (del c q)" using r by simp
  have U': "U i < length q" "U i \<le> c" if "i < lv" using U [OF that] q(2) by (auto simp: upd_rank_def)
  have link: "\<exists>s. nextr (heights h q) i r s \<and> lk h (q ! r, i) = Some (mk_link q r s)"
    if "r < length q" "i < (if r = 0 then lv else ht h (q ! r))" for r
    using ok that unfolding links_ok_def by blast
  show "\<exists>s. nextr (heights h' (del c q)) i r s \<and> lk h' (del c q ! r, i) = Some (mk_link (del c q) r s)"
  proof (cases "r \<le> c")
    case before: True
    have rq: "r < length q" "del c q ! r = q ! r" using before q(2) by (auto simp: nth_del)
    have ir: "i < (if r = 0 then lv else ht h (q ! r))"
      using i ht' before q(2) rq by (auto simp: nth_del split: if_splits)
    then have ilv: "i < lv" using low [of r] rq by (auto split: if_splits intro: less_le_trans)
    obtain s where s: "nextr (heights h q) i r s" "lk h (q ! r, i) = Some (mk_link q r s)"
      using link [OF rq(1) ir] by blast
    have sl: "s \<le> length q" using s(1) by (simp add: nextr_def)
    show ?thesis
    proof (cases "r = U i")
      case True
      have cs: "c < s" using upd_rank_next [OF U [OF ilv]] s(1) hs True by simp
      show ?thesis
      proof (cases "s = Suc c")
        case sc: True
        have "i < ht h (q ! Suc c)" using s(1) sc hs by (simp add: nextr_def)
        then obtain s2 where s2: "nextr (heights h q) i (Suc c) s2" "lk h (q ! Suc c, i) = Some (mk_link q (Suc c) s2)"
          using link [OF q(2)] by auto
        have b2: "Suc c < s2" "s2 \<le> length q" using s2(1) by (auto simp: nextr_def)
        have "link_forward (mk_link q r s) = Some (q ! Suc c)" using sc q(2) by (simp add: mk_link_def)
        then have "lk h' (q ! r, i) = Some (mk_link (del c q) r (s2 - 1))"
          using old [OF mem ilv] rq(2) True s(2) s2(2) sc mk_link_del(2) [OF q(2) before b2] by simp
        moreover have "nextr (heights h' (del c q)) i r (s2 - 1)"
          unfolding hts' using nextr_del(2) [OF hs s(1) before sc s2(1)] .
        ultimately show ?thesis using rq(2) by auto
      next
        case False
        then have sc: "Suc c < s" using cs by simp
        have "link_forward (mk_link q r s) \<noteq> Some (q ! Suc c)"
          using sc q by (auto simp: mk_link_def nth_eq_iff_index_eq)
        then have "lk h' (q ! r, i) = Some (mk_link (del c q) r (s - 1))"
          using old [OF mem ilv] rq(2) True s(2) mk_link_del(3) [OF q(2) before sc sl] by simp
        moreover have "nextr (heights h' (del c q)) i r (s - 1)"
          unfolding hts' using nextr_del(3) [OF hs s(1) before sc] .
        ultimately show ?thesis using rq(2) by auto
      qed
    next
      case False
      have "r = 0 \<or> i < heights h q ! r" using ir rq(1) by (auto split: if_splits)
      then have su: "s \<le> U i" using upd_rank_other [OF U [OF ilv] s(1) before _ False] by blast
      then have sc: "s \<le> c" using U'(2) [OF ilv] by simp
      have "q ! r \<noteq> q ! U i" using q(1) rq(1) U'(1) [OF ilv] False by (simp add: nth_eq_iff_index_eq)
      then have "lk h' (q ! r, i) = Some (mk_link (del c q) r s)"
        using old [OF mem ilv] rq(2) s(2) mk_link_del(1) [OF q(2) sc] by simp
      moreover have "nextr (heights h' (del c q)) i r s" unfolding hts' using nextr_del(1) [OF hs s(1) before sc] .
      ultimately show ?thesis using rq(2) by auto
    qed
  next
    case after: False
    have pq: "Suc r < length q" "del c q ! r = q ! Suc r" using r after q(2) by (auto simp: nth_del length_del)
    have ip: "i < ht h (q ! Suc r)" using i ht' after hs pq(1) by (auto simp: nth_del split: if_splits)
    then have ilv: "i < lv" using low [of "Suc r"] pq by simp
    obtain s where s: "nextr (heights h q) i (Suc r) s" "lk h (q ! Suc r, i) = Some (mk_link q (Suc r) s)"
      using link [OF pq(1)] ip by auto
    have rs: "Suc r < s" using s(1) by (simp add: nextr_def)
    have "q ! Suc r \<noteq> q ! U i" using q(1) pq(1) U'(1,2) [OF ilv] after by (simp add: nth_eq_iff_index_eq)
    then have "lk h' (del c q ! r, i) = Some (mk_link q (Suc r) s)" using old [OF mem ilv] pq(2) s(2) by simp
    moreover have "mk_link (del c q) r (s - 1) = mk_link q (Suc r) s"
      using mk_link_del(4) [OF q(2), of "Suc r" s] after rs by simp
    moreover have "nextr (heights h' (del c q)) i r (s - 1)"
      unfolding hts' using nextr_del(4) [OF hs s(1)] after by simp
    ultimately show ?thesis by metis
  qed
qed

lemma set_ins: "set (ins c x xs) = insert x (set xs)"
proof -
  have "set xs = set (take (Suc c) xs @ drop (Suc c) xs)" by simp
  then show ?thesis unfolding ins_def by (simp only: set_append list.set) blast
qed

lemma distinct_ins: "distinct xs \<Longrightarrow> x \<notin> set xs \<Longrightarrow> distinct (ins c x xs)"
  unfolding ins_def by (auto simp: set_take_disj_set_drop_if_distinct dest: in_set_takeD in_set_dropD)

lemma del_split: "Suc c < length xs \<Longrightarrow> xs = ins c (xs ! Suc c) (del c xs)"
  by (simp add: ins_def del_def min_def Cons_nth_drop_Suc)

lemma distinct_del: "distinct xs \<Longrightarrow> distinct (del c xs)"
  unfolding del_def by (auto dest: in_set_takeD in_set_dropD simp: set_take_disj_set_drop_if_distinct)

lemma set_del:
  assumes "distinct xs" "Suc c < length xs"
  shows "set (del c xs) = set xs - {xs ! Suc c}"
proof -
  have "xs ! Suc c \<notin> set (del c xs)"
    using assms by (auto simp: in_set_conv_nth nth_del length_del nth_eq_iff_index_eq split: if_splits)
  moreover have "set xs = insert (xs ! Suc c) (set (del c xs))"
    using del_split [OF assms(2)] set_ins [of c "xs ! Suc c" "del c xs"] by simp
  ultimately show ?thesis by blast
qed

section \<open>The representation invariant\<close>

definition key_of :: "heap \<Rightarrow> addr \<Rightarrow> bytes \<times> bytes" where
  "key_of h a = (let (s, ord, m) = the (info h a) in (ord, m))"

definition entry_of :: "heap \<Rightarrow> addr \<Rightarrow> entry" where
  "entry_of h a = (let (s, ord, m) = the (info h a) in (m, s))"

definition back_ok :: "heap \<Rightarrow> addr list \<Rightarrow> bool" where
  "back_ok h q \<longleftrightarrow>
     (\<forall>r. Suc r < length q \<longrightarrow> get_backward h (q ! Suc r) = Some (if r = 0 then None else Some (q ! r)))"

definition idle_ok :: "heap \<Rightarrow> addr \<Rightarrow> nat \<Rightarrow> bool" where
  "idle_ok h header lv \<longleftrightarrow>
     (\<forall>i. lv \<le> i \<and> i < MAX_LEVEL \<longrightarrow> (\<exists>l. lk h (header, i) = Some l \<and> link_forward l = None))"

definition nodes_ok :: "heap \<Rightarrow> addr list \<Rightarrow> nat \<Rightarrow> bool" where
  "nodes_ok h q lv \<longleftrightarrow>
     q \<noteq> [] \<and> distinct q \<and> dom h = set q \<and> 1 \<le> lv \<and> lv \<le> MAX_LEVEL \<and> ht h (q ! 0) = MAX_LEVEL \<and>
     (\<forall>r. 0 < r \<and> r < length q \<longrightarrow> 1 \<le> ht h (q ! r) \<and> ht h (q ! r) \<le> lv)"

definition rep :: "(f64 \<Rightarrow> bytes) \<Rightarrow> skiplist \<Rightarrow> addr list \<Rightarrow> bool" where
  "rep enc sl as \<longleftrightarrow>
     (let h = sl_heap sl; q = sl_header sl # as in
      nodes_ok h q (sl_level sl) \<and> (\<forall>a \<in> set q. a < sl_brk sl) \<and> sl_length sl = length as \<and>
      links_ok h q (sl_level sl) \<and> idle_ok h (sl_header sl) (sl_level sl) \<and> back_ok h q \<and>
      sl_tail sl = (if as = [] then None else Some (last as)) \<and>
      sorted_wrt (\<lambda>a b. key_of h a < key_of h b) as \<and>
      (\<forall>a \<in> set as. fst (key_of h a) = encode_sortable_f64 enc (snd (entry_of h a))))"

lemma nodes_okD:
  assumes "nodes_ok h q lv"
  shows "q \<noteq> []" "distinct q" "dom h = set q" "1 \<le> lv" "lv \<le> MAX_LEVEL" "ht h (q ! 0) = MAX_LEVEL"
    "\<And>r. 0 < r \<Longrightarrow> r < length q \<Longrightarrow> 1 \<le> ht h (q ! r)" "\<And>r. 0 < r \<Longrightarrow> r < length q \<Longrightarrow> ht h (q ! r) \<le> lv"
  using assms by (auto simp: nodes_ok_def)

text \<open>On level 0 every node is linked to its successor.\<close>

lemma forward_0:
  assumes "links_ok h q lv" "nodes_ok h q lv" "r < length q"
  shows "forward h (q ! r) 0 = Some (if Suc r < length q then Some (q ! Suc r) else None)"
proof -
  have "0 < (if r = 0 then lv else ht h (q ! r))"
    using assms(3) nodes_okD(4,7) [OF assms(2)] by (auto simp: Suc_le_eq)
  then obtain s where s: "nextr (heights h q) 0 r s" "lk h (q ! r, 0) = Some (mk_link q r s)"
    using assms(1,3) unfolding links_ok_def by blast
  have "s = Suc r"
  proof (rule ccontr)
    assume "s \<noteq> Suc r"
    then have "Suc r < s" using s(1) by (auto simp: nextr_def)
    then have "heights h q ! Suc r \<le> 0" "Suc r < length q" using s(1) by (auto simp: nextr_def)
    then show False using nodes_okD(7) [OF assms(2), of "Suc r"] by simp
  qed
  then show ?thesis using s(2) by (simp add: forward_def mk_link_def)
qed

lemma lk_cong: "h a = h' a \<Longrightarrow> lk h (a, i) = lk h' (a, i)"
  by (simp add: lk_def)

lemma lk_new_node: "i < lvl \<Longrightarrow> lk (h(new \<mapsto> node_new enc lvl score member)) (new, i) = Some \<lparr>link_forward = None, link_span = 0\<rparr>"
  by (simp add: lk_def node_new_def)

lemma same_nodes_ht: "same_nodes h h' \<Longrightarrow> ht h' = ht h" "same_nodes h h' \<Longrightarrow> heights h' = heights h"
  "same_nodes h h' \<Longrightarrow> dom h' = dom h" "same_nodes h h' \<Longrightarrow> key_of h' = key_of h" "same_nodes h h' \<Longrightarrow> entry_of h' = entry_of h"
  by (auto simp: same_nodes_def ht_def heights_def fun_eq_iff key_of_def entry_of_def dom_info)

lemma same_nodes_nodes_ok: "same_nodes h h' \<Longrightarrow> nodes_ok h' q lv = nodes_ok h q lv"
  by (simp add: nodes_ok_def same_nodes_ht)

lemma random_level_from_bounds: "1 \<le> lvl \<Longrightarrow> lvl \<le> MAX_LEVEL \<Longrightarrow>
  1 \<le> fst (random_level_from draw n lvl) \<and> fst (random_level_from draw n lvl) \<le> MAX_LEVEL"
proof (induction draw n lvl rule: random_level_from.induct)
  case (1 draw n lvl)
  then show ?case by (cases "lvl < MAX_LEVEL \<and> draw n") (auto simp: random_level_from.simps [of draw n lvl])
qed

lemma random_level_bounds: "1 \<le> fst (random_level draw n)" "fst (random_level draw n) \<le> MAX_LEVEL"
  using random_level_from_bounds [of 1 draw n] by (auto simp: random_level_def MAX_LEVEL_def)

section \<open>Insertion keeps the shape\<close>

lemma raise_ok:
  assumes "links_ok h q lv" "nodes_ok h q lv" "idle_ok h (q ! 0) lv" "lvl \<le> MAX_LEVEL" "len = length q - 1"
  shows "\<exists>h'. raise_spans h (q ! 0) len lv (lvl - lv) = Some h' \<and> same_nodes h h' \<and>
    links_ok h' q (max lv lvl) \<and> idle_ok h' (q ! 0) (max lv lvl)"
proof -
  note n = nodes_okD [OF assms(2)]
  have idle: "\<exists>l. lk h (q ! 0, i) = Some l \<and> link_forward l = None" if "lv \<le> i" "i < MAX_LEVEL" for i
    using assms(3) that by (auto simp: idle_ok_def)
  have ex: "\<And>i. lv \<le> i \<Longrightarrow> i < lv + (lvl - lv) \<Longrightarrow> \<exists>l. lk h (q ! 0, i) = Some l"
  proof -
    fix i
    assume i: "lv \<le> i" "i < lv + (lvl - lv)"
    then have "i < MAX_LEVEL" using assms(4) by linarith
    then show "\<exists>l. lk h (q ! 0, i) = Some l" using idle [of i] i(1) by blast
  qed
  obtain h' where
    h': "raise_spans h (q ! 0) len lv (lvl - lv) = Some h'" "same_nodes h h'" and
    lk': "lk h' = (\<lambda>(a, i). if a = q ! 0 \<and> lv \<le> i \<and> i < lv + (lvl - lv)
      then map_option (\<lambda>l. l\<lparr>link_span := len\<rparr>) (lk h (a, i)) else lk h (a, i))"
    using raise_spans_ok [OF ex, where len = len] by blast
  have "links_ok h' q (max lv lvl)"
    unfolding links_ok_def same_nodes_ht [OF h'(2)]
  proof (intro allI impI, elim conjE)
    fix r i
    assume r: "r < length q" and i: "i < (if r = 0 then max lv lvl else ht h (q ! r))"
    show "\<exists>s. nextr (heights h q) i r s \<and> lk h' (q ! r, i) = Some (mk_link q r s)"
    proof (cases "r = 0 \<and> lv \<le> i")
      case True
      then have i': "i < lv + (lvl - lv)" "i < MAX_LEVEL" using i assms(4) by (auto simp: max_def split: if_splits)
      obtain l where l: "lk h (q ! 0, i) = Some l" "link_forward l = None" using idle True i'(2) by blast
      have "lk h' (q ! r, i) = Some (mk_link q r (length q))"
        using l True i' assms(5) by (cases l) (simp add: lk' mk_link_def)
      moreover have "nextr (heights h q) i r (length q)"
        using True n(8) r by (auto simp: nextr_def intro: le_trans)
      ultimately show ?thesis by blast
    next
      case False
      then have "i < (if r = 0 then lv else ht h (q ! r))" using i by (auto split: if_splits)
      then obtain s where "nextr (heights h q) i r s" "lk h (q ! r, i) = Some (mk_link q r s)"
        using assms(1) r unfolding links_ok_def by blast
      moreover have "\<not> (q ! r = q ! 0 \<and> lv \<le> i)" using False r n(1,2) by (metis length_greater_0_conv nth_eq_iff_index_eq)
      ultimately show ?thesis by (auto simp: lk')
    qed
  qed
  moreover have "idle_ok h' (q ! 0) (max lv lvl)"
    using idle by (auto simp: idle_ok_def lk')
  ultimately show ?thesis using h' by blast
qed


lemma insert_links_ok:
  assumes ok: "links_ok h q lv" "nodes_ok h q lv" and c: "c < length q" and new: "new \<notin> set q"
    and lvl: "1 \<le> lvl" "lvl \<le> lv"
    and us: "\<And>i. i < lv \<Longrightarrow> us ! i = (q ! U i, U i) \<and> upd_rank (heights h q) c i (U i)"
  shows "\<exists>h1 h2. link_levels (h(new \<mapsto> node_new enc lvl score member)) new us lvl = Some h1 \<and>
    bump_spans h1 us lvl (lv - lvl) = Some h2 \<and> same_nodes (h(new \<mapsto> node_new enc lvl score member)) h2 \<and>
    links_ok h2 (ins c new q) lv \<and> nodes_ok h2 (ins c new q) lv \<and> (\<forall>i \<ge> lv. lk h2 (q ! 0, i) = lk h (q ! 0, i))"
proof -
  note n = nodes_okD [OF ok(2)]
  let ?h = "h(new \<mapsto> node_new enc lvl score member)"
  have U0: "U 0 = c" using us [of 0] n(4,7) c by (intro upd_rank_0 [of "heights h q"]) (auto simp: Suc_le_eq)
  have U: "U i \<le> c" "U i < length q" "U i = 0 \<or> i < ht h (q ! U i)" if "i < lv" for i
    using us [OF that] c by (auto simp: upd_rank_def)
  have Un: "q ! U i \<noteq> new" if "i < lv" for i using nth_mem [OF U(2) [OF that]] new by auto
  have lkU: "\<exists>s. c < s \<and> s \<le> length q \<and> lk ?h (q ! U i, i) = Some (mk_link q (U i) s)" if "i < lv" for i
  proof -
    have "i < (if U i = 0 then lv else ht h (q ! U i))" "U i < length q" using U(2,3) [OF that] that by auto
    then obtain s where s: "nextr (heights h q) i (U i) s" "lk h (q ! U i, i) = Some (mk_link q (U i) s)"
      using ok(1) unfolding links_ok_def by blast
    have "c < s" using upd_rank_next [OF conjunct2 [OF us [OF that]] s(1)] c by simp
    moreover have "lk ?h (q ! U i, i) = lk h (q ! U i, i)" using Un [OF that] by (intro lk_cong) simp
    ultimately show ?thesis using s by (auto simp: nextr_def)
  qed
  have span: "\<exists>l. lk ?h (q ! U i, i) = Some l \<and> c - U i \<le> link_span l" if "i < lv" for i
    using lkU [OF that] c by (fastforce simp: mk_link_def)
  have us0: "us ! 0 = (q ! c, c)" using us [of 0] n(4) U0 by simp
  have p1: "\<And>i. i < lvl \<Longrightarrow> fst (us ! i) \<noteq> new \<and> snd (us ! i) \<le> snd (us ! 0)"
    using us U(1) Un us0 lvl(2) by simp
  have p2: "\<And>i. i < lvl \<Longrightarrow> \<exists>l. lk ?h (fst (us ! i), i) = Some l \<and> snd (us ! 0) - snd (us ! i) \<le> link_span l"
    using us span us0 lvl(2) by simp
  have p3: "\<And>i. i < lvl \<Longrightarrow> \<exists>l. lk ?h (new, i) = Some l" using lk_new_node by blast
  obtain h1 where h1: "link_levels ?h new us lvl = Some h1" "same_nodes ?h h1" and lk1: "\<forall>a i. lk h1 (a, i) =
      (if i < lvl \<and> a = new then
         map_option (\<lambda>l. \<lparr>link_forward = link_forward l, link_span = link_span l - (snd (us ! 0) - snd (us ! i))\<rparr>)
           (lk ?h (fst (us ! i), i))
       else if i < lvl \<and> a = fst (us ! i) then
         Some \<lparr>link_forward = Some new, link_span = snd (us ! 0) - snd (us ! i) + 1\<rparr>
       else lk ?h (a, i))"
    using link_levels_ok [OF p1 p2 p3] by blast
  have ex: "\<And>i. lvl \<le> i \<Longrightarrow> i < lvl + (lv - lvl) \<Longrightarrow> \<exists>l. lk h1 (fst (us ! i), i) = Some l"
  proof -
    fix i
    assume i: "lvl \<le> i" "i < lvl + (lv - lvl)"
    then have "i < lv" by simp
    then show "\<exists>l. lk h1 (fst (us ! i), i) = Some l"
      using i us [of i] span [of i] Un [of i] by (simp add: lk1) blast
  qed
  obtain h2 where
    h2: "bump_spans h1 us lvl (lv - lvl) = Some h2" "same_nodes h1 h2" and lk2: "\<forall>a i. lk h2 (a, i) =
      (if lvl \<le> i \<and> i < lvl + (lv - lvl) \<and> a = fst (us ! i)
       then map_option (\<lambda>l. l\<lparr>link_span := link_span l + 1\<rparr>) (lk h1 (a, i)) else lk h1 (a, i))"
    using bump_spans_ok [OF ex] by blast
  have same: "same_nodes ?h h2" using same_nodes_trans [OF h1(2) h2(2)] .
  have ht2: "ht h2 a = (if a = new then lvl else ht h a)" for a
    by (simp add: same_nodes_ht(1) [OF same] ht_def hts_def node_new_def)
  have "map (ht h2) q = map (ht h) q" using new by (auto simp: ht2)
  moreover have "ht h2 new = lvl" by (simp add: ht2)
  ultimately have hts2: "heights h2 (ins c new q) = ins c lvl (heights h q)"
    unfolding heights_def map_ins by (simp only:)
  have links: "links_ok h2 (ins c new q) lv"
  proof (rule links_ok_insert [OF ok(1) n(2) c new lvl(2) _ hts2])
    show "upd_rank (heights h q) c i (U i)" if "i < lv" for i using us [OF that] by simp
    show "lk h2 (a, i) =
      (if i < lvl \<and> a = q ! U i then Some \<lparr>link_forward = Some new, link_span = c - U i + 1\<rparr>
       else if lvl \<le> i \<and> a = q ! U i then map_option (\<lambda>l. l\<lparr>link_span := link_span l + 1\<rparr>) (lk h (a, i))
       else lk h (a, i))" if "a \<in> set q" "i < lv" for a i
    proof -
      have "a \<noteq> new" using that new by auto
      then have e: "lk ?h (a, i) = lk h (a, i)" "lk ?h (q ! U i, i) = lk h (q ! U i, i)"
        using Un [OF that(2)] by (auto intro: lk_cong)
      show ?thesis using that \<open>a \<noteq> new\<close> us [OF that(2)] us0 lvl(2) by (simp add: lk2 lk1 e)
    qed
    show "lk h2 (new, i) =
      map_option (\<lambda>l. \<lparr>link_forward = link_forward l, link_span = link_span l - (c - U i)\<rparr>) (lk h (q ! U i, i))"
      if "i < lvl" for i
    proof -
      have il: "i < lv" using that lvl(2) by simp
      then have "lk ?h (q ! U i, i) = lk h (q ! U i, i)" using Un by (intro lk_cong) simp
      then show ?thesis using that us [OF il] us0 by (simp add: lk2 lk1)
    qed
    show "ht h (q ! r) \<le> lv" if "0 < r" "r < length q" for r using n(8) that .
  qed
  have q0: "q ! 0 \<noteq> new" using new nth_mem [of 0 q] n(1) by auto
  have "nodes_ok h2 (ins c new q) lv"
    unfolding nodes_ok_def
  proof (intro conjI allI impI)
    show "distinct (ins c new q)" using distinct_ins [OF n(2) new] .
    show "dom h2 = set (ins c new q)" using same_nodes_ht(3) [OF same] n(3) by (simp add: set_ins)
    show "ht h2 (ins c new q ! 0) = MAX_LEVEL" using n(6) c q0 by (simp add: nth_ins ht2)
  next
    fix r
    assume "0 < r \<and> r < length (ins c new q)"
    then show "1 \<le> ht h2 (ins c new q ! r)" "ht h2 (ins c new q ! r) \<le> lv"
      using n(7,8) [of r] n(7,8) [of "r - 1"] c lvl by (auto simp: nth_ins ht2)
  qed (use n in \<open>auto simp: ins_def\<close>)
  moreover have "lk h2 (q ! 0, i) = lk h (q ! 0, i)" if "lv \<le> i" for i
  proof -
    show ?thesis using q0 that lvl(2) lk_cong [of ?h "q ! 0" h i] by (simp add: lk2 lk1)
  qed
  ultimately show ?thesis using h1(1) h2(1) same links by blast
qed

end
