(* ===== verification/Zset_Refine.thy ===== *)
theory Zset_Refine
  imports Zset_Shape
begin

text \<open>
  Searches end at the rank they look for, insertion and deletion keep the invariant \<open>rep\<close>, and both
  implement the insertion into and the deletion from a sorted list of entries (\<open>implements\<close>).
\<close>

lemma takeWhile_prefix:
  assumes "\<And>i j. i < j \<Longrightarrow> j < length xs \<Longrightarrow> P (xs ! j) \<Longrightarrow> P (xs ! i)" "j < length xs"
  shows "P (xs ! j) \<longleftrightarrow> j < length (takeWhile P xs)"
proof
  assume P: "P (xs ! j)"
  show "j < length (takeWhile P xs)"
  proof (rule ccontr)
    let ?k = "length (takeWhile P xs)"
    assume "\<not> j < ?k"
    then have k: "?k \<le> j" by simp
    then have "\<not> P (xs ! ?k)" using assms(2) by (intro nth_length_takeWhile) simp
    then show False using P k assms(1) [of ?k j] assms(2) by (cases "?k = j") auto
  qed
next
  assume "j < length (takeWhile P xs)"
  then show "P (xs ! j)" using nth_mem [of j "takeWhile P xs"] set_takeWhileD [of "xs ! j" P xs] by (simp add: takeWhile_nth)
qed

lemma key_lt_key_of: "h a = Some nd \<Longrightarrow> key_lt order member nd r \<longleftrightarrow> key_of h a < (order, member)"
  by (simp add: key_lt_def key_of_def info_def)

text \<open>The number of entries before a key.\<close>

definition before :: "heap \<Rightarrow> addr list \<Rightarrow> bytes \<times> bytes \<Rightarrow> nat" where
  "before h as k = length (takeWhile (\<lambda>a. key_of h a < k) as)"

lemma before_le: "before h as k \<le> length as"
  by (simp add: before_def length_takeWhile_le)

lemma before_iff:
  assumes "sorted_wrt (\<lambda>a b. key_of h a < key_of h b) as" "j < length as"
  shows "key_of h (as ! j) < k \<longleftrightarrow> j < before h as k"
proof -
  have "\<And>i j. i < j \<Longrightarrow> j < length as \<Longrightarrow> key_of h (as ! j) < k \<Longrightarrow> key_of h (as ! i) < k"
    using assms(1) by (meson less_trans sorted_wrt_nth_less)
  then show ?thesis unfolding before_def using takeWhile_prefix [of as "\<lambda>a. key_of h a < k" j] assms(2) by blast
qed

lemma key_search:
  assumes "sorted_wrt (\<lambda>a b. key_of h a < key_of h b) as" "set as \<subseteq> dom h"
  shows "prefix_search h (header # as) (key_lt order member) (before h as (order, member))"
  unfolding prefix_search_def
proof (intro conjI allI impI)
  show "before h as (order, member) < length (header # as)" using before_le by (simp add: less_Suc_eq_le)
  fix r
  assume "0 < r \<and> r < length (header # as)"
  then obtain j where j: "r = Suc j" "j < length as" by (cases r) auto
  obtain nd where nd: "h (as ! j) = Some nd" using assms(2) j(2) nth_mem by blast
  have "key_lt order member nd r \<longleftrightarrow> r \<le> before h as (order, member)"
    using key_lt_key_of [of h "as ! j" nd, OF nd] before_iff [OF assms(1) j(2)] j(1) by (simp add: Suc_le_eq)
  then show "\<exists>nd. h ((header # as) ! r) = Some nd \<and> key_lt order member nd r = (r \<le> before h as (order, member))"
    using nd j(1) by auto
qed

lemma repD:
  assumes "rep enc sl as"
  shows "nodes_ok (sl_heap sl) (sl_header sl # as) (sl_level sl)" "\<forall>a \<in> set (sl_header sl # as). a < sl_brk sl"
    "sl_length sl = length as" "links_ok (sl_heap sl) (sl_header sl # as) (sl_level sl)"
    "idle_ok (sl_heap sl) (sl_header sl) (sl_level sl)" "back_ok (sl_heap sl) (sl_header sl # as)"
    "sl_tail sl = (if as = [] then None else Some (last as))"
    "sorted_wrt (\<lambda>a b. key_of (sl_heap sl) a < key_of (sl_heap sl) b) as"
    "\<forall>a \<in> set as. fst (key_of (sl_heap sl) a) = encode_sortable_f64 enc (snd (entry_of (sl_heap sl) a))"
    "set as \<subseteq> dom (sl_heap sl)"
  using assms by (auto simp: rep_def Let_def nodes_ok_def)

text \<open>The search for a key, with the ranks of all levels.\<close>

lemma search_key:
  assumes "rep enc sl as"
  obtains us U where "descend (sl_heap sl) (key_lt order member) (sl_level sl) (sl_header sl) 0 =
      Some ((sl_header sl # as) ! before (sl_heap sl) as (order, member), before (sl_heap sl) as (order, member), us)"
    "length us = sl_level sl"
    "\<And>i. i < sl_level sl \<Longrightarrow> us ! i = ((sl_header sl # as) ! U i, U i) \<and>
       upd_rank (heights (sl_heap sl) (sl_header sl # as)) (before (sl_heap sl) as (order, member)) i (U i)"
proof -
  let ?q = "sl_header sl # as" and ?h = "sl_heap sl" and ?c = "before (sl_heap sl) as (order, member)"
  note r = repD [OF assms]
  note n = nodes_okD [OF r(1)]
  have pos: "0 < ht ?h (?q ! k)" if "0 < k" "k < length ?q" for k using n(7) [OF that] by simp
  obtain us where us: "descend ?h (key_lt order member) (sl_level sl) (?q ! 0) 0 = Some (?q ! ?c, ?c, us)"
      "length us = sl_level sl" "us ! 0 = (?q ! ?c, ?c)"
      "\<And>i. i < sl_level sl \<Longrightarrow> \<exists>u. us ! i = (?q ! u, u) \<and> upd_rank (heights ?h ?q) ?c i u"
    using descend_header [OF r(4) key_search [OF r(8,10)] _ pos] n(4) by (metis One_nat_def Suc_le_eq)
  obtain U where "\<And>i. i < sl_level sl \<Longrightarrow> us ! i = (?q ! U i, U i) \<and> upd_rank (heights ?h ?q) ?c i (U i)"
    using us(4) by metis
  then show thesis using us(1,2) by (intro that [of us U]) simp_all
qed

lemma back_ok_ins:
  assumes "back_ok h q" "c < length q" "distinct q" "new \<notin> set q"
    and new: "g new = Some (if c = 0 then None else Some (q ! c))"
    and succ: "Suc c < length q \<Longrightarrow> g (q ! Suc c) = Some (Some new)"
    and old: "\<And>r. r < length q \<Longrightarrow> r \<noteq> Suc c \<Longrightarrow> g (q ! r) = get_backward h (q ! r)"
  shows "\<forall>r. Suc r < length (ins c new q) \<longrightarrow>
    g (ins c new q ! Suc r) = Some (if r = 0 then None else Some (ins c new q ! r))"
proof (intro allI impI)
  fix r
  assume r: "Suc r < length (ins c new q)"
  have b: "get_backward h (q ! Suc k) = Some (if k = 0 then None else Some (q ! k))" if "Suc k < length q" for k
    using assms(1) that by (simp add: back_ok_def)
  consider "r < c" | "r = c" | "r = Suc c" | "Suc c < r" by linarith
  then show "g (ins c new q ! Suc r) = Some (if r = 0 then None else Some (ins c new q ! r))"
  proof cases
    case 1
    then show ?thesis using assms(2) old [of "Suc r"] b [of r] by (simp add: nth_ins)
  next
    case 2
    then show ?thesis using assms(2) new by (simp add: nth_ins)
  next
    case 3
    then show ?thesis using assms(2) succ r by (simp add: nth_ins)
  next
    case 4
    then obtain k where k: "r = Suc k" "c < k" by (cases r) auto
    then show ?thesis using assms(2) r old [of "Suc k"] b [of k] by (simp add: nth_ins)
  qed
qed


lemma sorted_wrt_insert_at:
  assumes "sorted_wrt f as" "\<And>j. j < c \<Longrightarrow> j < length as \<Longrightarrow> f (as ! j) x"
    "\<And>j. c \<le> j \<Longrightarrow> j < length as \<Longrightarrow> f x (as ! j)"
  shows "sorted_wrt f (take c as @ x # drop c as)"
proof -
  have "sorted_wrt f (take c as) \<and> sorted_wrt f (drop c as) \<and> (\<forall>a \<in> set (take c as). \<forall>b \<in> set (drop c as). f a b)"
    using assms(1) sorted_wrt_append [of f "take c as" "drop c as"] by (simp only: append_take_drop_id)
  moreover have "\<forall>a \<in> set (take c as). f a x" "\<forall>b \<in> set (drop c as). f x b"
    using assms(2,3) by (auto simp: in_set_conv_nth)
  ultimately show ?thesis by (simp add: sorted_wrt_append)
qed

text \<open>
  Insertion: the new node goes after the entries with a smaller key.
\<close>

lemma insert_rep:
  assumes R: "rep enc sl as"
    and fresh: "(encode_sortable_f64 enc score, member) \<notin> key_of (sl_heap sl) ` set as"
  defines "c \<equiv> before (sl_heap sl) as (encode_sortable_f64 enc score, member)"
  shows "\<exists>sl'. skiplist_insert enc draw sl score member = Some sl' \<and>
    rep enc sl' (take c as @ sl_brk sl # drop c as) \<and>
    map (entry_of (sl_heap sl')) (take c as @ sl_brk sl # drop c as) =
      take c (map (entry_of (sl_heap sl)) as) @ (member, score) # drop c (map (entry_of (sl_heap sl)) as)"
proof -
  define h where "h = sl_heap sl"
  define q where "q = sl_header sl # as"
  define order where "order = encode_sortable_f64 enc score"
  define new where "new = sl_brk sl"
  note r = repD [OF R, folded h_def q_def]
  note n = nodes_okD [OF r(1)]
  have c: "c < length q" unfolding c_def q_def using before_le by (simp add: less_Suc_eq_le)
  have q0: "q ! 0 = sl_header sl" by (simp add: q_def)
  have new: "new \<notin> set q" using r(2) by (auto simp: new_def)
  obtain us U where us: "descend h (key_lt order member) (sl_level sl) (sl_header sl) 0 = Some (q ! c, c, us)"
      "length us = sl_level sl"
      "\<And>i. i < sl_level sl \<Longrightarrow> us ! i = (q ! U i, U i) \<and> upd_rank (heights h q) c i (U i)"
    using search_key [OF R, of order member] unfolding h_def [symmetric] q_def [symmetric] c_def order_def by blast
  obtain lvl rng where lvl: "random_level draw (sl_rng sl) = (lvl, rng)" by fastforce
  have lvb: "1 \<le> lvl" "lvl \<le> MAX_LEVEL" using random_level_bounds [of draw "sl_rng sl"] by (simp_all add: lvl)
  define lv where "lv = max (sl_level sl) lvl"
  obtain h1 where h1: "raise_spans h (q ! 0) (sl_length sl) (sl_level sl) (lvl - sl_level sl) = Some h1"
      "same_nodes h h1" "links_ok h1 q lv" "idle_ok h1 (q ! 0) lv"
    using raise_ok [OF r(4,1) r(5) [folded q0] lvb(2), of "sl_length sl"] r(3) unfolding lv_def q_def by auto
  have "nodes_ok h q lv"
    using r(1) lvb unfolding lv_def nodes_ok_def by (auto simp: le_max_iff_disj)
  then have n1: "nodes_ok h1 q lv" by (simp only: same_nodes_nodes_ok [OF h1(2)])
  define us' where "us' = us @ replicate (lvl - sl_level sl) (sl_header sl, 0)"
  define U' where "U' i = (if i < sl_level sl then U i else 0)" for i
  have us': "us' ! i = (q ! U' i, U' i) \<and> upd_rank (heights h1 q) c i (U' i)" if "i < lv" for i
  proof (cases "i < sl_level sl")
    case True
    then show ?thesis using us(2) us(3) [of i] by (simp add: us'_def U'_def nth_append same_nodes_ht(2) [OF h1(2)])
  next
    case False
    have "heights h q ! t \<le> i" if "0 < t" "t \<le> c" for t
      using False n(8) [of t] c that by simp
    then have "upd_rank (heights h q) c i 0" by (simp add: upd_rank_def)
    then show ?thesis using False that us(2) q0
      by (simp add: us'_def U'_def nth_append same_nodes_ht(2) [OF h1(2)] lv_def max_def split: if_splits)
  qed
  have lvl_lv: "lvl \<le> lv" by (simp add: lv_def)
  let ?nd = "node_new enc lvl score member"
  obtain h2 h3 where h3: "link_levels (h1(new \<mapsto> ?nd)) new us' lvl = Some h2"
      "bump_spans h2 us' lvl (lv - lvl) = Some h3" "same_nodes (h1(new \<mapsto> ?nd)) h3"
      "links_ok h3 (ins c new q) lv" "nodes_ok h3 (ins c new q) lv" "\<forall>i \<ge> lv. lk h3 (q ! 0, i) = lk h1 (q ! 0, i)"
    using insert_links_ok [OF h1(3) n1 c new lvb(1) lvl_lv us'] by blast
  note n3 = nodes_okD [OF h3(5)]
  have lv0: "0 < lv" using n3(4) by simp
  have us0: "fst (us' ! 0) = q ! c"
    using us' [OF lv0] n1 c upd_rank_0 [of "heights h1 q" c "U' 0"] by (auto simp: nodes_ok_def Suc_le_eq)
  obtain nd3 where nd3: "h3 new = Some nd3" using n3(3) set_ins [of c new q] by blast
  obtain h4 where h4: "set_backward h3 new (if q ! c = sl_header sl then None else Some (q ! c)) = Some h4"
      "get_backward h4 = (get_backward h3)(new \<mapsto> (if q ! c = sl_header sl then None else Some (q ! c)))"
      "info h4 = info h3" "hts h4 = hts h3" "lk h4 = lk h3"
    using set_backward_ok [of h3 new nd3, OF nd3] by blast
  have f0: "forward h4 new 0 = Some (if Suc c < length q then Some (q ! Suc c) else None)"
    using c forward_0 [OF h3(4,5), of "Suc c"]
    by (cases "Suc c < length q") (simp_all add: nth_ins forward_def h4(5))
  define tail where "tail = (if Suc c < length q then sl_tail sl else Some new)"
  have "\<exists>h5. (case (if Suc c < length q then Some (q ! Suc c) else None) of
        Some f \<Rightarrow> do { h \<leftarrow> set_backward h4 f (Some new); Some (h, sl_tail sl) }
      | None \<Rightarrow> Some (h4, Some new)) = Some (h5, tail) \<and>
      info h5 = info h4 \<and> hts h5 = hts h4 \<and> lk h5 = lk h4 \<and>
      get_backward h5 = (if Suc c < length q then (get_backward h4)(q ! Suc c \<mapsto> Some new) else get_backward h4)"
  proof (cases "Suc c < length q")
    case True
    have "q ! Suc c \<in> dom h3" using True n3(3) by (simp add: set_ins)
    then have "q ! Suc c \<in> dom h4" using h4(3) dom_info by metis
    then obtain nd where "h4 (q ! Suc c) = Some nd" by blast
    from set_backward_ok [of h4 "q ! Suc c" nd "Some new", OF this] True show ?thesis by (auto simp: tail_def)
  qed (auto simp: tail_def)
  then obtain h5 where h5: "(case (if Suc c < length q then Some (q ! Suc c) else None) of
        Some f \<Rightarrow> do { h \<leftarrow> set_backward h4 f (Some new); Some (h, sl_tail sl) }
      | None \<Rightarrow> Some (h4, Some new)) = Some (h5, tail)"
      "info h5 = info h4" "hts h5 = hts h4" "lk h5 = lk h4"
      "get_backward h5 = (if Suc c < length q then (get_backward h4)(q ! Suc c \<mapsto> Some new) else get_backward h4)"
    by blast
  let ?sl = "sl\<lparr>sl_heap := h5, sl_tail := tail, sl_length := sl_length sl + 1, sl_level := lv,
                   sl_rng := rng, sl_brk := new + 1\<rparr>"
  have run: "skiplist_insert enc draw sl score member = Some ?sl"
    using us(1) h1(1) h3(1,2) h4(1) f0 h5(1) us0
    by (simp add: skiplist_insert_def Let_def order_def [symmetric] h_def [symmetric] q0 lvl us'_def [symmetric]
        lv_def [symmetric] new_def [symmetric] cong: if_cong option.case_cong split del: if_split)
  have inf: "info h5 = (info h)(new \<mapsto> (score, order, member))"
    using h3(3) h1(2) unfolding h5(2) h4(3) same_nodes_def
    by (simp add: info_def fun_eq_iff node_new_def order_def)
  have key5: "key_of h5 a = (if a = new then (order, member) else key_of h a)"
    and entry5: "entry_of h5 a = (if a = new then (member, score) else entry_of h a)" for a
    by (simp_all add: key_of_def entry_of_def inf)
  have ht5: "ht h5 = ht h3" by (simp add: ht_def h5(3) h4(4) fun_eq_iff)
  have q': "ins c new q = sl_header sl # take c as @ new # drop c as" by (simp add: ins_def q_def)
  have nas: "new \<notin> set as" using new by (simp add: q_def)
  have back3: "get_backward h3 a = get_backward h a" if "a \<noteq> new" for a
    using h3(3) h1(2) that by (simp add: same_nodes_def get_backward_def fun_eq_iff)
  have sorted5: "sorted_wrt (\<lambda>a b. key_of h5 a < key_of h5 b) (take c as @ new # drop c as)"
  proof (rule sorted_wrt_insert_at)
    show "sorted_wrt (\<lambda>a b. key_of h5 a < key_of h5 b) as"
      using r(8) nas by (auto simp: key5 elim!: sorted_wrt_mono_rel [rotated])
    have k: "key_of h (as ! j) < (order, member) \<longleftrightarrow> j < c" if "j < length as" for j
      using before_iff [OF r(8) that] by (simp add: c_def h_def order_def)
    show "key_of h5 (as ! j) < key_of h5 new" if "j < c" "j < length as" for j
      using k [OF that(2)] that nas nth_mem [OF that(2)] by (auto simp: key5)
    show "key_of h5 new < key_of h5 (as ! j)" if "c \<le> j" "j < length as" for j
    proof -
      have "key_of h (as ! j) \<noteq> (order, member)" 
        using fresh imageI [OF nth_mem [OF that(2)], of "key_of h"] by (auto simp: order_def h_def)
      then show ?thesis using k [OF that(2)] that nas nth_mem [OF that(2)] by (auto simp: key5)
    qed
  qed
  have "rep enc ?sl (take c as @ new # drop c as)"
    unfolding rep_def Let_def
  proof (intro conjI)
    show "nodes_ok (sl_heap ?sl) (sl_header ?sl # take c as @ new # drop c as) (sl_level ?sl)"
      using h3(5) dom_info [of h5] dom_info [of h3] by (simp add: nodes_ok_def ht5 q' [symmetric] h5(2) h4(3))
    show "\<forall>a \<in> set (sl_header ?sl # take c as @ new # drop c as). a < sl_brk ?sl"
      using r(2) by (auto simp: q_def new_def less_SucI dest: in_set_takeD in_set_dropD)
    show "sl_length ?sl = length (take c as @ new # drop c as)" using r(3) c by (simp add: q_def)
    show "links_ok (sl_heap ?sl) (sl_header ?sl # take c as @ new # drop c as) (sl_level ?sl)"
      using h3(4) by (simp add: links_ok_def heights_def ht5 q' [symmetric] h5(4) h4(5))
    show "idle_ok (sl_heap ?sl) (sl_header ?sl) (sl_level ?sl)"
      using h1(4) h3(6) by (simp add: idle_ok_def h5(4) h4(5) q0)
    have "back_ok h5 (ins c new q)"
      unfolding back_ok_def
    proof (rule back_ok_ins [OF r(6) c n(2) new])
      have "q ! c = sl_header sl \<longleftrightarrow> c = 0" using nth_eq_iff_index_eq [OF n(2) c, of 0] n(1) q0 by simp
      moreover have "q ! Suc c \<noteq> new" if "Suc c < length q" using nth_mem [OF that] new by auto
      ultimately show "get_backward h5 new = Some (if c = 0 then None else Some (q ! c))"
        by (cases "Suc c < length q") (auto simp: h5(5) h4(2))
      show "get_backward h5 (q ! Suc c) = Some (Some new)" if "Suc c < length q" using that by (simp add: h5(5))
      show "get_backward h5 (q ! k) = get_backward h (q ! k)" if "k < length q" "k \<noteq> Suc c" for k
        using that new back3 [of "q ! k"] nth_mem [OF that(1)] n(2) by (auto simp: h5(5) h4(2) nth_eq_iff_index_eq)
    qed
    then show "back_ok (sl_heap ?sl) (sl_header ?sl # take c as @ new # drop c as)" by (simp add: q')
    show "sl_tail ?sl = (if take c as @ new # drop c as = [] then None else Some (last (take c as @ new # drop c as)))"
      using r(7) by (auto simp: tail_def q_def)
    show "sorted_wrt (\<lambda>a b. key_of (sl_heap ?sl) a < key_of (sl_heap ?sl) b) (take c as @ new # drop c as)"
      using sorted5 by simp
    show "\<forall>a \<in> set (take c as @ new # drop c as).
        fst (key_of (sl_heap ?sl) a) = encode_sortable_f64 enc (snd (entry_of (sl_heap ?sl) a))"
      using r(9) by (auto simp: key5 entry5 order_def dest: in_set_takeD in_set_dropD)
  qed
  moreover have "map (entry_of h5) (take c as @ new # drop c as) =
      take c (map (entry_of h) as) @ (member, score) # drop c (map (entry_of h) as)"
    using nas by (auto simp: entry5 take_map drop_map dest: in_set_takeD in_set_dropD)
  ultimately show ?thesis using run unfolding new_def h_def by auto
qed

section \<open>Deletion keeps the invariant\<close>

lemma links_okD:
  "links_ok h q lv \<Longrightarrow> r < length q \<Longrightarrow> i < (if r = 0 then lv else ht h (q ! r)) \<Longrightarrow>
   \<exists>s. nextr (heights h q) i r s \<and> lk h (q ! r, i) = Some (mk_link q r s)"
  unfolding links_ok_def by blast

lemma trim_level_ok:
  assumes "\<And>i. i < lv \<Longrightarrow> \<exists>l. lk h (hdr, i) = Some l" "1 \<le> lv"
  shows "\<exists>lv'. trim_level h hdr lv = Some lv' \<and> 1 \<le> lv' \<and> lv' \<le> lv \<and>
    (\<forall>i. lv' \<le> i \<and> i < lv \<longrightarrow> forward h hdr i = Some None)"
  using assms
proof (induction h hdr lv rule: trim_level.induct)
  case (1 h hdr l)
  obtain k where k: "lk h (hdr, Suc l) = Some k" using "1.prems"(1) [of "Suc l"] by auto
  show ?case
  proof (cases "link_forward k = None")
    case True
    obtain lv' where lv': "trim_level h hdr (Suc l) = Some lv'" "1 \<le> lv'" "lv' \<le> Suc l"
        "\<forall>i. lv' \<le> i \<and> i < Suc l \<longrightarrow> forward h hdr i = Some None"
      using "1.IH" [of None] "1.prems" True forward_lk [OF k] by auto
    then show ?thesis using True forward_lk [OF k] by (intro exI [of _ lv']) (auto simp: less_Suc_eq)
  next
    case False
    then show ?thesis using forward_lk [OF k] by auto
  qed
qed auto

lemma back_ok_del:
  assumes "back_ok h q" "Suc c < length q" "distinct q"
    and succ: "Suc (Suc c) < length q \<Longrightarrow> g (q ! Suc (Suc c)) = Some (if c = 0 then None else Some (q ! c))"
    and old: "\<And>r. r < length q \<Longrightarrow> r \<noteq> Suc c \<Longrightarrow> r \<noteq> Suc (Suc c) \<Longrightarrow> g (q ! r) = get_backward h (q ! r)"
  shows "\<forall>r. Suc r < length (del c q) \<longrightarrow> g (del c q ! Suc r) = Some (if r = 0 then None else Some (del c q ! r))"
proof (intro allI impI)
  fix r
  assume r: "Suc r < length (del c q)"
  have b: "get_backward h (q ! Suc k) = Some (if k = 0 then None else Some (q ! k))" if "Suc k < length q" for k
    using assms(1) that by (simp add: back_ok_def)
  consider "r < c" | "r = c" | "c < r" by linarith
  then show "g (del c q ! Suc r) = Some (if r = 0 then None else Some (del c q ! r))"
  proof cases
    case 1
    then show ?thesis using assms(2) old [of "Suc r"] b [of r] by (simp add: nth_del)
  next
    case 2
    then show ?thesis using assms(2) succ r by (simp add: nth_del length_del)
  next
    case 3
    then show ?thesis using assms(2) r old [of "Suc (Suc r)"] b [of "Suc r"] by (simp add: nth_del length_del)
  qed
qed

lemma lower_level:
  assumes "links_ok h q lv" "nodes_ok h q lv" "lv' \<le> lv" "1 \<le> lv'"
    "\<And>i. lv' \<le> i \<Longrightarrow> i < lv \<Longrightarrow> forward h (q ! 0) i = Some None"
  shows "links_ok h q lv'" "nodes_ok h q lv'"
proof -
  note n = nodes_okD [OF assms(2)]
  show "links_ok h q lv'"
    unfolding links_ok_def
  proof (intro allI impI, elim conjE)
    fix r i
    assume "r < length q" "i < (if r = 0 then lv' else ht h (q ! r))"
    then have "r < length q \<and> i < (if r = 0 then lv else ht h (q ! r))" using assms(3) by (auto split: if_splits)
    then show "\<exists>s. nextr (heights h q) i r s \<and> lk h (q ! r, i) = Some (mk_link q r s)"
      using assms(1) unfolding links_ok_def by blast
  qed
  have "ht h (q ! r) \<le> lv'" if r: "0 < r" "r < length q" for r
  proof (rule ccontr)
    let ?i = "ht h (q ! r) - 1"
    assume "\<not> ht h (q ! r) \<le> lv'"
    then have i: "lv' \<le> ?i" "?i < lv" "?i < ht h (q ! r)" using n(8) [OF r] by linarith+
    then obtain s where s: "nextr (heights h q) ?i 0 s" "lk h (q ! 0, ?i) = Some (mk_link q 0 s)"
      using links_okD [OF assms(1), of 0 ?i] n(1) by auto
    have "link_forward (mk_link q 0 s) = None" using assms(5) [OF i(1,2)] s(2) by (simp add: forward_def)
    then have "s = length q" using s(1) by (auto simp: mk_link_def nextr_def split: if_splits)
    then have "heights h q ! r \<le> ?i" using s(1) r by (auto simp: nextr_def)
    then show False using i(3) r by simp
  qed
  then show "nodes_ok h q lv'" using assms(2,3,4) by (auto simp: nodes_ok_def)
qed

lemma remove_rep:
  assumes R: "rep enc sl as" and c: "c < length as"
    and us: "\<And>i. i < sl_level sl \<Longrightarrow> fst (us ! i) = (sl_header sl # as) ! U i \<and>
      upd_rank (heights (sl_heap sl) (sl_header sl # as)) c i (U i)"
  shows "\<exists>h1 b f h2 lv nd. unlink_levels (sl_heap sl) (as ! c) us (sl_level sl) = Some h1 \<and>
    forward h1 (as ! c) 0 = Some f \<and> get_backward h1 (as ! c) = Some b \<and> (c = 0 \<longrightarrow> b = None) \<and>
    (case f of Some g \<Rightarrow> set_backward h1 g b | None \<Rightarrow> Some h1) = Some h2 \<and>
    trim_level h2 (sl_header sl) (sl_level sl) = Some lv \<and>
    h2 (as ! c) = Some nd \<and> (node_member nd, node_score nd) = entry_of (sl_heap sl) (as ! c) \<and>
    (\<forall>a \<in> set as - {as ! c}. entry_of (h2(as ! c := None)) a = entry_of (sl_heap sl) a) \<and>
    rep enc (sl\<lparr>sl_heap := h2(as ! c := None), sl_tail := (case f of Some _ \<Rightarrow> sl_tail sl | None \<Rightarrow> b),
       sl_length := sl_length sl - 1, sl_level := lv\<rparr>) (take c as @ drop (Suc c) as)"
proof -
  define h where "h = sl_heap sl"
  define q where "q = sl_header sl # as"
  define t where "t = as ! c"
  define lv where "lv = sl_level sl"
  note r = repD [OF R, folded h_def q_def lv_def]
  note n = nodes_okD [OF r(1)]
  have cq: "Suc c < length q" "q ! Suc c = t" "q ! 0 = sl_header sl" using c by (simp_all add: q_def t_def)
  have us: "fst (us ! i) = q ! U i" "upd_rank (heights h q) c i (U i)" if "i < lv" for i
    using us that by (simp_all add: q_def h_def lv_def)
  have U: "U i \<le> c" "U i < length q" "U i = 0 \<or> i < ht h (q ! U i)" if "i < lv" for i
    using us(2) [OF that] cq(1) by (auto simp: upd_rank_def)
  have Ut: "q ! U i \<noteq> t" if "i < lv" for i
    using U(1,2) [OF that] cq(1,2) n(2) by (metis Suc_n_not_le_n nth_eq_iff_index_eq)
  have p: "\<And>i. i < lv \<Longrightarrow> \<exists>l. lk h (fst (us ! i), i) = Some l \<and> 0 < link_span l \<and>
      (link_forward l = Some t \<longrightarrow> (\<exists>k. lk h (t, i) = Some k))"
  proof -
    fix i
    assume i: "i < lv"
    then have "i < (if U i = 0 then lv else ht h (q ! U i))" using U(3) [OF i] by auto
    then obtain s where s: "nextr (heights h q) i (U i) s" "lk h (q ! U i, i) = Some (mk_link q (U i) s)"
      using r(4) U(2) [OF i] unfolding links_ok_def by blast
    have cs: "c < s" using upd_rank_next [OF us(2) [OF i] s(1)] cq(1) by simp
    have "\<exists>k. lk h (t, i) = Some k" if "link_forward (mk_link q (U i) s) = Some t"
    proof -
      have "s < length q" "q ! s = q ! Suc c" using that cq(2) by (auto simp: mk_link_def split: if_splits)
      then have "s = Suc c" using n(2) cq(1) by (simp add: nth_eq_iff_index_eq)
      then have "i < ht h (q ! Suc c)" using s(1) cq(1) by (simp add: nextr_def)
      then show ?thesis using links_okD [OF r(4) cq(1), of i] cq(2) by auto
    qed
    moreover have "0 < link_span (mk_link q (U i) s)"
      using cs U(1) [OF i] cq(1) by (auto simp: mk_link_def)
    ultimately show "\<exists>l. lk h (fst (us ! i), i) = Some l \<and> 0 < link_span l \<and>
      (link_forward l = Some t \<longrightarrow> (\<exists>k. lk h (t, i) = Some k))" using s(2) us(1) [OF i] by auto
  qed
  have ne: "\<And>i. i < lv \<Longrightarrow> fst (us ! i) \<noteq> t" using us(1) Ut by simp
  obtain h1 where h1: "unlink_levels h t us lv = Some h1" "same_nodes h h1" and lk1: "\<forall>a i. lk h1 (a, i) =
      (if i < lv \<and> a = fst (us ! i) then
         map_option (\<lambda>l. if link_forward l = Some t
             then \<lparr>link_forward = link_forward (the (lk h (t, i))),
                   link_span = link_span l + link_span (the (lk h (t, i))) - 1\<rparr>
             else l\<lparr>link_span := link_span l - 1\<rparr>) (lk h (a, i))
       else lk h (a, i))"
    using unlink_levels_ok [OF ne p] by blast
  have lkt: "lk h1 (t, i) = lk h (t, i)" for i using ne by (auto simp: lk1)
  define f where "f = (if Suc (Suc c) < length q then Some (q ! Suc (Suc c)) else None)"
  define b where "b = (if c = 0 then None else Some (q ! c))"
  have f: "forward h1 t 0 = Some f"
    using forward_0 [OF r(4,1) cq(1)] cq(2) by (simp add: forward_def lkt f_def)
  have b: "get_backward h1 t = Some b"
    using h1(2) r(6) [unfolded back_ok_def, rule_format, OF cq(1)] cq(2) by (simp add: same_nodes_def b_def)
  have "\<exists>h2. (case f of Some g \<Rightarrow> set_backward h1 g b | None \<Rightarrow> Some h1) = Some h2 \<and>
      info h2 = info h1 \<and> hts h2 = hts h1 \<and> lk h2 = lk h1 \<and>
      get_backward h2 = (if Suc (Suc c) < length q then (get_backward h1)(q ! Suc (Suc c) \<mapsto> b) else get_backward h1)"
  proof (cases "Suc (Suc c) < length q")
    case True
    then have "q ! Suc (Suc c) \<in> dom h1" using n(3) same_nodes_ht(3) [OF h1(2)] by simp
    then obtain nd where "h1 (q ! Suc (Suc c)) = Some nd" by blast
    from set_backward_ok [of h1 "q ! Suc (Suc c)" nd b, OF this] True show ?thesis by (auto simp: f_def)
  qed (simp add: f_def)
  then obtain h2 where h2: "(case f of Some g \<Rightarrow> set_backward h1 g b | None \<Rightarrow> Some h1) = Some h2"
      "info h2 = info h1" "hts h2 = hts h1" "lk h2 = lk h1"
      "get_backward h2 = (if Suc (Suc c) < length q then (get_backward h1)(q ! Suc (Suc c) \<mapsto> b) else get_backward h1)"
    by blast
  let ?h = "h2(t := None)"
  have info2: "info h2 = info h" using h2(2) h1(2) by (simp add: same_nodes_def)
  have ht2: "ht ?h a = ht h a" if "a \<noteq> t" for a
    using that h2(3) h1(2) by (simp add: ht_def hts_def same_nodes_def fun_eq_iff)
  have key2: "key_of ?h a = key_of h a" and entry2: "entry_of ?h a = entry_of h a" if "a \<noteq> t" for a
    using that info2 by (simp_all add: key_of_def entry_of_def info_def fun_eq_iff)
  have t_del: "t \<notin> set (del c q)" using set_del [OF n(2) cq(1)] cq(2) by simp
  have lk3: "lk ?h (a, i) = lk h1 (a, i)" if "a \<noteq> t" for a i
    using that h2(4) by (simp add: lk_def fun_eq_iff)
  have q': "del c q = sl_header sl # take c as @ drop (Suc c) as" by (simp add: del_def q_def)
  have hs3: "heights ?h (del c q) = del c (heights h q)"
    unfolding heights_def map_del [symmetric] using t_del by (intro map_cong refl ht2) auto
  have links3: "links_ok ?h (del c q) lv"
  proof (rule links_ok_delete [OF r(4) n(2) cq(1) us(2) hs3])
    show "lk ?h (a, i) =
      (if a = q ! U i then
         map_option (\<lambda>l. if link_forward l = Some (q ! Suc c)
             then \<lparr>link_forward = link_forward (the (lk h (q ! Suc c, i))),
                   link_span = link_span l + link_span (the (lk h (q ! Suc c, i))) - 1\<rparr>
             else l\<lparr>link_span := link_span l - 1\<rparr>) (lk h (a, i))
       else lk h (a, i))" if "a \<in> set (del c q)" "i < lv" for a i
    proof -
      have "a \<noteq> t" using that t_del by auto
      then show ?thesis unfolding cq(2) using lk3 [of a i] us(1) [OF that(2)] that(2) by (simp add: lk1)
    qed
    show "ht h (q ! k) \<le> lv" if "0 < k" "k < length q" for k using n(8) that .
  qed
  have len: "length (del c q) = length q - 1" using cq(1) by (rule length_del)
  have nodes3: "nodes_ok ?h (del c q) lv"
    unfolding nodes_ok_def
  proof (intro conjI allI impI)
    show "dom ?h = set (del c q)"
      using set_del [OF n(2) cq(1)] cq(2) n(3) dom_info [of h2] dom_info [of h] info2 by auto
    show "distinct (del c q)" using distinct_del [OF n(2)] .
    have "q ! 0 \<noteq> t" using n(2) cq(1,2) by (metis length_greater_0_conv n(1) nat.distinct(1) nth_eq_iff_index_eq)
    then show "ht ?h (del c q ! 0) = MAX_LEVEL" using n(6) cq(1) by (simp add: nth_del ht2)
  next
    fix k
    assume k: "0 < k \<and> k < length (del c q)"
    then have "del c q ! k \<noteq> t" using t_del nth_mem by metis
    then show "1 \<le> ht ?h (del c q ! k)" "ht ?h (del c q ! k) \<le> lv"
      using n(7,8) [of k] n(7,8) [of "Suc k"] cq(1) k len by (auto simp: nth_del ht2)
  qed (use n q' in auto)
  have q0t: "sl_header sl \<noteq> t" using t_del q' by auto
  have fwd3: "forward ?h (sl_header sl) i = forward h2 (sl_header sl) i" for i
    using lk3 [OF q0t, of i] h2(4) by (simp add: forward_def)
  have "\<exists>l. lk h2 (sl_header sl, i) = Some l" if "i < lv" for i
    using links_okD [OF links3, of 0 i] that len cq(1) lk3 [OF q0t, of i] h2(4) by (simp add: q') blast
  from trim_level_ok [OF this n(4)] obtain lv' where lv': "trim_level h2 (sl_header sl) lv = Some lv'"
      "1 \<le> lv'" "lv' \<le> lv" "\<forall>i. lv' \<le> i \<and> i < lv \<longrightarrow> forward h2 (sl_header sl) i = Some None"
    by blast
  have low: "links_ok ?h (del c q) lv'" "nodes_ok ?h (del c q) lv'"
    using lower_level [OF links3 nodes3 lv'(3,2)] lv'(4) fwd3 by (simp_all add: q')
  let ?sl = "sl\<lparr>sl_heap := ?h, sl_tail := (case f of Some _ \<Rightarrow> sl_tail sl | None \<Rightarrow> b),
    sl_length := sl_length sl - 1, sl_level := lv'\<rparr>"
  let ?as = "take c as @ drop (Suc c) as"
  have as_t: "a \<noteq> t" "a \<in> set as" if "a \<in> set ?as" for a
    using that t_del q' by (auto dest: in_set_takeD in_set_dropD)
  have "rep enc ?sl ?as"
    unfolding rep_def Let_def
  proof (intro conjI)
    show "nodes_ok (sl_heap ?sl) (sl_header ?sl # ?as) (sl_level ?sl)" using low(2) by (simp add: q')
    show "\<forall>a \<in> set (sl_header ?sl # ?as). a < sl_brk ?sl"
      using r(2) by (auto simp: q_def dest: in_set_takeD in_set_dropD)
    show "sl_length ?sl = length ?as" using r(3) c by simp
    show "links_ok (sl_heap ?sl) (sl_header ?sl # ?as) (sl_level ?sl)" using low(1) by (simp add: q')
    show "idle_ok (sl_heap ?sl) (sl_header ?sl) (sl_level ?sl)"
      unfolding idle_ok_def
    proof (intro allI impI)
      fix i
      assume i: "sl_level ?sl \<le> i \<and> i < MAX_LEVEL"
      show "\<exists>l. lk (sl_heap ?sl) (sl_header ?sl, i) = Some l \<and> link_forward l = None"
      proof (cases "i < lv")
        case True
        then have "forward ?h (sl_header sl) i = Some None" using i lv'(4) fwd3 by simp
        then show ?thesis by (auto simp: forward_def)
      next
        case False
        then show ?thesis using i r(5) lk3 [OF q0t, of i] by (auto simp: idle_ok_def lk1)
      qed
    qed
    have "back_ok ?h (del c q)"
      unfolding back_ok_def
    proof (rule back_ok_del [OF r(6) cq(1) n(2)])
      have gb: "get_backward ?h a = get_backward h2 a" if "a \<noteq> t" for a using that by (simp add: get_backward_def)
      have gb1: "get_backward h1 = get_backward h" using h1(2) by (simp add: same_nodes_def)
      have qt: "q ! k \<noteq> t" if "k < length q" "k \<noteq> Suc c" for k
        using nth_eq_iff_index_eq [OF n(2) that(1) cq(1)] that(2) cq(2) by simp
      show "get_backward ?h (q ! Suc (Suc c)) = Some (if c = 0 then None else Some (q ! c))" if "Suc (Suc c) < length q"
        using gb [OF qt [OF that]] that by (simp add: h2(5) b_def)
      show "get_backward ?h (q ! k) = get_backward h (q ! k)"
        if "k < length q" "k \<noteq> Suc c" "k \<noteq> Suc (Suc c)" for k
        using gb [OF qt [OF that(1,2)]] that n(2) gb1 by (auto simp: h2(5) nth_eq_iff_index_eq)
    qed
    then show "back_ok (sl_heap ?sl) (sl_header ?sl # ?as)" by (simp add: q')
    show "sl_tail ?sl = (if ?as = [] then None else Some (last ?as))"
    proof (cases "Suc c < length as")
      case True
      then show ?thesis using r(7) by (auto simp: f_def q_def)
    next
      case False
      then have as: "length as = Suc c" using c by simp
      then have "take c as \<noteq> [] \<Longrightarrow> last (take c as) = as ! (c - 1)" by (simp add: last_conv_nth)
      then show ?thesis using as by (cases c) (auto simp: f_def b_def q_def)
    qed
    have "sorted_wrt (\<lambda>a b. key_of h a < key_of h b) (take c as @ as ! c # drop (Suc c) as)"
      using r(8) by (simp only: id_take_nth_drop [OF c, symmetric])
    then have "sorted_wrt (\<lambda>a b. key_of h a < key_of h b) ?as" by (simp add: sorted_wrt_append)
    then show "sorted_wrt (\<lambda>a b. key_of (sl_heap ?sl) a < key_of (sl_heap ?sl) b) ?as"
      using as_t(1) by (auto simp: key2 elim!: sorted_wrt_mono_rel [rotated])
    show "\<forall>a \<in> set ?as. fst (key_of (sl_heap ?sl) a) = encode_sortable_f64 enc (snd (entry_of (sl_heap ?sl) a))"
      using r(9) as_t by (simp add: key2 entry2)
  qed
  moreover have "t \<in> dom h2"
    using n(3) cq(2) dom_info [of h2] dom_info [of h] info2 nth_mem [OF cq(1)] by simp
  then obtain nd where nd: "h2 t = Some nd" by blast
  moreover have "info h t = Some (node_score nd, node_order nd, node_member nd)"
    by (simp add: info2 [symmetric] info_def nd)
  then have "(node_member nd, node_score nd) = entry_of h t" by (simp add: entry_of_def)
  moreover have "\<forall>a \<in> set as - {t}. entry_of ?h a = entry_of h a" using entry2 by simp
  moreover have "c = 0 \<longrightarrow> b = None" by (simp add: b_def)
  ultimately show ?thesis
    using h1(1) f b h2(1) lv'(1) unfolding h_def [symmetric] t_def [symmetric] lv_def [symmetric] by blast
qed

section \<open>The specification: a sorted list of entries\<close>

definition entry_key :: "(f64 \<Rightarrow> bytes) \<Rightarrow> entry \<Rightarrow> bytes \<times> bytes" where
  "entry_key enc e = (encode_sortable_f64 enc (snd e), fst e)"

definition implements :: "(f64 \<Rightarrow> bytes) \<Rightarrow> skiplist \<Rightarrow> entry list \<Rightarrow> bool" where
  "implements enc sl xs \<longleftrightarrow> (\<exists>as. rep enc sl as \<and> xs = map (entry_of (sl_heap sl)) as)"

abbreviation key_sorted :: "(f64 \<Rightarrow> bytes) \<Rightarrow> entry list \<Rightarrow> bool" where
  "key_sorted enc \<equiv> sorted_wrt (\<lambda>x y. entry_key enc x < entry_key enc y)"

definition spec_insert :: "(f64 \<Rightarrow> bytes) \<Rightarrow> entry \<Rightarrow> entry list \<Rightarrow> entry list" where
  "spec_insert enc e xs =
     filter (\<lambda>x. entry_key enc x < entry_key enc e) xs @ e #
     filter (\<lambda>x. \<not> entry_key enc x < entry_key enc e) xs"

definition spec_delete :: "(f64 \<Rightarrow> bytes) \<Rightarrow> entry \<Rightarrow> entry list \<Rightarrow> entry list" where
  "spec_delete enc e xs = filter (\<lambda>x. entry_key enc x \<noteq> entry_key enc e) xs"

lemma rep_key: "rep enc sl as \<Longrightarrow> a \<in> set as \<Longrightarrow> key_of (sl_heap sl) a = entry_key enc (entry_of (sl_heap sl) a)"
  using repD(9) [of enc sl as] by (auto simp: entry_key_def key_of_def entry_of_def split: prod.splits)

lemma rep_sorted:
  assumes "rep enc sl as"
  shows "key_sorted enc (map (entry_of (sl_heap sl)) as)"
  using repD(8) [OF assms] rep_key [OF assms] by (auto simp: sorted_wrt_map elim!: sorted_wrt_mono_rel [rotated])

lemma before_entries:
  assumes "rep enc sl as"
  shows "before (sl_heap sl) as k = length (takeWhile (\<lambda>x. entry_key enc x < k) (map (entry_of (sl_heap sl)) as))"
proof -
  have "takeWhile (\<lambda>a. key_of (sl_heap sl) a < k) as =
      takeWhile (\<lambda>a. entry_key enc (entry_of (sl_heap sl) a) < k) as"
    using rep_key [OF assms] by (intro takeWhile_cong) auto
  then show ?thesis by (simp add: before_def takeWhile_map comp_def)
qed

lemma filter_sorted_prefix:
  assumes "sorted_wrt R xs" "\<And>x y. R x y \<Longrightarrow> P y \<Longrightarrow> P x"
  shows "filter P xs = takeWhile P xs \<and> filter (\<lambda>x. \<not> P x) xs = dropWhile P xs"
  using assms(1)
proof (induction xs)
  case (Cons x xs)
  have "\<not> P x \<Longrightarrow> \<forall>y \<in> set xs. \<not> P y" using Cons.prems assms(2) by auto
  then show ?case using Cons by (auto simp: filter_empty_conv filter_id_conv)
qed simp

lemma spec_insert_take:
  fixes e :: entry
  assumes "key_sorted enc xs"
  defines "c \<equiv> length (takeWhile (\<lambda>x. entry_key enc x < entry_key enc e) xs)"
  shows "spec_insert enc e xs = take c xs @ e # drop c xs"
proof -
  let ?P = "\<lambda>x. entry_key enc x < entry_key enc e"
  have f: "filter ?P xs = takeWhile ?P xs \<and> filter (\<lambda>x. \<not> ?P x) xs = dropWhile ?P xs"
    by (rule filter_sorted_prefix [OF assms(1)]) (rule less_trans)
  show ?thesis
    unfolding spec_insert_def conjunct1 [OF f] conjunct2 [OF f] c_def by (simp add: takeWhile_eq_take [symmetric] dropWhile_eq_drop [symmetric])
qed

lemma insert_implements:
  assumes "implements enc sl xs" "entry_key enc (member, score) \<notin> entry_key enc ` set xs"
  shows "\<exists>sl'. skiplist_insert enc draw sl score member = Some sl' \<and>
    implements enc sl' (spec_insert enc (member, score) xs)"
proof -
  obtain as where R: "rep enc sl as" and xs: "xs = map (entry_of (sl_heap sl)) as"
    using assms(1) by (auto simp: implements_def)
  have fresh: "(encode_sortable_f64 enc score, member) \<notin> key_of (sl_heap sl) ` set as"
    using assms(2) rep_key [OF R] by (auto simp: xs entry_key_def image_iff)
  define k where "k = (encode_sortable_f64 enc score, member)"
  define c where "c = before (sl_heap sl) as k"
  obtain sl' where sl': "skiplist_insert enc draw sl score member = Some sl'"
      "rep enc sl' (take c as @ sl_brk sl # drop c as)"
      "map (entry_of (sl_heap sl')) (take c as @ sl_brk sl # drop c as) = take c xs @ (member, score) # drop c xs"
    using insert_rep [OF R fresh, of draw, folded k_def, folded c_def] unfolding xs by blast
  have "entry_key enc (member, score) = k" by (simp add: entry_key_def k_def)
  then have "spec_insert enc (member, score) xs = take c xs @ (member, score) # drop c xs"
    using spec_insert_take [OF rep_sorted [OF R], of "(member, score)"]
    unfolding c_def before_entries [OF R] xs by (simp only:)
  then show ?thesis using sl' unfolding implements_def by metis
qed

lemma drop_nth_filter:
  assumes "key_sorted enc xs" "c < length xs"
  shows "take c xs @ drop (Suc c) xs = filter (\<lambda>x. entry_key enc x \<noteq> entry_key enc (xs ! c)) xs"
proof -
  let ?P = "\<lambda>x. entry_key enc x \<noteq> entry_key enc (xs ! c)"
  have xs: "take c xs @ xs ! c # drop (Suc c) xs = xs" by (rule id_take_nth_drop [OF assms(2), symmetric])
  have "key_sorted enc (take c xs @ xs ! c # drop (Suc c) xs)" using assms(1) unfolding xs .
  then have "\<forall>x \<in> set (take c xs). ?P x" "\<forall>x \<in> set (drop (Suc c) xs). ?P x"
    by (auto simp: sorted_wrt_append)
  then have "filter ?P (take c xs @ xs ! c # drop (Suc c) xs) = take c xs @ drop (Suc c) xs" by simp
  then show ?thesis unfolding xs by simp
qed


text \<open>Removing the entry at a rank, in the form of the operations.\<close>

lemma remove_implements:
  assumes R: "rep enc sl as" and c: "c < length as"
    and us: "\<And>i. i < sl_level sl \<Longrightarrow> fst (us ! i) = (sl_header sl # as) ! U i \<and>
      upd_rank (heights (sl_heap sl) (sl_header sl # as)) c i (U i)"
    and xs: "xs = map (entry_of (sl_heap sl)) as"
  obtains h1 b f h2 lv nd where "unlink_levels (sl_heap sl) (as ! c) us (sl_level sl) = Some h1"
    "forward h1 (as ! c) 0 = Some f" "get_backward h1 (as ! c) = Some b" "c = 0 \<Longrightarrow> b = None"
    "(case f of Some g \<Rightarrow> set_backward h1 g b | None \<Rightarrow> Some h1) = Some h2"
    "trim_level h2 (sl_header sl) (sl_level sl) = Some lv"
    "h2 (as ! c) = Some nd" "(node_member nd, node_score nd) = xs ! c"
    "implements enc (sl\<lparr>sl_heap := h2(as ! c := None), sl_tail := (case f of Some _ \<Rightarrow> sl_tail sl | None \<Rightarrow> b),
       sl_length := sl_length sl - 1, sl_level := lv\<rparr>) (take c xs @ drop (Suc c) xs)"
proof -
  obtain h1 b f h2 lv nd where r: "unlink_levels (sl_heap sl) (as ! c) us (sl_level sl) = Some h1"
    "forward h1 (as ! c) 0 = Some f" "get_backward h1 (as ! c) = Some b" "c = 0 \<longrightarrow> b = None"
    "(case f of Some g \<Rightarrow> set_backward h1 g b | None \<Rightarrow> Some h1) = Some h2"
    "trim_level h2 (sl_header sl) (sl_level sl) = Some lv"
    "h2 (as ! c) = Some nd" "(node_member nd, node_score nd) = entry_of (sl_heap sl) (as ! c)"
    "\<forall>a \<in> set as - {as ! c}. entry_of (h2(as ! c := None)) a = entry_of (sl_heap sl) a"
    "rep enc (sl\<lparr>sl_heap := h2(as ! c := None), sl_tail := (case f of Some _ \<Rightarrow> sl_tail sl | None \<Rightarrow> b),
       sl_length := sl_length sl - 1, sl_level := lv\<rparr>) (take c as @ drop (Suc c) as)" (is "rep enc ?sl ?as")
    using remove_rep [OF R c us] by blast
  have "distinct as" using nodes_okD(2) [OF repD(1) [OF R]] by simp
  then have "distinct (take c as @ as ! c # drop (Suc c) as)" by (simp only: id_take_nth_drop [OF c, symmetric])
  then have "a \<in> set as - {as ! c}" if "a \<in> set ?as" for a
    using that by (auto dest: in_set_takeD in_set_dropD)
  then have "map (entry_of (sl_heap ?sl)) ?as = map (entry_of (sl_heap sl)) ?as" using r(9) by auto
  also have "\<dots> = take c xs @ drop (Suc c) xs" by (simp add: xs take_map drop_map)
  finally have "implements enc ?sl (take c xs @ drop (Suc c) xs)" using r(10) unfolding implements_def by metis
  moreover have "(node_member nd, node_score nd) = xs ! c" using r(8) c by (simp add: xs)
  ultimately show thesis using that r(1-7) by blast
qed

lemma find_sorted:
  fixes k :: "bytes \<times> bytes"
  assumes "key_sorted enc xs"
  defines "c \<equiv> length (takeWhile (\<lambda>x. entry_key enc x < k) xs)"
  shows "find (\<lambda>x. entry_key enc x = k) xs =
    (if c < length xs \<and> entry_key enc (xs ! c) = k then Some (xs ! c) else None)"
  using assms(1) unfolding c_def
proof (induction xs)
  case (Cons x xs)
  consider "entry_key enc x < k" | "entry_key enc x = k" | "k < entry_key enc x" by (rule linorder_cases)
  then show ?case
  proof cases
    case 3
    then have "\<forall>y \<in> set xs. entry_key enc y \<noteq> k" using Cons.prems by auto
    then show ?thesis using 3 by (auto simp: find_None_iff)
  qed (use Cons in auto)
qed simp

lemma search_target:
  fixes k :: "bytes \<times> bytes"
  assumes R: "rep enc sl as"
  defines "c \<equiv> before (sl_heap sl) as k"
  shows "forward (sl_heap sl) ((sl_header sl # as) ! c) 0 = Some (if c < length as then Some (as ! c) else None)"
  using forward_0 [OF repD(4,1) [OF R], of c] before_le [of "sl_heap sl" as k] by (simp add: c_def less_Suc_eq_le)

lemma delete_implements:
  assumes "implements enc sl xs"
  shows "\<exists>sl'. delete_entry enc sl score member =
      Some (sl', find (\<lambda>x. entry_key enc x = entry_key enc (member, score)) xs) \<and>
    implements enc sl' (spec_delete enc (member, score) xs)"
proof -
  obtain as where R: "rep enc sl as" and xs: "xs = map (entry_of (sl_heap sl)) as"
    using assms by (auto simp: implements_def)
  define order where "order = encode_sortable_f64 enc score"
  define c where "c = before (sl_heap sl) as (order, member)"
  have k: "entry_key enc (member, score) = (order, member)" by (simp add: entry_key_def order_def)
  have sorted: "key_sorted enc xs" using rep_sorted [OF R] by (simp add: xs)
  have c': "c = length (takeWhile (\<lambda>x. entry_key enc x < (order, member)) xs)"
    unfolding c_def xs by (rule before_entries [OF R])
  obtain us U where us: "descend (sl_heap sl) (key_lt order member) (sl_level sl) (sl_header sl) 0 =
      Some ((sl_header sl # as) ! c, c, us)"
      "\<And>i. i < sl_level sl \<Longrightarrow> us ! i = ((sl_header sl # as) ! U i, U i) \<and>
       upd_rank (heights (sl_heap sl) (sl_header sl # as)) c i (U i)"
    using search_key [OF R, of order member] unfolding c_def by blast
  note t = search_target [OF R, of "(order, member)", folded c_def]
  have found: "find (\<lambda>x. entry_key enc x = (order, member)) xs =
      (if c < length xs \<and> entry_key enc (xs ! c) = (order, member) then Some (xs ! c) else None)"
    unfolding c' by (rule find_sorted [OF sorted])
  show ?thesis
  proof (cases "c < length xs \<and> entry_key enc (xs ! c) = (order, member)")
    case True
    then have ca: "c < length as" by (simp add: xs)
    have us': "\<And>i. i < sl_level sl \<Longrightarrow> fst (us ! i) = (sl_header sl # as) ! U i \<and>
      upd_rank (heights (sl_heap sl) (sl_header sl # as)) c i (U i)" using us(2) by simp
    obtain h1 b f h2 lv nd where r: "unlink_levels (sl_heap sl) (as ! c) us (sl_level sl) = Some h1"
      "forward h1 (as ! c) 0 = Some f" "get_backward h1 (as ! c) = Some b"
      "(case f of Some g \<Rightarrow> set_backward h1 g b | None \<Rightarrow> Some h1) = Some h2"
      "trim_level h2 (sl_header sl) (sl_level sl) = Some lv"
      "h2 (as ! c) = Some nd" "(node_member nd, node_score nd) = xs ! c"
      "implements enc (sl\<lparr>sl_heap := h2(as ! c := None), sl_tail := (case f of Some _ \<Rightarrow> sl_tail sl | None \<Rightarrow> b),
         sl_length := sl_length sl - 1, sl_level := lv\<rparr>) (take c xs @ drop (Suc c) xs)" (is "implements enc ?sl _")
      using remove_implements [OF R ca us' xs] by metis
    obtain nd0 where nd0: "sl_heap sl (as ! c) = Some nd0" using repD(10) [OF R] nth_mem [OF ca] by blast
    have "key_of (sl_heap sl) (as ! c) = (order, member)"
      using True rep_key [OF R nth_mem [OF ca]] ca by (simp add: xs)
    then have key: "node_order nd0 = order" "node_member nd0 = member" by (simp_all add: key_of_def info_def nd0)
    have len: "usub (sl_length sl) 1 = Some (sl_length sl - 1)" using repD(3) [OF R] ca by (simp add: usub_def)
    have "delete_entry enc sl score member = Some (?sl, Some (xs ! c))"
      using us(1) t ca nd0 key r(1-7) len
      by (cases f) (simp_all add: delete_entry_def order_def [symmetric] Let_def)
    moreover have "take c xs @ drop (Suc c) xs = spec_delete enc (member, score) xs"
      using drop_nth_filter [OF sorted] True by (simp add: spec_delete_def k)
    ultimately show ?thesis using r(8) found True by (auto simp: k)
  next
    case False
    have "delete_entry enc sl score member = Some (sl, None)"
    proof (cases "c < length as")
      case True
      obtain nd0 where nd0: "sl_heap sl (as ! c) = Some nd0" using repD(10) [OF R] nth_mem [OF True] by blast
      have "key_of (sl_heap sl) (as ! c) \<noteq> (order, member)"
        using False rep_key [OF R nth_mem [OF True]] True by (simp add: xs)
      then have "\<not> (node_order nd0 = order \<and> node_member nd0 = member)" by (simp add: key_of_def info_def nd0)
      then show ?thesis using us(1) t True nd0 by (auto simp: delete_entry_def order_def [symmetric] Let_def)
    next
      case False
      then show ?thesis using us(1) t by (simp add: delete_entry_def order_def [symmetric] Let_def)
    qed
    moreover have "find (\<lambda>x. entry_key enc x = (order, member)) xs = None" using found False by auto
    then have "spec_delete enc (member, score) xs = xs"
      unfolding spec_delete_def k by (auto simp: find_None_iff filter_id_conv)
    ultimately show ?thesis using assms found False by (auto simp: k)
  qed
qed

end
