(* ===== verification/Zset_Query.thy ===== *)
theory Zset_Query
  imports Zset_Refine
begin

text \<open>
  The empty list, the pops at both ends, and the queries: ranks, rank ranges, score ranges, member
  ranges and their counts, each read off the sorted list that the skip list implements.
\<close>

section \<open>The empty list and the ends\<close>

lemma new_implements: "implements enc (skiplist_new enc) []"
proof -
  have l: "lk [0 \<mapsto> node_new enc MAX_LEVEL 0 []] (0, i) =
      (if i < MAX_LEVEL then Some \<lparr>link_forward = None, link_span = 0\<rparr> else None)" for i
    by (simp add: lk_def node_new_def)
  have h: "ht [0 \<mapsto> node_new enc MAX_LEVEL 0 []] 0 = MAX_LEVEL" by (simp add: ht_def hts_def node_new_def)
  have m: "0 < MAX_LEVEL" by (simp add: MAX_LEVEL_def)
  have "rep enc (skiplist_new enc) []"
    unfolding rep_def Let_def
  proof (intro conjI)
    show "links_ok (sl_heap (skiplist_new enc)) [sl_header (skiplist_new enc)] (sl_level (skiplist_new enc))"
      unfolding links_ok_def
      by (auto simp: skiplist_new_def l nextr_def mk_link_def m intro!: exI [of _ "Suc 0"])
  qed (use m in \<open>auto simp: skiplist_new_def nodes_ok_def idle_ok_def back_ok_def h l Suc_le_eq\<close>)
  then show ?thesis by (auto simp: implements_def)
qed

lemma find_append: "find P (xs @ ys) = (case find P xs of None \<Rightarrow> find P ys | Some x \<Rightarrow> Some x)"
  by (induction xs) auto

lemma pop_first_implements:
  assumes "implements enc sl xs"
  shows "\<exists>sl'. pop_first sl = Some (sl', if xs = [] then None else Some (hd xs)) \<and> implements enc sl' (tl xs)"
proof -
  obtain as where R: "rep enc sl as" and xs: "xs = map (entry_of (sl_heap sl)) as"
    using assms by (auto simp: implements_def)
  show ?thesis
  proof (cases as)
    case Nil
    then show ?thesis using assms repD(3) [OF R] by (simp add: pop_first_def xs)
  next
    case (Cons a bs)
    have c: "0 < length as" using Cons by simp
    let ?us = "replicate (sl_level sl) (sl_header sl, 0 :: nat)"
    have us: "\<And>i. i < sl_level sl \<Longrightarrow> fst (?us ! i) = (sl_header sl # as) ! 0 \<and>
      upd_rank (heights (sl_heap sl) (sl_header sl # as)) 0 i 0" by (simp add: upd_rank_def)
    obtain h1 b f h2 lv nd where r: "unlink_levels (sl_heap sl) (as ! 0) ?us (sl_level sl) = Some h1"
      "forward h1 (as ! 0) 0 = Some f" "get_backward h1 (as ! 0) = Some b" "0 = (0::nat) \<Longrightarrow> b = None"
      "(case f of Some g \<Rightarrow> set_backward h1 g b | None \<Rightarrow> Some h1) = Some h2"
      "trim_level h2 (sl_header sl) (sl_level sl) = Some lv"
      "h2 (as ! 0) = Some nd" "(node_member nd, node_score nd) = xs ! 0"
      "implements enc (sl\<lparr>sl_heap := h2(as ! 0 := None), sl_tail := (case f of Some _ \<Rightarrow> sl_tail sl | None \<Rightarrow> b),
         sl_length := sl_length sl - 1, sl_level := lv\<rparr>) (take 0 xs @ drop (Suc 0) xs)" (is "implements enc ?sl _")
      using remove_implements [OF R c us xs] by metis
    have t: "forward (sl_heap sl) (sl_header sl) 0 = Some (Some (as ! 0))"
      using forward_0 [OF repD(4,1) [OF R], of 0] Cons by simp
    have len: "usub (sl_length sl) 1 = Some (sl_length sl - 1)" "sl_length sl \<noteq> 0"
      using repD(3) [OF R] c by (auto simp: usub_def Suc_le_eq)
    have "pop_first sl = Some (?sl, Some (xs ! 0))"
      using t r(1-8) len by (cases f) (simp_all add: pop_first_def)
    moreover have "xs \<noteq> []" "xs ! 0 = hd xs" "take 0 xs @ drop (Suc 0) xs = tl xs"
      using Cons by (simp_all add: xs drop_Suc)
    ultimately show ?thesis using r(9) by auto
  qed
qed

lemma pop_last_implements:
  assumes "implements enc sl xs"
  shows "\<exists>sl'. pop_last enc sl = Some (sl', if xs = [] then None else Some (last xs)) \<and> implements enc sl' (butlast xs)"
proof -
  obtain as where R: "rep enc sl as" and xs: "xs = map (entry_of (sl_heap sl)) as"
    using assms by (auto simp: implements_def)
  show ?thesis
  proof (cases "as = []")
    case True
    then show ?thesis using assms repD(7) [OF R] by (simp add: pop_last_def xs)
  next
    case False
    then have t: "sl_tail sl = Some (last as)" "sl_length sl \<noteq> 0" using repD(3,7) [OF R] by auto
    obtain nd where nd: "sl_heap sl (last as) = Some nd" using repD(10) [OF R] last_in_set [OF False] by blast
    have e: "(node_member nd, node_score nd) = last xs"
      using False nd by (simp add: xs last_map entry_of_def info_def)
    have ne: "xs \<noteq> []" using False by (simp add: xs)
    have sorted: "key_sorted enc (butlast xs @ [last xs])" using rep_sorted [OF R] ne by (simp add: xs)
    have "find (\<lambda>x. entry_key enc x = entry_key enc (last xs)) (butlast xs) = None"
      using sorted by (auto simp: find_None_iff sorted_wrt_append)
    then have "find (\<lambda>x. entry_key enc x = entry_key enc (last xs)) (butlast xs @ [last xs]) = Some (last xs)"
      by (simp add: find_append)
    moreover have "spec_delete enc (last xs) (butlast xs @ [last xs]) = butlast xs"
      using sorted by (auto simp: spec_delete_def sorted_wrt_append filter_id_conv)
    ultimately have "find (\<lambda>x. entry_key enc x = entry_key enc (last xs)) xs = Some (last xs)"
        "spec_delete enc (last xs) xs = butlast xs" using ne by simp_all
    then show ?thesis
      using delete_implements [OF assms, of "node_score nd" "node_member nd"] t nd ne by (simp add: pop_last_def e)
  qed
qed

section \<open>Ranks\<close>

lemma rank_walk_ok:
  assumes "links_ok h q lv" "i < lv" "c < length q"
    and keys: "\<And>r. 0 < r \<Longrightarrow> r < length q \<Longrightarrow> \<exists>nd. h (q ! r) = Some nd \<and>
      ((node_order nd, node_member nd) < k \<longleftrightarrow> r \<le> c) \<and> ((node_order nd, node_member nd) = k \<longleftrightarrow> r = Suc c \<and> p)"
  shows "r \<le> c \<Longrightarrow> r = 0 \<or> i < ht h (q ! r) \<Longrightarrow>
    \<exists>u. upd_rank (heights h q) c i u \<and> rank_walk h (fst k) (snd k) i (q ! r) r =
      Some (if p \<and> Suc c < length q \<and> i < ht h (q ! Suc c) then Inr c else Inl (q ! u, u))"
proof (induction "c - r" arbitrary: r rule: less_induct)
  case less
  have r: "r < length q" "i < (if r = 0 then lv else ht h (q ! r))" using less.prems assms(2,3) by auto
  obtain s where s: "nextr (heights h q) i r s" "lk h (q ! r, i) = Some (mk_link q r s)"
    using links_okD [OF assms(1) r] by blast
  have rs: "r < s" "s \<le> length q" "\<And>t. r < t \<Longrightarrow> t < s \<Longrightarrow> heights h q ! t \<le> i"
    using s(1) by (auto simp: nextr_def)
  have upd: "upd_rank (heights h q) c i r" if "c < s"
    using that less.prems rs r(1) by (auto simp: upd_rank_def)
  have tall: "Suc c < length q \<Longrightarrow> i < ht h (q ! Suc c) \<longleftrightarrow> s = Suc c" if "c < s"
    using that s(1) rs(3) [of "Suc c"] less.prems(1) by (cases "s = Suc c") (auto simp: nextr_def)
  show ?case
  proof (cases "s < length q")
    case False
    then have "rank_walk h (fst k) (snd k) i (q ! r) r = Some (Inl (q ! r, r))"
      using s(2) by (subst rank_walk.simps) (simp add: forward_lk mk_link_def)
    then show ?thesis using upd tall False assms(3) by (intro exI [of _ r]) auto
  next
    case True
    obtain nd where nd: "h (q ! s) = Some nd" "(node_order nd, node_member nd) < k \<longleftrightarrow> s \<le> c"
        "(node_order nd, node_member nd) = k \<longleftrightarrow> s = Suc c \<and> p"
      using keys [of s] True rs(1) by auto
    have eq: "rank_walk h (fst k) (snd k) i (q ! r) r =
        (if s \<le> c then rank_walk h (fst k) (snd k) i (q ! s) s
         else if s = Suc c \<and> p then Some (Inr (s - 1)) else Some (Inl (q ! r, r)))"
      using s(2) True nd rs(1)
      by (subst rank_walk.simps) (simp add: forward_lk span_lk mk_link_def usub_def del: less_prod_simp Pair_inject)
    show ?thesis
    proof (cases "s \<le> c")
      case le: True
      have "i < ht h (q ! s)" using s(1) True by (simp add: nextr_def)
      then show ?thesis using less.hyps [of s] le rs(1) eq by auto
    next
      case False
      then show ?thesis using upd eq tall True by (intro exI [of _ r]) auto
    qed
  qed
qed


lemma rank_descend_ok:
  assumes "links_ok h q lv" "nodes_ok h q lv" "c < length q"
    and keys: "\<And>r. 0 < r \<Longrightarrow> r < length q \<Longrightarrow> \<exists>nd. h (q ! r) = Some nd \<and>
      ((node_order nd, node_member nd) < k \<longleftrightarrow> r \<le> c) \<and> ((node_order nd, node_member nd) = k \<longleftrightarrow> r = Suc c \<and> p)"
  shows "j \<le> lv \<Longrightarrow> r \<le> c \<Longrightarrow> r = 0 \<or> j \<le> ht h (q ! r) \<Longrightarrow>
    rank_descend h (fst k) (snd k) j (q ! r) r =
      Some (if p \<and> Suc c < length q \<and> 0 < j then Some c else None)"
proof (induction j arbitrary: r)
  case (Suc j)
  obtain u where u: "upd_rank (heights h q) c j u" "rank_walk h (fst k) (snd k) j (q ! r) r =
      Some (if p \<and> Suc c < length q \<and> j < ht h (q ! Suc c) then Inr c else Inl (q ! u, u))"
    using rank_walk_ok [OF assms(1) _ assms(3) keys, of j r] Suc.prems by auto
  have b: "u \<le> c" "u = 0 \<or> j \<le> ht h (q ! u)" using u(1) assms(3) by (auto simp: upd_rank_def)
  have "0 < ht h (q ! Suc c)" if "Suc c < length q" using nodes_okD(7) [OF assms(2) _ that] by simp
  then show ?case using u(2) Suc.IH [OF _ b] Suc.prems(1) by (cases j) auto
qed simp

lemma get_rank_correct:
  assumes "implements enc sl xs"
  shows "get_rank enc sl score member =
    Some (if entry_key enc (member, score) \<in> entry_key enc ` set xs
          then Some (length (filter (\<lambda>x. entry_key enc x < entry_key enc (member, score)) xs)) else None)"
proof -
  obtain as where R: "rep enc sl as" and xs: "xs = map (entry_of (sl_heap sl)) as"
    using assms by (auto simp: implements_def)
  define k where "k = entry_key enc (member, score)"
  let ?q = "sl_header sl # as" and ?h = "sl_heap sl"
  define c where "c = before ?h as k"
  have sorted: "key_sorted enc xs" using rep_sorted [OF R] by (simp add: xs)
  have "\<And>x y. entry_key enc x < entry_key enc y \<Longrightarrow> entry_key enc y < k \<Longrightarrow> entry_key enc x < k" by (rule less_trans)
  from filter_sorted_prefix [OF sorted, of "\<lambda>x. entry_key enc x < k", OF this]
  have c: "c = length (filter (\<lambda>x. entry_key enc x < k) xs)"
    by (simp add: c_def before_entries [OF R] xs)
  define p where "p \<longleftrightarrow> c < length as \<and> key_of ?h (as ! c) = k"
  have less: "key_of ?h (as ! j) < k \<longleftrightarrow> j < c" if "j < length as" for j
    unfolding c_def by (rule before_iff [OF repD(8) [OF R] that])
  have eq: "key_of ?h (as ! j) = k \<longleftrightarrow> j = c \<and> p" if j: "j < length as" for j
  proof
    assume e: "key_of ?h (as ! j) = k"
    have "\<not> j < c" using less [OF j] e by simp
    moreover have "\<not> c < j"
    proof
      assume "c < j"
      then have "key_of ?h (as ! c) < k" using sorted_wrt_nth_less [OF repD(8) [OF R] \<open>c < j\<close> j] e by simp
      then show False using less [of c] \<open>c < j\<close> j by simp
    qed
    ultimately show "j = c \<and> p" using e j by (simp add: p_def)
  qed (simp add: p_def)
  have mem: "k \<in> entry_key enc ` set xs \<longleftrightarrow> p"
  proof -
    have "k \<in> entry_key enc ` set xs \<longleftrightarrow> (\<exists>j < length as. key_of ?h (as ! j) = k)"
    proof -
      have "entry_key enc ` set xs = key_of ?h ` set as"
        unfolding xs set_map image_image by (rule image_cong [OF refl]) (simp add: rep_key [OF R])
      then show ?thesis by (auto simp: set_conv_nth [of as] image_iff)
    qed
    then show ?thesis using eq by (auto simp: p_def)
  qed
  have "rank_descend ?h (fst k) (snd k) (sl_level sl) (?q ! 0) 0 =
      Some (if p \<and> Suc c < length ?q \<and> 0 < sl_level sl then Some c else None)"
  proof (rule rank_descend_ok [OF repD(4,1) [OF R]])
    show "c < length ?q" using before_le [of ?h as k] by (simp add: c_def)
    fix r
    assume r: "0 < r" "r < length ?q"
    then obtain j where j: "r = Suc j" "j < length as" by (cases r) auto
    obtain nd where nd: "?h (as ! j) = Some nd" using repD(10) [OF R] nth_mem [OF j(2)] by blast
    have "key_of ?h (as ! j) = (node_order nd, node_member nd)" using nd by (simp add: key_of_def info_def)
    then show "\<exists>nd. ?h (?q ! r) = Some nd \<and> ((node_order nd, node_member nd) < k \<longleftrightarrow> r \<le> c) \<and>
        ((node_order nd, node_member nd) = k \<longleftrightarrow> r = Suc c \<and> p)"
      using nd j less [OF j(2)] eq [OF j(2)] by (simp del: less_prod_simp add: Suc_le_eq)
  qed simp_all
  moreover have "p \<Longrightarrow> c < length as" by (simp add: p_def)
  moreover have "0 < sl_level sl" using nodes_okD(4) [OF repD(1) [OF R]] by simp
  ultimately have "rank_descend ?h (fst k) (snd k) (sl_level sl) (?q ! 0) 0 = Some (if p then Some c else None)"
    by auto
  moreover have "get_rank enc sl score member = rank_descend ?h (fst k) (snd k) (sl_level sl) (?q ! 0) 0"
    by (simp add: get_rank_def k_def entry_key_def)
  ultimately show ?thesis unfolding k_def [symmetric] mem c [symmetric] by (simp only:)
qed

lemma seek_rank_ok:
  assumes "links_ok h q lv" "nodes_ok h q lv" "target < length q"
  shows "j \<le> lv \<Longrightarrow> 0 < j \<Longrightarrow> r \<le> target \<Longrightarrow> r = 0 \<or> j \<le> ht h (q ! r) \<Longrightarrow>
    seek_rank h target j (q ! r) r = Some (q ! target, target)"
proof (induction j arbitrary: r)
  case (Suc j)
  note n = nodes_okD [OF assms(2)]
  have ps: "prefix_search h q (\<lambda>nd r. r \<le> target) target"
    unfolding prefix_search_def using assms(3) n(3) nth_mem by blast
  obtain u where u: "walk h (\<lambda>nd r. r \<le> target) j (q ! r) r = Some (q ! u, u)" "upd_rank (heights h q) target j u"
    using walk_ok [OF assms(1) ps, of j r] Suc.prems by auto
  have b: "u \<le> target" "u = 0 \<or> j \<le> ht h (q ! u)" using u(2) assms(3) by (auto simp: upd_rank_def)
  show ?case
  proof (cases "u = target")
    case True
    then show ?thesis using u(1) by simp
  next
    case False
    have "j \<noteq> 0"
    proof
      assume "j = 0"
      then have "u = target"
        using u(2) n(7) assms(3) by (intro upd_rank_0 [of "heights h q"]) (auto simp: Suc_le_eq)
      then show False using False by simp
    qed
    then show ?thesis using u(1) False Suc.IH [of u] Suc.prems(1) b by simp
  qed
qed simp

section \<open>Walking along the entries\<close>

text \<open>From the pointer \<open>cur\<close> on, the direction \<open>step\<close> visits the entries of a list and then ends.\<close>

fun chain :: "heap \<Rightarrow> (addr \<Rightarrow> bool) \<Rightarrow> (addr \<Rightarrow> addr option option) \<Rightarrow> addr option \<Rightarrow> entry list \<Rightarrow> bool" where
  "chain h at_end step cur [] \<longleftrightarrow> (case cur of None \<Rightarrow> True | Some a \<Rightarrow> at_end a)"
| "chain h at_end step cur (e # es) \<longleftrightarrow>
     (\<exists>a nd cur'. cur = Some a \<and> \<not> at_end a \<and> h a = Some nd \<and> e = (node_member nd, node_score nd) \<and>
        step a = Some cur' \<and> chain h at_end step cur' es)"

lemma collect_count_chain:
  "chain h (\<lambda>a. a = header) step cur es \<Longrightarrow> collect_count h header step n cur = Some (take n es)"
proof (induction n arbitrary: cur es)
  case (Suc n)
  then show ?case by (cases es) (auto split: option.splits)
qed simp

lemma iter_next_chain: "chain h (\<lambda>_. False) (\<lambda>a. forward h a 0) cur es \<Longrightarrow> iter_next h cur n = Some (take n es)"
proof (induction n arbitrary: cur es)
  case (Suc n)
  then show ?case by (cases es) (auto split: option.splits)
qed simp

lemma collect_chain:
  "chain h at_end step cur es \<Longrightarrow> length res < count \<Longrightarrow> skipped \<le> offset \<Longrightarrow> (res \<noteq> [] \<Longrightarrow> skipped = offset) \<Longrightarrow>
   collect h at_end step within offset count cur skipped res =
   Some (res @ take (count - length res) (drop (offset - skipped) (takeWhile within es)))"
proof (induction es arbitrary: cur skipped res)
  case Nil
  then show ?case by (subst collect.simps) (auto split: option.splits)
next
  case (Cons e es)
  obtain a nd cur' where c: "cur = Some a" "\<not> at_end a" "h a = Some nd" "e = (node_member nd, node_score nd)"
      "step a = Some cur'" "chain h at_end step cur' es"
    using Cons.prems(1) by auto
  have eq: "collect h at_end step within offset count cur skipped res =
      (if \<not> within e then Some res
       else if skipped < offset then collect h at_end step within offset count cur' (skipped + 1) res
       else if count \<le> length (res @ [e]) then Some (res @ [e])
       else collect h at_end step within offset count cur' skipped (res @ [e]))"
    using c by (subst collect.simps) (simp add: Let_def)
  show ?case
  proof (cases "within e")
    case False
    then show ?thesis by (simp add: eq)
  next
    case w: True
    show ?thesis
    proof (cases "skipped < offset")
      case True
      then have "res = []" using Cons.prems(4) by auto
      moreover have "offset - skipped = Suc (offset - Suc skipped)" using True by simp
      ultimately show ?thesis
        unfolding eq using Cons.IH [OF c(6), of res "skipped + 1"] Cons.prems(2) True w by simp
    next
      case False
      then have sk: "skipped = offset" using Cons.prems(3) by simp
      show ?thesis
      proof (cases "count \<le> length (res @ [e])")
        case True
        then have "count - length res = 1" using Cons.prems(2) by simp
        then show ?thesis unfolding eq using True False w sk by simp
      next
        case more: False
        then obtain m where m: "count - length res = Suc m" "m = count - length (res @ [e])" by (cases "count - length res") auto
        have "collect h at_end step within offset count cur skipped res =
            collect h at_end step within offset count cur' skipped (res @ [e])"
          unfolding eq using more False w by simp
        also have "\<dots> = Some ((res @ [e]) @ take m (takeWhile within es))"
          using Cons.IH [OF c(6), of "res @ [e]" skipped] more sk m(2) by simp
        finally show ?thesis using w sk m(1) by simp
      qed
    qed
  qed
qed

lemma entry_nth:
  assumes "rep enc sl as" "j < length as"
  obtains nd where "sl_heap sl (as ! j) = Some nd" "entry_of (sl_heap sl) (as ! j) = (node_member nd, node_score nd)"
proof -
  obtain nd where nd: "sl_heap sl (as ! j) = Some nd" using repD(10) [OF assms(1)] nth_mem [OF assms(2)] by blast
  then have "entry_of (sl_heap sl) (as ! j) = (node_member nd, node_score nd)" by (simp add: entry_of_def info_def)
  then show thesis using that nd by blast
qed

lemma header_fresh: "rep enc sl as \<Longrightarrow> j < length as \<Longrightarrow> as ! j \<noteq> sl_header sl"
  using nodes_okD(2) [OF repD(1), of enc sl as] by (auto simp: in_set_conv_nth)

lemma forward_chain:
  assumes R: "rep enc sl as" and ae: "\<And>a. at_end a \<Longrightarrow> a = sl_header sl"
  shows "j \<le> length as \<Longrightarrow> chain (sl_heap sl) at_end (\<lambda>a. forward (sl_heap sl) a 0)
    (if j < length as then Some (as ! j) else None) (drop j (map (entry_of (sl_heap sl)) as))"
proof (induction "length as - j" arbitrary: j)
  case 0
  then show ?case by simp
next
  case (Suc n)
  then have j: "j < length as" by simp
  obtain nd where nd: "sl_heap sl (as ! j) = Some nd" "entry_of (sl_heap sl) (as ! j) = (node_member nd, node_score nd)"
    using entry_nth [OF R j] by blast
  have f: "forward (sl_heap sl) (as ! j) 0 = Some (if Suc j < length as then Some (as ! Suc j) else None)"
    using forward_0 [OF repD(4,1) [OF R], of "Suc j"] j by simp
  have "drop j (map (entry_of (sl_heap sl)) as) =
      entry_of (sl_heap sl) (as ! j) # drop (Suc j) (map (entry_of (sl_heap sl)) as)"
    using j by (simp add: Cons_nth_drop_Suc [symmetric])
  then show ?case
    using Suc.hyps(1) [of "Suc j"] Suc.hyps(2) j nd f ae header_fresh [OF R j] by auto
qed

lemma backward_chain:
  assumes R: "rep enc sl as"
  shows "r \<le> length as \<Longrightarrow> chain (sl_heap sl) (\<lambda>a. a = sl_header sl) (get_backward (sl_heap sl))
    (Some ((sl_header sl # as) ! r)) (rev (take r (map (entry_of (sl_heap sl)) as)))"
proof (induction r)
  case 0
  then show ?case by simp
next
  case (Suc r)
  then have j: "r < length as" by simp
  obtain nd where nd: "sl_heap sl (as ! r) = Some nd" "entry_of (sl_heap sl) (as ! r) = (node_member nd, node_score nd)"
    using entry_nth [OF R j] by blast
  have b: "get_backward (sl_heap sl) (as ! r) = Some (if r = 0 then None else Some ((sl_header sl # as) ! r))"
    using repD(6) [OF R] j unfolding back_ok_def by (metis length_Cons nth_Cons_Suc Suc_less_eq)
  have "rev (take (Suc r) (map (entry_of (sl_heap sl)) as)) =
      entry_of (sl_heap sl) (as ! r) # rev (take r (map (entry_of (sl_heap sl)) as))"
    using j by (simp add: take_Suc_conv_app_nth)
  then show ?case using Suc j nd b header_fresh [OF R j] by (cases r) auto
qed


section \<open>Ranks and iteration\<close>

lemma implements_length: "implements enc sl xs \<Longrightarrow> sl_length sl = length xs"
  using repD(3) by (auto simp: implements_def)

lemma iter_correct:
  assumes "implements enc sl xs"
  shows "skiplist_iter sl = Some xs"
proof -
  obtain as where R: "rep enc sl as" and xs: "xs = map (entry_of (sl_heap sl)) as"
    using assms by (auto simp: implements_def)
  have f: "forward (sl_heap sl) (sl_header sl) 0 = Some (if 0 < length as then Some (as ! 0) else None)"
    using forward_0 [OF repD(4,1) [OF R], of 0] by (simp split: if_splits)
  have ch: "chain (sl_heap sl) (\<lambda>_. False) (\<lambda>a. forward (sl_heap sl) a 0) (if 0 < length as then Some (as ! 0) else None) (drop 0 xs)"
    using forward_chain [OF R, of "\<lambda>_. False" 0] by (simp add: xs)
  show ?thesis
    using iter_next_chain [OF ch, of "sl_length sl"] f implements_length [OF assms] by (simp add: skiplist_iter_def)
qed

lemma seek_header:
  assumes R: "rep enc sl as" and "target \<le> length as"
  shows "seek_rank (sl_heap sl) target (sl_level sl) (sl_header sl) 0 = Some ((sl_header sl # as) ! target, target)"
  using seek_rank_ok [OF repD(4,1) [OF R], of target "sl_level sl" 0] assms(2) nodes_okD(4) [OF repD(1) [OF R]]
  by (simp add: Suc_le_eq)

lemma get_by_rank_correct:
  assumes "implements enc sl xs"
  shows "get_by_rank sl rank = Some (if rank < length xs then Some (xs ! rank) else None)"
proof -
  obtain as where R: "rep enc sl as" and xs: "xs = map (entry_of (sl_heap sl)) as"
    using assms by (auto simp: implements_def)
  show ?thesis
  proof (cases "rank < length as")
    case True
    obtain nd where "sl_heap sl (as ! rank) = Some nd" "entry_of (sl_heap sl) (as ! rank) = (node_member nd, node_score nd)"
      using entry_nth [OF R True] by blast
    then show ?thesis
      using seek_header [OF R, of "Suc rank"] True repD(3) [OF R] by (simp add: get_by_rank_def xs)
  next
    case False
    then show ?thesis using repD(3) [OF R] by (simp add: get_by_rank_def xs)
  qed
qed

lemma range_by_rank_correct:
  assumes "implements enc sl xs"
  shows "range_by_rank sl start stop reverse =
    Some (take (Suc stop - start) (drop start (if reverse then rev xs else xs)))"
proof -
  obtain as where R: "rep enc sl as" and xs: "xs = map (entry_of (sl_heap sl)) as"
    using assms by (auto simp: implements_def)
  have len: "sl_length sl = length as" "length xs = length as" using repD(3) [OF R] by (simp_all add: xs)
  show ?thesis
  proof (cases "start \<le> stop \<and> start < length as")
    case False
    then show ?thesis using len by (auto simp: range_by_rank_def)
  next
    case True
    define count where "count = min stop (length as - 1) - start + 1"
    have cnt: "take count ys = take (Suc stop - start) ys" if "length ys = length as - start" for ys :: "entry list"
    proof (cases "stop < length as")
      case True
      then have "count = Suc stop - start" using \<open>start \<le> stop \<and> start < length as\<close> unfolding count_def min_def by auto
      then show ?thesis by simp
    next
      case False
      then have "length ys \<le> count" "length ys \<le> Suc stop - start" using that True unfolding count_def min_def by auto
      then show ?thesis by simp
    qed
    show ?thesis
    proof (cases reverse)
      case False
      have ch: "chain (sl_heap sl) (\<lambda>a. a = sl_header sl) (\<lambda>a. forward (sl_heap sl) a 0) (Some (as ! start)) (drop start xs)"
        using forward_chain [OF R, of "\<lambda>a. a = sl_header sl" start] True by (simp add: xs)
      show ?thesis
        using seek_header [OF R, of "Suc start"] collect_count_chain [OF ch, of count] True False len cnt [of "drop start xs"]
        by (simp add: range_by_rank_def Let_def count_def)
    next
      case rv: True
      have ch: "chain (sl_heap sl) (\<lambda>a. a = sl_header sl) (get_backward (sl_heap sl))
          (Some ((sl_header sl # as) ! (length as - start))) (rev (take (length as - start) xs))"
        using backward_chain [OF R, of "length as - start"] by (simp add: xs)
      have "rev (take (length as - start) xs) = drop start (rev xs)" using len True by (simp add: rev_take)
      moreover have "Suc (length as - Suc start) = length as - start" using True by linarith
      ultimately show ?thesis
        using seek_header [OF R, of "length as - start"] collect_count_chain [OF ch, of count] True rv len cnt [of "drop start (rev xs)"]
        by (simp add: range_by_rank_def Let_def count_def)
    qed
  qed
qed


section \<open>Ranges\<close>

text \<open>
  A range on a sorted list: \<open>P\<close> holds below the minimum, \<open>Q\<close> up to the maximum, and both hold on
  prefixes only.
\<close>

definition prefix_closed :: "(entry \<Rightarrow> bool) \<Rightarrow> entry list \<Rightarrow> bool" where
  "prefix_closed P xs \<longleftrightarrow> (\<forall>i j. i < j \<and> j < length xs \<and> P (xs ! j) \<longrightarrow> P (xs ! i))"

lemma prefix_closed_iff: "prefix_closed P xs \<Longrightarrow> j < length xs \<Longrightarrow> P (xs ! j) \<longleftrightarrow> j < length (takeWhile P xs)"
  by (rule takeWhile_prefix) (auto simp: prefix_closed_def)

lemma prefix_closed_sorted: "prefix_closed P xs \<Longrightarrow> sorted_wrt (\<lambda>x y. P y \<longrightarrow> P x) xs"
  unfolding prefix_closed_def sorted_wrt_iff_nth_less by blast

lemma prefix_filter:
  assumes "prefix_closed P xs"
  shows "filter P xs = takeWhile P xs \<and> filter (\<lambda>x. \<not> P x) xs = dropWhile P xs"
  using prefix_closed_sorted [OF assms] by (rule filter_sorted_prefix) blast

lemma range_up:
  assumes "prefix_closed P xs" "prefix_closed Q xs"
  shows "takeWhile Q (drop (length (takeWhile P xs)) xs) = filter (\<lambda>x. \<not> P x \<and> Q x) xs"
proof -
  let ?ys = "dropWhile P xs"
  have d: "drop (length (takeWhile P xs)) xs = ?ys" by (rule dropWhile_eq_drop [symmetric])
  have "sorted_wrt (\<lambda>x y. Q y \<longrightarrow> Q x) (takeWhile P xs @ ?ys)" using prefix_closed_sorted [OF assms(2)] by simp
  then have "sorted_wrt (\<lambda>x y. Q y \<longrightarrow> Q x) ?ys" by (simp only: sorted_wrt_append)
  then have "filter Q ?ys = takeWhile Q ?ys" using filter_sorted_prefix [of "\<lambda>x y. Q y \<longrightarrow> Q x" ?ys Q] by blast
  moreover have "filter Q ?ys = filter (\<lambda>x. \<not> P x \<and> Q x) xs"
    unfolding conjunct2 [OF prefix_filter [OF assms(1)], symmetric] filter_filter by (simp add: conj_commute)
  ultimately show ?thesis unfolding d by simp
qed

lemma range_down:
  assumes "prefix_closed P xs" "prefix_closed Q xs"
  shows "takeWhile (\<lambda>x. \<not> P x) (rev (take (length (takeWhile Q xs)) xs)) = rev (filter (\<lambda>x. \<not> P x \<and> Q x) xs)"
proof -
  let ?ys = "takeWhile Q xs"
  have d: "take (length ?ys) xs = ?ys" by (rule takeWhile_eq_take [symmetric])
  have "sorted_wrt (\<lambda>x y. P y \<longrightarrow> P x) (?ys @ dropWhile Q xs)" using prefix_closed_sorted [OF assms(1)] by simp
  then have "sorted_wrt (\<lambda>x y. P y \<longrightarrow> P x) ?ys" by (simp only: sorted_wrt_append)
  then have "sorted_wrt (\<lambda>x y. \<not> P y \<longrightarrow> \<not> P x) (rev ?ys)" unfolding sorted_wrt_rev by (rule sorted_wrt_mono_rel [rotated]) blast
  then have "filter (\<lambda>x. \<not> P x) (rev ?ys) = takeWhile (\<lambda>x. \<not> P x) (rev ?ys)"
    using filter_sorted_prefix [of "\<lambda>x y. \<not> P y \<longrightarrow> \<not> P x" "rev ?ys" "\<lambda>x. \<not> P x"] by blast
  moreover have "filter (\<lambda>x. \<not> P x) (rev ?ys) = rev (filter (\<lambda>x. \<not> P x \<and> Q x) xs)"
    unfolding conjunct1 [OF prefix_filter [OF assms(2)], symmetric] rev_filter [symmetric] filter_filter
    by (simp add: conj_commute)
  ultimately show ?thesis unfolding d by simp
qed

lemma range_count:
  assumes "prefix_closed P xs" "prefix_closed Q xs"
  shows "length (filter (\<lambda>x. \<not> P x \<and> Q x) xs) = length (takeWhile Q xs) - length (takeWhile P xs)"
proof -
  have "{j. j < length xs \<and> \<not> P (xs ! j) \<and> Q (xs ! j)} = {length (takeWhile P xs)..<length (takeWhile Q xs)}"
    using prefix_closed_iff [OF assms(1)] prefix_closed_iff [OF assms(2)] length_takeWhile_le [of Q xs] by auto
  then show ?thesis by (simp add: length_filter_conv_card)
qed

lemma entry_search:
  assumes R: "rep enc sl as" and xs: "xs = map (entry_of (sl_heap sl)) as" and P: "prefix_closed P xs"
  shows "\<exists>us. descend (sl_heap sl) (\<lambda>nd r. P (node_member nd, node_score nd)) (sl_level sl) (sl_header sl) 0 =
    Some ((sl_header sl # as) ! length (takeWhile P xs), length (takeWhile P xs), us)"
proof -
  let ?q = "sl_header sl # as" and ?h = "sl_heap sl" and ?c = "length (takeWhile P xs)"
  have "prefix_search ?h ?q (\<lambda>nd r. P (node_member nd, node_score nd)) ?c"
    unfolding prefix_search_def
  proof (intro conjI allI impI)
    show "?c < length ?q" using length_takeWhile_le [of P xs] by (simp add: xs less_Suc_eq_le)
    fix r
    assume "0 < r \<and> r < length ?q"
    then obtain j where j: "r = Suc j" "j < length as" by (cases r) auto
    obtain nd where "?h (as ! j) = Some nd" "entry_of ?h (as ! j) = (node_member nd, node_score nd)"
      using entry_nth [OF R j(2)] by blast
    moreover have "P (xs ! j) \<longleftrightarrow> j < ?c" using prefix_closed_iff [OF P] j(2) by (simp add: xs)
    ultimately show "\<exists>nd. ?h (?q ! r) = Some nd \<and> P (node_member nd, node_score nd) = (r \<le> ?c)"
      using j by (auto simp: xs Suc_le_eq)
  qed
  moreover have "0 < ht ?h (?q ! k)" if "0 < k" "k < length ?q" for k
    using nodes_okD(7) [OF repD(1) [OF R] that] by simp
  ultimately show ?thesis
    using descend_header [OF repD(4) [OF R], of "\<lambda>nd r. P (node_member nd, node_score nd)" ?c]
      nodes_okD(4) [OF repD(1) [OF R]] by (metis One_nat_def Suc_le_eq nth_Cons_0)
qed

text \<open>The two directions of a range, as the code collects them.\<close>

lemma collect_up:
  assumes R: "rep enc sl as" and xs: "xs = map (entry_of (sl_heap sl)) as"
    and P: "prefix_closed P xs" and Q: "prefix_closed Q xs" and "0 < count"
  shows "do { cur \<leftarrow> forward (sl_heap sl) ((sl_header sl # as) ! length (takeWhile P xs)) 0;
      collect (sl_heap sl) (\<lambda>_. False) (\<lambda>a. forward (sl_heap sl) a 0) Q offset count cur 0 [] } =
    Some (take count (drop offset (filter (\<lambda>x. \<not> P x \<and> Q x) xs)))"
proof -
  let ?c = "length (takeWhile P xs)"
  have c: "?c \<le> length as" using length_takeWhile_le [of P xs] by (simp add: xs)
  have f: "forward (sl_heap sl) ((sl_header sl # as) ! ?c) 0 = Some (if ?c < length as then Some (as ! ?c) else None)"
    using forward_0 [OF repD(4,1) [OF R], of ?c] c by (simp add: less_Suc_eq_le)
  have "chain (sl_heap sl) (\<lambda>_. False) (\<lambda>a. forward (sl_heap sl) a 0)
      (if ?c < length as then Some (as ! ?c) else None) (drop ?c xs)"
    using forward_chain [OF R, of "\<lambda>_. False", OF _ c] by (simp add: xs)
  from collect_chain [OF this, of "[]" count 0 offset Q]
  show ?thesis using f assms(5) by (simp only: range_up [OF P Q]) simp
qed

lemma collect_down:
  assumes R: "rep enc sl as" and xs: "xs = map (entry_of (sl_heap sl)) as"
    and P: "prefix_closed P xs" and Q: "prefix_closed Q xs" and "0 < count"
  shows "collect (sl_heap sl) (\<lambda>a. a = sl_header sl) (get_backward (sl_heap sl)) (\<lambda>x. \<not> P x) offset count
      (Some ((sl_header sl # as) ! length (takeWhile Q xs))) 0 [] =
    Some (take count (drop offset (rev (filter (\<lambda>x. \<not> P x \<and> Q x) xs))))"
proof -
  let ?c = "length (takeWhile Q xs)"
  have c: "?c \<le> length as" using length_takeWhile_le [of Q xs] by (simp add: xs)
  have "chain (sl_heap sl) (\<lambda>a. a = sl_header sl) (get_backward (sl_heap sl))
      (Some ((sl_header sl # as) ! ?c)) (rev (take ?c xs))"
    using backward_chain [OF R c] by (simp add: xs)
  from collect_chain [OF this, of "[]" count 0 offset "\<lambda>x. \<not> P x"]
  show ?thesis using assms(5) by (simp only: range_down [OF P Q]) simp
qed

section \<open>Score ranges\<close>

lemma score_order:
  assumes "key_sorted enc xs" "order_preserving enc" "\<forall>x \<in> set xs. \<not> is_nan (snd x)" "i < j" "j < length xs"
  shows "f64_key (snd (xs ! i)) \<le> f64_key (snd (xs ! j))" "\<not> is_nan (snd (xs ! i))" "\<not> is_nan (snd (xs ! j))"
proof -
  show n: "\<not> is_nan (snd (xs ! i))" "\<not> is_nan (snd (xs ! j))" using assms(3,4,5) by auto
  have "entry_key enc (xs ! i) < entry_key enc (xs ! j)" using sorted_wrt_nth_less [OF assms(1,4,5)] .
  then have "\<not> encode_sortable_f64 enc (snd (xs ! j)) < encode_sortable_f64 enc (snd (xs ! i))"
    by (auto simp: entry_key_def)
  then have "\<not> f64_lt (snd (xs ! j)) (snd (xs ! i))" using sortable_less(1) [OF assms(2) n(2,1)] by simp
  then show "f64_key (snd (xs ! i)) \<le> f64_key (snd (xs ! j))" using n by (simp add: f64_lt_def)
qed

lemma score_prefixes:
  assumes "key_sorted enc xs" "order_preserving enc" "\<forall>x \<in> set xs. \<not> is_nan (snd x)"
  shows "prefix_closed (\<lambda>x. before_min sr (snd x)) xs" "prefix_closed (\<lambda>x. below_max sr (snd x)) xs"
  using score_order [OF assms]
  by (fastforce simp: prefix_closed_def before_min_def below_max_def f64_lt_def f64_le_def)+

lemma not_before_min: "range_is_valid sr \<Longrightarrow> \<not> is_nan s \<Longrightarrow> \<not> before_min sr s \<longleftrightarrow> above_min sr s"
  by (auto simp: range_is_valid_def before_min_def above_min_def f64_lt_def f64_le_def)

lemma range_filter:
  assumes "range_is_valid sr" "\<forall>x \<in> set xs. \<not> is_nan (snd x)"
  shows "filter (\<lambda>x. \<not> before_min sr (snd x) \<and> below_max sr (snd x)) xs = filter (\<lambda>x. range_contains sr (snd x)) xs"
  using assms not_before_min [OF assms(1)] by (intro filter_cong) (auto simp: range_contains_def)

lemma range_by_score_correct:
  assumes "implements enc sl xs" "order_preserving enc" "\<forall>x \<in> set xs. \<not> is_nan (snd x)"
  shows "range_by_score sl sr reverse offset count =
    Some (take count (drop offset ((if reverse then rev else id) (filter (\<lambda>x. range_contains sr (snd x)) xs))))"
proof -
  obtain as where R: "rep enc sl as" and xs: "xs = map (entry_of (sl_heap sl)) as"
    using assms(1) by (auto simp: implements_def)
  have len: "sl_length sl = length xs" using implements_length [OF assms(1)] .
  have sorted: "key_sorted enc xs" using rep_sorted [OF R] by (simp add: xs)
  note cl = score_prefixes [OF sorted assms(2,3), of sr]
  show ?thesis
  proof (cases "sl_length sl = 0 \<or> count = 0 \<or> \<not> range_is_valid sr")
    case True
    then show ?thesis using len by (auto simp: range_by_score_def range_contains_def)
  next
    case False
    then have v: "range_is_valid sr" and cnt: "0 < count" by auto
    note fil = range_filter [OF v assms(3)]
    show ?thesis
    proof (cases reverse)
      case up: False
      obtain us where "descend (sl_heap sl) (\<lambda>nd r. before_min sr (node_score nd)) (sl_level sl) (sl_header sl) 0 =
          Some ((sl_header sl # as) ! length (takeWhile (\<lambda>x. before_min sr (snd x)) xs),
            length (takeWhile (\<lambda>x. before_min sr (snd x)) xs), us)"
        using entry_search [OF R xs cl(1)] by auto
      then show ?thesis
        using False up collect_up [OF R xs cl cnt, of offset] unfolding fil by (simp add: range_by_score_def Let_def)
    next
      case down: True
      obtain us where us: "descend (sl_heap sl) (\<lambda>nd r. below_max sr (node_score nd)) (sl_level sl) (sl_header sl) 0 =
          Some ((sl_header sl # as) ! length (takeWhile (\<lambda>x. below_max sr (snd x)) xs),
            length (takeWhile (\<lambda>x. below_max sr (snd x)) xs), us)"
        using entry_search [OF R xs cl(2)] by auto
      let ?P = "\<lambda>x :: entry. \<not> above_min sr (snd x)"
      have same: "?P x \<longleftrightarrow> before_min sr (snd x)" if "x \<in> set xs" for x
        using not_before_min [OF v] assms(3) that by blast
      have "prefix_closed ?P xs"
        unfolding prefix_closed_def
      proof (intro allI impI)
        fix i j
        assume ij: "i < j \<and> j < length xs \<and> ?P (xs ! j)"
        then have "before_min sr (snd (xs ! j))" using same [of "xs ! j"] by simp
        then have "before_min sr (snd (xs ! i))" using cl(1) ij unfolding prefix_closed_def by blast
        then show "?P (xs ! i)" using same [of "xs ! i"] ij by simp
      qed
      from collect_down [OF R xs this cl(2) cnt, of offset]
      have "collect (sl_heap sl) (\<lambda>a. a = sl_header sl) (get_backward (sl_heap sl)) (\<lambda>x. above_min sr (snd x)) offset count
          (Some ((sl_header sl # as) ! length (takeWhile (\<lambda>x. below_max sr (snd x)) xs))) 0 [] =
        Some (take count (drop offset (rev (filter (\<lambda>x. range_contains sr (snd x)) xs))))"
        using same by (simp add: fil [symmetric] cong: filter_cong)
      then show ?thesis using False down us by (simp add: range_by_score_def Let_def)
    qed
  qed
qed

lemma count_by_score_correct:
  assumes "implements enc sl xs" "order_preserving enc" "\<forall>x \<in> set xs. \<not> is_nan (snd x)"
  shows "count_by_score sl sr = Some (length (filter (\<lambda>x. range_contains sr (snd x)) xs))"
proof -
  obtain as where R: "rep enc sl as" and xs: "xs = map (entry_of (sl_heap sl)) as"
    using assms(1) by (auto simp: implements_def)
  have len: "sl_length sl = length xs" using implements_length [OF assms(1)] .
  have sorted: "key_sorted enc xs" using rep_sorted [OF R] by (simp add: xs)
  note cl = score_prefixes [OF sorted assms(2,3), of sr]
  define c1 where "c1 = length (takeWhile (\<lambda>x. before_min sr (snd x)) xs)"
  define c2 where "c2 = length (takeWhile (\<lambda>x. below_max sr (snd x)) xs)"
  show ?thesis
  proof (cases "sl_length sl = 0 \<or> \<not> range_is_valid sr")
    case True
    then show ?thesis using len by (auto simp: count_by_score_def range_contains_def)
  next
    case False
    then have v: "range_is_valid sr" by simp
    have n: "length (filter (\<lambda>x. range_contains sr (snd x)) xs) = c2 - c1"
      unfolding range_filter [OF v assms(3), symmetric] c1_def c2_def by (rule range_count [OF cl])
    obtain us where us: "descend (sl_heap sl) (\<lambda>nd r. before_min sr (node_score nd)) (sl_level sl) (sl_header sl) 0 =
        Some ((sl_header sl # as) ! c1, c1, us)"
      using entry_search [OF R xs cl(1)] by (auto simp: c1_def)
    obtain us2 where us2: "descend (sl_heap sl) (\<lambda>nd r. below_max sr (node_score nd)) (sl_level sl) (sl_header sl) 0 =
        Some ((sl_header sl # as) ! c2, c2, us2)"
      using entry_search [OF R xs cl(2)] by (auto simp: c2_def)
    have c1: "c1 \<le> length as" "c2 \<le> length as"
      using length_takeWhile_le [of _ xs] by (auto simp: xs c1_def c2_def)
    have f: "forward (sl_heap sl) ((sl_header sl # as) ! c1) 0 = Some (if c1 < length as then Some (as ! c1) else None)"
      using forward_0 [OF repD(4,1) [OF R], of c1] c1(1) by (simp add: less_Suc_eq_le)
    show ?thesis
    proof (cases "c1 < length as")
      case True
      obtain nd where nd: "sl_heap sl (as ! c1) = Some nd" "entry_of (sl_heap sl) (as ! c1) = (node_member nd, node_score nd)"
        using entry_nth [OF R True] by blast
      have "below_max sr (node_score nd) \<longleftrightarrow> c1 < c2"
        using prefix_closed_iff [OF cl(2), of c1] True nd(2) by (simp add: xs c2_def)
      then show ?thesis using False us us2 f True nd(1) n Suc_diff_Suc [of c1 c2] by (simp add: count_by_score_def Let_def)
    next
      case none: False
      then show ?thesis using False us f n c1 by (simp add: count_by_score_def Let_def)
    qed
  qed
qed


section \<open>Member ranges\<close>

text \<open>Ranges by member are meant for sets in which all scores are equal; the entries are then sorted by member.\<close>

lemma lex_down:
  "x < y \<Longrightarrow> \<not> matches_min lo y \<Longrightarrow> \<not> matches_min lo x" "x < y \<Longrightarrow> matches_max hi y \<Longrightarrow> matches_max hi x"
  by (cases lo; auto) (cases hi; auto)

lemma lex_prefixes:
  assumes "sorted_wrt (\<lambda>x y. fst x < fst y) (xs :: entry list)"
  shows "prefix_closed (\<lambda>x. \<not> matches_min lo (fst x)) xs" "prefix_closed (\<lambda>x. matches_max hi (fst x)) xs"
  unfolding prefix_closed_def using sorted_wrt_nth_less [OF assms] lex_down by blast+

lemma nav_lex_ok:
  assumes R: "rep enc sl as" and xs: "xs = map (entry_of (sl_heap sl)) as"
    and P: "prefix_closed (\<lambda>x. if lt then fst x < b else fst x \<le> b) xs"
  shows "nav_lex sl b lt = Some ((sl_header sl # as) ! length (takeWhile (\<lambda>x. if lt then fst x < b else fst x \<le> b) xs),
    length (takeWhile (\<lambda>x. if lt then fst x < b else fst x \<le> b) xs))"
  using entry_search [OF R xs P] by (cases lt) (auto simp: nav_lex_def)


lemma takeWhile_never [simp]: "takeWhile (\<lambda>x. False) xs = []"
  by (cases xs) simp_all

lemma nav_min:
  assumes R: "rep enc sl as" and xs: "xs = map (entry_of (sl_heap sl)) as"
    and sorted: "sorted_wrt (\<lambda>x y. fst x < fst y) xs"
  defines "c \<equiv> \<lambda>bd. length (takeWhile (\<lambda>x. \<not> matches_min bd (fst x)) xs)"
  shows "nav_lex sl b True = Some ((sl_header sl # as) ! c (Included b), c (Included b))"
    and "nav_lex sl b False = Some ((sl_header sl # as) ! c (Excluded b), c (Excluded b))"
  using nav_lex_ok [OF R xs, of True b] nav_lex_ok [OF R xs, of False b]
    lex_prefixes(1) [OF sorted, of "Included b"] lex_prefixes(1) [OF sorted, of "Excluded b"]
  by (simp_all add: c_def not_le not_less)

lemma nav_max:
  assumes R: "rep enc sl as" and xs: "xs = map (entry_of (sl_heap sl)) as"
    and sorted: "sorted_wrt (\<lambda>x y. fst x < fst y) xs"
  defines "c \<equiv> \<lambda>bd. length (takeWhile (\<lambda>x. matches_max bd (fst x)) xs)"
  shows "nav_lex sl b False = Some ((sl_header sl # as) ! c (Included b), c (Included b))"
    and "nav_lex sl b True = Some ((sl_header sl # as) ! c (Excluded b), c (Excluded b))"
  using nav_lex_ok [OF R xs, of True b] nav_lex_ok [OF R xs, of False b]
    lex_prefixes(2) [OF sorted, of "Included b"] lex_prefixes(2) [OF sorted, of "Excluded b"]
  by (simp_all add: c_def)

lemma lower_bound_ok:
  assumes R: "rep enc sl as" and xs: "xs = map (entry_of (sl_heap sl)) as"
    and sorted: "sorted_wrt (\<lambda>x y. fst x < fst y) xs" and "lo \<noteq> Pos_Inf"
  shows "lower_bound sl lo =
    forward (sl_heap sl) ((sl_header sl # as) ! length (takeWhile (\<lambda>x. \<not> matches_min lo (fst x)) xs)) 0"
  using nav_min [OF R xs sorted] assms(4) by (cases lo) (simp_all add: lower_bound_def)

lemma upper_bound_ok:
  fixes hi :: lex_bound
  assumes R: "rep enc sl as" and xs: "xs = map (entry_of (sl_heap sl)) as"
    and sorted: "sorted_wrt (\<lambda>x y. fst x < fst y) xs" and "as \<noteq> []"
  defines "c \<equiv> length (takeWhile (\<lambda>x. matches_max hi (fst x)) xs)"
  shows "upper_bound sl hi = Some (if c = 0 then None else Some ((sl_header sl # as) ! c))"
proof -
  have "c \<le> length as" using length_takeWhile_le [of _ xs] by (simp add: c_def xs)
  then have hd: "(sl_header sl # as) ! c = sl_header sl \<longleftrightarrow> c = 0"
    using header_fresh [OF R, of "c - 1"] by (cases c) auto
  show ?thesis
  proof (cases hi)
    case Pos_Inf
    then have "c = length as" by (simp add: c_def xs takeWhile_eq_all_conv [THEN iffD2])
    then show ?thesis using Pos_Inf repD(7) [OF R] assms(4) by (cases c) (auto simp: upper_bound_def last_conv_nth)
  next
    case Neg_Inf
    then have "c = 0" by (cases xs) (simp_all add: c_def)
    then show ?thesis using Neg_Inf by (simp add: upper_bound_def)
  qed (use nav_max [OF R xs sorted] hd in \<open>simp_all add: upper_bound_def c_def\<close>)
qed

lemma range_by_lex_correct:
  assumes "implements enc sl xs" "sorted_wrt (\<lambda>x y. fst x < fst y) xs"
  shows "range_by_lex sl lo hi reverse offset count =
    Some (take count (drop offset ((if reverse then rev else id) (filter (\<lambda>x. matches_min lo (fst x) \<and> matches_max hi (fst x)) xs))))"
proof -
  obtain as where R: "rep enc sl as" and xs: "xs = map (entry_of (sl_heap sl)) as"
    using assms(1) by (auto simp: implements_def)
  have len: "sl_length sl = length xs" using implements_length [OF assms(1)] .
  note cl = lex_prefixes [OF assms(2)]
  show ?thesis
  proof (cases "sl_length sl = 0 \<or> count = 0")
    case True
    then show ?thesis using len by (auto simp: range_by_lex_def)
  next
    case False
    then have cnt: "0 < count" and as: "as \<noteq> []" using len by (auto simp: xs)
    show ?thesis
    proof (cases reverse)
      case up: False
      show ?thesis
      proof (cases "lo = Pos_Inf")
        case True
        then show ?thesis using False up by (simp add: range_by_lex_def lower_bound_def collect.simps)
      next
        case lo: False
        show ?thesis
          using False up lower_bound_ok [OF R xs assms(2) lo] collect_up [OF R xs cl cnt, where offset = offset]
          by (simp add: range_by_lex_def Let_def)
      qed
    next
      case down: True
      let ?c = "length (takeWhile (\<lambda>x. matches_max hi (fst x)) xs)"
      have col: "collect (sl_heap sl) (\<lambda>a. a = sl_header sl) (get_backward (sl_heap sl)) (\<lambda>x. matches_min lo (fst x)) offset count
          (Some ((sl_header sl # as) ! ?c)) 0 [] =
        Some (take count (drop offset (rev (filter (\<lambda>x. matches_min lo (fst x) \<and> matches_max hi (fst x)) xs))))"
        using collect_down [OF R xs cl cnt, where offset = offset] by simp
      have "collect (sl_heap sl) (\<lambda>a. a = sl_header sl) (get_backward (sl_heap sl)) (\<lambda>x. matches_min lo (fst x)) offset count
          (if ?c = 0 then None else Some ((sl_header sl # as) ! ?c)) 0 [] =
        Some (take count (drop offset (rev (filter (\<lambda>x. matches_min lo (fst x) \<and> matches_max hi (fst x)) xs))))"
      proof (cases "?c = 0")
        case True
        then have "collect (sl_heap sl) (\<lambda>a. a = sl_header sl) (get_backward (sl_heap sl)) (\<lambda>x. matches_min lo (fst x)) offset count
          (Some ((sl_header sl # as) ! ?c)) 0 [] = Some []" by (subst collect.simps) simp
        then show ?thesis using True col by (simp add: collect.simps)
      qed (use col in simp)
      then show ?thesis
        using False down upper_bound_ok [OF R xs assms(2) as, of hi] by (simp add: range_by_lex_def Let_def)
    qed
  qed
qed

lemma count_by_lex_correct:
  assumes "implements enc sl xs" "sorted_wrt (\<lambda>x y. fst x < fst y) xs"
  shows "count_by_lex sl lo hi = Some (length (filter (\<lambda>x. matches_min lo (fst x) \<and> matches_max hi (fst x)) xs))"
proof -
  obtain as where R: "rep enc sl as" and xs: "xs = map (entry_of (sl_heap sl)) as"
    using assms(1) by (auto simp: implements_def)
  have len: "sl_length sl = length xs" using implements_length [OF assms(1)] .
  note cl = lex_prefixes [OF assms(2)]
  define c1 where "c1 = length (takeWhile (\<lambda>x. \<not> matches_min lo (fst x)) xs)"
  define c2 where "c2 = length (takeWhile (\<lambda>x. matches_max hi (fst x)) xs)"
  have n: "length (filter (\<lambda>x. matches_min lo (fst x) \<and> matches_max hi (fst x)) xs) = c2 - c1"
    unfolding c1_def c2_def using range_count [OF cl, of lo hi] by simp
  show ?thesis
  proof (cases "sl_length sl = 0 \<or> lo = Pos_Inf")
    case True
    then show ?thesis using len by (auto simp: count_by_lex_def)
  next
    case False
    have start: "(case lo of Included b \<Rightarrow> nav_lex sl b True | Excluded b \<Rightarrow> nav_lex sl b False
        | _ \<Rightarrow> Some (sl_header sl, 0)) = Some ((sl_header sl # as) ! c1, c1)"
      using False nav_min [OF R xs assms(2)] by (cases lo) (simp_all add: c1_def)
    have c1: "c1 \<le> length as" "c2 \<le> length as"
      using length_takeWhile_le [of _ xs] by (auto simp: xs c1_def c2_def)
    have f: "forward (sl_heap sl) ((sl_header sl # as) ! c1) 0 = Some (if c1 < length as then Some (as ! c1) else None)"
      using forward_0 [OF repD(4,1) [OF R], of c1] c1(1) by (simp add: less_Suc_eq_le)
    show ?thesis
    proof (cases "c1 < length as")
      case True
      obtain nd where nd: "sl_heap sl (as ! c1) = Some nd" "entry_of (sl_heap sl) (as ! c1) = (node_member nd, node_score nd)"
        using entry_nth [OF R True] by blast
      have first: "matches_max hi (node_member nd) \<longleftrightarrow> c1 < c2"
        using prefix_closed_iff [OF cl(2), of c1 hi] True nd(2) by (simp add: xs c2_def)
      have stop: "(case hi of Neg_Inf \<Rightarrow> Some 0 | Pos_Inf \<Rightarrow> Some (sl_length sl - c1)
          | Included b \<Rightarrow> do { (_, last_rank) \<leftarrow> nav_lex sl b False; Some (last_rank - c1) }
          | Excluded b \<Rightarrow> do { (_, last_rank) \<leftarrow> nav_lex sl b True; Some (last_rank - c1) }) = Some (c2 - c1)"
      proof (cases hi)
        case Neg_Inf
        then have "c2 = 0" by (cases xs) (simp_all add: c2_def)
        then show ?thesis using Neg_Inf by simp
      next
        case Pos_Inf
        then have "c2 = length xs" by (simp add: c2_def takeWhile_eq_all_conv [THEN iffD2])
        then show ?thesis using Pos_Inf len by simp
      qed (use nav_max [OF R xs assms(2)] in \<open>simp_all add: c2_def\<close>)
      show ?thesis
        using False start f True nd(1) first stop n by (simp add: count_by_lex_def)
    next
      case none: False
      then show ?thesis using False start f n c1 by (simp add: count_by_lex_def)
    qed
  qed
qed

end
