(* ===== verification/Zset_Run.thy ===== *)
theory Zset_Run
  imports Zset_Query
begin

text \<open>
  Whole runs of the skip list: from the empty list every sequence of insertions, deletions and
  pops behaves as on a sorted list of entries, the queries answer from that list, and dropping
  the skip list frees every node once.
\<close>

section \<open>Release\<close>

lemma drop_nodes_ok:
  assumes R: "rep enc sl as"
  shows "j \<le> length as \<Longrightarrow>
    drop_nodes (sl_heap sl |` (- set (take j as))) (if j < length as then Some (as ! j) else None) =
      Some (sl_heap sl |` (- set as))"
proof (induction "length as - j" arbitrary: j)
  case 0
  then show ?case by (simp add: drop_nodes.simps)
next
  case (Suc n)
  let ?h = "sl_heap sl |` (- set (take j as))"
  have j: "j < length as" using Suc by simp
  have "as ! j \<notin> set (take j as)"
    using j nodes_okD(2) [OF repD(1) [OF R]] by (auto simp: in_set_conv_nth nth_eq_iff_index_eq)
  moreover have "forward (sl_heap sl) (as ! j) 0 = Some (if Suc j < length as then Some (as ! Suc j) else None)"
    using forward_0 [OF repD(4,1) [OF R], of "Suc j"] j by simp
  moreover have "lk ?h (as ! j, 0) = lk (sl_heap sl) (as ! j, 0)" if "as ! j \<notin> set (take j as)"
    using that by (simp add: lk_def restrict_map_def)
  ultimately have f: "forward ?h (as ! j) 0 = Some (if Suc j < length as then Some (as ! Suc j) else None)"
    by (simp add: forward_def)
  have "?h(as ! j := None) = sl_heap sl |` (- set (take (Suc j) as))"
    using j by (auto simp: take_Suc_conv_app_nth restrict_map_def fun_eq_iff)
  then show ?case
    using Suc(1) [of "Suc j"] Suc(2) j f by (subst drop_nodes.simps) simp
qed

lemma drop_implements:
  assumes "implements enc sl xs"
  shows "skiplist_drop sl = Some Map.empty"
proof -
  obtain as where R: "rep enc sl as" using assms by (auto simp: implements_def)
  note ok = nodes_okD [OF repD(1) [OF R]]
  have f: "forward (sl_heap sl) (sl_header sl) 0 = Some (if 0 < length as then Some (as ! 0) else None)"
    using forward_0 [OF repD(4,1) [OF R], of 0] by simp
  have d: "drop_nodes (sl_heap sl) (if 0 < length as then Some (as ! 0) else None) = Some (sl_heap sl |` (- set as))"
    using drop_nodes_ok [OF R, of 0] by (simp add: restrict_map_def)
  have h: "sl_header sl \<notin> set as" "sl_header sl \<in> dom (sl_heap sl)" using ok(2,3) by auto
  have "(sl_heap sl |` (- set as))(sl_header sl := None) = Map.empty"
    using ok(3) by (auto simp: restrict_map_def fun_eq_iff)
  then show ?thesis using f d h by (auto simp: skiplist_drop_def restrict_map_def)
qed

section \<open>Runs\<close>

datatype op = Op_Insert f64 bytes | Op_Delete f64 bytes | Op_Pop_First | Op_Pop_Last

fun exec_op :: "(f64 \<Rightarrow> bytes) \<Rightarrow> (nat \<Rightarrow> bool) \<Rightarrow> skiplist \<Rightarrow> op \<Rightarrow> (skiplist \<times> entry option) option" where
  "exec_op enc draw sl (Op_Insert score member) = map_option (\<lambda>sl. (sl, None)) (skiplist_insert enc draw sl score member)"
| "exec_op enc draw sl (Op_Delete score member) = delete_entry enc sl score member"
| "exec_op enc draw sl Op_Pop_First = pop_first sl"
| "exec_op enc draw sl Op_Pop_Last = pop_last enc sl"

fun spec_op :: "(f64 \<Rightarrow> bytes) \<Rightarrow> entry list \<Rightarrow> op \<Rightarrow> entry list \<times> entry option" where
  "spec_op enc xs (Op_Insert score member) = (spec_insert enc (member, score) xs, None)"
| "spec_op enc xs (Op_Delete score member) =
     (spec_delete enc (member, score) xs, find (\<lambda>x. entry_key enc x = entry_key enc (member, score)) xs)"
| "spec_op enc xs Op_Pop_First = (tl xs, if xs = [] then None else Some (hd xs))"
| "spec_op enc xs Op_Pop_Last = (butlast xs, if xs = [] then None else Some (last xs))"

fun op_ok :: "(f64 \<Rightarrow> bytes) \<Rightarrow> entry list \<Rightarrow> op \<Rightarrow> bool" where
  "op_ok enc xs (Op_Insert score member) \<longleftrightarrow> entry_key enc (member, score) \<notin> entry_key enc ` set xs"
| "op_ok enc xs _ \<longleftrightarrow> True"

fun run_ops :: "(f64 \<Rightarrow> bytes) \<Rightarrow> (nat \<Rightarrow> bool) \<Rightarrow> skiplist \<Rightarrow> op list \<Rightarrow> (skiplist \<times> entry option list) option" where
  "run_ops enc draw sl [] = Some (sl, [])"
| "run_ops enc draw sl (x # ops) =
     do { (sl, out) \<leftarrow> exec_op enc draw sl x;
          (sl, outs) \<leftarrow> run_ops enc draw sl ops;
          Some (sl, out # outs) }"

fun spec_run :: "(f64 \<Rightarrow> bytes) \<Rightarrow> entry list \<Rightarrow> op list \<Rightarrow> entry list \<times> entry option list" where
  "spec_run enc xs [] = (xs, [])"
| "spec_run enc xs (x # ops) =
     (case spec_op enc xs x of (ys, out) \<Rightarrow> case spec_run enc ys ops of (zs, outs) \<Rightarrow> (zs, out # outs))"

fun ops_ok :: "(f64 \<Rightarrow> bytes) \<Rightarrow> entry list \<Rightarrow> op list \<Rightarrow> bool" where
  "ops_ok enc xs [] \<longleftrightarrow> True"
| "ops_ok enc xs (x # ops) \<longleftrightarrow> op_ok enc xs x \<and> ops_ok enc (fst (spec_op enc xs x)) ops"

lemma exec_op_implements:
  assumes "implements enc sl xs" "op_ok enc xs x"
  shows "\<exists>sl'. exec_op enc draw sl x = Some (sl', snd (spec_op enc xs x)) \<and> implements enc sl' (fst (spec_op enc xs x))"
proof (cases x)
  case (Op_Insert score member)
  then show ?thesis using insert_implements [OF assms(1), of member score draw] assms(2) by auto
next
  case (Op_Delete score member)
  then show ?thesis using delete_implements [OF assms(1), of score member] by simp
qed (use pop_first_implements [OF assms(1)] pop_last_implements [OF assms(1)] in simp_all)

lemma run_implements:
  "implements enc sl xs \<Longrightarrow> ops_ok enc xs ops \<Longrightarrow>
    \<exists>sl'. run_ops enc draw sl ops = Some (sl', snd (spec_run enc xs ops)) \<and> implements enc sl' (fst (spec_run enc xs ops))"
proof (induction ops arbitrary: sl xs)
  case (Cons x ops)
  then have ok: "op_ok enc xs x" "ops_ok enc (fst (spec_op enc xs x)) ops" by simp_all
  from exec_op_implements [OF Cons(2) ok(1)] obtain sl1
    where 1: "exec_op enc draw sl x = Some (sl1, snd (spec_op enc xs x))" "implements enc sl1 (fst (spec_op enc xs x))" by blast
  show ?case using Cons(1) [OF 1(2) ok(2)] 1(1) by (auto split: prod.splits)
qed simp

lemma run_from_new:
  assumes "ops_ok enc [] ops" "run_ops enc draw (skiplist_new enc) ops = Some (sl, outs)"
  shows "implements enc sl (fst (spec_run enc [] ops))"
  using run_implements [OF new_implements assms(1), of draw] assms(2) by auto

lemma implements_sorted: "implements enc sl xs \<Longrightarrow> key_sorted enc xs"
  using rep_sorted by (auto simp: implements_def)

lemma smaller_keys:
  assumes "key_sorted enc xs" "j < length xs"
  shows "length (filter (\<lambda>x. entry_key enc x < entry_key enc (xs ! j)) xs) = j"
proof -
  have "{i. i < length xs \<and> entry_key enc (xs ! i) < entry_key enc (xs ! j)} = {..<j}"
    using assms sorted_wrt_nth_less [OF assms(1)] by (auto intro: ccontr) (metis less_asym not_less_iff_gr_or_eq)
  then show ?thesis by (simp add: length_filter_conv_card)
qed

lemma same_score_sorted:
  assumes "key_sorted enc xs" "\<forall>x \<in> set xs. snd x = s"
  shows "sorted_wrt (\<lambda>x y. fst x < fst y) xs"
  using assms(1) by (rule sorted_wrt_mono_rel [rotated]) (use assms(2) in \<open>auto simp: entry_key_def\<close>)


section \<open>A concrete run\<close>

text \<open>Six operations with the order-preserving encoding \<open>key_image\<close>; the scores are 2.0 and 1.0.\<close>

definition demo_ops :: "op list" where
  "demo_ops = [Op_Insert 0x4000000000000000 [98], Op_Insert 0x3FF0000000000000 [97], Op_Insert 0x4000000000000000 [97],
     Op_Insert 0x4000000000000000 [99], Op_Pop_First, Op_Delete 0x4000000000000000 [99]]"

lemma demo_keys:
  "encode_sortable_f64 key_image 0x4000000000000000 = [192, 0, 0, 0, 0, 0, 0, 0]"
  "encode_sortable_f64 key_image 0x3FF0000000000000 = [191, 240, 0, 0, 0, 0, 0, 0]"
  by code_simp+

lemma demo_run:
  "ops_ok key_image [] demo_ops"
  "spec_run key_image [] demo_ops =
     ([([97], 0x4000000000000000), ([98], 0x4000000000000000)],
      [None, None, None, None, Some ([97], 0x3FF0000000000000), Some ([99], 0x4000000000000000)])"
  by (simp_all add: demo_ops_def spec_insert_def spec_delete_def entry_key_def demo_keys)
lemma demo_scores:
  "\<not> is_nan 0x4000000000000000"
  "range_contains \<lparr>range_min = 0x3FF0000000000000, min_inclusive = True, range_max = 0x4000000000000000, max_inclusive = True\<rparr> 0x4000000000000000"
  by code_simp+

lemma demo_exists:
  "\<exists>sl. run_ops key_image even (skiplist_new key_image) demo_ops =
    Some (sl, [None, None, None, None, Some ([97], 0x3FF0000000000000), Some ([99], 0x4000000000000000)])"
  using run_implements [OF new_implements demo_run(1), of even] by (auto simp: demo_run(2))

section \<open>Properties\<close>

text \<open>
  C3: From an empty skip list, every sequence of insertions of new keys, deletions and pops runs
  to its end without touching a freed node, a level out of range or a negative span; each
  operation returns what it would return on a list of entries sorted by encoded score and member,
  and afterwards the iterator yields exactly that list, whatever levels were drawn.
\<close>

theorem skiplist_refines_sorted_list:
  assumes "ops_ok enc [] ops"
  shows "\<exists>sl. run_ops enc draw (skiplist_new enc) ops = Some (sl, snd (spec_run enc [] ops)) \<and>
    skiplist_iter sl = Some (fst (spec_run enc [] ops)) \<and> sl_length sl = length (fst (spec_run enc [] ops)) \<and>
    key_sorted enc (fst (spec_run enc [] ops))"
  using run_implements [OF new_implements assms, of draw] iter_correct implements_length implements_sorted by blast

theorem skiplist_refines_sorted_list_witness:
  "ops_ok key_image [] demo_ops \<and>
   (\<exists>sl. run_ops key_image even (skiplist_new key_image) demo_ops =
      Some (sl, [None, None, None, None, Some ([97], 0x3FF0000000000000), Some ([99], 0x4000000000000000)]) \<and>
    skiplist_iter sl = Some [([97], 0x4000000000000000), ([98], 0x4000000000000000)] \<and> sl_length sl = 2)"
  using skiplist_refines_sorted_list [OF demo_run(1), of even] demo_run(1) by (auto simp: demo_run(2))

text \<open>
  C14: After such a run \<open>get_rank\<close> is the number of entries with a smaller key, \<open>get_by_rank\<close> is
  its inverse, and \<open>range_by_rank\<close> is the slice of the sorted list, or of its reverse.
\<close>

theorem skiplist_ranks_correct:
  assumes "ops_ok enc [] ops" "run_ops enc draw (skiplist_new enc) ops = Some (sl, outs)"
    "xs = fst (spec_run enc [] ops)"
  shows "get_by_rank sl rank = Some (if rank < length xs then Some (xs ! rank) else None) \<and>
    (rank < length xs \<longrightarrow> get_rank enc sl (snd (xs ! rank)) (fst (xs ! rank)) = Some (Some rank)) \<and>
    (entry_key enc (member, score) \<notin> entry_key enc ` set xs \<longrightarrow> get_rank enc sl score member = Some None) \<and>
    range_by_rank sl start stop reverse = Some (take (Suc stop - start) (drop start (if reverse then rev xs else xs)))"
proof -
  have I: "implements enc sl xs" using run_from_new [OF assms(1,2)] assms(3) by simp
  have "get_rank enc sl (snd (xs ! rank)) (fst (xs ! rank)) = Some (Some rank)" if "rank < length xs"
    using get_rank_correct [OF I, of "snd (xs ! rank)" "fst (xs ! rank)"] that smaller_keys [OF implements_sorted [OF I] that]
    by (simp only: prod.collapse) (simp add: imageI)
  then show ?thesis
    using get_by_rank_correct [OF I, of rank] get_rank_correct [OF I, of score member]
      range_by_rank_correct [OF I, of start stop reverse] by simp
qed

theorem skiplist_ranks_correct_witness:
  "\<exists>sl outs. ops_ok key_image [] demo_ops \<and> run_ops key_image even (skiplist_new key_image) demo_ops = Some (sl, outs) \<and>
    get_by_rank sl 1 = Some (Some ([98], 0x4000000000000000)) \<and>
    get_rank key_image sl 0x4000000000000000 [98] = Some (Some 1) \<and>
    get_rank key_image sl 0x3FF0000000000000 [97] = Some None \<and>
    range_by_rank sl 0 0 True = Some [([98], 0x4000000000000000)]"
proof -
  obtain sl outs where run: "run_ops key_image even (skiplist_new key_image) demo_ops = Some (sl, outs)"
    using demo_exists by blast
  show ?thesis
    using skiplist_ranks_correct [OF demo_run(1) run refl, of 1 "[97]" "0x3FF0000000000000" 0 0 True] run demo_run(1)
    by (auto simp: demo_run(2) entry_key_def demo_keys)
qed



text \<open>
  C25: Dropping a skip list after such a run frees every node, the header included, exactly once:
  the heap it leaves is empty and no freed node is read.
\<close>

theorem skiplist_drop_frees:
  assumes "ops_ok enc [] ops" "run_ops enc draw (skiplist_new enc) ops = Some (sl, outs)"
  shows "skiplist_drop sl = Some Map.empty"
  using run_from_new [OF assms] by (rule drop_implements)

theorem skiplist_drop_frees_witness:
  "\<exists>sl outs. ops_ok key_image [] demo_ops \<and> run_ops key_image even (skiplist_new key_image) demo_ops = Some (sl, outs) \<and>
    skiplist_drop sl = Some Map.empty"
  using skiplist_drop_frees [OF demo_run(1)] demo_exists demo_run(1) by blast

end
