(* ===== verification/Spec2Isabelle.thy ===== *)
theory Spec2Isabelle
  imports Cluster_Manager Cluster_Codec Cluster_Report Txn_Manager Repl_Handshake Pubsub_Glob Zset_Run
begin

text \<open>
  This library models the parts of the wedb server under \<open>src/\<close> that decide something:
  who owns a hash slot, which command a name denotes, which transactions may commit, which bytes
  a replica receives, whether a channel matches a pattern, which rank a member has.  Input and output, the asynchronous
  runtime and the storage engine stay outside.

  \<^bold>\<open>How the parts interact.\<close>  A client's command name goes through the lookup tables of
  \<open>wedb_resp\<close>; in cluster mode \<open>wedb_cluster\<close> routes the keys to a node; \<open>wedb_txn\<close> queues, locks
  and validates the commands of a transaction; \<open>wedb_repl\<close> sends the writes to the replicas;
  \<open>wedb_pubsub\<close> distributes messages; \<open>wedb_zset\<close> keeps the sorted sets.  The nodes keep their configurations in step by gossip.

  \<^bold>\<open>Conventions.\<close>  Integers of the code are words of their width where they wrap or are taken
  apart, and \<open>nat\<close> with the 64-bit checks written out where they count; \<open>i64\<close> is \<open>int\<close> with
  \<open>i64_wrap\<close>; byte slices are lists of 8-bit words; a \<open>Result\<close> is a sum with the error on the
  left.  Every mutating operation takes its state and returns the new one.  Code of packages that
  are not under \<open>src/\<close> (key hashes, bitcode, random numbers, clocks, the CRC instruction, the
  sort of the standard library's unstable kind) appears as a parameter; where a theorem needs its
  documented behaviour, this is a named hypothesis and a witness instantiates it.

  \<^bold>\<open>Theories.\<close>
  \<^item> \<open>Wedb_Prelude\<close>, \<open>Wedb_Bytes\<close>: lists, options, machine integers, byte strings, decimal numbers
    and UTF-8; the locale \<open>invariant_system\<close> for state machines with an invariant.
  \<^item> \<open>Cluster_Slot\<close>, \<open>Cluster_Node\<close>, \<open>Cluster_Bitmap\<close> (\<open>slot.rs\<close>, \<open>node.rs\<close>, \<open>worker.rs\<close>,
    \<open>error.rs\<close>): slot states, the CRC-16 of a key, node records, the slot bitmap.  The table-driven
    CRC equals the bitwise one; the extracted ranges are exactly the maximal runs of the bitmap.
    The locale \<open>slot_set\<close> is the bitmap's interface.
  \<^item> \<open>Cluster_Config\<close>, \<open>Cluster_Merge\<close>, \<open>Cluster_Route\<close> (\<open>config.rs\<close>, \<open>protocol.rs\<close>): the
    configuration with every lookup and update, the merging of another node's claims, routing.
    Removing a node keeps every other owner; merging takes exactly the claims with a larger epoch
    and two nodes that exchange claims agree; a request is served, moved or asked as its slot's
    state says.
  \<^item> \<open>Cluster_Gossip\<close>, \<open>Cluster_Manager\<close>, \<open>Cluster_Codec\<close>, \<open>Cluster_Report\<close> (\<open>gossip.rs\<close>,
    \<open>manager.rs\<close>, \<open>migration.rs\<close>, \<open>config.rs\<close>): packets, failure votes, the manager as a step
    relation, the payload format, the CLUSTER replies.  Every reachable manager state is well
    formed; a packet never harms the local node's own record; the payload format round-trips.
  \<^item> \<open>Resp_Command\<close>, \<open>Resp_Lookup\<close> (\<open>cmd.rs\<close>, \<open>cmd_hash.rs\<close>): the command list with its
    classification and the hash tables; a lookup finds exactly the commands of the definition
    tables, for every choice of the CRC instruction under which the tables are built.
  \<^item> \<open>Txn_Locks\<close>, \<open>Txn_Watch\<close>, \<open>Txn_Command\<close>, \<open>Txn_Manager\<close> (\<open>wedb_txn\<close>): lock sets, versions,
    queued commands, and MULTI/EXEC/WATCH as a step relation.  EXEC runs all commands or none,
    a commit invalidates the other watchers, ordered lock sets cannot deadlock.
  \<^item> \<open>Repl_Backlog\<close>, \<open>Repl_History\<close>, \<open>Repl_Manager\<close>, \<open>Repl_Protocol\<close>, \<open>Repl_Handshake\<close>
    (\<open>wedb_repl\<close>): the ring buffer refines the stream of all bytes (locale \<open>stream_window\<close>), the
    double-id history with its file, the manager with its replica sessions, the wire commands and
    the handshake driver.  A replica that is continued has only bytes of the primary's stream;
    the file survives a crash at any point; the handshake completes with a correct primary.
  \<^item> \<open>Pubsub_Glob\<close> (\<open>glob.rs\<close>): the glob matcher; it returns on every input and decides the
    language of the pattern.
  \<^item> \<open>Zset_Float\<close>, \<open>Zset_Skiplist\<close> (\<open>skiplist.rs\<close>, and of \<open>zset.rs\<close> the score encoding and the
    member bounds): scores as binary64 words and the skip list on an explicit heap of nodes, where
    \<open>None\<close> is a dangling pointer, an index out of range, a negative span or a loop without end.
    \<open>Zset_Shape\<close> holds the invariant \<open>rep\<close> (links lead to the next node tall enough, a span is a
    difference of ranks), \<open>Zset_Refine\<close> that insertion and deletion keep it and implement a sorted
    list of entries, \<open>Zset_Query\<close> the same of the pops and the answers of all queries, and
    \<open>Zset_Run\<close> the results for whole runs: no run fails, every answer is that of the sorted list,
    and dropping the list frees each node once.  Inserting a key that is present is excluded, as
    the sorted-set object removes the old entry first.

  \<^bold>\<open>Loops and bounds.\<close>  Loops over lists and counters are structural or carry a measure.  The
  glob loop, which goes back to the last star, is a partial function and is shown to return;
  so are the walks of the skip list, which end because each step moves to a larger rank.  The drawn
  levels are arbitrary, at most \<open>MAX_LEVEL\<close>.  The
  lookup tables are probed at most once around, as in the code.  The handshake is
  driven by the lines the connection delivers.

  \<^bold>\<open>Not modelled.\<close>  The dispatcher, the sessions, the network layer and the server's start-up
  are calls into the asynchronous runtime; the commands of \<open>wedb_redis\<close> act on the external
  storage engine; the readers and writers of RESP frames are pointer arithmetic on receive
  buffers, and the bitmap kernels are SIMD intrinsics; the sorted-set object around the skip list, the
  containers of lists, hashes, sets and HyperLogLog, the access control lists and the blocking broker are left for later; Lua, modules,
  vectors and the benchmark driver wrap external code.
\<close>

end
